(* ===== verification/Prelude.thy ===== *)
theory Prelude
  imports Main "HOL-Library.Word" "HOL-Library.AList" "HOL-Library.Sublist"
    "HOL-Library.Char_ord" "HOL-Library.List_Lexorder"
begin

text \<open>
  What the components share: the names of the machine integer types, Rust's saturating
  arithmetic on them, durations, association lists standing for hash maps, text helpers of the
  Rust standard library, and the locale of a machine with an invariant.

  Conventions of the development. A Rust \<open>u64\<close>, \<open>u32\<close>, \<open>u16\<close> or \<open>u8\<close> whose arithmetic can
  overflow is a word of that width. A \<open>usize\<close> that counts elements or estimated tokens is a
  \<open>nat\<close>, with saturation at \<open>usize_max\<close> written out where the code saturates. A \<open>Duration\<close>
  is its number of nanoseconds, saturating at \<open>duration_max\<close>. A \<open>String\<close> is its list of bytes.
  A \<open>HashMap\<close> is an association list with distinct keys: its order stands for the map's
  unspecified iteration order, and no property depends on it.
\<close>

section \<open>Machine integers\<close>

type_synonym u8 = "8 word"
type_synonym u16 = "16 word"
type_synonym u32 = "32 word"
type_synonym u64 = "64 word"
type_synonym i64 = "64 word"
type_synonym usize = nat

named_theorems sat_simps "saturating arithmetic read through unat"

definition sat_add :: "'a::len word \<Rightarrow> 'a word \<Rightarrow> 'a word" where
  "sat_add a b = (if unat a + unat b < 2 ^ LENGTH('a) then a + b else - 1)"

definition sat_sub :: "'a::len word \<Rightarrow> 'a word \<Rightarrow> 'a word" where
  "sat_sub a b = (if b \<le> a then a - b else 0)"

definition sat_mul :: "'a::len word \<Rightarrow> 'a word \<Rightarrow> 'a word" where
  "sat_mul a b = (if unat a * unat b < 2 ^ LENGTH('a) then a * b else - 1)"

lemma unat_minus_one_max [sat_simps]: "unat (- 1 :: 'a::len word) = 2 ^ LENGTH('a) - 1"
  by (simp add: unsigned_minus_1_eq_mask mask_eq_exp_minus_1)

lemma unat_le_max: "unat (a :: 'a::len word) \<le> 2 ^ LENGTH('a) - 1"
  using unsigned_less [of a, where ?'a = nat] by linarith

lemma unat_sat_add [sat_simps]:
  "unat (sat_add a b) = min (unat a + unat b) (2 ^ LENGTH('a) - 1)" for a b :: "'a::len word"
proof (cases "unat a + unat b < 2 ^ LENGTH('a)")
  case True
  then show ?thesis by (simp add: sat_add_def unat_word_ariths)
next
  case False
  then show ?thesis by (simp add: sat_add_def unat_minus_one_max)
qed

lemma unat_sat_sub [sat_simps]: "unat (sat_sub a b) = unat a - unat b" for a b :: "'a::len word"
  by (simp add: sat_sub_def word_le_nat_alt unat_sub)

lemma unat_sat_mul [sat_simps]:
  "unat (sat_mul a b) = min (unat a * unat b) (2 ^ LENGTH('a) - 1)" for a b :: "'a::len word"
proof (cases "unat a * unat b < 2 ^ LENGTH('a)")
  case True
  then show ?thesis by (simp add: sat_mul_def unat_word_ariths)
next
  case False
  then show ?thesis by (simp add: sat_mul_def unat_minus_one_max)
qed

lemma uint_sat_add:
  "uint (sat_add a b) = min (uint a + uint b) (2 ^ LENGTH('a) - 1)" for a b :: "'a::len word"
proof -
  have "uint (sat_add a b) = int (unat (sat_add a b))" by simp
  also have "\<dots> = min (uint a + uint b) (2 ^ LENGTH('a) - 1)"
    by (simp only: unat_sat_add of_nat_min of_nat_add of_nat_diff one_le_power one_le_numeral
        of_nat_power of_nat_numeral of_nat_1 uint_nat [symmetric])
  finally show ?thesis .
qed

lemma uint_sat_sub: "uint (sat_sub a b) = max 0 (uint a - uint b)" for a b :: "'a::len word"
  by (simp add: sat_sub_def word_le_def uint_sub_if')

lemma sat_add_ge: "a \<le> sat_add a b" "b \<le> sat_add a b" for a b :: "'a::len word"
  using unat_le_max [of a] unat_le_max [of b] by (simp_all add: word_le_nat_alt sat_simps)

lemma sat_add_mono: "a \<le> a' \<Longrightarrow> b \<le> b' \<Longrightarrow> sat_add a b \<le> sat_add a' b'"
  for a b :: "'a::len word"
  by (auto simp: word_le_nat_alt sat_simps min_def)

lemma sat_add_0 [simp]: "sat_add a 0 = a" "sat_add 0 a = a" for a :: "'a::len word"
  by (simp_all add: sat_add_def)

lemma unat_eqI: "unat a = unat b \<Longrightarrow> a = b" for a b :: "'a::len word"
  by (simp add: word_unat_eq_iff)

lemma sat_add_assoc: "sat_add (sat_add a b) c = sat_add a (sat_add b c)" for a b c :: "'a::len word"
proof (rule unat_eqI)
  have *: "min (min (x + y) m + z) m = min (x + min (y + z) m) m" for x y z m :: nat
    by linarith
  show "unat (sat_add (sat_add a b) c) = unat (sat_add a (sat_add b c))"
    by (simp only: sat_simps *)
qed

lemma sat_add_commute: "sat_add a b = sat_add b a" for a b :: "'a::len word"
  by (simp add: sat_add_def add.commute)

text \<open>\<open>usize\<close> sums that the code saturates.\<close>

definition usize_max :: usize where
  "usize_max = 2 ^ 64 - 1"

definition usize_sat_add :: "usize \<Rightarrow> usize \<Rightarrow> usize" where
  "usize_sat_add a b = min (a + b) usize_max"

section \<open>Durations\<close>

type_synonym duration = nat

definition nanos_per_sec :: nat where
  "nanos_per_sec = 1000000000"

definition duration_max :: duration where
  "duration_max = (2 ^ 64 - 1) * nanos_per_sec + (nanos_per_sec - 1)"

definition dur_of_secs :: "u64 \<Rightarrow> duration" where
  "dur_of_secs s = unat s * nanos_per_sec"

definition dur_add :: "duration \<Rightarrow> duration \<Rightarrow> duration" where
  "dur_add a b = min (a + b) duration_max"

definition dur_mul :: "duration \<Rightarrow> u32 \<Rightarrow> duration" where
  "dur_mul a n = min (a * unat n) duration_max"

lemma dur_add_le: "dur_add a b \<le> a + b"
  by (simp add: dur_add_def)

section \<open>Association lists as hash maps\<close>

abbreviation (input) alist_get :: "('k \<times> 'v) list \<Rightarrow> 'k \<Rightarrow> 'v option" where
  "alist_get al k \<equiv> map_of al k"

definition keys_distinct :: "('k \<times> 'v) list \<Rightarrow> bool" where
  "keys_distinct al \<longleftrightarrow> distinct (map fst al)"

lemma keys_distinct_update [simp, intro]:
  "keys_distinct al \<Longrightarrow> keys_distinct (AList.update k v al)"
  by (simp add: keys_distinct_def distinct_update)

lemma keys_distinct_delete [simp, intro]:
  "keys_distinct al \<Longrightarrow> keys_distinct (AList.delete k al)"
  by (simp add: keys_distinct_def distinct_delete)

lemma keys_distinct_Nil [simp, intro]: "keys_distinct []"
  by (simp add: keys_distinct_def)

lemma map_of_alist_update [simp]: "map_of (AList.update k v al) = (map_of al)(k \<mapsto> v)"
  by (simp add: update_conv')

lemma map_of_alist_delete [simp]: "map_of (AList.delete k al) = (map_of al)(k := None)"
  by (simp add: delete_conv')

section \<open>Text\<close>

text \<open>\<open>[..].join(sep)\<close>.\<close>

fun join_str :: "string \<Rightarrow> string list \<Rightarrow> string" where
  "join_str sep [] = []"
| "join_str sep [x] = x"
| "join_str sep (x # y # xs) = x @ sep @ join_str sep (y # xs)"

section \<open>A machine with an invariant\<close>

text \<open>Several components promise the same contract: every operation keeps an invariant.\<close>

locale invariant_machine =
  fixes step :: "'op \<Rightarrow> 's \<Rightarrow> 's"
    and inv :: "'s \<Rightarrow> bool"
  assumes step_inv: "inv s \<Longrightarrow> inv (step op s)"
begin

lemma run_inv: "inv s \<Longrightarrow> inv (fold step ops s)"
  by (induction ops arbitrary: s) (simp_all add: step_inv)

end

end
