(* ===== verification/Text.thy ===== *)
theory Text
  imports Prelude
begin

text \<open>
  What the components use of Rust's \<open>str\<close>, on UTF-8 byte strings: the Unicode white space that
  \<open>trim\<close> and \<open>split_whitespace\<close> look for, counting and taking by \<open>char\<close>, substring tests, the
  parse of an unsigned decimal number and its printing; and \<open>Iterator::find_map\<close>.
\<close>

section \<open>Bytes and characters\<close>

text \<open>A continuation byte of a multi-byte sequence; every other byte starts a character.\<close>

definition is_cont :: "char \<Rightarrow> bool" where
  "is_cont c \<longleftrightarrow> (let b = of_char c :: nat in 128 \<le> b \<and> b < 192)"

definition char_count :: "string \<Rightarrow> nat" where
  "char_count s = length (filter (\<lambda>c. \<not> is_cont c) s)"

text \<open>The bytes of the first \<open>n\<close> characters.\<close>

fun take_chars :: "nat \<Rightarrow> string \<Rightarrow> string" where
  "take_chars n [] = []"
| "take_chars n (c # cs) =
     (if is_cont c then c # take_chars n cs
      else case n of 0 \<Rightarrow> [] | Suc m \<Rightarrow> c # take_chars m cs)"

lemma char_count_simps [simp]:
  "char_count [] = 0"
  "char_count (c # cs) = (if is_cont c then 0 else 1) + char_count cs"
  "char_count (s @ t) = char_count s + char_count t"
  by (simp_all add: char_count_def)

lemma take_chars_prefix: "prefix (take_chars n s) s"
  by (induction n s rule: take_chars.induct) (auto split: nat.split)

lemma take_chars_count: "char_count (take_chars n s) = min n (char_count s)"
  by (induction n s rule: take_chars.induct) (auto split: nat.split)

text \<open>A cut falls on a character boundary: what follows it does not start with a continuation.\<close>

lemma take_chars_boundary:
  "\<exists>rest. s = take_chars n s @ rest \<and> (rest = [] \<or> \<not> is_cont (hd rest))"
proof (induction n s rule: take_chars.induct)
  case (1 n)
  then show ?case by simp
next
  case (2 n c cs)
  then show ?case by (cases "is_cont c"; cases n) auto
qed

type_synonym uchar = string

text \<open>The characters of a byte string: every byte that is not a continuation starts one.\<close>

fun chars_of :: "string \<Rightarrow> uchar list" where
  "chars_of [] = []"
| "chars_of (c # cs) =
     (case chars_of cs of
        [] \<Rightarrow> [[c]]
      | d # ds \<Rightarrow> if is_cont (hd d) then (c # d) # ds else [c] # d # ds)"

lemma concat_chars_of [simp]: "concat (chars_of s) = s"
  by (induction s) (auto split: list.split simp: concat_eq_Nil_conv)

section \<open>White space\<close>

text \<open>The encodings of the \<open>White_Space\<close> code points.\<close>

definition ws_encodings :: "string list" where
  "ws_encodings =
     [[CHR 0x09], [CHR 0x0A], [CHR 0x0B], [CHR 0x0C], [CHR 0x0D], [CHR 0x20],
      [CHR 0xC2, CHR 0x85], [CHR 0xC2, CHR 0xA0], [CHR 0xE1, CHR 0x9A, CHR 0x80]]
     @ map (\<lambda>b. [CHR 0xE2, CHR 0x80, b])
         [CHR 0x80, CHR 0x81, CHR 0x82, CHR 0x83, CHR 0x84, CHR 0x85, CHR 0x86, CHR 0x87,
          CHR 0x88, CHR 0x89, CHR 0x8A, CHR 0xA8, CHR 0xA9, CHR 0xAF]
     @ [[CHR 0xE2, CHR 0x81, CHR 0x9F], [CHR 0xE3, CHR 0x80, CHR 0x80]]"

definition ws_at :: "string list \<Rightarrow> string \<Rightarrow> string option" where
  "ws_at encs s = find (\<lambda>w. w \<noteq> [] \<and> prefix w s) encs"

lemma ws_at_Some: "ws_at encs s = Some w \<Longrightarrow> w \<noteq> [] \<and> prefix w s \<and> w \<in> set encs"
  by (auto simp: ws_at_def find_Some_iff)

function trim_by :: "string list \<Rightarrow> string \<Rightarrow> string" where
  "trim_by encs s =
     (case ws_at encs s of None \<Rightarrow> s | Some w \<Rightarrow> trim_by encs (drop (length w) s))"
  by pat_completeness auto
termination
  by (relation "measure (\<lambda>(_, s). length s)")
    (auto dest!: ws_at_Some simp: prefix_def)

declare trim_by.simps [simp del]

definition str_trim :: "string \<Rightarrow> string" where
  "str_trim s = rev (trim_by (map rev ws_encodings) (rev (trim_by ws_encodings s)))"

function split_ws :: "string \<Rightarrow> string \<Rightarrow> string list" where
  "split_ws cur [] = (if cur = [] then [] else [rev cur])"
| "split_ws cur (c # cs) =
     (case ws_at ws_encodings (c # cs) of
        None \<Rightarrow> split_ws (c # cur) cs
      | Some w \<Rightarrow> (if cur = [] then [] else [rev cur]) @ split_ws [] (drop (length w) (c # cs)))"
  by pat_completeness auto
termination
  by (relation "measure (\<lambda>(_, s). length s)")
    (auto dest!: ws_at_Some simp: prefix_def)

definition split_whitespace :: "string \<Rightarrow> string list" where
  "split_whitespace s = split_ws [] s"

section \<open>Substrings, case and numbers\<close>

definition contains_str :: "string \<Rightarrow> string \<Rightarrow> bool" where
  "contains_str hay needle \<longleftrightarrow> list_ex (prefix needle) (suffixes hay)"

lemma contains_str_iff: "contains_str hay needle \<longleftrightarrow> (\<exists>a b. hay = a @ needle @ b)"
proof -
  have "contains_str hay needle \<longleftrightarrow> (\<exists>x. suffix x hay \<and> prefix needle x)"
    by (auto simp: contains_str_def list_ex_iff)
  then show ?thesis by (simp only: prefix_def suffix_def) blast
qed

definition strip_suffix :: "string \<Rightarrow> string \<Rightarrow> string option" where
  "strip_suffix s suf =
     (if suffix suf s then Some (take (length s - length suf) s) else None)"

text \<open>Lower case of the ASCII letters. The needles the code looks for are ASCII and contain no
  letter that a non-ASCII capital lower-cases to on its own, so for a containment test this is
  \<open>to_lowercase\<close>.\<close>

definition lower_char :: "char \<Rightarrow> char" where
  "lower_char c =
     (let b = of_char c :: nat in if 65 \<le> b \<and> b \<le> 90 then char_of (b + 32) else c)"

definition ascii_lower :: "string \<Rightarrow> string" where
  "ascii_lower s = map lower_char s"

lemma lower_char_idem: "lower_char (lower_char c) = lower_char c"
proof (cases "65 \<le> (of_char c :: nat) \<and> (of_char c :: nat) \<le> 90")
  case True
  then have "(of_char (char_of ((of_char c :: nat) + 32)) :: nat) = of_char c + 32" by simp
  with True show ?thesis by (simp add: lower_char_def Let_def)
next
  case False
  then show ?thesis by (auto simp: lower_char_def Let_def)
qed

lemma ascii_lower_idem: "ascii_lower (ascii_lower s) = ascii_lower s"
  by (simp add: ascii_lower_def lower_char_idem comp_def)

definition is_digit :: "char \<Rightarrow> bool" where
  "is_digit c \<longleftrightarrow> (let b = of_char c :: nat in 48 \<le> b \<and> b \<le> 57)"

definition digit_val :: "char \<Rightarrow> nat" where
  "digit_val c = of_char c - 48"

definition digits_val :: "string \<Rightarrow> nat" where
  "digits_val s = foldl (\<lambda>n c. n * 10 + digit_val c) 0 s"

text \<open>\<open>str::parse\<close> to an unsigned type with the given bound: an optional plus sign, at least
  one digit, digits only, no overflow.\<close>

definition parse_unsigned :: "nat \<Rightarrow> string \<Rightarrow> nat option" where
  "parse_unsigned bound s =
     (let ds = (if prefix ''+'' s then tl s else s)
      in if ds = [] \<or> \<not> list_all is_digit ds \<or> bound \<le> digits_val ds then None
         else Some (digits_val ds))"

definition parse_u64 :: "string \<Rightarrow> u64 option" where
  "parse_u64 s = map_option of_nat (parse_unsigned (2 ^ 64) s)"

function show_nat :: "nat \<Rightarrow> string" where
  "show_nat n =
     (if n < 10 then [char_of (48 + n)] else show_nat (n div 10) @ [char_of (48 + n mod 10)])"
  by pat_completeness auto
termination by (relation "measure id") auto

declare show_nat.simps [simp del]

lemma digit_facts:
  "d < 10 \<Longrightarrow> is_digit (char_of (48 + d)) \<and> digit_val (char_of (48 + d :: nat)) = d"
  by (simp add: is_digit_def digit_val_def)

lemma digits_val_snoc: "digits_val (s @ [c]) = digits_val s * 10 + digit_val c"
  by (simp add: digits_val_def)

lemma show_nat_digits: "list_all is_digit (show_nat n) \<and> show_nat n \<noteq> []"
proof (induction n rule: show_nat.induct)
  case (1 n)
  then show ?case
    using digit_facts [of n] digit_facts [of "n mod 10"] by (subst (1 2) show_nat.simps) auto
qed

lemma digits_val_show_nat: "digits_val (show_nat n) = n"
proof (induction n rule: show_nat.induct)
  case (1 n)
  show ?case
  proof (cases "n < 10")
    case True
    then show ?thesis
      using digit_facts [of n] by (subst show_nat.simps) (simp add: digits_val_def)
  next
    case False
    then show ?thesis
      using 1 digit_facts [of "n mod 10"] by (subst show_nat.simps) (simp add: digits_val_snoc)
  qed
qed

lemma parse_show_nat: "n < bound \<Longrightarrow> parse_unsigned bound (show_nat n) = Some n"
proof -
  assume "n < bound"
  moreover have "\<not> prefix ''+'' (show_nat n)"
    using show_nat_digits [of n] by (cases "show_nat n") (auto simp: is_digit_def)
  ultimately show ?thesis
    using show_nat_digits [of n] by (simp add: parse_unsigned_def digits_val_show_nat)
qed

section \<open>Iterators\<close>

fun find_map :: "('a \<Rightarrow> 'b option) \<Rightarrow> 'a list \<Rightarrow> 'b option" where
  "find_map f [] = None"
| "find_map f (x # xs) = (case f x of Some y \<Rightarrow> Some y | None \<Rightarrow> find_map f xs)"

lemma find_map_cong [fundef_cong]:
  "xs = ys \<Longrightarrow> (\<And>x. x \<in> set ys \<Longrightarrow> f x = g x) \<Longrightarrow> find_map f xs = find_map g ys"
  by (induction ys arbitrary: xs) (auto split: option.split)

lemma find_map_SomeE:
  assumes "find_map f xs = Some y"
  obtains as x bs where "xs = as @ x # bs" "f x = Some y" "\<forall>a \<in> set as. f a = None"
  using assms
proof (induction xs arbitrary: thesis)
  case Nil
  then show ?case by simp
next
  case (Cons x xs)
  show ?case
  proof (cases "f x")
    case None
    with Cons.prems(2) have "find_map f xs = Some y" by simp
    then obtain as z bs where "xs = as @ z # bs" "f z = Some y" "\<forall>a \<in> set as. f a = None"
      using Cons.IH by blast
    with None show ?thesis by (intro Cons.prems(1) [of "x # as" z bs]) auto
  next
    case (Some z)
    with Cons.prems(2) show ?thesis by (intro Cons.prems(1) [of "[]" x xs]) auto
  qed
qed

lemma find_map_SomeD: "find_map f xs = Some y \<Longrightarrow> \<exists>x \<in> set xs. f x = Some y"
  by (erule find_map_SomeE) auto

lemma find_map_None_iff: "find_map f xs = None \<longleftrightarrow> (\<forall>x \<in> set xs. f x = None)"
  by (induction xs) (auto split: option.split)

section \<open>Marks outside ASCII\<close>

definition em_dash :: string where
  "em_dash = [CHR 0xE2, CHR 0x80, CHR 0x94]"

end
