(* ===== verification/Token_Budget.thy ===== *)
theory Token_Budget
  imports Prelude
begin

text \<open>
  The instance-wide token budget (\<open>crates/kallipai-adk/src/token_budget.rs\<close>). The guarded
  \<open>BudgetState\<close> is a datatype with the source's two variants; every method takes the lock,
  finishes and returns, so a method is a function on the state. The lemmas show what the
  observation side (consumption) and the enforcement side (limit) promise each other.
\<close>

section \<open>State and reads\<close>

datatype budget_state =
    Limited (limit_of: u64) (spent_of: u64)
  | Unlimited (spent_of: u64)

record budget_snapshot =
  bs_budget :: u64
  bs_consumed :: u64
  bs_unlimited :: bool

definition snap_remaining :: "budget_snapshot \<Rightarrow> u64" where
  "snap_remaining s = (if bs_unlimited s then 0 else sat_sub (bs_budget s) (bs_consumed s))"

definition snap_is_exceeded :: "budget_snapshot \<Rightarrow> bool" where
  "snap_is_exceeded s \<longleftrightarrow> \<not> bs_unlimited s \<and> bs_budget s \<le> bs_consumed s"

text \<open>The final cast \<open>as u8\<close> keeps the low eight bits.\<close>

definition snap_usage_pct :: "budget_snapshot \<Rightarrow> u8" where
  "snap_usage_pct s =
     (if bs_unlimited s \<or> bs_budget s = 0 then 0
      else ucast (sat_mul (bs_consumed s) 100 div bs_budget s))"

definition budget_new :: "u64 \<Rightarrow> u64 \<Rightarrow> budget_state" where
  "budget_new budget initial_consumed = Limited budget initial_consumed"

definition budget_unlimited :: budget_state where
  "budget_unlimited = Unlimited 0"

fun is_unlimited :: "budget_state \<Rightarrow> bool" where
  "is_unlimited (Limited _ _) = False"
| "is_unlimited (Unlimited _) = True"

fun budget_limit :: "budget_state \<Rightarrow> u64" where
  "budget_limit (Limited b _) = b"
| "budget_limit (Unlimited _) = 0"

fun budget_consumed :: "budget_state \<Rightarrow> u64" where
  "budget_consumed (Limited _ c) = c"
| "budget_consumed (Unlimited c) = c"

fun snapshot :: "budget_state \<Rightarrow> budget_snapshot" where
  "snapshot (Limited b c) = \<lparr>bs_budget = b, bs_consumed = c, bs_unlimited = False\<rparr>"
| "snapshot (Unlimited c) = \<lparr>bs_budget = 0, bs_consumed = c, bs_unlimited = True\<rparr>"

definition budget_remaining :: "budget_state \<Rightarrow> u64" where
  "budget_remaining s = snap_remaining (snapshot s)"

definition is_exceeded :: "budget_state \<Rightarrow> bool" where
  "is_exceeded s = snap_is_exceeded (snapshot s)"

definition usage_pct :: "budget_state \<Rightarrow> u8" where
  "usage_pct s = snap_usage_pct (snapshot s)"

section \<open>Updates\<close>

fun record_usage :: "u64 \<Rightarrow> u64 \<Rightarrow> budget_state \<Rightarrow> budget_state" where
  "record_usage prompt completion (Limited b c) =
     Limited b (sat_add c (sat_add prompt completion))"
| "record_usage prompt completion (Unlimited c) =
     Unlimited (sat_add c (sat_add prompt completion))"

definition set_limit :: "u64 \<Rightarrow> budget_state \<Rightarrow> budget_state" where
  "set_limit limit s = Limited limit (budget_consumed s)"

definition set_remaining :: "u64 \<Rightarrow> budget_state \<Rightarrow> u64 \<times> budget_state" where
  "set_remaining value s =
     (let consumed = budget_consumed s; new_budget = sat_add consumed value
      in (new_budget, Limited new_budget consumed))"

text \<open>The signed delta is read by \<open>sint\<close>; its \<open>unsigned_abs\<close> fits a \<open>u64\<close>.\<close>

fun adjust_delta :: "i64 \<Rightarrow> budget_state \<Rightarrow> (u64 + u64) \<times> budget_state" where
  "adjust_delta delta (Unlimited c) = (Inl c, Unlimited c)"
| "adjust_delta delta (Limited b c) =
     (let abs_delta = (word_of_int \<bar>sint delta\<bar> :: u64);
          new = (if 0 < sint delta then sat_add b abs_delta else sat_sub b abs_delta)
      in if new \<le> c then (Inl new, Limited b c) else (Inr new, Limited new c))"

definition set_unlimited :: "budget_state \<Rightarrow> budget_state" where
  "set_unlimited s = Unlimited (budget_consumed s)"

section \<open>Runs\<close>

text \<open>The mutex serialises the callers: a run is a sequence of operations.\<close>

datatype budget_op =
    RecordUsage u64 u64
  | SetLimit u64
  | SetRemaining u64
  | AdjustDelta i64
  | SetUnlimited

fun budget_step :: "budget_op \<Rightarrow> budget_state \<Rightarrow> budget_state" where
  "budget_step (RecordUsage p c) s = record_usage p c s"
| "budget_step (SetLimit l) s = set_limit l s"
| "budget_step (SetRemaining v) s = snd (set_remaining v s)"
| "budget_step (AdjustDelta d) s = snd (adjust_delta d s)"
| "budget_step SetUnlimited s = set_unlimited s"

fun op_usage :: "budget_op \<Rightarrow> nat" where
  "op_usage (RecordUsage p c) = unat p + unat c"
| "op_usage _ = 0"

lemmas budget_defs = budget_remaining_def is_exceeded_def usage_pct_def set_limit_def
  set_remaining_def set_unlimited_def snap_remaining_def snap_is_exceeded_def snap_usage_pct_def

lemma consumed_adjust_delta [simp]: "budget_consumed (snd (adjust_delta d s)) = budget_consumed s"
  by (cases s) (auto simp: Let_def)

lemma consumed_step:
  "unat (budget_consumed (budget_step op s))
     = min (unat (budget_consumed s) + op_usage op) (2 ^ 64 - 1)"
proof (cases op)
  case (RecordUsage p c)
  then show ?thesis
    by (cases s) (simp_all add: sat_simps min_def)
next
  case (AdjustDelta d)
  then show ?thesis
    using unat_le_max [of "budget_consumed s"] by simp
qed (use unat_le_max [of "budget_consumed s"] in
      \<open>simp_all add: budget_defs Let_def\<close>)

lemma saturated_sum_step:
  "min (min (x + u) m + y) m = min (x + (u + y)) m" for x u y m :: nat
  by linarith

section \<open>Properties\<close>

text \<open>Consumption is observation data: over any run of operations, in either variant and
  across limit changes, it is exactly the initial consumption plus all recorded usage,
  saturated at the largest \<open>u64\<close>. No limit operation moves it.\<close>

theorem consumption_is_total_usage:
  "unat (budget_consumed (fold budget_step ops s))
     = min (unat (budget_consumed s) + sum_list (map op_usage ops)) (2 ^ 64 - 1)"
proof (induction ops arbitrary: s)
  case Nil
  then show ?case using unat_le_max [of "budget_consumed s"] by simp
next
  case (Cons op ops)
  then show ?case by (simp only: fold_simps comp_apply consumed_step saturated_sum_step
      list.map sum_list.Cons)
qed

lemma uint_abs_sint: "uint (word_of_int \<bar>sint d\<bar> :: u64) = \<bar>sint d\<bar>" for d :: i64
proof -
  have "- (2 ^ 63) \<le> sint d" and "sint d < 2 ^ 63"
    using sint_ge [of d] sint_less [of d] by simp_all
  then have "\<bar>sint d\<bar> < 2 ^ 64" by (simp add: abs_less_iff)
  then show ?thesis by (simp add: uint_word_of_int_eq take_bit_int_eq_self)
qed

text \<open>The limit a signed adjustment aims at, in unbounded integers, clipped to \<open>u64\<close>.\<close>

definition ideal_limit :: "i64 \<Rightarrow> u64 \<Rightarrow> int" where
  "ideal_limit d b = max 0 (min (2 ^ 64 - 1) (int (unat b) + sint d))"

lemma adjust_delta_new:
  "int (unat (if 0 < sint d then sat_add b (word_of_int \<bar>sint d\<bar>)
              else sat_sub b (word_of_int \<bar>sint d\<bar>))) = ideal_limit d b"
proof -
  define a :: u64 where "a = word_of_int \<bar>sint d\<bar>"
  have "uint a = \<bar>sint d\<bar>" by (simp only: a_def uint_abs_sint)
  moreover have "uint b \<le> 2 ^ 64 - 1" using uint_bounded [of b] by simp
  ultimately have "uint (if 0 < sint d then sat_add b a else sat_sub b a) = ideal_limit d b"
    by (auto simp: uint_sat_add uint_sat_sub ideal_limit_def)
  then show ?thesis by (simp only: a_def [symmetric] uint_nat [symmetric])
qed

text \<open>A signed adjustment computes the integer sum of limit and delta clipped to \<open>u64\<close>
  (with no overflow for any \<open>i64\<close>, its minimum included); it is committed exactly when the
  result stays above the consumption, and otherwise the state is left as it was.\<close>

theorem adjust_delta_spec:
  "snd (adjust_delta d (Limited b c)) =
     (if int (unat c) < ideal_limit d b then Limited (word_of_int (ideal_limit d b)) c
      else Limited b c)"
proof -
  define n where "n = (if 0 < sint d then sat_add b (word_of_int \<bar>sint d\<bar>)
              else sat_sub b (word_of_int \<bar>sint d\<bar>))"
  have ideal: "ideal_limit d b = int (unat n)"
    by (simp only: n_def adjust_delta_new)
  have "snd (adjust_delta d (Limited b c)) = (if n \<le> c then Limited b c else Limited n c)"
    unfolding n_def adjust_delta.simps Let_def by (simp only: if_distrib [of snd] snd_conv)
  moreover have "int (unat c) < ideal_limit d b \<longleftrightarrow> \<not> n \<le> c"
    by (simp only: ideal of_nat_less_iff word_le_nat_alt not_le)
  moreover have "word_of_int (ideal_limit d b) = n" by (simp add: ideal)
  ultimately show ?thesis by presburger
qed

text \<open>Below the limit the reported percentage is the exact quotient of the saturated product
  and never exceeds 100, so the cast to \<open>u8\<close> loses nothing.\<close>

theorem usage_pct_exact:
  assumes "c \<le> b" and "b \<noteq> 0"
  shows "unat (usage_pct (Limited b c)) = min (unat c * 100) (2 ^ 64 - 1) div unat b
    \<and> unat (usage_pct (Limited b c)) \<le> 100"
proof -
  define q where "q = min (unat c * 100) (2 ^ 64 - 1) div unat b"
  have "0 < unat b" using assms(2) by (simp add: unat_gt_0)
  have "min (unat c * 100) (2 ^ 64 - 1) \<le> unat b * 100"
    using assms(1) by (simp add: word_le_nat_alt)
  then have "q \<le> unat b * 100 div unat b" unfolding q_def by (rule div_le_mono)
  with \<open>0 < unat b\<close> have q: "q \<le> 100" by simp
  have "unat (sat_mul c 100 div b) = q"
    by (simp add: unat_div sat_simps q_def)
  with q have "unat (usage_pct (Limited b c)) = q"
    using assms(2) by (simp add: budget_defs unsigned_ucast_eq take_bit_nat_eq_self)
  with q show ?thesis by (simp add: q_def)
qed

theorem usage_pct_exact_witness:
  "(80 :: u64) \<le> 200 \<and> unat (usage_pct (Limited 200 80)) = 40"
proof -
  have "unat (usage_pct (Limited 200 80)) = min (unat (80::u64) * 100) (2 ^ 64 - 1) div unat (200::u64)"
    using usage_pct_exact [of 80 200] by simp
  then show ?thesis by simp
qed

text \<open>Above the limit the cast truncates: recording usage is not capped by the limit, so a
  budget of 100 after one call of 300 tokens is exceeded and reports 44 percent, because
  \<open>300 mod 256 = 44\<close>. The comment's premise that the ratio stays at or below 100 fails.\<close>

theorem usage_pct_truncates:
  "is_exceeded (record_usage 200 100 (budget_new 100 0))
   \<and> usage_pct (record_usage 200 100 (budget_new 100 0)) = 44"
  by (simp add: budget_defs budget_new_def sat_add_def sat_mul_def)

end
