(* ===== verification/Approval.thy ===== *)
theory Approval
  imports Prelude
begin

text \<open>
  Asynchronous approval of tool calls: the status type of
  \<open>crates/kallipai-common/src/approval.rs\<close> and the store of
  \<open>crates/kallipai-adk/src/approval.rs\<close>. A method that can \<open>bail!\<close> returns the error or the
  reply together with the store; the identifier minted by the UUID library and the wall clock
  are arguments. The lemmas show the lifecycle automaton every identifier follows and that no
  decision notification is lost.
\<close>

section \<open>Statuses\<close>

datatype approval_status = Pending | Committed | Approved | Denied | Redeemed | Cancelled

fun status_str :: "approval_status \<Rightarrow> string" where
  "status_str Pending = ''pending''"
| "status_str Committed = ''committed''"
| "status_str Approved = ''approved''"
| "status_str Denied = ''denied''"
| "status_str Redeemed = ''redeemed''"
| "status_str Cancelled = ''cancelled''"

definition from_str_name :: "string \<Rightarrow> approval_status option" where
  "from_str_name s =
     (if s = ''pending'' then Some Pending
      else if s = ''committed'' then Some Committed
      else if s = ''approved'' then Some Approved
      else if s = ''denied'' then Some Denied
      else if s = ''redeemed'' then Some Redeemed
      else if s = ''cancelled'' then Some Cancelled
      else None)"

section \<open>The store\<close>

record approval_action =
  ap_id :: string
  ap_tool_name :: string
  ap_args_json :: string
  ap_commit_reason :: "string option"
  ap_status :: approval_status
  ap_deny_reason :: "string option"
  ap_defer_reason :: "string option"
  ap_created_at :: int

record 'json approval_info =
  ai_id :: string
  ai_tool_name :: string
  ai_arguments :: 'json
  ai_commit_reason :: "string option"
  ai_status :: approval_status
  ai_deny_reason :: "string option"
  ai_defer_reason :: "string option"
  ai_created_at :: int

record committed_info =
  ci_id :: string
  ci_tool_name :: string
  ci_args_json :: string
  ci_commit_reason :: string

datatype approval_notification =
    NotifyApproved string
  | NotifyDenied string string

record approval_store =
  as_actions :: "(string \<times> approval_action) list"
  as_notifications :: "approval_notification list"
  as_last_committed :: "committed_info option"
  as_last_redeemed :: "string option"
  as_last_cancelled :: "string option"

text \<open>The \<open>bail!\<close> sites, one constructor per message, with the values it formats.\<close>

datatype approval_error =
    ApprovalNotFound string
  | NotCommitted string approval_status
  | NotPending string approval_status
  | StillPending string
  | AwaitingApproval string
  | WasDenied string string
  | AlreadyRedeemed string
  | WasCancelled string
  | AlreadyCancelled string

type_synonym 'r approval_result = "(approval_error + 'r) \<times> approval_store"

definition approval_new :: approval_store where
  "approval_new = \<lparr>as_actions = [], as_notifications = [], as_last_committed = None,
     as_last_redeemed = None, as_last_cancelled = None\<rparr>"

text \<open>\<open>parse_or_null\<close> stands for the JSON parser with its \<open>Null\<close> fallback.\<close>

definition info_of :: "(string \<Rightarrow> 'json) \<Rightarrow> approval_action \<Rightarrow> 'json approval_info" where
  "info_of parse_or_null a =
     \<lparr>ai_id = ap_id a, ai_tool_name = ap_tool_name a,
      ai_arguments = parse_or_null (ap_args_json a), ai_commit_reason = ap_commit_reason a,
      ai_status = ap_status a, ai_deny_reason = ap_deny_reason a,
      ai_defer_reason = ap_defer_reason a, ai_created_at = ap_created_at a\<rparr>"

definition put_action :: "string \<Rightarrow> approval_action \<Rightarrow> approval_store \<Rightarrow> approval_store" where
  "put_action i a s = s\<lparr>as_actions := AList.update i a (as_actions s)\<rparr>"

definition enqueue ::
  "string \<Rightarrow> int \<Rightarrow> string \<Rightarrow> string \<Rightarrow> string option \<Rightarrow> approval_store
     \<Rightarrow> string \<times> approval_store" where
  "enqueue i now tool_name args_json defer_reason s =
     (i, put_action i \<lparr>ap_id = i, ap_tool_name = tool_name, ap_args_json = args_json,
            ap_commit_reason = None, ap_status = Pending, ap_deny_reason = None,
            ap_defer_reason = defer_reason, ap_created_at = now\<rparr> s)"

definition approve :: "string \<Rightarrow> approval_store \<Rightarrow> unit approval_result" where
  "approve i s =
     (case map_of (as_actions s) i of
        None \<Rightarrow> (Inl (ApprovalNotFound i), s)
      | Some a \<Rightarrow>
          if ap_status a \<noteq> Committed then (Inl (NotCommitted i (ap_status a)), s)
          else (Inr (), (put_action i (a\<lparr>ap_status := Approved\<rparr>) s)
                 \<lparr>as_notifications := as_notifications s @ [NotifyApproved i]\<rparr>))"

definition deny :: "string \<Rightarrow> string \<Rightarrow> approval_store \<Rightarrow> unit approval_result" where
  "deny i reason s =
     (case map_of (as_actions s) i of
        None \<Rightarrow> (Inl (ApprovalNotFound i), s)
      | Some a \<Rightarrow>
          if ap_status a \<noteq> Committed then (Inl (NotCommitted i (ap_status a)), s)
          else (Inr (), (put_action i (a\<lparr>ap_status := Denied, ap_deny_reason := Some reason\<rparr>) s)
                 \<lparr>as_notifications := as_notifications s @ [NotifyDenied i reason]\<rparr>))"

definition take_for_redeem :: "string \<Rightarrow> approval_store \<Rightarrow> approval_action approval_result" where
  "take_for_redeem i s =
     (case map_of (as_actions s) i of
        None \<Rightarrow> (Inl (ApprovalNotFound i), s)
      | Some a \<Rightarrow>
          (case ap_status a of
             Pending \<Rightarrow> (Inl (StillPending i), s)
           | Committed \<Rightarrow> (Inl (AwaitingApproval i), s)
           | Denied \<Rightarrow> (Inl (WasDenied i (case ap_deny_reason a of
                                            None \<Rightarrow> ''unknown'' | Some r \<Rightarrow> r)), s)
           | Redeemed \<Rightarrow> (Inl (AlreadyRedeemed i), s)
           | Cancelled \<Rightarrow> (Inl (WasCancelled i), s)
           | Approved \<Rightarrow>
               (let a' = a\<lparr>ap_status := Redeemed\<rparr>
                in (Inr a', (put_action i a' s)\<lparr>as_last_redeemed := Some i\<rparr>))))"

definition cancel :: "string \<Rightarrow> approval_store \<Rightarrow> approval_status approval_result" where
  "cancel i s =
     (case map_of (as_actions s) i of
        None \<Rightarrow> (Inl (ApprovalNotFound i), s)
      | Some a \<Rightarrow>
          (case ap_status a of
             Redeemed \<Rightarrow> (Inl (AlreadyRedeemed i), s)
           | Cancelled \<Rightarrow> (Inl (AlreadyCancelled i), s)
           | prev \<Rightarrow> (Inr prev, (put_action i (a\<lparr>ap_status := Cancelled\<rparr>) s)
                                 \<lparr>as_last_cancelled := Some i\<rparr>)))"

definition commit :: "string \<Rightarrow> string \<Rightarrow> approval_store \<Rightarrow> unit approval_result" where
  "commit i reason s =
     (case map_of (as_actions s) i of
        None \<Rightarrow> (Inl (ApprovalNotFound i), s)
      | Some a \<Rightarrow>
          if ap_status a \<noteq> Pending then (Inl (NotPending i (ap_status a)), s)
          else (Inr (), (put_action i (a\<lparr>ap_commit_reason := Some reason, ap_status := Committed\<rparr>) s)
                 \<lparr>as_last_committed := Some \<lparr>ci_id = i, ci_tool_name = ap_tool_name a,
                     ci_args_json = ap_args_json a, ci_commit_reason = reason\<rparr>\<rparr>))"

definition take_last_committed :: "approval_store \<Rightarrow> committed_info option \<times> approval_store" where
  "take_last_committed s = (as_last_committed s, s\<lparr>as_last_committed := None\<rparr>)"

definition take_last_redeemed :: "approval_store \<Rightarrow> string option \<times> approval_store" where
  "take_last_redeemed s = (as_last_redeemed s, s\<lparr>as_last_redeemed := None\<rparr>)"

definition take_last_cancelled :: "approval_store \<Rightarrow> string option \<times> approval_store" where
  "take_last_cancelled s = (as_last_cancelled s, s\<lparr>as_last_cancelled := None\<rparr>)"

definition list_approvals ::
  "(string \<Rightarrow> 'json) \<Rightarrow> approval_status option \<Rightarrow> approval_store \<Rightarrow> 'json approval_info list" where
  "list_approvals parse status_filter s =
     map (info_of parse)
       (filter (\<lambda>a. case status_filter of None \<Rightarrow> True | Some f \<Rightarrow> ap_status a = f)
          (map snd (as_actions s)))"

definition contains :: "string \<Rightarrow> approval_store \<Rightarrow> bool" where
  "contains i s \<longleftrightarrow> map_of (as_actions s) i \<noteq> None"

definition get_approval :: "(string \<Rightarrow> 'json) \<Rightarrow> string \<Rightarrow> approval_store \<Rightarrow> 'json approval_info option" where
  "get_approval parse i s = map_option (info_of parse) (map_of (as_actions s) i)"

definition drain_notifications ::
  "approval_store \<Rightarrow> approval_notification list \<times> approval_store" where
  "drain_notifications s = (as_notifications s, s\<lparr>as_notifications := []\<rparr>)"

definition has_notifications :: "approval_store \<Rightarrow> bool" where
  "has_notifications s \<longleftrightarrow> as_notifications s \<noteq> []"

definition notification_line :: "approval_notification \<Rightarrow> string" where
  "notification_line n =
     (case n of
        NotifyApproved i \<Rightarrow> ''Approval '' @ i @ '' has been approved. ''
          @ ''Call approval_redeem with this id to execute.''
      | NotifyDenied i reason \<Rightarrow> ''Approval '' @ i @ '' has been denied: '' @ reason)"

definition format_approval_notifications :: "approval_notification list \<Rightarrow> string" where
  "format_approval_notifications ns =
     ''[system]'' @ [CHR 0x0A] @ join_str [CHR 0x0A] (map notification_line ns)"

section \<open>Runs of the store\<close>

text \<open>
  The executor, the tagma's routes and the round loop share one store behind a lock: a run is a
  sequence of method calls. A step returns whether the method succeeded and the next store.
\<close>

datatype approval_op =
    Enqueue string int string string "string option"
  | Approve string
  | Deny string string
  | Redeem string
  | Cancel string
  | Commit string string
  | TakeCommitted
  | TakeRedeemed
  | TakeCancelled
  | Drain

definition done_of :: "'r approval_result \<Rightarrow> bool \<times> approval_store" where
  "done_of r = (\<not> isl (fst r), snd r)"

fun approval_step :: "approval_op \<Rightarrow> approval_store \<Rightarrow> bool \<times> approval_store" where
  "approval_step (Enqueue i now tool args defer_reason) s =
     (True, snd (enqueue i now tool args defer_reason s))"
| "approval_step (Approve i) s = done_of (approve i s)"
| "approval_step (Deny i reason) s = done_of (deny i reason s)"
| "approval_step (Redeem i) s = done_of (take_for_redeem i s)"
| "approval_step (Cancel i) s = done_of (cancel i s)"
| "approval_step (Commit i reason) s = done_of (commit i reason s)"
| "approval_step TakeCommitted s = (True, snd (take_last_committed s))"
| "approval_step TakeRedeemed s = (True, snd (take_last_redeemed s))"
| "approval_step TakeCancelled s = (True, snd (take_last_cancelled s))"
| "approval_step Drain s = (True, snd (drain_notifications s))"

text \<open>The status an operation gives the identifier it is about, when it succeeds.\<close>

fun op_target :: "approval_op \<Rightarrow> (string \<times> approval_status) option" where
  "op_target (Enqueue i _ _ _ _) = Some (i, Pending)"
| "op_target (Approve i) = Some (i, Approved)"
| "op_target (Deny i _) = Some (i, Denied)"
| "op_target (Redeem i) = Some (i, Redeemed)"
| "op_target (Cancel i) = Some (i, Cancelled)"
| "op_target (Commit i _) = Some (i, Committed)"
| "op_target _ = None"

definition status_at :: "approval_store \<Rightarrow> string \<Rightarrow> approval_status option" where
  "status_at s i = map_option ap_status (map_of (as_actions s) i)"

text \<open>The edges of the lifecycle, as a step relation on statuses.\<close>

inductive status_edge :: "approval_status \<Rightarrow> approval_status \<Rightarrow> bool" where
  edge_commit: "status_edge Pending Committed"
| edge_approve: "status_edge Committed Approved"
| edge_deny: "status_edge Committed Denied"
| edge_redeem: "status_edge Approved Redeemed"
| edge_cancel: "st \<in> {Pending, Committed, Approved, Denied} \<Longrightarrow> status_edge st Cancelled"

code_pred status_edge .

inductive_simps status_edge_from [simp]:
  "status_edge Pending x" "status_edge Committed x" "status_edge Approved x"
  "status_edge Denied x" "status_edge Redeemed x" "status_edge Cancelled x"

inductive_cases status_edge_Redeemed: "status_edge x Redeemed"

lemmas approval_defs = enqueue_def approve_def deny_def take_for_redeem_def cancel_def commit_def
  take_last_committed_def take_last_redeemed_def take_last_cancelled_def drain_notifications_def
  done_of_def put_action_def Let_def

lemma status_at_simps [simp]:
  "status_at (s\<lparr>as_notifications := ns\<rparr>) i = status_at s i"
  "status_at (s\<lparr>as_last_committed := lc\<rparr>) i = status_at s i"
  "status_at (s\<lparr>as_last_redeemed := lr\<rparr>) i = status_at s i"
  "status_at (s\<lparr>as_last_cancelled := ln\<rparr>) i = status_at s i"
  "status_at (put_action j a s) i = (if i = j then Some (ap_status a) else status_at s i)"
  by (simp_all add: status_at_def put_action_def)

text \<open>One step: only a successful operation on an identifier moves its status, and to its target.\<close>

lemma status_at_step:
  "status_at (snd (approval_step op s)) i =
     (if fst (approval_step op s) \<and> (\<exists>st. op_target op = Some (i, st))
      then map_option snd (op_target op) else status_at s i)"
  by (cases op)
    (auto simp: status_at_def approval_defs split: option.splits approval_status.splits)

lemma step_edge:
  assumes "fst (approval_step op s)" and "op_target op = Some (i, st)"
  shows "(st = Pending \<and> (\<exists>now tool args d. op = Enqueue i now tool args d))
    \<or> (\<exists>st0. status_at s i = Some st0 \<and> status_edge st0 st)"
  using assms
  by (cases op)
    (auto simp: status_at_def approval_defs split: option.splits approval_status.splits if_splits)

section \<open>The lifecycle of one identifier\<close>

text \<open>The statuses the successful operations of a run give one identifier, in order.\<close>

fun life :: "string \<Rightarrow> approval_op list \<Rightarrow> approval_store \<Rightarrow> approval_status list" where
  "life i [] s = []"
| "life i (op # ops) s =
     (case op_target op of
        Some (j, st) \<Rightarrow> (if j = i \<and> fst (approval_step op s) then [st] else [])
      | None \<Rightarrow> []) @ life i ops (snd (approval_step op s))"

fun path_from :: "approval_status option \<Rightarrow> approval_status list \<Rightarrow> bool" where
  "path_from _ [] = True"
| "path_from None (st # sts) = (st = Pending \<and> path_from (Some Pending) sts)"
| "path_from (Some st0) (st # sts) = (status_edge st0 st \<and> path_from (Some st) sts)"

fun enqueued_ids :: "approval_op list \<Rightarrow> string list" where
  "enqueued_ids [] = []"
| "enqueued_ids (Enqueue i _ _ _ _ # ops) = i # enqueued_ids ops"
| "enqueued_ids (_ # ops) = enqueued_ids ops"

definition fresh_ids :: "approval_op list \<Rightarrow> approval_store \<Rightarrow> bool" where
  "fresh_ids ops s \<longleftrightarrow> distinct (enqueued_ids ops)
     \<and> (\<forall>i \<in> set (enqueued_ids ops). status_at s i = None)"

lemma enqueued_ids_Cons:
  "enqueued_ids (op # ops) =
     (case op of Enqueue i _ _ _ _ \<Rightarrow> [i] | _ \<Rightarrow> []) @ enqueued_ids ops"
  by (cases op) simp_all

lemma fresh_ids_step:
  assumes "fresh_ids (op # ops) s"
  shows "fresh_ids ops (snd (approval_step op s))"
proof -
  have "status_at (snd (approval_step op s)) i = None" if i: "i \<in> set (enqueued_ids ops)" for i
  proof -
    from assms i have none: "status_at s i = None"
      by (auto simp: fresh_ids_def enqueued_ids_Cons)
    from assms i have not_enq: "op \<noteq> Enqueue i now tool args d" for now tool args d
      by (auto simp: fresh_ids_def enqueued_ids_Cons)
    show ?thesis
      using step_edge [of op s i] none not_enq by (auto simp: status_at_step)
  qed
  with assms show ?thesis by (auto simp: fresh_ids_def enqueued_ids_Cons)
qed

lemma life_is_path:
  "fresh_ids ops s \<Longrightarrow> path_from (status_at s i) (life i ops s)"
proof (induction ops arbitrary: s)
  case Nil
  then show ?case by simp
next
  case (Cons op ops)
  let ?s' = "snd (approval_step op s)"
  from Cons.prems have IH: "path_from (status_at ?s' i) (life i ops ?s')"
    by (intro Cons.IH fresh_ids_step)
  show ?case
  proof (cases "\<exists>st. op_target op = Some (i, st) \<and> fst (approval_step op s)")
    case False
    then have "life i (op # ops) s = life i ops ?s'" by (auto split: option.splits)
    moreover from False have "status_at ?s' i = status_at s i" by (auto simp: status_at_step)
    ultimately show ?thesis using IH by simp
  next
    case True
    then obtain st where st: "op_target op = Some (i, st)" and ok: "fst (approval_step op s)"
      by blast
    then have next_status: "status_at ?s' i = Some st" by (simp add: status_at_step)
    have "status_at s i = None" if "op = Enqueue i now tool args d" for now tool args d
      using Cons.prems that by (simp add: fresh_ids_def)
    with step_edge [OF ok st] show ?thesis
      using IH st ok next_status by (cases "status_at s i") auto
  qed
qed

lemma path_to_Redeemed_None:
  "path_from None sts \<Longrightarrow> Redeemed \<in> set sts \<Longrightarrow> sts = [Pending, Committed, Approved, Redeemed]"
proof -
  have R: "path_from (Some Redeemed) l \<Longrightarrow> l = []" for l by (cases l) auto
  have K: "path_from (Some Cancelled) l \<Longrightarrow> l = []" for l by (cases l) auto
  have D: "path_from (Some Denied) l \<Longrightarrow> Redeemed \<notin> set l" for l
    by (cases l) (auto dest: K)
  have A: "path_from (Some Approved) l \<Longrightarrow> Redeemed \<in> set l \<Longrightarrow> l = [Redeemed]" for l
    by (cases l) (auto dest: R K)
  have C: "path_from (Some Committed) l \<Longrightarrow> Redeemed \<in> set l \<Longrightarrow> l = [Approved, Redeemed]" for l
    by (cases l) (auto dest: A D K)
  have P: "path_from (Some Pending) l \<Longrightarrow> Redeemed \<in> set l \<Longrightarrow> l = [Committed, Approved, Redeemed]" for l
    by (cases l) (auto dest: C K)
  show "path_from None sts \<Longrightarrow> Redeemed \<in> set sts \<Longrightarrow> sts = [Pending, Committed, Approved, Redeemed]"
    by (cases sts) (auto dest: P)
qed

lemma status_at_new [simp]: "status_at approval_new i = None"
  by (simp add: status_at_def approval_new_def)

section \<open>Well-formed stores\<close>

text \<open>What every status says about the other fields of an action stored under a key.\<close>

definition wf_action :: "string \<Rightarrow> approval_action \<Rightarrow> bool" where
  "wf_action k a \<longleftrightarrow> ap_id a = k
     \<and> (ap_status a = Pending \<longrightarrow> ap_commit_reason a = None)
     \<and> (ap_status a \<in> {Committed, Approved, Denied, Redeemed} \<longrightarrow> ap_commit_reason a \<noteq> None)
     \<and> (ap_status a = Denied \<longrightarrow> ap_deny_reason a \<noteq> None)
     \<and> (ap_status a \<in> {Pending, Committed, Approved, Redeemed} \<longrightarrow> ap_deny_reason a = None)"

definition store_inv :: "approval_store \<Rightarrow> bool" where
  "store_inv s \<longleftrightarrow> keys_distinct (as_actions s)
     \<and> (\<forall>k a. map_of (as_actions s) k = Some a \<longrightarrow> wf_action k a)"

lemma store_inv_frame [simp]:
  "store_inv (s\<lparr>as_notifications := ns\<rparr>) = store_inv s"
  "store_inv (s\<lparr>as_last_committed := lc\<rparr>) = store_inv s"
  "store_inv (s\<lparr>as_last_redeemed := lr\<rparr>) = store_inv s"
  "store_inv (s\<lparr>as_last_cancelled := ln\<rparr>) = store_inv s"
  by (simp_all add: store_inv_def)

lemma store_inv_put: "store_inv s \<Longrightarrow> wf_action k a \<Longrightarrow> store_inv (put_action k a s)"
  by (auto simp: store_inv_def put_action_def)

lemma store_inv_get: "store_inv s \<Longrightarrow> map_of (as_actions s) k = Some a \<Longrightarrow> wf_action k a"
  by (simp add: store_inv_def)

lemma store_inv_step: "store_inv s \<Longrightarrow> store_inv (snd (approval_step op s))"
  by (cases op)
    (auto simp: enqueue_def approve_def deny_def take_for_redeem_def cancel_def commit_def
        take_last_committed_def take_last_redeemed_def take_last_cancelled_def
        drain_notifications_def done_of_def Let_def wf_action_def
      dest: store_inv_get intro!: store_inv_put
      split: option.splits approval_status.splits)

interpretation approvals: invariant_machine "\<lambda>op s. snd (approval_step op s)" store_inv
  by unfold_locales (rule store_inv_step)

abbreviation approval_run :: "approval_op list \<Rightarrow> approval_store \<Rightarrow> approval_store" where
  "approval_run \<equiv> fold (\<lambda>op s. snd (approval_step op s))"

lemma store_inv_new: "store_inv approval_new"
  by (simp add: store_inv_def approval_new_def)

text \<open>The call an identifier stands for.\<close>

definition payload_at :: "approval_store \<Rightarrow> string \<Rightarrow> (string \<times> string) option" where
  "payload_at s i = map_option (\<lambda>a. (ap_tool_name a, ap_args_json a)) (map_of (as_actions s) i)"

lemma payload_at_step:
  "(\<forall>now tool args d. op \<noteq> Enqueue i now tool args d) \<Longrightarrow>
     payload_at (snd (approval_step op s)) i = payload_at s i"
  by (cases op)
    (auto simp: payload_at_def approval_defs split: option.splits approval_status.splits)

lemma payload_at_run:
  "i \<notin> set (enqueued_ids ops) \<Longrightarrow> payload_at (approval_run ops s) i = payload_at s i"
proof (induction ops arbitrary: s)
  case Nil
  then show ?case by simp
next
  case (Cons op ops)
  then have "\<forall>now tool args d. op \<noteq> Enqueue i now tool args d" and "i \<notin> set (enqueued_ids ops)"
    by (auto simp: enqueued_ids_Cons)
  with Cons.IH show ?case by (simp add: payload_at_step)
qed

section \<open>Notifications\<close>

fun decision_of :: "approval_op \<Rightarrow> approval_notification list" where
  "decision_of (Approve i) = [NotifyApproved i]"
| "decision_of (Deny i reason) = [NotifyDenied i reason]"
| "decision_of _ = []"

text \<open>The notifications of the decisions a run makes, and those it hands to the round loop.\<close>

fun decisions :: "approval_op list \<Rightarrow> approval_store \<Rightarrow> approval_notification list" where
  "decisions [] s = []"
| "decisions (op # ops) s =
     (if fst (approval_step op s) then decision_of op else [])
       @ decisions ops (snd (approval_step op s))"

fun delivered :: "approval_op list \<Rightarrow> approval_store \<Rightarrow> approval_notification list" where
  "delivered [] s = []"
| "delivered (op # ops) s =
     (if op = Drain then fst (drain_notifications s) else [])
       @ delivered ops (snd (approval_step op s))"

lemma notifications_step:
  "(if op = Drain then fst (drain_notifications s) else [])
     @ as_notifications (snd (approval_step op s))
   = as_notifications s @ (if fst (approval_step op s) then decision_of op else [])"
  by (cases op)
    (auto simp: approval_defs split: option.splits approval_status.splits)

section \<open>Properties\<close>

text \<open>C22. Execution needs a commit and an approval, and happens once: if an identifier was ever
  redeemed in a run with fresh identifiers, then its whole history of successful operations is
  exactly enqueue, commit, approve, redeem.\<close>

theorem redeemed_history:
  assumes "distinct (enqueued_ids ops)" and "Redeemed \<in> set (life i ops approval_new)"
  shows "life i ops approval_new = [Pending, Committed, Approved, Redeemed]"
proof -
  have "path_from None (life i ops approval_new)"
    using life_is_path [of ops approval_new i] assms(1) by (simp add: fresh_ids_def)
  then show ?thesis using assms(2) by (rule path_to_Redeemed_None)
qed

definition demo_ops :: "approval_op list" where
  "demo_ops = [Enqueue ''ap_1'' 7 ''bash_exec'' ''{}'' None, Redeem ''ap_1'',
     Commit ''ap_1'' ''needed'', Cancel ''ap_2'', Approve ''ap_1'', Redeem ''ap_1'',
     Cancel ''ap_1'', Redeem ''ap_1'']"

theorem redeemed_history_witness:
  "life ''ap_1'' demo_ops approval_new = [Pending, Committed, Approved, Redeemed]"
proof -
  have "Redeemed \<in> set (life ''ap_1'' demo_ops approval_new)" and "distinct (enqueued_ids demo_ops)"
    by (simp_all add: demo_ops_def approval_defs approval_new_def)
  then show ?thesis by (intro redeemed_history)
qed

text \<open>Every history of successful operations of a run with fresh identifiers is a path of
  the lifecycle relation that starts in Pending.\<close>

theorem lifecycle_path:
  assumes "distinct (enqueued_ids ops)"
  shows "path_from None (life i ops approval_new)"
  using life_is_path [of ops approval_new i] assms by (simp add: fresh_ids_def)

theorem lifecycle_path_witness:
  "distinct (enqueued_ids demo_ops) \<and> path_from None (life ''ap_1'' demo_ops approval_new)"
  using lifecycle_path [of demo_ops "''ap_1''"] by (simp add: demo_ops_def)

text \<open>A rejected operation changes nothing: not the store, not a one-shot cell, not a
  notification.\<close>

theorem rejected_op_no_effect:
  assumes "\<not> fst (approval_step op s)"
  shows "snd (approval_step op s) = s"
  using assms by (cases op) (auto simp: approval_defs split: option.splits approval_status.splits)

theorem rejected_op_no_effect_witness:
  "\<not> fst (approval_step (Approve ''ap_1'') approval_new)
   \<and> snd (approval_step (Approve ''ap_1'') approval_new) = approval_new"
  using rejected_op_no_effect [of "Approve ''ap_1''" approval_new]
  by (simp add: approve_def done_of_def approval_new_def)

text \<open>Every store a run reaches is well-formed: one entry per identifier stored under its own
  id, a commit reason from the commit on, and a deny reason on every denied action (so the
  fallback text of a redeemed denial is dead) and on no live one.\<close>

theorem reachable_store_wf: "store_inv (approval_run ops approval_new)"
  by (rule approvals.run_inv) (rule store_inv_new)

text \<open>A redemption hands over the very call that was deferred: whatever happened in between,
  the redeemed action carries the tool name and the arguments of its enqueue.\<close>

theorem redeem_returns_enqueued_call:
  assumes "i \<notin> set (enqueued_ids ops)"
    and "fst (take_for_redeem i (approval_run ops (snd (enqueue i now tool args d s)))) = Inr a"
  shows "ap_tool_name a = tool \<and> ap_args_json a = args \<and> ap_status a = Redeemed"
proof -
  let ?s = "approval_run ops (snd (enqueue i now tool args d s))"
  have "payload_at ?s i = Some (tool, args)"
    using payload_at_run [OF assms(1)]
    by (simp add: payload_at_def enqueue_def put_action_def)
  with assms(2) show ?thesis
    by (auto simp: payload_at_def take_for_redeem_def Let_def
        split: option.splits approval_status.splits)
qed

theorem redeem_returns_enqueued_call_witness:
  "\<exists>a. fst (take_for_redeem ''ap_1'' (approval_run [Commit ''ap_1'' ''why'', Approve ''ap_1'']
          (snd (enqueue ''ap_1'' 7 ''bash_exec'' ''{}'' None approval_new)))) = Inr a
     \<and> ap_tool_name a = ''bash_exec'' \<and> ap_args_json a = ''{}''"
proof -
  let ?s = "approval_run [Commit ''ap_1'' ''why'', Approve ''ap_1'']
          (snd (enqueue ''ap_1'' 7 ''bash_exec'' ''{}'' None approval_new))"
  obtain a where a: "fst (take_for_redeem ''ap_1'' ?s) = Inr a"
    by (simp add: approval_defs approval_new_def)
  have "ap_tool_name a = ''bash_exec'' \<and> ap_args_json a = ''{}'' \<and> ap_status a = Redeemed"
    by (rule redeem_returns_enqueued_call [OF _ a]) simp
  with a show ?thesis by blast
qed

text \<open>No decision is lost, duplicated or reordered on its way to the round loop: what the
  drains of a run delivered followed by what is still queued is what was queued at the start
  followed by the run's successful approvals and denials, in order.\<close>

theorem notifications_conserved:
  "delivered ops s @ as_notifications (approval_run ops s) = as_notifications s @ decisions ops s"
proof (induction ops arbitrary: s)
  case Nil
  then show ?case by simp
next
  case (Cons op ops)
  let ?s' = "snd (approval_step op s)"
  let ?D = "if op = Drain then fst (drain_notifications s) else []"
  have "delivered (op # ops) s @ as_notifications (approval_run (op # ops) s)
      = ?D @ delivered ops ?s' @ as_notifications (approval_run ops ?s')"
    by (simp only: delivered.simps fold_simps comp_apply append_assoc)
  also have "\<dots> = (?D @ as_notifications ?s') @ decisions ops ?s'"
    by (simp only: Cons.IH append_assoc)
  also have "\<dots> = as_notifications s @ decisions (op # ops) s"
    by (simp only: notifications_step decisions.simps append_assoc)
  finally show ?case .
qed

text \<open>Parsing a status name inverts printing it, and nothing else parses.\<close>

theorem status_name_roundtrip: "from_str_name t = Some st \<longleftrightarrow> t = status_str st"
  by (cases st) (auto simp: from_str_name_def)

end
