(* ===== verification/Facts.thy ===== *)
theory Facts
  imports Prelude
begin

text \<open>
  Shared upstream-failure facts (\<open>crates/kallipai-common/src/facts.rs\<close>): the stored record, the
  one window rule every reader uses, the claim rule, and the interface \<open>ProfilePacing\<close> through
  which the agent kit reaches the table. The trait object is a record of operations over a table
  type; its contract is the locale \<open>profile_pacing\<close>, whose lemmas the clients use.
\<close>

section \<open>Records and windows\<close>

definition MIN_RETRY_INTERVAL_SECS :: u64 where "MIN_RETRY_INTERVAL_SECS = 60"

definition PAYMENT_RETRY_INTERVAL_SECS :: u64 where "PAYMENT_RETRY_INTERVAL_SECS = 300"

definition FACT_TABLE_CAPACITY :: usize where "FACT_TABLE_CAPACITY = 256"

definition QUOTA_RESET_TRUST_MAX_SECS :: u64 where "QUOTA_RESET_TRUST_MAX_SECS = 86400"

lemmas fact_consts = MIN_RETRY_INTERVAL_SECS_def PAYMENT_RETRY_INTERVAL_SECS_def
  QUOTA_RESET_TRUST_MAX_SECS_def

datatype block_kind = Quota | Payment | EndpointAuth | EndpointShape

fun parks_the_round :: "block_kind \<Rightarrow> bool" where
  "parks_the_round Quota = True"
| "parks_the_round Payment = True"
| "parks_the_round EndpointAuth = False"
| "parks_the_round EndpointShape = False"

fun kind_str :: "block_kind \<Rightarrow> string" where
  "kind_str Quota = ''quota''"
| "kind_str Payment = ''payment''"
| "kind_str EndpointAuth = ''endpoint_auth''"
| "kind_str EndpointShape = ''endpoint_shape''"

fun retry_interval :: "block_kind \<Rightarrow> u64" where
  "retry_interval Payment = PAYMENT_RETRY_INTERVAL_SECS"
| "retry_interval Quota = MIN_RETRY_INTERVAL_SECS"
| "retry_interval EndpointAuth = MIN_RETRY_INTERVAL_SECS"
| "retry_interval EndpointShape = MIN_RETRY_INTERVAL_SECS"

record block =
  bl_kind :: block_kind
  bl_until :: "u64 option"
  bl_detail :: string
  bl_status :: "u16 option"
  bl_recorded_at :: u64

definition window_end :: "block \<Rightarrow> u64" where
  "window_end b =
     (let capped = sat_add (bl_recorded_at b) QUOTA_RESET_TRUST_MAX_SECS
      in case bl_until b of
           Some until \<Rightarrow> min until capped
         | None \<Rightarrow> sat_add (bl_recorded_at b) (retry_interval (bl_kind b)))"

definition is_active :: "block \<Rightarrow> u64 \<Rightarrow> bool" where
  "is_active b now \<longleftrightarrow> now < window_end b"

datatype claim = Granted | Started | Paced (not_before: u64)

text \<open>The record that replaces an ended window: only its start moves.\<close>

definition renewed :: "block \<Rightarrow> u64 \<Rightarrow> block" where
  "renewed b now = \<lparr>bl_kind = bl_kind b, bl_until = None, bl_detail = bl_detail b,
     bl_status = None, bl_recorded_at = now\<rparr>"

definition claim_window :: "block option \<Rightarrow> u64 \<Rightarrow> bool \<Rightarrow> claim \<times> block option" where
  "claim_window stored now force =
     (case stored of
        None \<Rightarrow> (Granted, None)
      | Some b \<Rightarrow>
          let e = window_end b
          in if \<not> force \<and> now < e then (Paced e, None)
             else (Started, Some (renewed b now)))"

definition display_until :: "u64 \<Rightarrow> u64 option \<Rightarrow> u64 option" where
  "display_until recorded_at until =
     (case until of
        None \<Rightarrow> None
      | Some u \<Rightarrow>
          let trusted = sat_add recorded_at QUOTA_RESET_TRUST_MAX_SECS
          in if u \<le> trusted then Some u else None)"

record fact_view =
  fv_kind :: block_kind
  fv_until :: "u64 option"
  fv_detail :: string
  fv_recorded_at :: u64
  fv_profile :: string

record blocked_fact =
  bf_block :: block
  bf_profile :: string

lemma retry_interval_bounds:
  "MIN_RETRY_INTERVAL_SECS \<le> retry_interval k" "retry_interval k \<le> PAYMENT_RETRY_INTERVAL_SECS"
  by (cases k; simp add: fact_consts)+

lemma window_end_le_trust:
  "window_end b \<le> sat_add (bl_recorded_at b) QUOTA_RESET_TRUST_MAX_SECS"
proof -
  have "retry_interval (bl_kind b) \<le> QUOTA_RESET_TRUST_MAX_SECS"
    by (cases "bl_kind b") (simp_all add: fact_consts)
  then show ?thesis
    by (auto simp: window_end_def Let_def intro: sat_add_mono split: option.split)
qed

text \<open>The window a claim opens ends one interval after the claim.\<close>

lemma window_end_renewed:
  "claim_window f now force = (Started, Some b) \<Longrightarrow>
     window_end b = sat_add now (retry_interval (bl_kind b))"
  by (auto simp: claim_window_def window_end_def renewed_def Let_def split: option.splits if_splits)

lemma claim_window_Started_ended:
  "claim_window (Some f) now False = (Started, r) \<Longrightarrow> window_end f \<le> now"
  by (auto simp: claim_window_def Let_def split: if_splits)

lemma claim_window_cases:
  obtains (granted) "f = None" "claim_window f now force = (Granted, None)"
  | (paced) b where "f = Some b" "\<not> force" "now < window_end b"
      "claim_window f now force = (Paced (window_end b), None)"
  | (started) b where "f = Some b" "force \<or> window_end b \<le> now"
      "claim_window f now force = (Started, Some (renewed b now))"
proof (cases f)
  case None
  then show ?thesis by (intro granted) (simp_all add: claim_window_def)
next
  case (Some b)
  then show ?thesis
    by (cases "\<not> force \<and> now < window_end b")
      (auto simp: claim_window_def intro: paced started)
qed

section \<open>The pacing interface\<close>

text \<open>The trait object: the operations of one implementation over its table type.\<close>

record 't pacing_ops =
  pp_record :: "string \<Rightarrow> block \<Rightarrow> 't \<Rightarrow> 't"
  pp_claim :: "string \<Rightarrow> u64 \<Rightarrow> bool \<Rightarrow> 't \<Rightarrow> (claim \<times> block option) \<times> 't"
  pp_note_success :: "string \<Rightarrow> 't \<Rightarrow> 't"
  pp_release :: "string \<Rightarrow> block \<Rightarrow> 't \<Rightarrow> 't"
  pp_paced_for :: "string \<Rightarrow> u64 \<Rightarrow> 't \<Rightarrow> blocked_fact option"
  pp_snapshot :: "u64 \<Rightarrow> 't \<Rightarrow> fact_view list"

text \<open>What a reader sees of a stored fact.\<close>

definition readable :: "string \<Rightarrow> u64 \<Rightarrow> block option \<Rightarrow> blocked_fact option" where
  "readable p now f =
     (case f of
        None \<Rightarrow> None
      | Some b \<Rightarrow> if is_active b now then Some \<lparr>bf_block = b, bf_profile = p\<rparr> else None)"

text \<open>The contract, over the fact each profile carries (\<open>stored\<close>) and the table's own invariant.\<close>

locale profile_pacing =
  fixes ops :: "'t pacing_ops"
    and stored :: "'t \<Rightarrow> string \<Rightarrow> block option"
    and ok :: "'t \<Rightarrow> bool"
  assumes paced_for: "ok t \<Longrightarrow> pp_paced_for ops p now t = readable p now (stored t p)"
    and record_self: "ok t \<Longrightarrow> stored (pp_record ops p b t) p = Some b"
    and record_other: "ok t \<Longrightarrow> q \<noteq> p \<Longrightarrow>
          stored (pp_record ops p b t) q = stored t q \<or> stored (pp_record ops p b t) q = None"
    and claim_result: "ok t \<Longrightarrow> fst (pp_claim ops p now force t) = claim_window (stored t p) now force"
    and claim_fact: "ok t \<Longrightarrow> stored (snd (pp_claim ops p now force t)) =
          (case snd (claim_window (stored t p) now force) of
             None \<Rightarrow> stored t | Some b \<Rightarrow> (stored t)(p := Some b))"
    and success_fact: "ok t \<Longrightarrow> stored (pp_note_success ops p t) = (stored t)(p := None)"
    and release_fact: "ok t \<Longrightarrow> stored (pp_release ops p w t) =
          (if stored t p = Some w then (stored t)(p := None) else stored t)"
    and ok_record: "ok t \<Longrightarrow> ok (pp_record ops p b t)"
    and ok_claim: "ok t \<Longrightarrow> ok (snd (pp_claim ops p now force t))"
    and ok_success: "ok t \<Longrightarrow> ok (pp_note_success ops p t)"
    and ok_release: "ok t \<Longrightarrow> ok (pp_release ops p w t)"
begin

lemmas ok_intros = ok_record ok_claim ok_success ok_release

text \<open>A claim that was given back unspent leaves no fact behind.\<close>

lemma claim_then_release:
  assumes "ok t" and "pp_claim ops p now force t = ((Started, Some w), t')"
  shows "stored (pp_release ops p w t') p = None"
proof -
  from assms(1) have "claim_window (stored t p) now force = (Started, Some w)"
    using claim_result [of t p now force] assms(2) by simp
  with assms have "stored t' p = Some w"
    using claim_fact [of t p now force] by simp
  moreover have "ok t'" using ok_claim [OF assms(1), of p now force] assms(2) by simp
  ultimately show ?thesis by (simp add: release_fact)
qed

text \<open>A rejection recorded since stays, unless it is the very record of the claim.\<close>

lemma release_keeps_other_record:
  "ok t \<Longrightarrow> b \<noteq> w \<Longrightarrow> stored (pp_release ops p w (pp_record ops p b t)) p = Some b"
  by (simp add: release_fact record_self ok_record)

text \<open>An unforced claim that starts a window paces the next one for a whole interval.\<close>

lemma claim_started_paces:
  assumes "ok t" and "pp_claim ops p now force t = ((Started, Some w), t')"
    and "now' < sat_add now (retry_interval (bl_kind w))"
  shows "fst (pp_claim ops p now' False t') = (Paced (sat_add now (retry_interval (bl_kind w))), None)"
proof -
  from assms(1) have cw: "claim_window (stored t p) now force = (Started, Some w)"
    using claim_result [of t p now force] assms(2) by simp
  with assms(1,2) have "stored t' p = Some w"
    using claim_fact [of t p now force] by simp
  moreover have "ok t'" using ok_claim [OF assms(1), of p now force] assms(2) by simp
  ultimately show ?thesis
    using window_end_renewed [OF cw] assms(3) by (simp add: claim_result claim_window_def)
qed

text \<open>After a served send the profile reads as unmarked, whatever the clock.\<close>

lemma success_unmarks: "ok t \<Longrightarrow> pp_paced_for ops p now (pp_note_success ops p t) = None"
  by (simp add: paced_for ok_success success_fact readable_def)

end

end
