(* ===== verification/Pacing_Table.thy ===== *)
theory Pacing_Table
  imports Facts "HOL-Library.Product_Lexorder" "HOL-Library.Multiset"
begin

text \<open>
  The tagma-wide fact table (\<open>crates/kallipai-tagma/src/profile_pacing.rs\<close>), the provider of the
  \<open>ProfilePacing\<close> interface: a hash map from profile ids to records behind a lock. The theory
  discharges the interface's contract on it and shows its capacity bound, the spacing of probing
  sends, and that what a status surface shows does not depend on the map's iteration order.
\<close>

type_synonym pacing_table = "(string \<times> block) list"

text \<open>\<open>min_by_key\<close>: the first entry of the iteration with the least key.\<close>

fun oldest_entry :: "pacing_table \<Rightarrow> (string \<times> block) option" where
  "oldest_entry [] = None"
| "oldest_entry (e # es) =
     (case oldest_entry es of
        None \<Rightarrow> Some e
      | Some m \<Rightarrow> if bl_recorded_at (snd e) \<le> bl_recorded_at (snd m) then Some e else Some m)"

definition insert_fact :: "pacing_table \<Rightarrow> string \<Rightarrow> block \<Rightarrow> pacing_table" where
  "insert_fact facts p b =
     (let facts' =
        (if map_of facts p = None \<and> FACT_TABLE_CAPACITY \<le> length facts
         then (case oldest_entry facts of
                 None \<Rightarrow> facts
               | Some oldest \<Rightarrow> AList.delete (fst oldest) facts)
         else facts)
      in AList.update p b facts')"

definition table_record :: "string \<Rightarrow> block \<Rightarrow> pacing_table \<Rightarrow> pacing_table" where
  "table_record p b facts = insert_fact facts p b"

definition table_claim ::
  "string \<Rightarrow> u64 \<Rightarrow> bool \<Rightarrow> pacing_table \<Rightarrow> (claim \<times> block option) \<times> pacing_table" where
  "table_claim p now force facts =
     (case claim_window (map_of facts p) now force of
        (claim, Some b) \<Rightarrow> ((claim, Some b), AList.update p b facts)
      | (claim, None) \<Rightarrow> ((claim, None), facts))"

definition table_note_success :: "string \<Rightarrow> pacing_table \<Rightarrow> pacing_table" where
  "table_note_success p facts = AList.delete p facts"

definition table_release :: "string \<Rightarrow> block \<Rightarrow> pacing_table \<Rightarrow> pacing_table" where
  "table_release p window facts =
     (if map_of facts p = Some window then AList.delete p facts else facts)"

definition table_paced_for :: "string \<Rightarrow> u64 \<Rightarrow> pacing_table \<Rightarrow> blocked_fact option" where
  "table_paced_for p now facts =
     (case map_of facts p of
        None \<Rightarrow> None
      | Some b \<Rightarrow> if \<not> is_active b now then None else Some \<lparr>bf_block = b, bf_profile = p\<rparr>)"

definition view_of :: "string \<times> block \<Rightarrow> fact_view" where
  "view_of e =
     \<lparr>fv_kind = bl_kind (snd e), fv_until = display_until (bl_recorded_at (snd e)) (bl_until (snd e)),
      fv_detail = bl_detail (snd e), fv_recorded_at = bl_recorded_at (snd e), fv_profile = fst e\<rparr>"

text \<open>Newest first, then the profile id, then the kind.\<close>

definition view_key :: "fact_view \<Rightarrow> nat \<times> string \<times> string" where
  "view_key v = (2 ^ 64 - 1 - unat (fv_recorded_at v), fv_profile v, kind_str (fv_kind v))"

definition table_snapshot :: "u64 \<Rightarrow> pacing_table \<Rightarrow> fact_view list" where
  "table_snapshot now facts =
     sort_key view_key (map view_of (filter (\<lambda>e. is_active (snd e) now) facts))"

definition table_pacing :: "pacing_table pacing_ops" where
  "table_pacing = \<lparr>pp_record = table_record, pp_claim = table_claim,
     pp_note_success = table_note_success, pp_release = table_release,
     pp_paced_for = table_paced_for, pp_snapshot = table_snapshot\<rparr>"

lemma table_pacing_simps [simp]:
  "pp_record table_pacing = table_record" "pp_claim table_pacing = table_claim"
  "pp_note_success table_pacing = table_note_success" "pp_release table_pacing = table_release"
  "pp_paced_for table_pacing = table_paced_for" "pp_snapshot table_pacing = table_snapshot"
  by (simp_all add: table_pacing_def)

definition table_ok :: "pacing_table \<Rightarrow> bool" where
  "table_ok facts \<longleftrightarrow> keys_distinct facts \<and> length facts \<le> FACT_TABLE_CAPACITY"

section \<open>The contract\<close>

lemma oldest_entry_Some_iff: "oldest_entry es = None \<longleftrightarrow> es = []"
  by (cases es) (simp_all split: option.split)

lemma oldest_entry_min:
  "oldest_entry es = Some m \<Longrightarrow>
     m \<in> set es \<and> (\<forall>e \<in> set es. bl_recorded_at (snd m) \<le> bl_recorded_at (snd e))"
proof (induction es arbitrary: m)
  case Nil
  then show ?case by simp
next
  case (Cons e es)
  then show ?case
    by (cases "oldest_entry es")
      (fastforce simp: oldest_entry_Some_iff split: if_splits)+
qed

lemma length_update:
  "length (AList.update k v al) = (if k \<in> fst ` set al then length al else Suc (length al))"
  by (induction al) auto

lemma length_delete_less:
  "k \<in> fst ` set al \<Longrightarrow> length (AList.delete k al) < length al"
  by (induction al) (auto simp: AList.delete_eq intro: le_less_trans [OF length_filter_le])

lemma keys_distinct_map_of: "keys_distinct al \<Longrightarrow> e \<in> set al \<Longrightarrow> map_of al (fst e) = Some (snd e)"
  by (simp add: keys_distinct_def)

lemma map_of_None_fst: "map_of al k = None \<longleftrightarrow> k \<notin> fst ` set al"
  by (simp add: map_of_eq_None_iff)

lemma length_insert_fact:
  "length facts \<le> FACT_TABLE_CAPACITY \<Longrightarrow> length (insert_fact facts p b) \<le> FACT_TABLE_CAPACITY"
proof (cases "map_of facts p = None \<and> FACT_TABLE_CAPACITY \<le> length facts")
  case True
  assume len: "length facts \<le> FACT_TABLE_CAPACITY"
  from True obtain m where m: "oldest_entry facts = Some m"
    by (cases "oldest_entry facts") (auto simp: oldest_entry_Some_iff FACT_TABLE_CAPACITY_def)
  then have "length (AList.delete (fst m) facts) < length facts"
    by (intro length_delete_less) (auto dest: oldest_entry_min)
  with len True m show ?thesis
    by (simp add: insert_fact_def length_update split: if_splits)
next
  case False
  assume "length facts \<le> FACT_TABLE_CAPACITY"
  with False show ?thesis
    by (auto simp: insert_fact_def Let_def length_update map_of_None_fst)
qed

lemma table_ok_update:
  "table_ok t \<Longrightarrow> map_of t p \<noteq> None \<Longrightarrow> table_ok (AList.update p b t)"
  by (simp add: table_ok_def length_update map_of_None_fst)

lemma table_ok_delete: "table_ok t \<Longrightarrow> table_ok (AList.delete p t)"
  using length_delete_le [of p t] by (auto simp: table_ok_def intro: order_trans)

lemma table_ok_insert: "table_ok t \<Longrightarrow> table_ok (insert_fact t p b)"
  by (auto simp: table_ok_def length_insert_fact)
    (auto simp: insert_fact_def Let_def split: option.split)

lemma table_claim_eq:
  "table_claim p now force t =
     (claim_window (map_of t p) now force,
      case snd (claim_window (map_of t p) now force) of None \<Rightarrow> t | Some b \<Rightarrow> AList.update p b t)"
  by (simp add: table_claim_def split: prod.split option.split)

lemma claim_window_renews: "snd (claim_window f now force) = Some b \<Longrightarrow> f \<noteq> None"
  by (cases rule: claim_window_cases [of f now force]) auto

lemma map_of_record:
  "map_of (table_record p b t) p = Some b"
  "q \<noteq> p \<Longrightarrow> map_of (table_record p b t) q = map_of t q \<or> map_of (table_record p b t) q = None"
  by (auto simp: table_record_def insert_fact_def Let_def split: option.split)

lemma table_ok_record: "table_ok t \<Longrightarrow> table_ok (table_record p b t)"
  by (simp add: table_record_def table_ok_insert)

interpretation table: profile_pacing table_pacing map_of table_ok
  by unfold_locales
    (auto simp: table_paced_for_def readable_def map_of_record table_claim_eq
      table_note_success_def table_release_def table_ok_record
      intro: table_ok_update table_ok_delete dest: claim_window_renews split: option.split)

section \<open>Runs of the table\<close>

datatype table_op =
    TRecord string block
  | TClaim string u64 bool
  | TSuccess string
  | TRelease string block

fun table_step :: "table_op \<Rightarrow> pacing_table \<Rightarrow> pacing_table" where
  "table_step (TRecord p b) t = table_record p b t"
| "table_step (TClaim p now force) t = snd (table_claim p now force t)"
| "table_step (TSuccess p) t = table_note_success p t"
| "table_step (TRelease p w) t = table_release p w t"

lemma table_step_ok: "table_ok t \<Longrightarrow> table_ok (table_step op t)"
  using table.ok_record table.ok_claim table.ok_success table.ok_release by (cases op) auto

interpretation table_runs: invariant_machine table_step table_ok
  by unfold_locales (rule table_step_ok)

text \<open>The moments at which a sequence of unforced claims started a window of one profile.\<close>

fun started_at :: "string \<Rightarrow> (string \<times> u64) list \<Rightarrow> pacing_table \<Rightarrow> u64 list" where
  "started_at p [] t = []"
| "started_at p ((q, now) # cs) t =
     (if q = p \<and> fst (fst (table_claim q now False t)) = Started then [now] else [])
       @ started_at p cs (snd (table_claim q now False t))"

lemma claims_spaced_from:
  "map_of t p = Some b \<Longrightarrow>
     (\<forall>s \<in> set (started_at p cs t). window_end b \<le> s)
     \<and> sorted_wrt (\<lambda>x y. sat_add x (retry_interval (bl_kind b)) \<le> y) (started_at p cs t)"
proof (induction cs arbitrary: t b)
  case Nil
  then show ?case by simp
next
  case (Cons c cs)
  obtain q now where c: "c = (q, now)" by (cases c)
  show ?case
  proof (cases "q = p \<and> window_end b \<le> now")
    case False
    with Cons.prems have keep: "map_of (snd (table_claim q now False t)) p = Some b"
      by (cases rule: claim_window_cases [of "map_of t q" now False])
        (auto simp: table_claim_eq)
    from False Cons.prems have "\<not> (q = p \<and> fst (fst (table_claim q now False t)) = Started)"
      by (auto simp: table_claim_eq claim_window_def Let_def split: if_splits)
    then have "started_at p (c # cs) t = started_at p cs (snd (table_claim q now False t))"
      unfolding c by (simp only: started_at.simps if_False append_Nil)
    with Cons.IH [OF keep] show ?thesis by simp
  next
    case True
    with Cons.prems have claim: "table_claim q now False t
        = ((Started, Some (renewed b now)), AList.update p (renewed b now) t)"
      by (simp add: table_claim_eq claim_window_def not_less [symmetric])
    let ?t' = "AList.update p (renewed b now) t"
    let ?I = "retry_interval (bl_kind b)"
    have kind: "bl_kind (renewed b now) = bl_kind b"
      and wend: "window_end (renewed b now) = sat_add now ?I"
      by (simp_all add: renewed_def window_end_def)
    have IH: "(\<forall>s \<in> set (started_at p cs ?t'). sat_add now ?I \<le> s)
        \<and> sorted_wrt (\<lambda>x y. sat_add x ?I \<le> y) (started_at p cs ?t')"
      using Cons.IH [of ?t' "renewed b now"] kind wend by simp
    moreover have "started_at p (c # cs) t = now # started_at p cs ?t'"
      using True claim by (simp add: c)
    moreover have "window_end b \<le> s" if "sat_add now ?I \<le> s" for s
      using True that sat_add_ge(1) [of now ?I] by (meson order_trans)
    ultimately show ?thesis using True by auto
  qed
qed

section \<open>Properties\<close>

text \<open>Whatever sequence of calls the agents make, the table holds one record per profile and
  never more than its capacity.\<close>

theorem table_bounded: "table_ok (fold table_step ops [])"
  by (rule table_runs.run_inv) (simp add: table_ok_def)

text \<open>A new profile at capacity evicts exactly one record, one with the least recording time,
  and every other profile keeps its fact.\<close>

theorem eviction_is_oldest:
  assumes "keys_distinct facts" and "FACT_TABLE_CAPACITY \<le> length facts" and "map_of facts p = None"
  shows "\<exists>q r. map_of facts q = Some r
    \<and> (\<forall>e \<in> set facts. bl_recorded_at r \<le> bl_recorded_at (snd e))
    \<and> map_of (table_record p b facts) = (map_of facts)(q := None, p := Some b)"
proof -
  from assms(2) obtain m where m: "oldest_entry facts = Some m"
    by (cases "oldest_entry facts") (auto simp: oldest_entry_Some_iff FACT_TABLE_CAPACITY_def)
  then have "m \<in> set facts" and "\<forall>e \<in> set facts. bl_recorded_at (snd m) \<le> bl_recorded_at (snd e)"
    by (auto dest: oldest_entry_min)
  moreover have "map_of (table_record p b facts) = (map_of facts)(fst m := None, p := Some b)"
    using assms(2,3) m by (simp add: table_record_def insert_fact_def)
  ultimately show ?thesis using keys_distinct_map_of [OF assms(1)] by blast
qed

definition demo_block :: block where
  "demo_block = \<lparr>bl_kind = Quota, bl_until = None, bl_detail = ''429'', bl_status = Some 429,
     bl_recorded_at = 1000\<rparr>"

definition table_of_size :: "nat \<Rightarrow> pacing_table" where
  "table_of_size n = map (\<lambda>k. (replicate k CHR ''p'', demo_block)) [0..<n]"

abbreviation full_table :: pacing_table where
  "full_table \<equiv> table_of_size 256"

lemma bl_kind_demo [simp]: "bl_kind demo_block = Quota"
  by (simp add: demo_block_def)

lemma table_of_size_facts:
  "keys_distinct (table_of_size n)" "length (table_of_size n) = n"
  "map_of (table_of_size n) ''new'' = None"
proof -
  have "x = y" if "replicate x CHR ''p'' = replicate y CHR ''p''" for x y :: nat
    using arg_cong [OF that, of length] by simp
  then have "inj_on (\<lambda>k. replicate k CHR ''p'') (set [0..<n])" by (auto intro!: inj_onI)
  then show "keys_distinct (table_of_size n)"
    by (simp only: keys_distinct_def table_of_size_def map_map comp_def fst_conv distinct_map
        distinct_upt)
  show "length (table_of_size n) = n" by (simp add: table_of_size_def)
  have "replicate k CHR ''p'' \<noteq> ''new''" for k by (cases k) auto
  then show "map_of (table_of_size n) ''new'' = None"
    unfolding map_of_None_fst table_of_size_def by (force dest: sym)
qed

theorem eviction_is_oldest_witness:
  "\<exists>q r. map_of full_table q = Some r
    \<and> map_of (table_record ''new'' demo_block full_table)
        = (map_of full_table)(q := None, ''new'' := Some demo_block)"
  using eviction_is_oldest [of full_table "''new''" demo_block] table_of_size_facts
  unfolding FACT_TABLE_CAPACITY_def by (metis order_refl)

text \<open>One probing send per window: among any interleaving of unforced claims by any number of
  senders on a marked profile, the claims that start a window are spaced by at least the
  interval of the record's kind, whatever the clocks read.\<close>

theorem probing_sends_spaced:
  assumes "map_of t p = Some b"
  shows "sorted_wrt (\<lambda>x y. sat_add x (retry_interval (bl_kind b)) \<le> y) (started_at p cs t)"
  using claims_spaced_from [OF assms] by blast

definition demo_claims :: "(string \<times> u64) list" where
  "demo_claims = [(''p'', 1030), (''p'', 1060), (''p'', 1100), (''p'', 1130)]"

theorem probing_sends_spaced_witness:
  "started_at ''p'' demo_claims [(''p'', demo_block)] = [1060, 1130]
   \<and> sorted_wrt (\<lambda>x y. sat_add x 60 \<le> y) (started_at ''p'' demo_claims [(''p'', demo_block)])"
proof
  show "started_at ''p'' demo_claims [(''p'', demo_block)] = [1060, 1130]"
    by (simp add: demo_claims_def demo_block_def table_claim_eq claim_window_def window_end_def
        renewed_def fact_consts sat_add_def Let_def)
  show "sorted_wrt (\<lambda>x y. sat_add x 60 \<le> y) (started_at ''p'' demo_claims [(''p'', demo_block)])"
    using probing_sends_spaced [of "[(''p'', demo_block)]" "''p''" demo_block demo_claims]
    by (simp add: fact_consts)
qed

text \<open>A claim that was never spent leaves no trace: giving back the window a claim started
  removes the record, while a rejection another writer recorded in between stays.\<close>

theorem unspent_claim_released:
  assumes "table_ok t" and "table_claim p now force t = ((Started, Some w), t')"
  shows "map_of (table_release p w t') p = None
    \<and> (b \<noteq> w \<longrightarrow> map_of (table_release p w (table_record p b t')) p = Some b)"
proof -
  have "table_ok t'" using table.ok_claim [OF assms(1), of p now force] assms(2) by simp
  then show ?thesis
    using table.claim_then_release [OF assms(1), of p now force w t'] assms(2)
      table.release_keeps_other_record [of t' b w p] by simp
qed

theorem unspent_claim_released_witness:
  "map_of (table_release ''p'' (renewed demo_block 1060)
      (snd (table_claim ''p'' 1060 False [(''p'', demo_block)]))) ''p'' = None"
proof -
  have "table_claim ''p'' 1060 False [(''p'', demo_block)]
      = ((Started, Some (renewed demo_block 1060)), [(''p'', renewed demo_block 1060)])"
    by (simp add: table_claim_eq claim_window_def demo_block_def window_end_def fact_consts
        sat_add_def)
  moreover have "table_ok [(''p'', demo_block)]"
    by (simp add: table_ok_def keys_distinct_def FACT_TABLE_CAPACITY_def)
  ultimately show ?thesis using unspent_claim_released by fastforce
qed

text \<open>A surface and a reader cannot disagree about a reset hint: a hint that is shown is the
  moment the window ends, and a hint that is hidden is one the window does not wait for.\<close>

theorem shown_hint_is_window_end:
  assumes "bl_until b = Some u"
  shows "window_end b =
    (case display_until (bl_recorded_at b) (bl_until b) of
       Some v \<Rightarrow> v
     | None \<Rightarrow> sat_add (bl_recorded_at b) QUOTA_RESET_TRUST_MAX_SECS)"
  using assms by (auto simp: window_end_def display_until_def Let_def min_def)

theorem shown_hint_is_window_end_witness:
  "window_end (demo_block\<lparr>bl_until := Some 999999\<rparr>) = 87400"
  using shown_hint_is_window_end [of "demo_block\<lparr>bl_until := Some 999999\<rparr>" 999999]
  by (simp add: demo_block_def display_until_def fact_consts sat_add_def)

lemma view_key_inj: "keys_distinct t \<Longrightarrow> inj_on (view_key \<circ> view_of) (set t)"
  by (auto simp: inj_on_def view_key_def view_of_def keys_distinct_def dest: map_of_is_SomeI)
    (metis map_of_is_SomeI option.inject)

text \<open>A status surface renders one order across runs: two tables with the same records, in
  any two iteration orders of the hash map, give the same snapshot.\<close>

theorem snapshot_order_independent:
  assumes "keys_distinct t" and "mset t' = mset t"
  shows "table_snapshot now t' = table_snapshot now t"
proof -
  let ?f = "\<lambda>t. map view_of (filter (\<lambda>e. is_active (snd e) now) t)"
  have perm: "mset (?f t') = mset (?f t)" by (simp add: assms(2))
  have "inj_on view_key (set (?f t))"
    using view_key_inj [OF assms(1)] by (force simp: inj_on_def)
  moreover have "set (?f t') = set (?f t)" using perm by (rule mset_eq_setD)
  ultimately show ?thesis
    unfolding table_snapshot_def using perm by (intro sort_key_inj_key_eq) simp_all
qed

theorem snapshot_order_independent_witness:
  "keys_distinct [(''a'', demo_block), (''b'', demo_block)]
   \<and> table_snapshot 1001 [(''b'', demo_block), (''a'', demo_block)]
     = table_snapshot 1001 [(''a'', demo_block), (''b'', demo_block)]"
  using snapshot_order_independent
      [of "[(''a'', demo_block), (''b'', demo_block)]" "[(''b'', demo_block), (''a'', demo_block)]"]
  by (simp add: keys_distinct_def)

end
