(* ===== verification/Json.thy ===== *)
theory Json
  imports Text
begin

text \<open>
  A parsed JSON value and the accessors of the JSON library the code uses. A number carries its
  value when it is an integer, an object its entries in the map's iteration order. Parsing and
  printing are the library's and stay parameters.
\<close>

datatype json =
    JNull
  | JBool bool
  | JNumber "int option"
  | JString string
  | JArray "json list"
  | JObject "(string \<times> json) list"

fun json_get :: "json \<Rightarrow> string \<Rightarrow> json option" where
  "json_get (JObject m) k = map_of m k"
| "json_get _ k = None"

fun json_str :: "json \<Rightarrow> string option" where
  "json_str (JString s) = Some s"
| "json_str _ = None"

fun json_i64 :: "json \<Rightarrow> int option" where
  "json_i64 (JNumber (Some n)) = (if - (2 ^ 63) \<le> n \<and> n < 2 ^ 63 then Some n else None)"
| "json_i64 _ = None"

fun json_u64 :: "json \<Rightarrow> u64 option" where
  "json_u64 (JNumber (Some n)) = (if 0 \<le> n \<and> n < 2 ^ 64 then Some (of_int n) else None)"
| "json_u64 _ = None"

definition str_field :: "string \<Rightarrow> json \<Rightarrow> string option" where
  "str_field k v = Option.bind (json_get v k) json_str"

end
