(* ===== verification/Llm_Error.thy ===== *)
theory Llm_Error
  imports Json
begin

text \<open>
  LLM errors as the runtime observes them, and their rendering
  (\<open>crates/kallipai-adk/src/llm_error.rs\<close>). The error types belong to the client library: the
  model keeps what the code reads of them, which is each layer's \<open>Display\<close> text and the typed
  variants the code downcasts to, and the two accessors \<open>provider_rejection\<close> and
  \<open>captured_body\<close> as what they returned. The JSON parser is a parameter \<open>parse_json\<close>.
\<close>

section \<open>Observed errors\<close>

datatype json_category = CatIo | CatSyntax | CatData | CatEof

datatype transport_error =
    InvalidConfig
  | BuildClient
  | HttpStatus u16 string
  | TransportFailed
  | FrameDeserialize json_category
  | Utf8
  | BodyTooLarge
  | InvalidResponse
  | TransportOther

datatype provider_error =
    ProviderSerialize
  | ProviderInvalidRequest
  | BodyDeserialize json_category
  | ProviderTransport transport_error
  | ProviderOther

text \<open>One node of the \<open>source()\<close> chain: its text, and the type it downcasts to.\<close>

datatype source_type = IsProvider provider_error | IsTransport transport_error | IsOther

record error_layer =
  el_display :: string
  el_type :: source_type

datatype backend_variant = VInvalidRequest | VSerialization | VUnserializable | VProvider | VOther

record rejection =
  rj_status :: u16
  rj_code :: "string option"
  rj_type :: "string option"

record backend_error =
  be_variant :: backend_variant
  be_display :: string
  be_sources :: "error_layer list"
  be_rejection :: "rejection option"
  be_body :: "string option"

section \<open>Rendering\<close>

definition BODY_DISPLAY_LIMIT :: usize where "BODY_DISPLAY_LIMIT = 512"

definition BODY_LOG_LIMIT :: usize where "BODY_LOG_LIMIT = 8 * 1024"

text \<open>The ellipsis U+2026.\<close>

definition ellipsis :: string where
  "ellipsis = [CHR 0xE2, CHR 0x80, CHR 0xA6]"

definition push_layer :: "error_layer \<Rightarrow> string \<Rightarrow> string" where
  "push_layer l msg =
     (if el_display l \<noteq> [] \<and> \<not> suffix (el_display l) msg
      then msg @ '': '' @ el_display l else msg)"

definition dedup_chain :: "backend_error \<Rightarrow> string" where
  "dedup_chain e = fold push_layer (be_sources e) (be_display e)"

definition layer_http_body :: "error_layer \<Rightarrow> string option" where
  "layer_http_body l =
     (case el_type l of
        IsTransport (HttpStatus _ body) \<Rightarrow> if body = [] then None else Some body
      | _ \<Rightarrow> None)"

definition extract_http_body :: "backend_error \<Rightarrow> string option" where
  "extract_http_body e = find_map layer_http_body (be_sources e)"

definition truncate_body :: "string \<Rightarrow> string" where
  "truncate_body text =
     (if char_count text \<le> BODY_DISPLAY_LIMIT then text
      else take_chars BODY_DISPLAY_LIMIT text @ ellipsis)"

definition or_else :: "'a option \<Rightarrow> 'a option \<Rightarrow> 'a option" where
  "or_else a b = (case a of None \<Rightarrow> b | Some x \<Rightarrow> Some x)"

definition body_message :: "json \<Rightarrow> string option" where
  "body_message value =
     or_else
       (Option.bind (Option.bind (json_get value ''error'') (\<lambda>err. json_get err ''message''))
          json_str)
       (Option.bind (json_get value ''message'') json_str)"

definition format_body :: "(string \<Rightarrow> json option) \<Rightarrow> string \<Rightarrow> string" where
  "format_body parse_json raw =
     (let extracted = Option.bind (parse_json raw) body_message;
          text = (case extracted of Some t \<Rightarrow> t | None \<Rightarrow> raw)
      in truncate_body (join_str '' '' (split_whitespace text)))"

definition render_error :: "(string \<Rightarrow> json option) \<Rightarrow> backend_error \<Rightarrow> string" where
  "render_error parse_json e =
     (case extract_http_body e of
        Some body \<Rightarrow> dedup_chain e @ '': '' @ format_body parse_json body
      | None \<Rightarrow> dedup_chain e)"

definition http_body_for_log :: "backend_error \<Rightarrow> string option" where
  "http_body_for_log e =
     (case extract_http_body e of
        None \<Rightarrow> None
      | Some body \<Rightarrow>
          Some (if char_count body \<le> BODY_LOG_LIMIT then body
                else take_chars BODY_LOG_LIMIT body @ ellipsis @ ''[truncated, ''
                  @ show_nat (char_count body) @ '' chars total]''))"

section \<open>Facts\<close>

text \<open>A wrapper that inlines its source as a suffix adds nothing to the message.\<close>

lemma push_layer_inlined: "suffix (el_display l) msg \<Longrightarrow> push_layer l msg = msg"
  by (simp add: push_layer_def)

lemma push_layer_grows: "prefix msg (push_layer l msg)"
  by (simp add: push_layer_def)

lemma push_layer_shows: "suffix (el_display l) (push_layer l msg)"
  by (auto simp: push_layer_def suffix_def)

lemma fold_push_grows: "prefix msg (fold push_layer ls msg)"
proof (induction ls arbitrary: msg)
  case Nil
  then show ?case by simp
next
  case (Cons l ls)
  then show ?case using push_layer_grows prefix_order.trans by fastforce
qed

lemma prefix_contains: "prefix p s \<Longrightarrow> contains_str p w \<Longrightarrow> contains_str s w"
  by (fastforce simp: contains_str_iff prefix_def)

lemma suffix_contains: "suffix w s \<Longrightarrow> contains_str s w"
  by (metis append_Nil2 contains_str_iff suffix_def)

lemma dedup_chain_shows_layer:
  "l \<in> set ls \<Longrightarrow> contains_str (fold push_layer ls msg) (el_display l)"
proof (induction ls arbitrary: msg)
  case Nil
  then show ?case by simp
next
  case (Cons k ls)
  show ?case
  proof (cases "l = k")
    case True
    have "contains_str (push_layer k msg) (el_display k)"
      by (rule suffix_contains [OF push_layer_shows])
    with True show ?thesis
      using prefix_contains [OF fold_push_grows] by simp
  next
    case False
    with Cons show ?thesis by simp
  qed
qed

lemma truncate_body_count: "char_count (truncate_body s) \<le> BODY_DISPLAY_LIMIT + 1"
  by (simp add: truncate_body_def take_chars_count ellipsis_def is_cont_def)

section \<open>Properties\<close>

text \<open>Rendering loses no layer of an error: the text of the error itself opens the message and
  the text of every node of its source chain occurs in it, while the excerpt of an HTTP body has
  at most 512 characters and the ellipsis.\<close>

theorem render_error_complete:
  "prefix (be_display e) (render_error pj e)
   \<and> list_all (\<lambda>l. contains_str (render_error pj e) (el_display l)) (be_sources e)
   \<and> char_count (format_body pj body) \<le> 513"
proof (intro conjI)
  have pre: "prefix (dedup_chain e) (render_error pj e)"
    by (simp add: render_error_def split: option.split)
  moreover have "prefix (be_display e) (dedup_chain e)"
    by (simp add: dedup_chain_def fold_push_grows)
  ultimately show "prefix (be_display e) (render_error pj e)"
    using prefix_order.trans by blast
  have "contains_str (dedup_chain e) (el_display l)" if "l \<in> set (be_sources e)" for l
    using that by (simp add: dedup_chain_def dedup_chain_shows_layer)
  then show "list_all (\<lambda>l. contains_str (render_error pj e) (el_display l)) (be_sources e)"
    using prefix_contains [OF pre] by (simp add: list_all_iff)
  show "char_count (format_body pj body) \<le> 513"
    using truncate_body_count by (simp add: format_body_def Let_def BODY_DISPLAY_LIMIT_def)
qed

end
