(* ===== verification/Retry_Classify.thy ===== *)
theory Retry_Classify
  imports Llm_Error Facts
begin

text \<open>
  The failure classifier of the retry core (\<open>crates/kallipai-adk/src/retry/decision.rs\<close>): the
  class of an error, its shape key, the kind of observation it leaves in the retry log and the
  fact it leaves in the shared table, with the parser of the upstream's reset hint.
\<close>

datatype phase = Connect | MidStream

datatype shape_key =
    BodyStructure
  | FrameStructure
  | NotUtf8
  | OversizedBody
  | MalformedResponse
  | StatusRejected u16

datatype transient_kind = TransportLost | Timeout | Server | Truncated

datatype failure_class =
    Transient transient_kind
  | QuotaBlocked
  | Throttled
  | EndpointPermanent
  | RequestPermanent
  | LocalConfig
  | ResponseShape
  | Unclassified

fun class_label :: "failure_class \<Rightarrow> string" where
  "class_label (Transient _) = ''transient failure''"
| "class_label QuotaBlocked = ''upstream quota or payment rejection''"
| "class_label Throttled = ''upstream throttled the request with no reset moment''"
| "class_label EndpointPermanent = ''endpoint or credentials rejected the request''"
| "class_label RequestPermanent = ''the request itself was rejected''"
| "class_label LocalConfig = ''local client configuration error''"
| "class_label ResponseShape = ''the response shape failed twice in this episode''"
| "class_label Unclassified = ''unclassified failure''"

section \<open>Reset hints\<close>

definition RESET_HINT_KEYS :: "string list" where
  "RESET_HINT_KEYS = [''retry_after'', ''retryDelay'', ''retry_after_seconds'']"

fun reset_secs_of :: "json \<Rightarrow> u64 option" where
  "reset_secs_of (JNumber n) = json_u64 (JNumber n)"
| "reset_secs_of (JString text) =
     Option.bind (strip_suffix text ''s'') (\<lambda>secs. parse_u64 (str_trim secs))"
| "reset_secs_of _ = None"

function find_reset_secs :: "json \<Rightarrow> u64 option" where
  "find_reset_secs (JObject m) =
     (case find_map (\<lambda>key. Option.bind (map_of m key) reset_secs_of) RESET_HINT_KEYS of
        Some secs \<Rightarrow> Some secs
      | None \<Rightarrow> find_map find_reset_secs (map snd m))"
| "find_reset_secs (JArray items) = find_map find_reset_secs items"
| "find_reset_secs JNull = None"
| "find_reset_secs (JBool b) = None"
| "find_reset_secs (JNumber n) = None"
| "find_reset_secs (JString s) = None"
  by pat_completeness auto
termination
proof (relation "measure size")
  fix m :: "(string \<times> json) list" and x
  assume "x \<in> set (map snd m)"
  then obtain e where "e \<in> set m" and "x = snd e" by auto
  then have "size x < size_list (size_prod (\<lambda>_. 0) size) m + 1"
    by (induction m) auto
  then show "(x, JObject m) \<in> measure size" by simp
next
  fix items :: "json list" and x
  assume "x \<in> set items"
  then show "(x, JArray items) \<in> measure size"
    by (simp add: size_list_estimation' [of _ _ "size x"] le_imp_less_Suc)
qed simp

definition body_carries_reset_hint :: "(string \<Rightarrow> json option) \<Rightarrow> string option \<Rightarrow> bool" where
  "body_carries_reset_hint parse_json body =
     (case body of
        None \<Rightarrow> False
      | Some b \<Rightarrow> (case parse_json b of None \<Rightarrow> False | Some v \<Rightarrow> find_reset_secs v \<noteq> None))"

definition reset_hint :: "(string \<Rightarrow> json option) \<Rightarrow> backend_error \<Rightarrow> u64 \<Rightarrow> u64 option" where
  "reset_hint parse_json e now =
     Option.bind (be_body e) (\<lambda>body.
     Option.bind (parse_json body) (\<lambda>value.
     map_option (sat_add now) (find_reset_secs value)))"

section \<open>Classification\<close>

definition QUOTA_EVIDENCE :: "string list" where
  "QUOTA_EVIDENCE = [''insufficient_quota'', ''quota'', ''billing'', ''x-ratelimit'']"

definition or_empty :: "string option \<Rightarrow> string" where
  "or_empty s = (case s of None \<Rightarrow> [] | Some t \<Rightarrow> t)"

definition quota_evidence :: "string option \<Rightarrow> string option \<Rightarrow> string option \<Rightarrow> bool" where
  "quota_evidence code error_type body =
     (let haystack = ascii_lower (join_str '' '' [or_empty code, or_empty error_type, or_empty body])
      in list_ex (contains_str haystack) QUOTA_EVIDENCE)"

definition is_server_error :: "u16 \<Rightarrow> bool" where
  "is_server_error status \<longleftrightarrow> 500 \<le> status \<and> status < 600"

text \<open>The arms of the source's match, in order.\<close>

definition from_status ::
  "(string \<Rightarrow> json option) \<Rightarrow> u16 \<Rightarrow> string option \<Rightarrow> string option \<Rightarrow> string option \<Rightarrow> phase
     \<Rightarrow> failure_class" where
  "from_status parse_json status code error_type body phase =
     (if status = 429 \<and> \<not> body_carries_reset_hint parse_json body then Throttled
      else if status = 429 \<or> status = 402 then QuotaBlocked
      else if status = 403 \<and> quota_evidence code error_type body then QuotaBlocked
      else if status = 403 \<or> status = 401 \<or> status = 404 then EndpointPermanent
      else if status = 400 \<or> status = 422 then
        (case phase of Connect \<Rightarrow> RequestPermanent | MidStream \<Rightarrow> ResponseShape)
      else if status = 408 then Transient Timeout
      else if is_server_error status then Transient Server
      else RequestPermanent)"

fun from_json_category :: "json_category \<Rightarrow> failure_class" where
  "from_json_category CatData = ResponseShape"
| "from_json_category CatEof = Transient Truncated"
| "from_json_category CatSyntax = Transient Truncated"
| "from_json_category CatIo = Transient TransportLost"

fun from_transport ::
  "(string \<Rightarrow> json option) \<Rightarrow> transport_error \<Rightarrow> phase \<Rightarrow> failure_class" where
  "from_transport pj InvalidConfig phase = LocalConfig"
| "from_transport pj BuildClient phase = LocalConfig"
| "from_transport pj (HttpStatus status body) phase =
     from_status pj status None None (Some body) phase"
| "from_transport pj TransportFailed phase = Transient TransportLost"
| "from_transport pj (FrameDeserialize cat) phase = from_json_category cat"
| "from_transport pj Utf8 phase = ResponseShape"
| "from_transport pj BodyTooLarge phase = ResponseShape"
| "from_transport pj InvalidResponse phase = ResponseShape"
| "from_transport pj TransportOther phase = Unclassified"

fun from_provider ::
  "(string \<Rightarrow> json option) \<Rightarrow> provider_error \<Rightarrow> phase \<Rightarrow> failure_class" where
  "from_provider pj ProviderSerialize phase = RequestPermanent"
| "from_provider pj ProviderInvalidRequest phase = RequestPermanent"
| "from_provider pj (BodyDeserialize cat) phase = from_json_category cat"
| "from_provider pj (ProviderTransport t) phase = from_transport pj t phase"
| "from_provider pj ProviderOther phase = Unclassified"

text \<open>The walk down the chain: the first node that can be classified wins.\<close>

fun classify_sources ::
  "(string \<Rightarrow> json option) \<Rightarrow> error_layer list \<Rightarrow> phase \<Rightarrow> failure_class" where
  "classify_sources pj [] phase = Unclassified"
| "classify_sources pj (l # ls) phase =
     (case el_type l of
        IsProvider p \<Rightarrow> from_provider pj p phase
      | IsTransport t \<Rightarrow> from_transport pj t phase
      | IsOther \<Rightarrow> classify_sources pj ls phase)"

definition classify :: "(string \<Rightarrow> json option) \<Rightarrow> backend_error \<Rightarrow> phase \<Rightarrow> failure_class" where
  "classify pj e phase =
     (case be_variant e of
        VInvalidRequest \<Rightarrow> RequestPermanent
      | VSerialization \<Rightarrow> RequestPermanent
      | VUnserializable \<Rightarrow> RequestPermanent
      | VOther \<Rightarrow> Unclassified
      | VProvider \<Rightarrow>
          (case be_rejection e of
             Some r \<Rightarrow> from_status pj (rj_status r) (rj_code r) (rj_type r) (be_body e) phase
           | None \<Rightarrow> classify_sources pj (be_sources e) phase))"

fun transport_shape :: "transport_error \<Rightarrow> shape_key option" where
  "transport_shape (FrameDeserialize cat) = (if cat = CatData then Some FrameStructure else None)"
| "transport_shape Utf8 = Some NotUtf8"
| "transport_shape BodyTooLarge = Some OversizedBody"
| "transport_shape InvalidResponse = Some MalformedResponse"
| "transport_shape (HttpStatus status _) =
     (if status = 400 \<or> status = 422 then Some (StatusRejected status) else None)"
| "transport_shape _ = None"

text \<open>A provider node that is not a parse failure does not end this walk.\<close>

fun shape_of_sources :: "error_layer list \<Rightarrow> shape_key option" where
  "shape_of_sources [] = None"
| "shape_of_sources (l # ls) =
     (case el_type l of
        IsProvider (BodyDeserialize cat) \<Rightarrow> if cat = CatData then Some BodyStructure else None
      | IsTransport t \<Rightarrow> transport_shape t
      | _ \<Rightarrow> shape_of_sources ls)"

definition shape_key :: "backend_error \<Rightarrow> shape_key option" where
  "shape_key e = shape_of_sources (be_sources e)"

section \<open>Records and facts\<close>

datatype retry_kind_t = RateLimit | TimeoutKind | ServerKind | TransportKind

fun retry_kind :: "failure_class \<Rightarrow> retry_kind_t option" where
  "retry_kind (Transient TransportLost) = Some TransportKind"
| "retry_kind (Transient Truncated) = Some TransportKind"
| "retry_kind (Transient Timeout) = Some TimeoutKind"
| "retry_kind (Transient Server) = Some ServerKind"
| "retry_kind QuotaBlocked = Some RateLimit"
| "retry_kind Throttled = Some RateLimit"
| "retry_kind ResponseShape = Some TransportKind"
| "retry_kind EndpointPermanent = None"
| "retry_kind RequestPermanent = None"
| "retry_kind LocalConfig = None"
| "retry_kind Unclassified = None"

text \<open>The derived \<open>Debug\<close> text of a shape key.\<close>

fun shape_debug :: "shape_key \<Rightarrow> string" where
  "shape_debug BodyStructure = ''BodyStructure''"
| "shape_debug FrameStructure = ''FrameStructure''"
| "shape_debug NotUtf8 = ''NotUtf8''"
| "shape_debug OversizedBody = ''OversizedBody''"
| "shape_debug MalformedResponse = ''MalformedResponse''"
| "shape_debug (StatusRejected s) = ''StatusRejected('' @ show_nat (unat s) @ '')''"

definition detail_of :: "(string \<Rightarrow> json option) \<Rightarrow> failure_class \<Rightarrow> backend_error \<Rightarrow> string" where
  "detail_of pj class e =
     (if class \<noteq> ResponseShape then render_error pj e
      else
        let key = (case shape_key e of Some k \<Rightarrow> shape_debug k | None \<Rightarrow> ''unknown'')
        in case Option.bind (be_rejection e) rj_code of
             Some code \<Rightarrow> ''shape '' @ key @ '', provider code '' @ code
           | None \<Rightarrow> ''shape '' @ key)"

fun fact_kind :: "failure_class \<Rightarrow> backend_error \<Rightarrow> block_kind option" where
  "fact_kind QuotaBlocked e =
     Some (if map_option rj_status (be_rejection e) = Some 402 then Payment else Quota)"
| "fact_kind Throttled e = Some Quota"
| "fact_kind EndpointPermanent e = Some EndpointAuth"
| "fact_kind ResponseShape e = Some EndpointShape"
| "fact_kind (Transient _) e = None"
| "fact_kind RequestPermanent e = None"
| "fact_kind LocalConfig e = None"
| "fact_kind Unclassified e = None"

definition fact_of ::
  "(string \<Rightarrow> json option) \<Rightarrow> failure_class \<Rightarrow> backend_error \<Rightarrow> u64 \<Rightarrow> block option" where
  "fact_of pj class e now =
     (case fact_kind class e of
        None \<Rightarrow> None
      | Some kind \<Rightarrow>
          Some \<lparr>bl_kind = kind, bl_until = reset_hint pj e now, bl_detail = detail_of pj class e,
            bl_status = map_option rj_status (be_rejection e), bl_recorded_at = now\<rparr>)"

section \<open>Reset hints as entries of the tree\<close>

text \<open>An entry of an object somewhere in a JSON value, at any depth.\<close>

inductive entry_at :: "string \<Rightarrow> json \<Rightarrow> json \<Rightarrow> bool" where
  here: "map_of m k = Some w \<Longrightarrow> entry_at k w (JObject m)"
| in_object: "(k', v) \<in> set m \<Longrightarrow> entry_at k w v \<Longrightarrow> entry_at k w (JObject m)"
| in_array: "v \<in> set items \<Longrightarrow> entry_at k w v \<Longrightarrow> entry_at k w (JArray items)"

inductive_cases entry_at_ObjectE: "entry_at k w (JObject m)"
inductive_cases entry_at_ArrayE: "entry_at k w (JArray items)"
inductive_simps entry_at_leaf [simp]:
  "entry_at k w JNull" "entry_at k w (JBool b)" "entry_at k w (JNumber n)" "entry_at k w (JString s)"

lemma find_reset_secs_sound:
  "find_reset_secs v = Some secs \<Longrightarrow>
     \<exists>k w. entry_at k w v \<and> k \<in> set RESET_HINT_KEYS \<and> reset_secs_of w = Some secs"
proof (induction v arbitrary: secs rule: find_reset_secs.induct)
  case (1 m)
  show ?case
  proof (cases "find_map (\<lambda>key. Option.bind (map_of m key) reset_secs_of) RESET_HINT_KEYS")
    case None
    with "1.prems" obtain v where v: "v \<in> set (map snd m)" "find_reset_secs v = Some secs"
      by (auto dest: find_map_SomeD)
    with "1.IH" [OF None] obtain k w where
      "entry_at k w v" "k \<in> set RESET_HINT_KEYS" "reset_secs_of w = Some secs" by blast
    with v(1) show ?thesis by (fastforce intro: in_object)
  next
    case (Some s)
    with "1.prems" obtain k w where
      "k \<in> set RESET_HINT_KEYS" "map_of m k = Some w" "reset_secs_of w = Some secs"
      by (auto dest!: find_map_SomeD simp: bind_eq_Some_conv)
    then show ?thesis by (blast intro: here)
  qed
next
  case (2 items)
  from "2.prems" obtain v where "v \<in> set items" "find_reset_secs v = Some secs"
    by (auto dest: find_map_SomeD)
  with "2.IH" show ?case by (blast intro: in_array)
qed auto

lemma find_reset_secs_complete:
  "entry_at k w v \<Longrightarrow> k \<in> set RESET_HINT_KEYS \<Longrightarrow> reset_secs_of w = Some secs \<Longrightarrow>
     find_reset_secs v \<noteq> None"
proof (induction rule: entry_at.induct)
  case (here m k w)
  then have "find_map (\<lambda>key. Option.bind (map_of m key) reset_secs_of) RESET_HINT_KEYS \<noteq> None"
    by (auto simp: find_map_None_iff bind_eq_Some_conv)
  then show ?case by (auto split: option.split)
next
  case (in_object key v m k w)
  then have "find_reset_secs v \<noteq> None" and "v \<in> set (map snd m)" by (simp, force)
  then have "find_map find_reset_secs (map snd m) \<noteq> None" by (metis find_map_None_iff)
  then show ?case by (auto split: option.split)
next
  case (in_array v items k w)
  then show ?case by (auto simp: find_map_None_iff)
qed

lemma body_carries_reset_hint_iff:
  "body_carries_reset_hint pj (be_body e) \<longleftrightarrow> reset_hint pj e now \<noteq> None"
  by (auto simp: body_carries_reset_hint_def reset_hint_def split: option.split)

section \<open>Classes, kinds and shapes\<close>

lemma classify_status:
  "be_variant e = VProvider \<Longrightarrow> be_rejection e = Some r \<Longrightarrow>
     classify pj e phase = from_status pj (rj_status r) (rj_code r) (rj_type r) (be_body e) phase"
  by (simp add: classify_def)

lemma from_status_Throttled:
  "from_status pj s c t body phase = Throttled \<longleftrightarrow> s = 429 \<and> \<not> body_carries_reset_hint pj body"
  by (auto simp: from_status_def split: phase.split)

lemma from_status_ResponseShape:
  "from_status pj s c t body phase = ResponseShape \<longleftrightarrow> phase = MidStream \<and> (s = 400 \<or> s = 422)"
  by (auto simp: from_status_def is_server_error_def split: phase.split)

lemma from_json_category_ResponseShape [simp]:
  "from_json_category cat = ResponseShape \<longleftrightarrow> cat = CatData"
  by (cases cat) simp_all

lemma from_transport_shape:
  "from_transport pj t phase = ResponseShape \<Longrightarrow> transport_shape t \<noteq> None"
  by (cases t) (auto simp: from_status_ResponseShape)

text \<open>The record predicate of the shell: the kinds that park the round always have a log kind.\<close>

lemma parking_fact_has_kind:
  "fact_of pj class e now = Some b \<Longrightarrow> parks_the_round (bl_kind b) \<Longrightarrow>
     retry_kind class = Some RateLimit"
  by (cases "class") (auto simp: fact_of_def)

text \<open>What the client library's error types promise of a chain: the wrapper of a transport error
  has it as its source, and the status a rejection reports is the one its transport node carries.\<close>

fun wrapped_transports :: "error_layer list \<Rightarrow> bool" where
  "wrapped_transports [] = True"
| "wrapped_transports (l # ls) =
     ((case el_type l of
         IsProvider (ProviderTransport t) \<Rightarrow> (case ls of [] \<Rightarrow> False | k # _ \<Rightarrow> el_type k = IsTransport t)
       | _ \<Rightarrow> True) \<and> wrapped_transports ls)"

fun first_status :: "error_layer list \<Rightarrow> u16 option" where
  "first_status [] = None"
| "first_status (l # ls) =
     (case el_type l of
        IsOther \<Rightarrow> first_status ls
      | IsProvider (ProviderTransport t) \<Rightarrow> first_status ls
      | IsProvider _ \<Rightarrow> None
      | IsTransport (HttpStatus s _) \<Rightarrow> Some s
      | IsTransport _ \<Rightarrow> None)"

definition chain_coherent :: "backend_error \<Rightarrow> bool" where
  "chain_coherent e \<longleftrightarrow> wrapped_transports (be_sources e)
     \<and> (be_rejection e = None \<or> first_status (be_sources e) = map_option rj_status (be_rejection e))"

lemma shape_of_sources_status:
  "first_status ls = Some s \<Longrightarrow> s = 400 \<or> s = 422 \<Longrightarrow> shape_of_sources ls = Some (StatusRejected s)"
  by (induction ls) (auto split: source_type.splits provider_error.splits transport_error.splits)

lemma shape_of_sources_classified:
  "wrapped_transports ls \<Longrightarrow> classify_sources pj ls phase = ResponseShape \<Longrightarrow>
     shape_of_sources ls \<noteq> None"
proof (induction ls)
  case Nil
  then show ?case by simp
next
  case (Cons l ls)
  show ?case
  proof (cases "el_type l")
    case (IsProvider p)
    with Cons.prems show ?thesis
      by (cases p) (auto split: list.splits dest: from_transport_shape)
  next
    case (IsTransport t)
    with Cons.prems show ?thesis by (auto dest: from_transport_shape)
  next
    case IsOther
    with Cons show ?thesis by simp
  qed
qed

section \<open>Properties\<close>

text \<open>The hint parser finds a reset moment exactly when some object in the body, at whatever
  depth, has a whitelisted key with a value that reads as seconds.\<close>

theorem reset_hint_found_iff:
  "find_reset_secs v \<noteq> None \<longleftrightarrow>
     (\<exists>k w secs. entry_at k w v \<and> k \<in> set RESET_HINT_KEYS \<and> reset_secs_of w = Some secs)"
  using find_reset_secs_sound [of v] find_reset_secs_complete [of _ _ v] by blast

text \<open>The same error classifies the same, and has the same shape key, however deeply it is
  nested: any number of opaque wrappers on its source chain changes neither.\<close>

theorem classification_depth_independent:
  fixes ds :: "string list"
  defines "wrap \<equiv> \<lambda>e. e\<lparr>be_sources :=
    map (\<lambda>d. \<lparr>el_display = d, el_type = IsOther\<rparr>) ds @ be_sources e\<rparr>"
  shows "classify pj (wrap e) phase = classify pj e phase \<and> shape_key (wrap e) = shape_key e"
proof -
  have "classify_sources pj (map (\<lambda>d. \<lparr>el_display = d, el_type = IsOther\<rparr>) ds @ ls) phase
      = classify_sources pj ls phase" for ls by (induction ds) simp_all
  moreover have "shape_of_sources (map (\<lambda>d. \<lparr>el_display = d, el_type = IsOther\<rparr>) ds @ ls)
      = shape_of_sources ls" for ls by (induction ds) simp_all
  ultimately show ?thesis
    by (simp add: wrap_def classify_def shape_key_def split: backend_variant.split option.split)
qed

text \<open>No response-shape failure is keyless: whenever the classifier answers that class, the
  shape walk finds a key to compare, so the repeat gate always has a comparison to make. The
  hypothesis is what the error library's own source chain promises.\<close>

theorem shape_failures_have_keys:
  assumes "chain_coherent e" and "classify pj e phase = ResponseShape"
  shows "shape_key e \<noteq> None"
proof (cases "be_rejection e")
  case None
  with assms have "classify_sources pj (be_sources e) phase = ResponseShape"
    by (auto simp: classify_def split: backend_variant.splits)
  with assms(1) show ?thesis
    using shape_of_sources_classified by (auto simp: chain_coherent_def shape_key_def)
next
  case (Some r)
  with assms have "rj_status r = 400 \<or> rj_status r = 422"
    by (auto simp: classify_def from_status_ResponseShape split: backend_variant.splits)
  with assms(1) Some have "shape_key e = Some (StatusRejected (rj_status r))"
    by (simp add: chain_coherent_def shape_key_def shape_of_sources_status)
  then show ?thesis by simp
qed

definition demo_rejected :: backend_error where
  "demo_rejected = \<lparr>be_variant = VProvider, be_display = ''backend'',
     be_sources = [\<lparr>el_display = ''p'', el_type = IsProvider (ProviderTransport (HttpStatus 422 ''{}''))\<rparr>,
       \<lparr>el_display = ''t'', el_type = IsTransport (HttpStatus 422 ''{}'')\<rparr>],
     be_rejection = Some \<lparr>rj_status = 422, rj_code = None, rj_type = None\<rparr>,
     be_body = Some ''{}''\<rparr>"

theorem shape_failures_have_keys_witness:
  "chain_coherent demo_rejected \<and> classify (\<lambda>_. Some (JObject [])) demo_rejected MidStream = ResponseShape
   \<and> shape_key demo_rejected \<noteq> None"
proof -
  have "chain_coherent demo_rejected" by (simp add: chain_coherent_def demo_rejected_def)
  moreover have "classify (\<lambda>_. Some (JObject [])) demo_rejected MidStream = ResponseShape"
    by (simp add: classify_def demo_rejected_def from_status_ResponseShape)
  ultimately show ?thesis using shape_failures_have_keys by blast
qed

text \<open>What separates the two 429 rows: a throttle's fact carries no moment, a quota rejection's
  fact carries the upstream's own, measured from now.\<close>

theorem rejection_429_facts:
  assumes "be_variant e = VProvider" and "be_rejection e = Some r" and "rj_status r = 429"
  shows "(case fact_of pj (classify pj e phase) e now of
      None \<Rightarrow> False
    | Some b \<Rightarrow> bl_kind b = Quota \<and> bl_status b = Some 429
        \<and> bl_until b = reset_hint pj e now
        \<and> (classify pj e phase = Throttled \<longleftrightarrow> bl_until b = None)
        \<and> (classify pj e phase = QuotaBlocked \<longleftrightarrow> bl_until b \<noteq> None))"
proof -
  have "classify pj e phase = (if reset_hint pj e now = None then Throttled else QuotaBlocked)"
    using assms body_carries_reset_hint_iff [of pj e now]
    by (simp add: classify_status from_status_def)
  then show ?thesis using assms by (simp add: fact_of_def)
qed

theorem rejection_429_facts_witness:
  "fact_of (\<lambda>_. Some (JObject [(''x'', JArray [JObject [(''retryDelay'', JString ''120s'')]])]))
     QuotaBlocked (demo_rejected\<lparr>be_rejection := Some \<lparr>rj_status = 429, rj_code = None, rj_type = None\<rparr>\<rparr>)
     1000 \<noteq> None
   \<and> classify (\<lambda>_. None) (demo_rejected\<lparr>be_rejection := Some \<lparr>rj_status = 429, rj_code = None,
       rj_type = None\<rparr>\<rparr>) Connect = Throttled"
proof -
  let ?e = "demo_rejected\<lparr>be_rejection := Some \<lparr>rj_status = 429, rj_code = None, rj_type = None\<rparr>\<rparr>"
  have "reset_hint (\<lambda>_. None) ?e 1000 = None" by (simp add: reset_hint_def demo_rejected_def)
  then have "classify (\<lambda>_. None) ?e Connect = Throttled"
    using rejection_429_facts [where e = ?e and pj = "\<lambda>_. None" and phase = Connect and now = 1000]
    by (auto simp: demo_rejected_def split: option.splits)
  then show ?thesis by (simp add: fact_of_def)
qed

end
