(* ===== verification/Retry_Decision.thy ===== *)
theory Retry_Decision
  imports Retry_Classify
begin

text \<open>
  The attempt ledger of one episode and the verdict (\<open>crates/kallipai-adk/src/retry/decision.rs\<close>,
  with the policy of \<open>retry.rs\<close>): the projection of the ledger and an attempt into facts, the
  backoff schedule, and the decision table. The shared fact table comes in as a reading.
\<close>

section \<open>Policy and ledger\<close>

record retry_policy =
  max_retries :: u32
  base_delay :: duration
  max_delay :: duration
  retry_timeout :: duration

definition default_policy :: retry_policy where
  "default_policy = \<lparr>max_retries = 10, base_delay = nanos_per_sec, max_delay = 60 * nanos_per_sec,
     retry_timeout = 300 * nanos_per_sec\<rparr>"

definition max_sends :: "retry_policy \<Rightarrow> u32" where
  "max_sends policy = sat_add (max_retries policy) 1"

record claimed_window =
  cw_profile :: string
  cw_record :: "block option"

record episode =
  ep_attempts :: u32
  ep_started :: u64
  ep_shape :: "shape_key option"
  ep_claim :: "claimed_window option"

definition episode_new :: "u64 \<Rightarrow> episode" where
  "episode_new now = \<lparr>ep_attempts = 0, ep_started = now, ep_shape = None, ep_claim = None\<rparr>"

definition after_attempt :: "episode \<Rightarrow> episode" where
  "after_attempt ep = ep\<lparr>ep_attempts := sat_add (ep_attempts ep) 1\<rparr>"

definition shape_failed :: "shape_key \<Rightarrow> episode \<Rightarrow> episode" where
  "shape_failed key ep = ep\<lparr>ep_shape := Some key\<rparr>"

definition claimed :: "episode \<Rightarrow> bool" where
  "claimed ep \<longleftrightarrow> ep_claim ep \<noteq> None"

definition claimed_record :: "episode \<Rightarrow> block option" where
  "claimed_record ep = Option.bind (ep_claim ep) cw_record"

definition after_claim :: "string \<Rightarrow> block option \<Rightarrow> episode \<Rightarrow> episode" where
  "after_claim profile rec ep = ep\<lparr>ep_claim := Some \<lparr>cw_profile = profile, cw_record = rec\<rparr>\<rparr>"

definition after_release :: "episode \<Rightarrow> episode" where
  "after_release ep = ep\<lparr>ep_claim := None\<rparr>"

definition ep_elapsed :: "episode \<Rightarrow> u64 \<Rightarrow> duration" where
  "ep_elapsed ep now = dur_of_secs (sat_sub now (ep_started ep))"

definition spend_shape_slot :: "backend_error \<Rightarrow> episode \<Rightarrow> episode" where
  "spend_shape_slot e ep = (case shape_key e of None \<Rightarrow> ep | Some key \<Rightarrow> shape_failed key ep)"

section \<open>Attempts and facts\<close>

datatype attempt_origin = System | External

text \<open>The marker \<open>Alternative\<close> carries nothing: the reading has a candidate or it has none.\<close>

record table_reading =
  tr_blocked :: "blocked_fact option"
  tr_alternative :: "unit option"

definition no_reading :: table_reading where
  "no_reading = \<lparr>tr_blocked = None, tr_alternative = None\<rparr>"

record attempt =
  at_phase :: phase
  at_origin :: attempt_origin
  at_failure :: "failure_class option"
  at_shape :: "shape_key option"
  at_now :: u64
  at_jitter :: duration
  at_reading :: table_reading

definition pre_send :: "phase \<Rightarrow> attempt_origin \<Rightarrow> u64 \<Rightarrow> table_reading \<Rightarrow> attempt" where
  "pre_send phase origin now reading =
     \<lparr>at_phase = phase, at_origin = origin, at_failure = None, at_shape = None, at_now = now,
      at_jitter = 0, at_reading = reading\<rparr>"

definition attempt_failed ::
  "phase \<Rightarrow> failure_class \<Rightarrow> shape_key option \<Rightarrow> u64 \<Rightarrow> duration \<Rightarrow> attempt" where
  "attempt_failed phase failure shape now jitter =
     \<lparr>at_phase = phase, at_origin = System, at_failure = Some failure, at_shape = shape,
      at_now = now, at_jitter = jitter, at_reading = no_reading\<rparr>"

record facts =
  fa_attempts :: u32
  fa_elapsed :: duration
  fa_previous_shape :: "shape_key option"
  fa_phase :: phase
  fa_failure :: "failure_class option"
  fa_shape :: "shape_key option"
  fa_jitter :: duration
  fa_origin :: attempt_origin
  fa_blocked :: "blocked_fact option"
  fa_alternative :: "unit option"

definition episode_facts :: "episode \<Rightarrow> attempt \<Rightarrow> facts" where
  "episode_facts ep at =
     \<lparr>fa_attempts = ep_attempts ep, fa_elapsed = ep_elapsed ep (at_now at),
      fa_previous_shape = ep_shape ep, fa_phase = at_phase at, fa_failure = at_failure at,
      fa_shape = at_shape at, fa_jitter = at_jitter at, fa_origin = at_origin at,
      fa_blocked = tr_blocked (at_reading at), fa_alternative = tr_alternative (at_reading at)\<rparr>"

section \<open>The verdict\<close>

datatype stop_kind = ChainExhausted | ExternalOnly

datatype decision =
    Proceed
  | Retry (retry_after_of: duration)
  | AdvanceFailover string
  | Stop stop_kind string
  | Fatal string

definition SHAPE_REPEAT_ALLOWED :: u32 where "SHAPE_REPEAT_ALLOWED = 1"

definition THROTTLE_SENDS_ALLOWED :: u32 where "THROTTLE_SENDS_ALLOWED = 2"

definition shape_sends_allowed :: "shape_key option \<Rightarrow> shape_key \<Rightarrow> u32" where
  "shape_sends_allowed previous key =
     sat_sub SHAPE_REPEAT_ALLOWED (if previous = Some key then 1 else 0)"

definition SHAPE_UNIDENTIFIED :: string where
  "SHAPE_UNIDENTIFIED = ''unidentifiable response shape, so another send would repeat it''"

definition DEADLINE_EXHAUSTED :: string where
  "DEADLINE_EXHAUSTED = ''retry deadline exhausted''"

fun budget_exhausted_reason :: "phase \<Rightarrow> string" where
  "budget_exhausted_reason Connect = ''retry budget exhausted''"
| "budget_exhausted_reason MidStream = ''mid-stream retry budget exhausted''"

fun fact_reason :: "block_kind \<Rightarrow> string" where
  "fact_reason Quota = ''upstream quota exhausted for this account''"
| "fact_reason Payment = ''upstream payment required for this account''"
| "fact_reason EndpointAuth = ''endpoint credentials rejected''"
| "fact_reason EndpointShape = ''endpoint response shape rejected''"

text \<open>\<open>1u32.checked_shl(n)\<close> is \<open>None\<close> for a shift by the width or more.\<close>

definition shl_or_max :: "u32 \<Rightarrow> u32" where
  "shl_or_max n = (if n < 32 then push_bit (unat n) 1 else - 1)"

definition backoff_schedule :: "retry_policy \<Rightarrow> u32 \<Rightarrow> duration \<Rightarrow> duration" where
  "backoff_schedule policy expo jitter =
     dur_add (min (dur_mul (base_delay policy) (shl_or_max expo)) (max_delay policy)) jitter"

definition retry_after :: "facts \<Rightarrow> retry_policy \<Rightarrow> duration" where
  "retry_after fs policy =
     min (backoff_schedule policy (sat_sub (fa_attempts fs) 1) (fa_jitter fs))
       (retry_timeout policy - fa_elapsed fs)"

definition retry_or_stop :: "facts \<Rightarrow> retry_policy \<Rightarrow> decision" where
  "retry_or_stop fs policy =
     (if max_sends policy \<le> fa_attempts fs then
        Stop ChainExhausted (budget_exhausted_reason (fa_phase fs))
      else if retry_timeout policy \<le> fa_elapsed fs then Stop ChainExhausted DEADLINE_EXHAUSTED
      else Retry (retry_after fs policy))"

definition blocked_exit :: "facts \<Rightarrow> block \<Rightarrow> decision" where
  "blocked_exit fs b =
     (case fa_alternative fs of
        Some _ \<Rightarrow> AdvanceFailover (fact_reason (bl_kind b))
      | None \<Rightarrow> Stop ExternalOnly (fact_reason (bl_kind b)))"

fun class_row :: "failure_class \<Rightarrow> facts \<Rightarrow> retry_policy \<Rightarrow> decision" where
  "class_row (Transient k) fs policy = retry_or_stop fs policy"
| "class_row ResponseShape fs policy =
     (case fa_shape fs of
        Some key \<Rightarrow>
          if 0 < shape_sends_allowed (fa_previous_shape fs) key then retry_or_stop fs policy
          else AdvanceFailover (class_label ResponseShape)
      | None \<Rightarrow> AdvanceFailover SHAPE_UNIDENTIFIED)"
| "class_row Throttled fs policy =
     (if fa_attempts fs < min THROTTLE_SENDS_ALLOWED (max_sends policy)
      then retry_or_stop fs policy
      else AdvanceFailover (class_label Throttled))"
| "class_row QuotaBlocked fs policy = AdvanceFailover (class_label QuotaBlocked)"
| "class_row EndpointPermanent fs policy = AdvanceFailover (class_label EndpointPermanent)"
| "class_row LocalConfig fs policy = Stop ExternalOnly (class_label LocalConfig)"
| "class_row RequestPermanent fs policy = Fatal (class_label RequestPermanent)"
| "class_row Unclassified fs policy = Fatal (class_label Unclassified)"

definition decide_unblocked :: "facts \<Rightarrow> retry_policy \<Rightarrow> decision" where
  "decide_unblocked fs policy =
     (case fa_failure fs of
        None \<Rightarrow>
          if max_sends policy \<le> fa_attempts fs
          then Stop ChainExhausted (budget_exhausted_reason (fa_phase fs))
          else Proceed
      | Some c \<Rightarrow> class_row c fs policy)"

definition decide :: "facts \<Rightarrow> retry_policy \<Rightarrow> decision" where
  "decide fs policy =
     (case fa_blocked fs of
        Some bf \<Rightarrow>
          if \<not> (fa_origin fs = External \<and> fa_failure fs = None)
          then blocked_exit fs (bf_block bf)
          else decide_unblocked fs policy
      | None \<Rightarrow> decide_unblocked fs policy)"

section \<open>The schedule\<close>

lemma unat_shl_or_max:
  "unat (shl_or_max n) = (if unat n < 32 then 2 ^ unat n else 2 ^ 32 - 1)"
proof (cases "unat n < 32")
  case True
  then have "n < 32" by (simp add: word_less_nat_alt)
  moreover have "(2 :: nat) ^ unat n < 2 ^ 32" using True by (intro power_strict_increasing) simp_all
  then have "unat (push_bit (unat n) (1 :: u32)) = 2 ^ unat n"
    by (subst unsigned_push_bit_eq) (simp add: push_bit_eq_mult take_bit_eq_mod mod_less)
  ultimately show ?thesis using True by (simp only: shl_or_max_def if_True)
next
  case False
  then have "\<not> n < 32" by (simp add: word_less_nat_alt)
  with False show ?thesis by (simp add: shl_or_max_def unat_minus_one_max)
qed

lemma shl_or_max_mono: "m \<le> n \<Longrightarrow> unat (shl_or_max m) \<le> unat (shl_or_max n)"
proof -
  assume "m \<le> n"
  then have le: "unat m \<le> unat n" by (simp add: word_le_nat_alt)
  show ?thesis
  proof (cases "unat n < 32")
    case True
    with le show ?thesis by (simp add: unat_shl_or_max)
  next
    case False
    have "(2::nat) ^ unat m \<le> 2 ^ 31" if "unat m < 32"
      by (rule power_increasing) (use that in simp_all)
    with False show ?thesis by (auto simp: unat_shl_or_max)
  qed
qed

lemma dur_mul_mono: "unat m \<le> unat n \<Longrightarrow> dur_mul d m \<le> dur_mul d n"
  by (simp add: dur_mul_def min_le_iff_disj)

lemma dur_add_mono: "a \<le> b \<Longrightarrow> dur_add a j \<le> dur_add b j"
  by (auto simp: dur_add_def)

lemma backoff_le: "backoff_schedule policy n j \<le> max_delay policy + j"
  by (auto simp: backoff_schedule_def dur_add_def)

lemma backoff_mono: "m \<le> n \<Longrightarrow> backoff_schedule policy m j \<le> backoff_schedule policy n j"
  unfolding backoff_schedule_def
  by (intro dur_add_mono min.mono dur_mul_mono shl_or_max_mono order_refl)

section \<open>The verdicts\<close>

lemma retry_or_stop_Retry:
  "retry_or_stop fs policy = Retry w \<longleftrightarrow>
     fa_attempts fs < max_sends policy \<and> fa_elapsed fs < retry_timeout policy
       \<and> w = retry_after fs policy"
  by (auto simp: retry_or_stop_def)

lemma retry_or_stop_not:
  "retry_or_stop fs policy \<noteq> Proceed" "retry_or_stop fs policy \<noteq> AdvanceFailover r"
  "retry_or_stop fs policy \<noteq> Fatal r"
  by (simp_all add: retry_or_stop_def)

lemma retry_kind_transient: "\<exists>y. retry_kind (Transient k) = Some y"
  by (cases k) simp_all

lemma class_row_Retry:
  "class_row c fs policy = Retry w \<Longrightarrow>
     retry_or_stop fs policy = Retry w \<and> retry_kind c \<noteq> None
       \<and> (c = Throttled \<longrightarrow> fa_attempts fs < THROTTLE_SENDS_ALLOWED)"
  by (cases c) (auto split: option.splits if_splits simp: retry_kind_transient)

lemma class_row_not_Proceed: "class_row c fs policy \<noteq> Proceed"
  by (cases c) (auto simp: retry_or_stop_not split: option.splits)

lemma decide_failed:
  "decide (episode_facts ep (attempt_failed ph c sh now j)) policy
     = class_row c (episode_facts ep (attempt_failed ph c sh now j)) policy"
  by (simp add: decide_def decide_unblocked_def episode_facts_def attempt_failed_def no_reading_def)

lemma decide_pre_send:
  "decide (episode_facts ep (pre_send ph origin now rd)) policy =
     (case tr_blocked rd of
        Some bf \<Rightarrow>
          if origin = System
          then (case tr_alternative rd of
                  Some _ \<Rightarrow> AdvanceFailover (fact_reason (bl_kind (bf_block bf)))
                | None \<Rightarrow> Stop ExternalOnly (fact_reason (bl_kind (bf_block bf))))
          else if max_sends policy \<le> ep_attempts ep
          then Stop ChainExhausted (budget_exhausted_reason ph) else Proceed
      | None \<Rightarrow>
          if max_sends policy \<le> ep_attempts ep
          then Stop ChainExhausted (budget_exhausted_reason ph) else Proceed)"
  by (cases origin)
    (auto simp: decide_def decide_unblocked_def episode_facts_def pre_send_def blocked_exit_def
      split: option.split)

lemma decide_no_reading:
  "decide (episode_facts ep (pre_send ph origin now no_reading)) policy = Proceed
     \<longleftrightarrow> ep_attempts ep < max_sends policy"
  by (auto simp: decide_pre_send no_reading_def)

lemma episode_facts_failed [simp]:
  "fa_attempts (episode_facts ep (attempt_failed ph c sh now j)) = ep_attempts ep"
  "fa_elapsed (episode_facts ep (attempt_failed ph c sh now j)) = ep_elapsed ep now"
  "fa_shape (episode_facts ep (attempt_failed ph c sh now j)) = sh"
  "fa_previous_shape (episode_facts ep (attempt_failed ph c sh now j)) = ep_shape ep"
  "fa_jitter (episode_facts ep (attempt_failed ph c sh now j)) = j"
  "fa_phase (episode_facts ep (attempt_failed ph c sh now j)) = ph"
  by (simp_all add: episode_facts_def attempt_failed_def)

section \<open>Properties\<close>

text \<open>C18. Every settled failure gets a sound verdict, whatever the ledger, the clock and the policy:
  it is never \<open>Proceed\<close>; a retry is granted only to a class that has a log kind, only while the
  episode has sends and time left, and its wait ends by the episode's deadline and never exceeds
  the schedule's cap and the jitter; a throttle is retried only once.\<close>

theorem failure_verdict_sound:
  "(case decide (episode_facts ep (attempt_failed ph c sh now j)) policy of
      Proceed \<Rightarrow> False
    | Retry w \<Rightarrow> retry_kind c \<noteq> None \<and> ep_attempts ep < max_sends policy
        \<and> ep_elapsed ep now + w \<le> retry_timeout policy \<and> w \<le> max_delay policy + j
        \<and> (if c = Throttled then ep_attempts ep < 2 else True)
    | _ \<Rightarrow> True)"
proof (cases "class_row c (episode_facts ep (attempt_failed ph c sh now j)) policy")
  case Proceed
  then show ?thesis by (simp add: class_row_not_Proceed)
next
  case (Retry w)
  let ?fs = "episode_facts ep (attempt_failed ph c sh now j)"
  from class_row_Retry [OF Retry] have row: "retry_or_stop ?fs policy = Retry w"
    and kind: "retry_kind c \<noteq> None" "c = Throttled \<longrightarrow> ep_attempts ep < 2"
    by (simp_all add: THROTTLE_SENDS_ALLOWED_def)
  from row have gate: "ep_attempts ep < max_sends policy" "ep_elapsed ep now < retry_timeout policy"
    and w: "w = retry_after ?fs policy" by (simp_all only: retry_or_stop_Retry episode_facts_failed)
  have "w \<le> retry_timeout policy - ep_elapsed ep now"
    by (simp only: w retry_after_def episode_facts_failed min.cobounded2)
  then have "ep_elapsed ep now + w \<le> retry_timeout policy" using gate(2) by linarith
  moreover have "w \<le> max_delay policy + j"
    unfolding w retry_after_def episode_facts_failed using backoff_le by (rule min.coboundedI1)
  ultimately show ?thesis
    unfolding decide_failed Retry decision.case if_bool_eq_conj using gate(1) kind by blast
qed (simp_all add: decide_failed)

text \<open>The backoff never shortens from one send to the next, and while the shift fits the 32-bit
  factor it is exactly the capped doubling plus the jitter.\<close>

theorem backoff_is_capped_doubling:
  assumes "m \<le> n" and "max_delay policy + j \<le> duration_max"
  shows "backoff_schedule policy m j \<le> backoff_schedule policy n j
    \<and> backoff_schedule policy n j =
        min (base_delay policy * (if unat n < 32 then 2 ^ unat n else 2 ^ 32 - 1)) (max_delay policy) + j"
proof
  show "backoff_schedule policy m j \<le> backoff_schedule policy n j"
    using assms(1) by (rule backoff_mono)
  show "backoff_schedule policy n j =
      min (base_delay policy * (if unat n < 32 then 2 ^ unat n else 2 ^ 32 - 1)) (max_delay policy) + j"
    using assms(2) by (simp add: backoff_schedule_def dur_mul_def dur_add_def unat_shl_or_max)
qed

theorem backoff_is_capped_doubling_witness:
  "map (\<lambda>n. backoff_schedule default_policy n 5) [0, 3, 6, 40]
     = [1000000005, 8000000005, 60000000005, 60000000005]"
proof -
  have "max_delay default_policy + 5 \<le> duration_max"
    by (simp add: default_policy_def nanos_per_sec_def duration_max_def)
  note sched = backoff_is_capped_doubling [OF order_refl this, THEN conjunct2]
  show ?thesis
    by (simp only: list.map sched) (simp add: default_policy_def nanos_per_sec_def)
qed

text \<open>The shape memory: once a retry has spent the slot of a shape, the same shape failing again
  in the episode advances the chain, whatever budget and time are left, and so does a failure
  with no shape to name.\<close>

theorem repeated_shape_advances:
  "\<exists>reason. decide (episode_facts (spend_shape_slot e ep)
     (attempt_failed ph ResponseShape (shape_key e) now j)) policy = AdvanceFailover reason"
  by (cases "shape_key e")
    (simp_all add: decide_failed spend_shape_slot_def shape_failed_def shape_sends_allowed_def
      SHAPE_REPEAT_ALLOWED_def sat_sub_def)

end
