(* ===== verification/Retry_Shell.thy ===== *)
theory Retry_Shell
  imports Retry_Decision Pacing_Table
begin

text \<open>
  The shell that performs the verdicts (\<open>crates/kallipai-adk/src/retry.rs\<close>): the loop of
  \<open>stream_with_retry\<close>, the retry log of \<open>crates/kallipai-common/src/retry.rs\<close> and the write of
  what a failure taught to the shared table. What the loop meets is a list of \<open>send_env\<close>, one
  entry per iteration: the clock readings, the answer of the send, the jitter, and whether the
  backoff ran out or was cancelled. A list that ends before the loop does gives \<open>None\<close>.
\<close>

section \<open>Records and outcomes\<close>

record retry_record =
  rr_timestamp :: u64
  rr_round :: usize
  rr_attempt :: u32
  rr_max_attempts :: u32
  rr_error :: string
  rr_delay :: duration
  rr_provider :: "string option"
  rr_kind :: retry_kind_t
  rr_quota_reset :: "u64 option"

record retry_attempt =
  ra_round :: usize
  ra_attempt :: u32
  ra_max_attempts :: u32

definition record_retry ::
  "retry_attempt \<Rightarrow> u64 \<Rightarrow> string option \<Rightarrow> retry_kind_t \<Rightarrow> string \<Rightarrow> duration \<Rightarrow> retry_record" where
  "record_retry at now provider kind err delay =
     \<lparr>rr_timestamp = now, rr_round = ra_round at, rr_attempt = ra_attempt at,
      rr_max_attempts = ra_max_attempts at, rr_error = err, rr_delay = delay,
      rr_provider = provider, rr_kind = kind, rr_quota_reset = None\<rparr>"

definition record_observed ::
  "retry_attempt \<Rightarrow> u64 \<Rightarrow> string option \<Rightarrow> retry_kind_t \<Rightarrow> string \<Rightarrow> u64 option \<Rightarrow> retry_record" where
  "record_observed at now provider kind err quota_reset =
     \<lparr>rr_timestamp = now, rr_round = ra_round at, rr_attempt = ra_attempt at,
      rr_max_attempts = ra_max_attempts at, rr_error = err, rr_delay = 0,
      rr_provider = provider, rr_kind = kind, rr_quota_reset = quota_reset\<rparr>"

datatype retry_event = Retrying u32 u32 string duration

datatype request_failure =
    Failover backend_error
  | Switch string backend_error "block_kind option"
  | StopRound string backend_error
  | FatalRequest backend_error
  | SpentBudget
  | Cancelled

record send_env =
  se_pre_now :: u64
  se_error :: "backend_error option"
  se_failed_now :: u64
  se_jitter :: duration
  se_record_now :: u64
  se_cancelled :: bool

record 't retry_call =
  rc_policy :: retry_policy
  rc_round :: usize
  rc_provider :: string
  rc_profile :: string
  rc_pacing :: "'t pacing_ops option"

record 't shell =
  sh_episode :: episode
  sh_log :: "retry_record list"
  sh_events :: "retry_event list"
  sh_table :: 't

section \<open>The loop\<close>

definition record_fact ::
  "(string \<Rightarrow> json option) \<Rightarrow> 't pacing_ops option \<Rightarrow> string \<Rightarrow> failure_class \<Rightarrow> backend_error \<Rightarrow> u64
     \<Rightarrow> 't \<Rightarrow> 't" where
  "record_fact pj pacing profile c e now table =
     (case pacing of
        None \<Rightarrow> table
      | Some ops \<Rightarrow>
          (case fact_of pj c e now of None \<Rightarrow> table | Some b \<Rightarrow> pp_record ops profile b table))"

definition note_served :: "'t pacing_ops option \<Rightarrow> string \<Rightarrow> 't \<Rightarrow> 't" where
  "note_served pacing profile table =
     (case pacing of None \<Rightarrow> table | Some ops \<Rightarrow> pp_note_success ops profile table)"

definition call_attempt :: "'t retry_call \<Rightarrow> episode \<Rightarrow> retry_attempt" where
  "call_attempt rc ep = \<lparr>ra_round = rc_round rc, ra_attempt = ep_attempts ep,
     ra_max_attempts = max_retries (rc_policy rc)\<rparr>"

text \<open>The retry arm: the slot, the event, the record, the wait.\<close>

definition retry_arm ::
  "(string \<Rightarrow> json option) \<Rightarrow> 't retry_call \<Rightarrow> send_env \<Rightarrow> backend_error \<Rightarrow> retry_kind_t \<Rightarrow> duration
     \<Rightarrow> 't shell \<Rightarrow> request_failure option \<times> 't shell" where
  "retry_arm pj rc env e kind wait sh =
     (let at = call_attempt rc (sh_episode sh);
          msg = render_error pj e;
          sh1 = sh\<lparr>sh_episode := spend_shape_slot e (sh_episode sh),
            sh_events := sh_events sh @
              [Retrying (ra_attempt at) (ra_max_attempts at) msg wait]\<rparr>;
          rec = record_retry at (se_record_now env) (Some (rc_provider rc)) kind msg wait
      in if se_cancelled env then (Some Cancelled, sh1)
         else (None, sh1\<lparr>sh_log := sh_log sh1 @ [rec]\<rparr>))"

text \<open>The advance arm: an observation for the kinds that park the round, then the shared fact.\<close>

definition advance_arm ::
  "(string \<Rightarrow> json option) \<Rightarrow> 't retry_call \<Rightarrow> send_env \<Rightarrow> backend_error \<Rightarrow> failure_class \<Rightarrow> string
     \<Rightarrow> 't shell \<Rightarrow> request_failure option \<times> 't shell" where
  "advance_arm pj rc env e c reason sh =
     (let now = se_record_now env;
          found = fact_of pj c e now;
          parks = (case found of None \<Rightarrow> False | Some b \<Rightarrow> parks_the_round (bl_kind b));
          log = (case (parks, retry_kind c) of
                   (True, Some kind) \<Rightarrow>
                     sh_log sh @ [record_observed (call_attempt rc (sh_episode sh)) now
                       (Some (rc_provider rc)) kind (render_error pj e)
                       (Option.bind found bl_until)]
                 | _ \<Rightarrow> sh_log sh)
      in (Some (Switch reason e (map_option bl_kind found)),
          sh\<lparr>sh_log := log,
             sh_table := record_fact pj (rc_pacing rc) (rc_profile rc) c e now (sh_table sh)\<rparr>))"

definition settle_failure ::
  "(string \<Rightarrow> json option) \<Rightarrow> 't retry_call \<Rightarrow> send_env \<Rightarrow> backend_error \<Rightarrow> 't shell
     \<Rightarrow> request_failure option \<times> 't shell" where
  "settle_failure pj rc env e sh =
     (let c = classify pj e Connect;
          at = attempt_failed Connect c (shape_key e) (se_failed_now env) (se_jitter env)
      in case decide (episode_facts (sh_episode sh) at) (rc_policy rc) of
           Proceed \<Rightarrow> (Some (FatalRequest e), sh)
         | Retry wait \<Rightarrow>
             (case retry_kind c of
                None \<Rightarrow> (Some (FatalRequest e), sh)
              | Some kind \<Rightarrow> retry_arm pj rc env e kind wait sh)
         | AdvanceFailover reason \<Rightarrow> advance_arm pj rc env e c reason sh
         | Stop ExternalOnly reason \<Rightarrow> (Some (StopRound reason e), sh)
         | Stop ChainExhausted reason \<Rightarrow> (Some (Failover e), sh)
         | Fatal reason \<Rightarrow> (Some (FatalRequest e), sh))"

fun stream_with_retry ::
  "(string \<Rightarrow> json option) \<Rightarrow> 't retry_call \<Rightarrow> send_env list \<Rightarrow> 't shell
     \<Rightarrow> ((request_failure + unit) \<times> 't shell \<times> send_env list) option" where
  "stream_with_retry pj rc [] sh = None"
| "stream_with_retry pj rc (env # envs) sh =
     (case decide (episode_facts (sh_episode sh)
             (pre_send Connect System (se_pre_now env) no_reading)) (rc_policy rc) of
        Proceed \<Rightarrow>
          (let sh1 = sh\<lparr>sh_episode := after_attempt (sh_episode sh)\<rparr>
           in case se_error env of
                None \<Rightarrow>
                  Some (Inr (), sh1\<lparr>sh_table :=
                    note_served (rc_pacing rc) (rc_profile rc) (sh_table sh)\<rparr>, envs)
              | Some e \<Rightarrow>
                  (case settle_failure pj rc env e sh1 of
                     (Some f, sh2) \<Rightarrow> Some (Inl f, sh2, envs)
                   | (None, sh2) \<Rightarrow> stream_with_retry pj rc envs sh2))
      | _ \<Rightarrow> Some (Inl SpentBudget, sh, env # envs))"

section \<open>One failure\<close>

lemma attempts_spend [simp]: "ep_attempts (spend_shape_slot e ep) = ep_attempts ep"
  by (simp add: spend_shape_slot_def shape_failed_def split: option.split)

lemma attempts_after [simp]: "ep_attempts (after_attempt ep) = sat_add (ep_attempts ep) 1"
  by (simp add: after_attempt_def)

lemma advance_arm_facts:
  assumes "advance_arm pj rc env e c reason sh = (r, sh')"
  shows "\<exists>b. r = Some (Switch reason e b) \<and> b = map_option bl_kind (fact_of pj c e (se_record_now env))
    \<and> sh_episode sh' = sh_episode sh
    \<and> sh_table sh' = record_fact pj (rc_pacing rc) (rc_profile rc) c e (se_record_now env) (sh_table sh)
    \<and> (\<exists>recs. sh_log sh' = sh_log sh @ recs
        \<and> length recs = (if \<exists>k. b = Some k \<and> parks_the_round k then 1 else 0)
        \<and> (\<forall>rec \<in> set recs. rr_attempt rec = ep_attempts (sh_episode sh)))"
proof (cases "fact_of pj c e (se_record_now env)")
  case None
  with assms show ?thesis by (auto simp: advance_arm_def Let_def)
next
  case (Some b)
  show ?thesis
  proof (cases "parks_the_round (bl_kind b)")
    case True
    then have "retry_kind c = Some RateLimit" by (rule parking_fact_has_kind [OF Some])
    with assms True Some show ?thesis
      by (auto simp: advance_arm_def Let_def record_observed_def call_attempt_def)
  next
    case False
    with assms Some show ?thesis by (auto simp: advance_arm_def Let_def)
  qed
qed

text \<open>A settled failure goes on only through a retry that slept; otherwise the loop ends.\<close>

lemma settle_cases:
  assumes "settle_failure pj rc env e sh = (r, sh')"
  obtains (slept) wait rec where "r = None"
      "decide (episode_facts (sh_episode sh) (attempt_failed Connect (classify pj e Connect)
         (shape_key e) (se_failed_now env) (se_jitter env))) (rc_policy rc) = Retry wait"
      "ep_attempts (sh_episode sh') = ep_attempts (sh_episode sh)"
      "sh_log sh' = sh_log sh @ [rec]" "rr_attempt rec = ep_attempts (sh_episode sh)"
      "sh_table sh' = sh_table sh"
  | (cancelled) "r = Some Cancelled" "sh_log sh' = sh_log sh" "sh_table sh' = sh_table sh"
      "ep_attempts (sh_episode sh') = ep_attempts (sh_episode sh)"
  | (advanced) reason where
      "advance_arm pj rc env e (classify pj e Connect) reason sh = (r, sh')"
  | (ended) f where "r = Some f" "sh' = sh"
      "f \<in> {FatalRequest e, Failover e} \<union> range (\<lambda>reason. StopRound reason e)"
proof (cases "decide (episode_facts (sh_episode sh) (attempt_failed Connect (classify pj e Connect)
         (shape_key e) (se_failed_now env) (se_jitter env))) (rc_policy rc)")
  case (Retry wait)
  then have "retry_kind (classify pj e Connect) \<noteq> None"
    by (metis class_row_Retry decide_failed)
  then obtain kind where kind: "retry_kind (classify pj e Connect) = Some kind" by auto
  with assms Retry have arm: "retry_arm pj rc env e kind wait sh = (r, sh')"
    by (simp add: settle_failure_def Let_def)
  show ?thesis
  proof (cases "se_cancelled env")
    case True
    with arm show ?thesis by (intro cancelled) (auto simp: retry_arm_def Let_def)
  next
    case False
    with arm Retry show ?thesis
      by (intro slept [of wait "record_retry (call_attempt rc (sh_episode sh)) (se_record_now env)
            (Some (rc_provider rc)) kind (render_error pj e) wait"])
        (auto simp: retry_arm_def Let_def record_retry_def call_attempt_def)
  qed
next
  case (AdvanceFailover reason)
  with assms show ?thesis by (intro advanced) (simp add: settle_failure_def Let_def)
next
  case (Stop k reason)
  with assms show ?thesis
    by (cases k; intro ended) (auto simp: settle_failure_def Let_def)
next
  case Proceed
  with assms show ?thesis by (intro ended) (auto simp: settle_failure_def Let_def)
next
  case (Fatal reason)
  with assms show ?thesis by (intro ended) (auto simp: settle_failure_def Let_def)
qed

lemma settle_attempts:
  "settle_failure pj rc env e sh = (r, sh') \<Longrightarrow>
     ep_attempts (sh_episode sh') = ep_attempts (sh_episode sh)"
  by (erule settle_cases) (auto dest: advance_arm_facts)

lemma stream_Cons:
  "stream_with_retry pj rc (env # envs) sh =
     (if ep_attempts (sh_episode sh) < max_sends (rc_policy rc) then
        let sh1 = sh\<lparr>sh_episode := after_attempt (sh_episode sh)\<rparr>
        in case se_error env of
             None \<Rightarrow> Some (Inr (), sh1\<lparr>sh_table :=
               note_served (rc_pacing rc) (rc_profile rc) (sh_table sh)\<rparr>, envs)
           | Some e \<Rightarrow>
               (case settle_failure pj rc env e sh1 of
                  (Some f, sh2) \<Rightarrow> Some (Inl f, sh2, envs)
                | (None, sh2) \<Rightarrow> stream_with_retry pj rc envs sh2)
      else Some (Inl SpentBudget, sh, env # envs))"
proof (cases "ep_attempts (sh_episode sh) < max_sends (rc_policy rc)")
  case True
  then have "decide (episode_facts (sh_episode sh)
      (pre_send Connect System (se_pre_now env) no_reading)) (rc_policy rc) = Proceed"
    by (simp add: decide_no_reading)
  with True show ?thesis by (simp add: Let_def)
next
  case False
  then have "decide (episode_facts (sh_episode sh)
      (pre_send Connect System (se_pre_now env) no_reading)) (rc_policy rc) \<noteq> Proceed"
    by (simp add: decide_no_reading)
  with False show ?thesis by (simp split: decision.split)
qed

lemma unat_after_attempt:
  "ep_attempts ep < max_sends policy \<Longrightarrow> unat (ep_attempts (after_attempt ep)) = Suc (unat (ep_attempts ep))"
  using unat_le_max [of "max_sends policy"] by (simp add: sat_simps word_less_nat_alt)

declare stream_with_retry.simps(2) [simp del]

text \<open>One iteration, read from its result.\<close>

lemma stream_step:
  assumes "stream_with_retry pj rc (env # envs) sh = res"
  obtains (spent) "\<not> ep_attempts (sh_episode sh) < max_sends (rc_policy rc)"
      "res = Some (Inl SpentBudget, sh, env # envs)"
  | (opened) sh1 where "ep_attempts (sh_episode sh) < max_sends (rc_policy rc)"
      "sh1 = sh\<lparr>sh_episode := after_attempt (sh_episode sh),
         sh_table := note_served (rc_pacing rc) (rc_profile rc) (sh_table sh)\<rparr>"
      "res = Some (Inr (), sh1, envs)"
  | (ended) e f sh2 where "ep_attempts (sh_episode sh) < max_sends (rc_policy rc)"
      "se_error env = Some e"
      "settle_failure pj rc env e (sh\<lparr>sh_episode := after_attempt (sh_episode sh)\<rparr>) = (Some f, sh2)"
      "res = Some (Inl f, sh2, envs)"
  | (again) e sh2 where "ep_attempts (sh_episode sh) < max_sends (rc_policy rc)"
      "se_error env = Some e"
      "settle_failure pj rc env e (sh\<lparr>sh_episode := after_attempt (sh_episode sh)\<rparr>) = (None, sh2)"
      "res = stream_with_retry pj rc envs sh2"
proof (cases "ep_attempts (sh_episode sh) < max_sends (rc_policy rc)")
  case False
  with assms show ?thesis by (intro spent) (simp_all add: stream_Cons)
next
  case True
  show ?thesis
  proof (cases "se_error env")
    case None
    with True assms show ?thesis by (intro opened) (auto simp: stream_Cons Let_def)
  next
    case (Some e)
    obtain r sh2 where st:
      "settle_failure pj rc env e (sh\<lparr>sh_episode := after_attempt (sh_episode sh)\<rparr>) = (r, sh2)"
      by fastforce
    with True Some assms show ?thesis
      by (cases r) (auto simp: stream_Cons Let_def intro: ended again)
  qed
qed

lemma stream_spends:
  "stream_with_retry pj rc envs sh = Some (r, sh', rest) \<Longrightarrow>
     length rest \<le> length envs
     \<and> unat (ep_attempts (sh_episode sh')) = unat (ep_attempts (sh_episode sh)) + (length envs - length rest)
     \<and> (rest = envs \<or> unat (ep_attempts (sh_episode sh')) \<le> unat (max_sends (rc_policy rc)))"
proof (induction envs arbitrary: sh)
  case Nil
  then show ?case by simp
next
  case (Cons env envs)
  from Cons.prems show ?case
  proof (cases rule: stream_step)
    case spent
    then show ?thesis by auto
  next
    case opened
    then show ?thesis
      using unat_after_attempt [OF opened(1)] by (auto simp: word_less_nat_alt)
  next
    case (ended e f sh2)
    then show ?thesis
      using unat_after_attempt [OF ended(1)] settle_attempts [OF ended(3)]
      by (auto simp: word_less_nat_alt)
  next
    case (again e sh2)
    have at2: "unat (ep_attempts (sh_episode sh2)) = Suc (unat (ep_attempts (sh_episode sh)))"
      using unat_after_attempt [OF again(1)] settle_attempts [OF again(3)] by simp
    with Cons.IH [OF again(4) [symmetric]] again(1) show ?thesis
      by (auto simp: word_less_nat_alt)
  qed
qed

lemma stream_returns:
  "unat (max_sends (rc_policy rc)) - unat (ep_attempts (sh_episode sh)) < length envs \<Longrightarrow>
     stream_with_retry pj rc envs sh \<noteq> None"
proof (induction envs arbitrary: sh)
  case Nil
  then show ?case by simp
next
  case (Cons env envs)
  show ?case
  proof (cases rule: stream_step [where pj = pj and rc = rc and env = env and envs = envs and sh = sh, OF refl])
    case (4 e sh2)
    have "unat (ep_attempts (sh_episode sh2)) = Suc (unat (ep_attempts (sh_episode sh)))"
      using unat_after_attempt [OF 4(1)] settle_attempts [OF 4(3)] by simp
    with Cons.IH [of sh2] Cons.prems 4(1,4) show ?thesis by (simp add: word_less_nat_alt)
  qed simp_all
qed

text \<open>How many log records the \<open>n\<close> sends of a run leave: one per retry that slept, and one
  observation when the run ends on a failure that parks the round.\<close>

fun log_records :: "request_failure + unit \<Rightarrow> nat \<Rightarrow> nat" where
  "log_records (Inl SpentBudget) n = n"
| "log_records (Inl (Switch _ _ (Some k))) n = (if parks_the_round k then n else n - 1)"
| "log_records _ n = n - 1"

lemma log_records_Suc: "n \<noteq> 0 \<Longrightarrow> log_records r (Suc n) = Suc (log_records r n)"
  by (cases "(r, n)" rule: log_records.cases) auto

lemma stream_no_send:
  assumes "stream_with_retry pj rc envs sh = Some (r, sh', rest)" and "length rest = length envs"
  shows "r = Inl SpentBudget"
proof (cases envs)
  case Nil
  with assms show ?thesis by simp
next
  case (Cons env envs')
  with assms(1) have "stream_with_retry pj rc (env # envs') sh = Some (r, sh', rest)" by simp
  then show ?thesis
    by (cases rule: stream_step) (use assms(2) Cons in \<open>auto dest!: stream_spends [OF sym]\<close>)
qed

definition attempts_from :: "nat \<Rightarrow> retry_record list \<Rightarrow> bool" where
  "attempts_from a recs \<longleftrightarrow>
     list_all2 (\<lambda>rec n. unat (rr_attempt rec) = n) recs [a ..< a + length recs]"

lemma attempts_from_Nil [simp]: "attempts_from a []"
  by (simp add: attempts_from_def)

lemma attempts_from_Cons [simp]:
  "attempts_from a (rec # recs) \<longleftrightarrow> unat (rr_attempt rec) = a \<and> attempts_from (Suc a) recs"
  by (simp add: attempts_from_def upt_conv_Cons del: upt_Suc)

lemma stream_log:
  "stream_with_retry pj rc envs sh = Some (r, sh', rest) \<Longrightarrow>
     \<exists>recs. sh_log sh' = sh_log sh @ recs
       \<and> length recs = log_records r (length envs - length rest)
       \<and> attempts_from (Suc (unat (ep_attempts (sh_episode sh)))) recs"
proof (induction envs arbitrary: sh)
  case Nil
  then show ?case by simp
next
  case (Cons env envs)
  from Cons.prems show ?case
  proof (cases rule: stream_step)
    case spent
    then show ?thesis by auto
  next
    case opened
    then show ?thesis by auto
  next
    case (ended e f sh2)
    let ?sh1 = "sh\<lparr>sh_episode := after_attempt (sh_episode sh)\<rparr>"
    from ended(3) show ?thesis
    proof (cases rule: settle_cases)
      case (advanced reason)
      from advance_arm_facts [OF advanced] obtain b recs where
        f: "f = Switch reason e b" and log: "sh_log sh2 = sh_log sh @ recs"
        and len: "length recs = (if \<exists>k. b = Some k \<and> parks_the_round k then 1 else 0)"
        and at: "\<forall>rec \<in> set recs. rr_attempt rec = ep_attempts (after_attempt (sh_episode sh))"
        by auto
      have "attempts_from (Suc (unat (ep_attempts (sh_episode sh)))) recs"
        using len at unat_after_attempt [OF ended(1)]
        by (cases recs) (auto split: if_splits)
      moreover have "length recs = log_records (Inl f) 1"
        using len by (cases b) (auto simp: f)
      ultimately show ?thesis using ended(4) log by auto
    qed (use ended(4) in auto)
  next
    case (again e sh2)
    from again(3) show ?thesis
    proof (cases rule: settle_cases)
      case (slept wait rec)
      from Cons.IH [OF again(4) [symmetric]] obtain recs where
        log: "sh_log sh' = sh_log sh2 @ recs"
        and len: "length recs = log_records r (length envs - length rest)"
        and at: "attempts_from (Suc (unat (ep_attempts (sh_episode sh2)))) recs" by blast
      note suc = unat_after_attempt [OF again(1)]
      have le: "length rest \<le> length envs"
        using stream_spends [OF again(4) [symmetric]] by blast
      have "Suc (length recs) = log_records r (Suc (length envs - length rest))"
      proof (cases "length rest = length envs")
        case True
        with stream_no_send [OF again(4) [symmetric]] len show ?thesis by simp
      next
        case False
        with le len show ?thesis by (simp add: log_records_Suc)
      qed
      with le have "length (rec # recs) = log_records r (length (env # envs) - length rest)"
        by (simp add: Suc_diff_le)
      moreover have "attempts_from (Suc (unat (ep_attempts (sh_episode sh)))) (rec # recs)"
        using at slept(3,5) suc by simp
      moreover have "sh_log sh' = sh_log sh @ rec # recs" using log slept(4) by simp
      ultimately show ?thesis by blast
    qed (auto dest: advance_arm_facts)
  qed
qed

section \<open>What a run leaves on the shared table\<close>

definition table_effect ::
  "request_failure + unit \<Rightarrow> string \<Rightarrow> (string \<Rightarrow> block option) \<Rightarrow> (string \<Rightarrow> block option) \<Rightarrow> bool" where
  "table_effect r p before after =
     (case r of
        Inr _ \<Rightarrow> after = before(p := None)
      | Inl (Switch _ e (Some k)) \<Rightarrow> map_option bl_kind (after p) = Some k
      | _ \<Rightarrow> after = before)"

context profile_pacing
begin

lemma served_effect:
  "ok t \<Longrightarrow> ok (note_served (Some ops) p t) \<and> stored (note_served (Some ops) p t) = (stored t)(p := None)"
  by (simp add: note_served_def ok_success success_fact)

lemma record_fact_effect:
  "ok t \<Longrightarrow> ok (record_fact pj (Some ops) p c e now t)
     \<and> (case fact_of pj c e now of
          None \<Rightarrow> stored (record_fact pj (Some ops) p c e now t) = stored t
        | Some b \<Rightarrow> stored (record_fact pj (Some ops) p c e now t) p = Some b)"
  by (simp add: record_fact_def ok_record record_self split: option.split)

lemma settle_ended_effect:
  assumes "ok (sh_table sh)" and "rc_pacing rc = Some ops"
    and "settle_failure pj rc env e sh = (Some f, sh')"
  shows "ok (sh_table sh')
    \<and> table_effect (Inl f) (rc_profile rc) (stored (sh_table sh)) (stored (sh_table sh'))"
  using assms(3)
proof (cases rule: settle_cases)
  case (advanced reason)
  let ?fact = "fact_of pj (classify pj e Connect) e (se_record_now env)"
  from advance_arm_facts [OF advanced] assms(2) have
    f: "f = Switch reason e (map_option bl_kind ?fact)"
    and tab: "sh_table sh' = record_fact pj (Some ops) (rc_profile rc) (classify pj e Connect) e
        (se_record_now env) (sh_table sh)" by auto
  show ?thesis
    unfolding f tab table_effect_def
    using record_fact_effect [OF assms(1), of pj "rc_profile rc" "classify pj e Connect" e
        "se_record_now env"] by (cases ?fact) auto
qed (use assms(1) in \<open>auto simp: table_effect_def\<close>)

lemma stream_table_effect:
  "ok (sh_table sh) \<Longrightarrow> rc_pacing rc = Some ops \<Longrightarrow>
     stream_with_retry pj rc envs sh = Some (r, sh', rest) \<Longrightarrow>
     ok (sh_table sh')
     \<and> table_effect r (rc_profile rc) (stored (sh_table sh)) (stored (sh_table sh'))"
proof (induction envs arbitrary: sh)
  case Nil
  then show ?case by simp
next
  case (Cons env envs)
  from Cons.prems(3) show ?case
  proof (cases rule: stream_step)
    case spent
    then show ?thesis using Cons.prems(1) by (auto simp: table_effect_def)
  next
    case (opened sh1)
    from opened(3) have "r = Inr ()" and "sh' = sh1" by simp_all
    with opened(2) show ?thesis
      using served_effect [OF Cons.prems(1), of "rc_profile rc"] Cons.prems(2)
      by (simp add: table_effect_def fun_upd_def)
  next
    case (ended e f sh2)
    then show ?thesis
      using settle_ended_effect [OF _ Cons.prems(2) ended(3)] Cons.prems(1) by auto
  next
    case (again e sh2)
    from again(3) have "sh_table sh2 = sh_table sh"
      by (cases rule: settle_cases) (auto dest: advance_arm_facts)
    with Cons.IH [OF _ Cons.prems(2) again(4) [symmetric]] Cons.prems(1) show ?thesis by simp
  qed
qed

end

section \<open>Properties\<close>

text \<open>C19. A call ends: given as many answers as the episode has sends left and one more clock
  reading, the loop returns, and it spends at most the sends left. The ledger charges exactly the
  sends made, so \<open>max_retries + 1\<close> bounds the sends of an episode however the calls split it.\<close>

theorem stream_returns_within_budget:
  assumes "unat (max_sends (rc_policy rc)) - unat (ep_attempts (sh_episode sh)) < length envs"
  shows "\<exists>r sh' rest. stream_with_retry pj rc envs sh = Some (r, sh', rest)
    \<and> unat (ep_attempts (sh_episode sh')) = unat (ep_attempts (sh_episode sh)) + (length envs - length rest)
    \<and> length envs - length rest \<le> unat (max_sends (rc_policy rc)) - unat (ep_attempts (sh_episode sh))"
proof -
  from stream_returns [OF assms, of pj] obtain r sh' rest where
    res: "stream_with_retry pj rc envs sh = Some (r, sh', rest)" by auto
  with stream_spends [OF res] show ?thesis by fastforce
qed

definition demo_call :: "pacing_table retry_call" where
  "demo_call = \<lparr>rc_policy = default_policy\<lparr>max_retries := 1\<rparr>, rc_round = 0, rc_provider = ''glm'',
     rc_profile = ''p'', rc_pacing = Some table_pacing\<rparr>"

definition demo_shell :: "pacing_table shell" where
  "demo_shell = \<lparr>sh_episode = episode_new 1000, sh_log = [], sh_events = [],
     sh_table = [(''p'', demo_block)]\<rparr>"

definition demo_lost :: backend_error where
  "demo_lost = \<lparr>be_variant = VProvider, be_display = ''backend: reset'',
     be_sources = [\<lparr>el_display = ''reset'', el_type = IsTransport TransportFailed\<rparr>],
     be_rejection = None, be_body = None\<rparr>"

definition demo_env :: "backend_error option \<Rightarrow> send_env" where
  "demo_env e = \<lparr>se_pre_now = 1000, se_error = e, se_failed_now = 1001, se_jitter = 7,
     se_record_now = 1001, se_cancelled = False\<rparr>"

theorem stream_returns_within_budget_witness:
  "\<exists>r sh' rest. stream_with_retry (\<lambda>_. None) demo_call (replicate 3 (demo_env (Some demo_lost))) demo_shell
     = Some (r, sh', rest) \<and> unat (ep_attempts (sh_episode sh')) \<le> 2"
proof -
  have "unat (max_sends (rc_policy demo_call)) = 2" "unat (ep_attempts (sh_episode demo_shell)) = 0"
    by (simp_all add: demo_call_def demo_shell_def max_sends_def episode_new_def sat_add_def)
  then show ?thesis
    using stream_returns_within_budget [where pj = "\<lambda>_. None" and rc = demo_call and sh = demo_shell
        and envs = "replicate 3 (demo_env (Some demo_lost))"] by auto
qed

text \<open>The retry log accounts for the sends: a run appends one record for every send whose
  backoff ran out and one observation when it ends on a rejection that parks the round, charged
  to consecutive attempts; a cancelled backoff and a stream that opened append nothing.\<close>

theorem log_accounts_for_sends:
  "(case stream_with_retry pj rc envs sh of
      None \<Rightarrow> True
    | Some (r, sh', rest) \<Rightarrow>
        \<exists>recs. sh_log sh' = sh_log sh @ recs
          \<and> length recs = log_records r (length envs - length rest)
          \<and> attempts_from (Suc (unat (ep_attempts (sh_episode sh)))) recs)"
  using stream_log [of pj rc envs sh] by (auto split: option.split)

text \<open>What a run leaves on the tagma's table: a served send takes the profile's mark away and
  touches no other, a rejection that leaves a fact leaves it under the profile that sent, and every
  other outcome, a cancelled one included, leaves the table as it was.\<close>

theorem run_table_effect:
  assumes "table_ok (sh_table sh)" and "rc_pacing rc = Some table_pacing"
  shows "(case stream_with_retry pj rc envs sh of
      None \<Rightarrow> True
    | Some (r, sh', rest) \<Rightarrow> table_ok (sh_table sh')
        \<and> table_effect r (rc_profile rc) (map_of (sh_table sh)) (map_of (sh_table sh')))"
  using table.stream_table_effect [OF assms, of pj envs] by (auto split: option.split)

theorem run_table_effect_witness:
  "\<exists>sh'. stream_with_retry (\<lambda>_. None) demo_call [demo_env None] demo_shell = Some (Inr (), sh', [])
     \<and> map_of (sh_table sh') = Map.empty"
proof -
  have ok: "table_ok (sh_table demo_shell)" "rc_pacing demo_call = Some table_pacing"
    and "rc_profile demo_call = ''p''" and "map_of (sh_table demo_shell) = [''p'' \<mapsto> demo_block]"
    by (simp_all add: demo_shell_def demo_call_def table_ok_def keys_distinct_def
        FACT_TABLE_CAPACITY_def)
  have "ep_attempts (sh_episode demo_shell) < max_sends (rc_policy demo_call)"
    by (simp add: demo_call_def demo_shell_def max_sends_def episode_new_def sat_add_def)
  then obtain sh' where "stream_with_retry (\<lambda>_. None) demo_call [demo_env None] demo_shell = Some (Inr (), sh', [])"
    by (simp add: stream_Cons demo_env_def)
  moreover from this have "map_of (sh_table sh') = (map_of (sh_table demo_shell))(''p'' := None)"
    using run_table_effect [OF ok, of "\<lambda>_. None" "[demo_env None]"] \<open>rc_profile demo_call = ''p''\<close>
    by (simp add: table_effect_def)
  ultimately show ?thesis using \<open>map_of (sh_table demo_shell) = _\<close> by simp
qed

end
