(* ===== verification/Agent_Config.thy ===== *)
theory Agent_Config
  imports Retry_Decision
begin

text \<open>
  The runtime configuration (\<open>crates/kallipai-adk/src/config.rs\<close> and \<open>config/defaults.rs\<close>): the
  checks of \<open>AgentConfig::load\<close> in their order, the window-dependent budget invariants, the
  installers of a window, and the worst case of the retry knobs. Environment variables arrive as
  what \<open>parse_env\<close> returned. The two ratios are floating-point numbers: the model keeps the range
  test each passed and the function \<open>n \<mapsto> (n as f64 * ratio) as usize\<close>.
\<close>

section \<open>Defaults and limits\<close>

definition DEFAULT_CONTEXT_WINDOW_TOKENS :: usize where "DEFAULT_CONTEXT_WINDOW_TOKENS = 128000"
definition DEFAULT_OUTPUT_RESERVE_TOKENS :: usize where "DEFAULT_OUTPUT_RESERVE_TOKENS = 8192"
definition DEFAULT_SUMMARY_MAX_TOKENS :: u32 where "DEFAULT_SUMMARY_MAX_TOKENS = 1200"
definition DEFAULT_MAX_TOOL_ROUNDS :: usize where "DEFAULT_MAX_TOOL_ROUNDS = usize_max"
definition DEFAULT_MAX_HEARTBEAT_ROUNDS :: u32 where "DEFAULT_MAX_HEARTBEAT_ROUNDS = 3"
definition DEFAULT_MAX_TRANSIENT_RETRIES :: u32 where "DEFAULT_MAX_TRANSIENT_RETRIES = 3"
definition DEFAULT_MAX_RETRIES :: u32 where "DEFAULT_MAX_RETRIES = 10"
definition DEFAULT_RETRY_BASE_DELAY_SECS :: u64 where "DEFAULT_RETRY_BASE_DELAY_SECS = 1"
definition DEFAULT_RETRY_MAX_DELAY_SECS :: u64 where "DEFAULT_RETRY_MAX_DELAY_SECS = 60"
definition DEFAULT_RETRY_TIMEOUT_SECS :: u64 where "DEFAULT_RETRY_TIMEOUT_SECS = 300"
definition DEFAULT_CONTEXT_KEEP_TURNS :: usize where "DEFAULT_CONTEXT_KEEP_TURNS = 20"
definition DEFAULT_CONTEXT_THRESHOLDS :: "u8 list" where
  "DEFAULT_CONTEXT_THRESHOLDS = [50, 60, 70, 80]"
definition DEFAULT_TOKEN_BUDGET_WARNINGS :: "u8 list" where
  "DEFAULT_TOKEN_BUDGET_WARNINGS = [80, 95]"
definition DEFAULT_TOOL_RESULT_FULL_TOKENS :: usize where "DEFAULT_TOOL_RESULT_FULL_TOKENS = 30000"
definition DEFAULT_TOOL_RESULT_TRUNCATED_TOKENS :: usize where
  "DEFAULT_TOOL_RESULT_TRUNCATED_TOKENS = 10000"
definition MAX_RETRIES_LIMIT :: u32 where "MAX_RETRIES_LIMIT = 1000"
definition RETRY_DELAY_SECS_LIMIT :: u64 where "RETRY_DELAY_SECS_LIMIT = 3600"
definition RETRY_TIMEOUT_SECS_LIMIT :: u64 where "RETRY_TIMEOUT_SECS_LIMIT = 86400"
definition CALL_WORST_ASSUMED :: duration where "CALL_WORST_ASSUMED = 60 * nanos_per_sec"
definition RETRY_JITTER_MAX :: duration where "RETRY_JITTER_MAX = nanos_per_sec"

lemmas config_consts = DEFAULT_CONTEXT_WINDOW_TOKENS_def DEFAULT_OUTPUT_RESERVE_TOKENS_def
  DEFAULT_SUMMARY_MAX_TOKENS_def DEFAULT_MAX_HEARTBEAT_ROUNDS_def DEFAULT_MAX_TRANSIENT_RETRIES_def
  DEFAULT_MAX_RETRIES_def DEFAULT_RETRY_BASE_DELAY_SECS_def DEFAULT_RETRY_MAX_DELAY_SECS_def
  DEFAULT_RETRY_TIMEOUT_SECS_def DEFAULT_CONTEXT_KEEP_TURNS_def DEFAULT_CONTEXT_THRESHOLDS_def
  DEFAULT_TOKEN_BUDGET_WARNINGS_def DEFAULT_TOOL_RESULT_FULL_TOKENS_def
  DEFAULT_TOOL_RESULT_TRUNCATED_TOKENS_def MAX_RETRIES_LIMIT_def RETRY_DELAY_SECS_LIMIT_def
  RETRY_TIMEOUT_SECS_LIMIT_def

section \<open>Configuration\<close>

record ratio =
  ra_in_range :: bool
  ra_scale :: "usize \<Rightarrow> usize"

record agent_config =
  cf_max_tool_rounds :: usize
  cf_max_heartbeat_rounds :: u32
  cf_max_transient_retries :: u32
  cf_window :: usize
  cf_output_reserve :: usize
  cf_summary_max :: u32
  cf_retry :: retry_policy
  cf_pinned_ratio :: ratio
  cf_keep_turns :: usize
  cf_keep_ratio :: ratio
  cf_thresholds :: "u8 list"
  cf_budget_warnings :: "u8 list"

record env_knobs =
  kn_max_tool_rounds :: "usize option"
  kn_max_heartbeat_rounds :: "u32 option"
  kn_max_transient_retries :: "u32 option"
  kn_output_reserve :: "usize option"
  kn_summary_max :: "u32 option"
  kn_pinned_ratio :: ratio
  kn_keep_turns :: "usize option"
  kn_keep_ratio :: ratio
  kn_thresholds :: "u8 list option"
  kn_budget_warnings :: "u8 list option"
  kn_max_retries :: "u32 option"
  kn_base_delay_secs :: "u64 option"
  kn_max_delay_secs :: "u64 option"
  kn_timeout_secs :: "u64 option"

datatype config_error =
    MaxRetriesTooLarge
  | BaseDelayZero
  | BaseDelayTooLarge
  | MaxDelayZero
  | MaxDelayTooLarge
  | TimeoutZero
  | TimeoutTooLarge
  | BaseAboveMax
  | MaxNotBelowTimeout
  | SummaryZero
  | ToolRoundsZero
  | HeartbeatZero
  | TransientZero
  | PinnedRatioRange
  | KeepRatioRange
  | WindowZero
  | ReserveNotBelowWindow
  | SummaryAbovePinned
  | TruncatedCapTooLarge
  | FullCapNotAboveTruncated
  | ThresholdsTooFew
  | ThresholdsUnsorted
  | ThresholdsRange
  | WarningsEmpty
  | WarningsUnsorted
  | WarningsRange

definition check_context_budget ::
  "usize \<Rightarrow> usize \<Rightarrow> u32 \<Rightarrow> ratio \<Rightarrow> usize \<Rightarrow> usize \<Rightarrow> config_error option" where
  "check_context_budget window reserve summary_max pinned full truncated =
     (let effective = window - reserve;
          pinned_budget = ra_scale pinned effective;
          input_budget = effective - unat summary_max
      in if window = 0 then Some WindowZero
         else if window \<le> reserve then Some ReserveNotBelowWindow
         else if pinned_budget < unat summary_max then Some SummaryAbovePinned
         else if input_budget \<le> truncated * 2 then Some TruncatedCapTooLarge
         else if full \<le> truncated then Some FullCapNotAboveTruncated
         else None)"

definition try_context_window :: "agent_config \<Rightarrow> usize \<Rightarrow> config_error option" where
  "try_context_window cfg tokens =
     check_context_budget tokens (cf_output_reserve cfg) (cf_summary_max cfg) (cf_pinned_ratio cfg)
       DEFAULT_TOOL_RESULT_FULL_TOKENS DEFAULT_TOOL_RESULT_TRUNCATED_TOKENS"

definition set_context_window :: "usize \<Rightarrow> agent_config \<Rightarrow> config_error option \<times> agent_config" where
  "set_context_window tokens cfg =
     (case try_context_window cfg tokens of
        Some err \<Rightarrow> (Some err, cfg)
      | None \<Rightarrow> (None, cfg\<lparr>cf_window := tokens\<rparr>))"

definition effective_budget :: "agent_config \<Rightarrow> usize" where
  "effective_budget cfg = cf_window cfg - cf_output_reserve cfg"

definition pinned_budget :: "agent_config \<Rightarrow> usize" where
  "pinned_budget cfg = ra_scale (cf_pinned_ratio cfg) (effective_budget cfg)"

definition context_keep_tokens :: "agent_config \<Rightarrow> usize" where
  "context_keep_tokens cfg = max (ra_scale (cf_keep_ratio cfg) (effective_budget cfg)) 1"

definition tail_recovery_budget :: "agent_config \<Rightarrow> usize" where
  "tail_recovery_budget cfg = effective_budget cfg div 4"

record keep_caps =
  kc_max_turns :: usize
  kc_max_tokens :: usize

definition config_eviction_caps :: "agent_config \<Rightarrow> keep_caps" where
  "config_eviction_caps cfg =
     \<lparr>kc_max_turns = cf_keep_turns cfg, kc_max_tokens = context_keep_tokens cfg\<rparr>"

definition warning_thresholds :: "agent_config \<Rightarrow> u8 list" where
  "warning_thresholds cfg = take (length (cf_thresholds cfg) - 1) (cf_thresholds cfg)"

definition auto_compact_threshold :: "agent_config \<Rightarrow> u8" where
  "auto_compact_threshold cfg = (if cf_thresholds cfg = [] then 80 else last (cf_thresholds cfg))"

definition set_max_tool_rounds :: "usize \<Rightarrow> agent_config \<Rightarrow> agent_config" where
  "set_max_tool_rounds v cfg = (if 0 < v then cfg\<lparr>cf_max_tool_rounds := v\<rparr> else cfg)"

definition set_context_keep_turns :: "usize \<Rightarrow> agent_config \<Rightarrow> agent_config" where
  "set_context_keep_turns turns cfg = cfg\<lparr>cf_keep_turns := turns\<rparr>"

definition set_context_keep_tokens_ratio ::
  "ratio \<Rightarrow> agent_config \<Rightarrow> config_error option \<times> agent_config" where
  "set_context_keep_tokens_ratio ratio cfg =
     (if \<not> ra_in_range ratio then (Some KeepRatioRange, cfg)
      else (None, cfg\<lparr>cf_keep_ratio := ratio\<rparr>))"

section \<open>Load\<close>

definition or_default :: "'a option \<Rightarrow> 'a \<Rightarrow> 'a" where
  "or_default x d = (case x of Some v \<Rightarrow> v | None \<Rightarrow> d)"

definition pct_in_range :: "u8 \<Rightarrow> bool" where
  "pct_in_range t \<longleftrightarrow> 1 \<le> t \<and> t \<le> 99"

text \<open>The retry checks, then the others, each in the order of the source.\<close>

definition check_retry_knobs :: "u32 \<Rightarrow> u64 \<Rightarrow> u64 \<Rightarrow> u64 \<Rightarrow> config_error option" where
  "check_retry_knobs retries base mx timeout =
     (if MAX_RETRIES_LIMIT < retries then Some MaxRetriesTooLarge
      else if base = 0 then Some BaseDelayZero
      else if RETRY_DELAY_SECS_LIMIT < base then Some BaseDelayTooLarge
      else if mx = 0 then Some MaxDelayZero
      else if RETRY_DELAY_SECS_LIMIT < mx then Some MaxDelayTooLarge
      else if timeout = 0 then Some TimeoutZero
      else if RETRY_TIMEOUT_SECS_LIMIT < timeout then Some TimeoutTooLarge
      else if mx < base then Some BaseAboveMax
      else if timeout \<le> mx then Some MaxNotBelowTimeout
      else None)"

definition check_round_knobs :: "agent_config \<Rightarrow> config_error option" where
  "check_round_knobs cfg =
     (if cf_summary_max cfg = 0 then Some SummaryZero
      else if cf_max_tool_rounds cfg = 0 then Some ToolRoundsZero
      else if cf_max_heartbeat_rounds cfg = 0 then Some HeartbeatZero
      else if cf_max_transient_retries cfg = 0 then Some TransientZero
      else if \<not> ra_in_range (cf_pinned_ratio cfg) then Some PinnedRatioRange
      else if \<not> ra_in_range (cf_keep_ratio cfg) then Some KeepRatioRange
      else
        case try_context_window cfg (cf_window cfg) of
          Some err \<Rightarrow> Some err
        | None \<Rightarrow>
            if length (cf_thresholds cfg) < 2 then Some ThresholdsTooFew
            else if \<not> sorted (cf_thresholds cfg) then Some ThresholdsUnsorted
            else if list_ex (\<lambda>t. \<not> pct_in_range t) (cf_thresholds cfg) then Some ThresholdsRange
            else if cf_budget_warnings cfg = [] then Some WarningsEmpty
            else if \<not> sorted (cf_budget_warnings cfg) then Some WarningsUnsorted
            else if list_ex (\<lambda>t. \<not> pct_in_range t) (cf_budget_warnings cfg) then Some WarningsRange
            else None)"

definition load_config :: "env_knobs \<Rightarrow> config_error + agent_config" where
  "load_config kn =
     (let retries = or_default (kn_max_retries kn) DEFAULT_MAX_RETRIES;
          base = or_default (kn_base_delay_secs kn) DEFAULT_RETRY_BASE_DELAY_SECS;
          mx = or_default (kn_max_delay_secs kn) DEFAULT_RETRY_MAX_DELAY_SECS;
          timeout = or_default (kn_timeout_secs kn) DEFAULT_RETRY_TIMEOUT_SECS;
          cfg = \<lparr>cf_max_tool_rounds = or_default (kn_max_tool_rounds kn) DEFAULT_MAX_TOOL_ROUNDS,
            cf_max_heartbeat_rounds =
              or_default (kn_max_heartbeat_rounds kn) DEFAULT_MAX_HEARTBEAT_ROUNDS,
            cf_max_transient_retries =
              or_default (kn_max_transient_retries kn) DEFAULT_MAX_TRANSIENT_RETRIES,
            cf_window = DEFAULT_CONTEXT_WINDOW_TOKENS,
            cf_output_reserve = or_default (kn_output_reserve kn) DEFAULT_OUTPUT_RESERVE_TOKENS,
            cf_summary_max = or_default (kn_summary_max kn) DEFAULT_SUMMARY_MAX_TOKENS,
            cf_retry = \<lparr>max_retries = retries, base_delay = dur_of_secs base,
              max_delay = dur_of_secs mx, retry_timeout = dur_of_secs timeout\<rparr>,
            cf_pinned_ratio = kn_pinned_ratio kn,
            cf_keep_turns = or_default (kn_keep_turns kn) DEFAULT_CONTEXT_KEEP_TURNS,
            cf_keep_ratio = kn_keep_ratio kn,
            cf_thresholds = or_default (kn_thresholds kn) DEFAULT_CONTEXT_THRESHOLDS,
            cf_budget_warnings = or_default (kn_budget_warnings kn) DEFAULT_TOKEN_BUDGET_WARNINGS\<rparr>
      in case check_retry_knobs retries base mx timeout of
           Some err \<Rightarrow> Inl err
         | None \<Rightarrow> (case check_round_knobs cfg of Some err \<Rightarrow> Inl err | None \<Rightarrow> Inr cfg))"

section \<open>The worst case of the retry knobs\<close>

definition retry_worst_case :: "retry_policy \<Rightarrow> duration" where
  "retry_worst_case policy =
     (let waits = fold (\<lambda>n waits. dur_add waits
            (backoff_schedule policy (word_of_nat n) RETRY_JITTER_MAX))
          [0..<unat (max_retries policy)] 0
      in dur_add waits (dur_mul CALL_WORST_ASSUMED (max_sends policy)))"

datatype retry_budget_verdict =
    Fits
  | FactoryOverrun nat nat
  | TunedOverrun nat nat

definition as_secs :: "duration \<Rightarrow> nat" where
  "as_secs d = d div nanos_per_sec"

definition retry_knobs_are_factory :: "retry_policy \<Rightarrow> bool" where
  "retry_knobs_are_factory policy \<longleftrightarrow>
     max_retries policy = DEFAULT_MAX_RETRIES
     \<and> as_secs (base_delay policy) = unat DEFAULT_RETRY_BASE_DELAY_SECS
     \<and> as_secs (max_delay policy) = unat DEFAULT_RETRY_MAX_DELAY_SECS
     \<and> as_secs (retry_timeout policy) = unat DEFAULT_RETRY_TIMEOUT_SECS"

definition retry_budget_verdict :: "retry_policy \<Rightarrow> retry_budget_verdict" where
  "retry_budget_verdict policy =
     (let worst = as_secs (retry_worst_case policy); timeout = as_secs (retry_timeout policy)
      in if worst \<le> timeout then Fits
         else if retry_knobs_are_factory policy then FactoryOverrun worst timeout
         else TunedOverrun worst timeout)"

section \<open>What a loaded configuration satisfies\<close>

definition policy_ok :: "retry_policy \<Rightarrow> bool" where
  "policy_ok p \<longleftrightarrow> nanos_per_sec \<le> base_delay p \<and> base_delay p \<le> max_delay p
     \<and> max_delay p < retry_timeout p \<and> max_delay p \<le> 3600 * nanos_per_sec
     \<and> retry_timeout p \<le> 86400 * nanos_per_sec \<and> unat (max_retries p) \<le> 1000"

definition budget_ok :: "agent_config \<Rightarrow> bool" where
  "budget_ok cfg \<longleftrightarrow> cf_output_reserve cfg < cf_window cfg
     \<and> unat (cf_summary_max cfg) \<le> pinned_budget cfg
     \<and> 2 * DEFAULT_TOOL_RESULT_TRUNCATED_TOKENS < effective_budget cfg - unat (cf_summary_max cfg)"

definition thresholds_ok :: "u8 list \<Rightarrow> bool" where
  "thresholds_ok ts \<longleftrightarrow> ts \<noteq> [] \<and> sorted ts \<and> list_all pct_in_range ts"

definition config_ok :: "agent_config \<Rightarrow> bool" where
  "config_ok cfg \<longleftrightarrow> policy_ok (cf_retry cfg) \<and> budget_ok cfg
     \<and> 0 < cf_summary_max cfg \<and> 0 < cf_max_tool_rounds cfg \<and> 0 < cf_max_heartbeat_rounds cfg
     \<and> 0 < cf_max_transient_retries cfg \<and> ra_in_range (cf_pinned_ratio cfg)
     \<and> ra_in_range (cf_keep_ratio cfg) \<and> thresholds_ok (cf_thresholds cfg)
     \<and> 2 \<le> length (cf_thresholds cfg) \<and> thresholds_ok (cf_budget_warnings cfg)"

lemma try_window_budget:
  "try_context_window cfg tokens = None \<longleftrightarrow> budget_ok (cfg\<lparr>cf_window := tokens\<rparr>)"
  by (auto simp: try_context_window_def check_context_budget_def budget_ok_def pinned_budget_def
      effective_budget_def Let_def DEFAULT_TOOL_RESULT_FULL_TOKENS_def
      DEFAULT_TOOL_RESULT_TRUNCATED_TOKENS_def)

lemma dur_of_secs_mono: "a \<le> b \<Longrightarrow> dur_of_secs a \<le> dur_of_secs b"
  by (simp add: dur_of_secs_def word_le_nat_alt)

lemma dur_of_secs_strict: "a < b \<Longrightarrow> dur_of_secs a < dur_of_secs b"
  by (simp add: dur_of_secs_def word_less_nat_alt nanos_per_sec_def)

lemma check_retry_knobs_ok:
  assumes "check_retry_knobs retries base mx timeout = None"
  shows "policy_ok \<lparr>max_retries = retries, base_delay = dur_of_secs base,
    max_delay = dur_of_secs mx, retry_timeout = dur_of_secs timeout\<rparr>"
proof -
  from assms have c: "retries \<le> 1000" "base \<noteq> 0" "base \<le> mx" "mx < timeout" "mx \<le> 3600"
    "timeout \<le> 86400"
    by (auto simp: check_retry_knobs_def MAX_RETRIES_LIMIT_def RETRY_DELAY_SECS_LIMIT_def
        RETRY_TIMEOUT_SECS_LIMIT_def not_less not_le split: if_splits)
  have "1 \<le> base" using c(2) by (simp add: word_le_nat_alt Suc_leI unat_gt_0)
  moreover have "dur_of_secs 1 = nanos_per_sec" "dur_of_secs 3600 = 3600 * nanos_per_sec"
    "dur_of_secs 86400 = 86400 * nanos_per_sec" by (simp_all add: dur_of_secs_def)
  moreover have "unat retries \<le> 1000" using c(1) by (simp add: word_le_nat_alt)
  ultimately show ?thesis
    using c dur_of_secs_mono [of 1 base] dur_of_secs_mono [of base mx] dur_of_secs_strict [of mx timeout]
      dur_of_secs_mono [of mx 3600] dur_of_secs_mono [of timeout 86400]
    by (simp add: policy_ok_def)
qed

lemma list_ex_not: "list_ex (\<lambda>t. \<not> P t) ts \<longleftrightarrow> \<not> list_all P ts"
  by (auto simp: list_ex_iff list_all_iff)

lemma check_round_knobs_ok:
  "check_round_knobs cfg = None \<Longrightarrow> policy_ok (cf_retry cfg) \<Longrightarrow> config_ok cfg"
  using try_window_budget [of cfg "cf_window cfg"]
  by (auto simp: check_round_knobs_def config_ok_def thresholds_ok_def list_ex_not word_gt_0
      split: if_splits option.splits)

lemma load_config_ok: "load_config kn = Inr cfg \<Longrightarrow> config_ok cfg"
  unfolding load_config_def Let_def
  by (auto split: option.splits dest!: check_retry_knobs_ok intro!: check_round_knobs_ok)

section \<open>Later changes\<close>

datatype config_op =
    SetWindow usize
  | SetToolRounds usize
  | SetKeepTurns usize
  | SetKeepRatio ratio

fun config_step :: "config_op \<Rightarrow> agent_config \<Rightarrow> agent_config" where
  "config_step (SetWindow tokens) cfg = snd (set_context_window tokens cfg)"
| "config_step (SetToolRounds v) cfg = set_max_tool_rounds v cfg"
| "config_step (SetKeepTurns n) cfg = set_context_keep_turns n cfg"
| "config_step (SetKeepRatio r) cfg = snd (set_context_keep_tokens_ratio r cfg)"

lemma config_step_ok: "config_ok cfg \<Longrightarrow> config_ok (config_step op cfg)"
proof (cases op)
  case (SetWindow tokens)
  assume "config_ok cfg"
  with SetWindow try_window_budget [of cfg tokens] show ?thesis
    by (auto simp: set_context_window_def config_ok_def split: option.split)
qed (auto simp: config_ok_def set_max_tool_rounds_def set_context_keep_turns_def
      set_context_keep_tokens_ratio_def budget_ok_def pinned_budget_def effective_budget_def)

interpretation configs: invariant_machine config_step config_ok
  by unfold_locales (rule config_step_ok)

section \<open>The worst case\<close>

lemma fold_dur_add:
  "a + sum_list (map f ns) \<le> duration_max \<Longrightarrow>
     fold (\<lambda>n acc. dur_add acc (f n)) ns a = a + sum_list (map f ns)"
  by (induction ns arbitrary: a) (simp_all add: dur_add_def)

lemma worst_case_exact:
  assumes "policy_ok p"
  shows "retry_worst_case p =
    sum_list (map (\<lambda>n. backoff_schedule p (word_of_nat n) RETRY_JITTER_MAX) [0..<unat (max_retries p)])
    + (unat (max_retries p) + 1) * CALL_WORST_ASSUMED"
proof -
  let ?m = "unat (max_retries p)"
  let ?S = "sum_list (map (\<lambda>n. backoff_schedule p (word_of_nat n) RETRY_JITTER_MAX) [0..<?m])"
  have m: "?m \<le> 1000" using assms by (simp add: policy_ok_def)
  have "backoff_schedule p n RETRY_JITTER_MAX \<le> 3601 * nanos_per_sec" for n
    using assms backoff_le [of p n RETRY_JITTER_MAX]
    by (simp add: policy_ok_def RETRY_JITTER_MAX_def)
  then have "?S \<le> ?m * (3601 * nanos_per_sec)"
    using sum_list_mono [of "[0..<?m]" _ "\<lambda>_. 3601 * nanos_per_sec"]
    by (simp add: sum_list_triv)
  also have "\<dots> \<le> 1000 * (3601 * nanos_per_sec)" using m by (rule mult_le_mono1)
  finally have S: "?S \<le> 3601000 * nanos_per_sec" by simp
  have sends: "unat (max_sends p) = ?m + 1"
    using m by (simp add: max_sends_def sat_simps)
  have "(?m + 1) * CALL_WORST_ASSUMED \<le> 1001 * CALL_WORST_ASSUMED"
    using m by (intro mult_le_mono1) simp
  then have C: "(?m + 1) * CALL_WORST_ASSUMED \<le> 60060 * nanos_per_sec"
    by (simp add: CALL_WORST_ASSUMED_def)
  have D: "3661060 * nanos_per_sec \<le> duration_max"
    by (simp add: duration_max_def nanos_per_sec_def)
  from S D have "fold (\<lambda>n waits. dur_add waits
      (backoff_schedule p (word_of_nat n) RETRY_JITTER_MAX)) [0..<?m] 0 = ?S"
    by (subst fold_dur_add) simp_all
  moreover have "dur_mul CALL_WORST_ASSUMED (max_sends p) = (?m + 1) * CALL_WORST_ASSUMED"
    using C D by (simp add: dur_mul_def sends mult.commute)
  moreover have "?S + (?m + 1) * CALL_WORST_ASSUMED \<le> duration_max" using S C D by linarith
  ultimately show ?thesis
    unfolding retry_worst_case_def Let_def dur_add_def by (simp only: min_absorb1)
qed

lemma backoff_jitter_mono: "j \<le> k \<Longrightarrow> backoff_schedule p n j \<le> backoff_schedule p n k"
  by (auto simp: backoff_schedule_def dur_add_def)

section \<open>Properties\<close>

text \<open>A configuration that loads is consistent: the retry knobs are positive, ordered and
  capped, the summary fits the pinned budget, the truncation cap stays below the summarizer's
  input, the thresholds are sorted percentages; and no later change of window, rounds or keep
  caps, accepted or refused, breaks any of it.\<close>

theorem loaded_config_stays_consistent:
  assumes "load_config kn = Inr cfg"
  shows "config_ok (fold config_step ops cfg)"
  using load_config_ok [OF assms] by (rule configs.run_inv)

definition demo_knobs :: env_knobs where
  "demo_knobs = \<lparr>kn_max_tool_rounds = None, kn_max_heartbeat_rounds = None,
     kn_max_transient_retries = None, kn_output_reserve = None, kn_summary_max = None,
     kn_pinned_ratio = \<lparr>ra_in_range = True, ra_scale = (\<lambda>n. n div 4)\<rparr>, kn_keep_turns = None,
     kn_keep_ratio = \<lparr>ra_in_range = True, ra_scale = (\<lambda>n. n * 15 div 100)\<rparr>,
     kn_thresholds = None, kn_budget_warnings = None, kn_max_retries = None,
     kn_base_delay_secs = Some 2, kn_max_delay_secs = None, kn_timeout_secs = None\<rparr>"

lemma demo_knobs_load: "\<exists>cfg. load_config demo_knobs = Inr cfg"
  by (simp add: load_config_def demo_knobs_def or_default_def check_retry_knobs_def config_consts
      check_round_knobs_def try_context_window_def check_context_budget_def pct_in_range_def
      DEFAULT_MAX_TOOL_ROUNDS_def usize_max_def)

theorem loaded_config_stays_consistent_witness:
  "\<exists>cfg. load_config demo_knobs = Inr cfg \<and> config_ok (fold config_step [SetWindow 5, SetWindow 64000] cfg)"
  using demo_knobs_load loaded_config_stays_consistent by blast

text \<open>The startup check's worst case is a true bound: for a loaded policy no sum saturates, and
  whatever jitter each wait draws, the waits of an episode and one assumed call per send add up to
  no more than it.\<close>

theorem worst_case_bounds_every_episode:
  assumes "policy_ok p" and "length js \<le> unat (max_retries p)"
    and "list_all (\<lambda>j. j \<le> RETRY_JITTER_MAX) js"
  shows "sum_list (map (\<lambda>i. backoff_schedule p (word_of_nat i) (js ! i)) [0..<length js])
      + (length js + 1) * CALL_WORST_ASSUMED \<le> retry_worst_case p"
proof -
  let ?b = "\<lambda>i. backoff_schedule p (word_of_nat i) RETRY_JITTER_MAX"
  have "sum_list (map (\<lambda>i. backoff_schedule p (word_of_nat i) (js ! i)) [0..<length js])
      \<le> sum_list (map ?b [0..<length js])"
    using assms(3) by (intro sum_list_mono backoff_jitter_mono) (auto simp: list_all_length)
  also have "\<dots> \<le> sum_list (map ?b [0..<length js]) + sum_list (map ?b [length js..<unat (max_retries p)])"
    by simp
  also have "\<dots> = sum_list (map ?b [0..<unat (max_retries p)])"
    using upt_add_eq_append [of 0 "length js" "unat (max_retries p) - length js"] assms(2) by simp
  finally have "sum_list (map (\<lambda>i. backoff_schedule p (word_of_nat i) (js ! i)) [0..<length js])
      \<le> sum_list (map ?b [0..<unat (max_retries p)])" .
  moreover have "(length js + 1) * CALL_WORST_ASSUMED \<le> (unat (max_retries p) + 1) * CALL_WORST_ASSUMED"
    using assms(2) by (intro mult_le_mono1) simp
  ultimately show ?thesis unfolding worst_case_exact [OF assms(1)] by linarith
qed

theorem worst_case_bounds_every_episode_witness:
  "policy_ok default_policy
   \<and> sum_list (map (\<lambda>i. backoff_schedule default_policy (word_of_nat i) ([3, 4] ! i))
        [0..<length [3::nat, 4]])
      + (length [3::nat, 4] + 1) * CALL_WORST_ASSUMED \<le> retry_worst_case default_policy"
proof
  show "policy_ok default_policy"
    by (simp add: policy_ok_def default_policy_def nanos_per_sec_def)
  moreover have "length [3::nat, 4] \<le> unat (max_retries default_policy)"
    by (simp add: default_policy_def)
  moreover have "list_all (\<lambda>j. j \<le> RETRY_JITTER_MAX) [3, 4]"
    by (simp add: RETRY_JITTER_MAX_def nanos_per_sec_def)
  ultimately show "sum_list (map (\<lambda>i. backoff_schedule default_policy (word_of_nat i) ([3, 4] ! i))
        [0..<length [3::nat, 4]])
      + (length [3::nat, 4] + 1) * CALL_WORST_ASSUMED \<le> retry_worst_case default_policy"
    by (rule worst_case_bounds_every_episode)
qed

end
