(* ===== verification/Agent_Event.thy ===== *)
theory Agent_Event
  imports Approval Json Retry_Shell
begin

text \<open>
  What an agent reports while it runs (\<open>AgentEvent\<close> in \<open>crates/kallipai-adk/src/event.rs\<close>), with the
  payloads it shares with the wire (\<open>crates/kallipai-common/src/protocol/sse.rs\<close>). A delay in seconds is
  kept as the nanoseconds it is computed from.
\<close>

record quota_blocked_info =
  qb_profile :: string
  qb_reset :: "u64 option"
  qb_detail :: string

record transient_retry_info =
  ti_attempt :: u32
  ti_max_attempts :: u32
  ti_delay :: duration

datatype exhaustion_reason =
    NoFailoverConfigured
  | AllBackupsExhausted
  | AllCandidatesUnbuildable
  | AllCandidatesInfeasible

fun exhaustion_text :: "exhaustion_reason \<Rightarrow> string" where
  "exhaustion_text NoFailoverConfigured = ''no failover configured''"
| "exhaustion_text AllBackupsExhausted = ''all backups exhausted''"
| "exhaustion_text AllCandidatesUnbuildable = ''all failover candidates unbuildable''"
| "exhaustion_text AllCandidatesInfeasible = ''all failover candidates had infeasible windows''"

datatype agent_event =
    ReasoningEvent string
  | ContentEvent string
  | ContentDelta string
  | ReasoningDelta string
  | ToolCallEvent string string
  | ToolResultEvent string
  | IdleEvent
  | WaitingEvent u64
  | MaxRoundsEvent
  | ErrorEvent string
  | StatusEvent string
  | BusyEvent
  | ApprovalCommittedEvent committed_info json
  | RetryEvent retry_event
  | StreamReset string u32 u32 duration
  | FailoverEvent string string string
  | ApprovalRedeemedEvent string
  | ApprovalCancelledEvent string
  | CancelledEvent
  | InterruptedEvent
  | WaitCancelledEvent
  | BudgetExceededEvent u64 u64
  | ChainExhaustedEvent exhaustion_reason string "transient_retry_info option"
  | QuotaBlockedEvent quota_blocked_info

text \<open>The events that end a turn.\<close>

fun is_terminal :: "agent_event \<Rightarrow> bool" where
  "is_terminal IdleEvent = True"
| "is_terminal (WaitingEvent _) = True"
| "is_terminal MaxRoundsEvent = True"
| "is_terminal (ErrorEvent _) = True"
| "is_terminal CancelledEvent = True"
| "is_terminal InterruptedEvent = True"
| "is_terminal WaitCancelledEvent = True"
| "is_terminal (BudgetExceededEvent _ _) = True"
| "is_terminal (ChainExhaustedEvent _ _ _) = True"
| "is_terminal (QuotaBlockedEvent _) = True"
| "is_terminal _ = False"

text \<open>Events of a turn that goes on.\<close>

abbreviation ongoing :: "agent_event list \<Rightarrow> bool" where
  "ongoing es \<equiv> \<forall>e \<in> set es. \<not> is_terminal e"

end
