(* ===== verification/Keep_Window.thy ===== *)
theory Keep_Window
  imports Agent_Config Text
begin

text \<open>
  The keep-window rule behind manual eviction (\<open>crates/kallipai-adk/src/context/window.rs\<close>) and the
  contract of the store it is applied to, stated as the locale \<open>evictable\<close>: whoever lists its
  conversation and drains its oldest turns keeps exactly what the plan announced. Turn ids count up
  from zero, so the \<open>u64\<close> of a \<open>TurnId\<close> is a natural number.
\<close>

datatype turn_id = TurnId (id_num: nat)

instantiation turn_id :: linorder
begin

definition less_eq_turn_id :: "turn_id \<Rightarrow> turn_id \<Rightarrow> bool" where
  "less_eq_turn_id a b \<longleftrightarrow> id_num a \<le> id_num b"

definition less_turn_id :: "turn_id \<Rightarrow> turn_id \<Rightarrow> bool" where
  "less_turn_id a b \<longleftrightarrow> id_num a < id_num b"

instance
  by standard (auto simp: less_eq_turn_id_def less_turn_id_def intro: turn_id.expand)

end

definition default_caps :: keep_caps where
  "default_caps = \<lparr>kc_max_turns = 0, kc_max_tokens = usize_max\<rparr>"

datatype keep_degraded = NewestTurnOverTokens

definition degraded_reason :: "keep_degraded \<Rightarrow> string" where
  "degraded_reason d = ''newest turn exceeds max_tokens''"

record summary_range =
  sr_turns :: "turn_id list"
  sr_kept :: nat

record keep_window =
  kw_evict :: nat
  kw_kept :: "turn_id list"
  kw_degraded :: "keep_degraded option"
  kw_range :: "summary_range option"

definition keeps_everything :: "keep_window \<Rightarrow> bool" where
  "keeps_everything w \<longleftrightarrow> kw_evict w = 0"

text \<open>The scan, newest first, with the turns kept and the tokens added up so far.\<close>

fun keep_scan :: "keep_caps \<Rightarrow> nat \<Rightarrow> usize \<Rightarrow> usize list \<Rightarrow> nat" where
  "keep_scan caps kept acc [] = kept"
| "keep_scan caps kept acc (tokens # rest) =
     (if kept = kc_max_turns caps then kept
      else if kc_max_tokens caps < usize_sat_add acc tokens then kept
      else keep_scan caps (kept + 1) (usize_sat_add acc tokens) rest)"

definition plan_keep_window :: "(turn_id \<times> usize) list \<Rightarrow> keep_caps \<Rightarrow> keep_window" where
  "plan_keep_window convo caps =
     (let kept = keep_scan caps 0 0 (map snd (rev convo)); evict = length convo - kept
      in \<lparr>kw_evict = evict,
          kw_kept = map fst (drop evict convo),
          kw_degraded = (if kept = 0 \<and> convo \<noteq> [] \<and> 0 < kc_max_turns caps
                         then Some NewestTurnOverTokens else None),
          kw_range = (if 0 < evict then Some \<lparr>sr_turns = map fst convo, sr_kept = kept\<rparr> else None)\<rparr>)"

definition range_line :: "summary_range \<Rightarrow> string" where
  "range_line r =
     (let total = length (sr_turns r);
          num = (\<lambda>i. show_nat (id_num i));
          first = num (hd (sr_turns r)); final = num (last (sr_turns r))
      in if sr_kept r = 0 then
           if total = 1 then ''The only turn (#'' @ first @ '') is condensed here.''
           else ''All '' @ show_nat total @ '' turns are condensed here; the first was #'' @ first
             @ '' and the last #'' @ final @ ''.''
         else
           let kept_first = num (sr_turns r ! (total - sr_kept r))
           in if sr_kept r = 1
              then ''Everything before turn #'' @ kept_first
                @ '' is condensed here; the newest turn follows in full.''
              else ''Everything before turn #'' @ kept_first @ '' is condensed here; the ''
                @ show_nat (sr_kept r) @ '' newest turns follow in full.'')"

section \<open>The scan finds the longest suffix\<close>

text \<open>The tokens of the \<open>k\<close> newest turns, saturated as the scan saturates.\<close>

definition newest_tokens :: "(turn_id \<times> usize) list \<Rightarrow> nat \<Rightarrow> usize" where
  "newest_tokens convo k = min (sum_list (map snd (take k (rev convo)))) usize_max"

definition window_fits :: "(turn_id \<times> usize) list \<Rightarrow> keep_caps \<Rightarrow> nat \<Rightarrow> bool" where
  "window_fits convo caps k \<longleftrightarrow> k \<le> length convo \<and> k \<le> kc_max_turns caps
     \<and> (k = 0 \<or> newest_tokens convo k \<le> kc_max_tokens caps)"

lemma sat_sum: "usize_sat_add (min a usize_max) b = min (a + b) usize_max"
  by (auto simp: usize_sat_add_def)

definition scan_fits :: "keep_caps \<Rightarrow> nat \<Rightarrow> nat \<Rightarrow> usize list \<Rightarrow> nat \<Rightarrow> bool" where
  "scan_fits caps n s xs k \<longleftrightarrow> n \<le> k \<and> k \<le> n + length xs \<and> k \<le> kc_max_turns caps
     \<and> (k = n \<or> min (s + sum_list (take (k - n) xs)) usize_max \<le> kc_max_tokens caps)"

lemma keep_scan_spec:
  "n \<le> kc_max_turns caps \<Longrightarrow> scan_fits caps n s xs (keep_scan caps n (min s usize_max) xs)
    \<and> (\<forall>k. scan_fits caps n s xs k \<longrightarrow> k \<le> keep_scan caps n (min s usize_max) xs)"
  unfolding scan_fits_def
proof (induction xs arbitrary: n s)
  case Nil
  then show ?case by simp
next
  case (Cons x xs)
  show ?case
  proof (cases "n = kc_max_turns caps \<or> kc_max_tokens caps < min (s + x) usize_max")
    case True
    have small: "k \<le> n" if "n \<le> k" "k \<le> kc_max_turns caps"
      "k = n \<or> min (s + sum_list (take (k - n) (x # xs))) usize_max \<le> kc_max_tokens caps" for k
    proof (rule ccontr)
      assume "\<not> k \<le> n"
      then obtain j where j: "k - n = Suc j" by (metis Suc_diff_Suc not_le)
      with that True \<open>\<not> k \<le> n\<close> have "min (s + sum_list (take (Suc j) (x # xs))) usize_max < min (s + x) usize_max"
        by auto
      moreover have "s + x \<le> s + sum_list (take (Suc j) (x # xs))" by simp
      ultimately show False by linarith
    qed
    from True have "keep_scan caps n (min s usize_max) (x # xs) = n"
      by (auto simp: sat_sum)
    with small Cons.prems show ?thesis by auto
  next
    case False
    then have go: "n \<noteq> kc_max_turns caps" "\<not> kc_max_tokens caps < min (s + x) usize_max" by blast+
    have step: "keep_scan caps n (min s usize_max) (x # xs)
        = keep_scan caps (n + 1) (min (s + x) usize_max) xs"
      unfolding keep_scan.simps sat_sum using go by (simp only: if_False)
    let ?r = "keep_scan caps (n + 1) (min (s + x) usize_max) xs"
    have IH: "n + 1 \<le> ?r \<and> ?r \<le> n + 1 + length xs \<and> ?r \<le> kc_max_turns caps
        \<and> (?r = n + 1 \<or> min (s + x + sum_list (take (?r - (n + 1)) xs)) usize_max \<le> kc_max_tokens caps)"
      and max: "\<And>k. n + 1 \<le> k \<and> k \<le> n + 1 + length xs \<and> k \<le> kc_max_turns caps
        \<and> (k = n + 1 \<or> min (s + x + sum_list (take (k - (n + 1)) xs)) usize_max \<le> kc_max_tokens caps)
        \<Longrightarrow> k \<le> ?r"
      using Cons.IH [of "n + 1" "s + x"] Cons.prems False by auto
    have shift: "sum_list (take (k - n) (x # xs)) = x + sum_list (take (k - (n + 1)) xs)"
      if "n + 1 \<le> k" for k
    proof -
      from that have "k - n = Suc (k - (n + 1))" by simp
      then show ?thesis by (simp only: take_Suc_Cons sum_list.Cons)
    qed
    show ?thesis
      unfolding step
    proof (intro conjI allI impI)
      show "n \<le> ?r" "?r \<le> n + length (x # xs)" "?r \<le> kc_max_turns caps" using IH by auto
      have "min (s + sum_list (take (?r - n) (x # xs))) usize_max \<le> kc_max_tokens caps"
        using IH False shift [of ?r] by (auto simp: add.assoc)
      then show "?r = n \<or> min (s + sum_list (take (?r - n) (x # xs))) usize_max \<le> kc_max_tokens caps" ..
      fix k assume k: "n \<le> k \<and> k \<le> n + length (x # xs) \<and> k \<le> kc_max_turns caps
        \<and> (k = n \<or> min (s + sum_list (take (k - n) (x # xs))) usize_max \<le> kc_max_tokens caps)"
      show "k \<le> ?r"
      proof (cases "k = n")
        case True
        with IH show ?thesis by simp
      next
        case neq: False
        with k have "n + 1 \<le> k" by simp
        with k neq shift [of k] show ?thesis by (intro max) (auto simp: add.assoc)
      qed
    qed
  qed
qed

lemma keep_scan_longest:
  "window_fits convo caps (keep_scan caps 0 0 (map snd (rev convo)))
   \<and> (\<forall>k. window_fits convo caps k \<longrightarrow> k \<le> keep_scan caps 0 0 (map snd (rev convo)))"
  using keep_scan_spec [of 0 caps 0 "map snd (rev convo)"]
  by (simp add: scan_fits_def window_fits_def newest_tokens_def take_map)

lemma plan_kept_count:
  "length (kw_kept (plan_keep_window convo caps)) = keep_scan caps 0 0 (map snd (rev convo))"
  using keep_scan_longest [of convo caps] by (simp add: plan_keep_window_def Let_def window_fits_def)

section \<open>The contract of an evictable conversation\<close>

locale evictable =
  fixes sizes :: "'s \<Rightarrow> (turn_id \<times> usize) list"
    and caps_of :: "'s \<Rightarrow> keep_caps"
    and evict :: "nat \<Rightarrow> 's \<Rightarrow> 's"
    and ok :: "'s \<Rightarrow> bool"
  assumes evict_sizes: "ok s \<Longrightarrow> sizes (evict n s) = drop n (sizes s)"
    and evict_ok: "ok s \<Longrightarrow> ok (evict n s)"
    and evict_caps: "ok s \<Longrightarrow> caps_of (evict n s) = caps_of s"
begin

definition evict_to_plan :: "'s \<Rightarrow> 's" where
  "evict_to_plan s = evict (kw_evict (plan_keep_window (sizes s) (caps_of s))) s"

lemma plan_is_kept:
  "ok s \<Longrightarrow> map fst (sizes (evict_to_plan s)) = kw_kept (plan_keep_window (sizes s) (caps_of s))"
  by (simp add: evict_to_plan_def evict_sizes plan_keep_window_def Let_def)

lemma kept_is_longest_fit:
  assumes "ok s"
  shows "window_fits (sizes s) (caps_of s) (length (sizes (evict_to_plan s)))
    \<and> (\<forall>k. window_fits (sizes s) (caps_of s) k \<longrightarrow> k \<le> length (sizes (evict_to_plan s)))"
proof -
  have "length (sizes (evict_to_plan s)) = keep_scan (caps_of s) 0 0 (map snd (rev (sizes s)))"
    using arg_cong [OF plan_is_kept [OF assms], of length] by (simp add: plan_kept_count)
  then show ?thesis using keep_scan_longest by simp
qed

text \<open>Planning again after an eviction evicts nothing.\<close>

lemma plan_idempotent:
  assumes "ok s"
  shows "keeps_everything (plan_keep_window (sizes (evict_to_plan s)) (caps_of (evict_to_plan s)))"
proof -
  let ?s' = "evict_to_plan s"
  let ?n = "length (sizes ?s')"
  let ?e = "kw_evict (plan_keep_window (sizes s) (caps_of s))"
  have "sizes ?s' = drop ?e (sizes s)" using assms by (simp add: evict_to_plan_def evict_sizes)
  moreover have "?e \<le> length (sizes s)" by (simp add: plan_keep_window_def Let_def)
  ultimately have suffix: "sizes ?s' = drop (length (sizes s) - ?n) (sizes s)" by simp
  have "take ?n (rev (sizes s)) = rev (sizes ?s')"
    by (simp only: take_rev suffix [symmetric])
  moreover have "caps_of ?s' = caps_of s"
    using assms by (simp add: evict_to_plan_def evict_caps)
  ultimately have "window_fits (sizes ?s') (caps_of ?s') ?n"
    using kept_is_longest_fit [OF assms] by (auto simp: window_fits_def newest_tokens_def)
  then have "?n \<le> keep_scan (caps_of ?s') 0 0 (map snd (rev (sizes ?s')))"
    using keep_scan_longest by blast
  then show ?thesis by (simp add: keeps_everything_def plan_keep_window_def Let_def)
qed

end

end
