(* ===== verification/Context_Store.thy ===== *)
theory Context_Store
  imports Keep_Window Retry_Shell
begin

text \<open>
  The agent's context store (\<open>crates/kallipai-adk/src/context/store.rs\<close> with \<open>turn.rs\<close>,
  \<open>manifest.rs\<close>, the summary records of \<open>context.rs\<close>, the warnings of \<open>warnings.rs\<close> and the manual
  eviction of \<open>tools/context/evict.rs\<close>). A message is what the code reads of the client library's
  message: its role, its text or its parts, and its tool calls. Token estimation (\<open>est\<close>) and the attachment
  references of a message (\<open>refs_of\<close>) are parameters; counters that a run cannot overflow are
  natural numbers. Tool definitions and the blob handle are not part of the state: no operation
  modelled here reads them.
\<close>

section \<open>Turns\<close>

record tool_call =
  tc_id :: string
  tc_name :: string
  tc_arguments :: string

datatype content_part = TextPart string | ImagePart string

record message =
  ms_role :: string
  ms_content :: "string option"
  ms_parts :: "content_part list option"
  ms_reasoning :: "string option"
  ms_calls :: "tool_call list"
  ms_tool_call_id :: "string option"

definition user_message :: "string \<Rightarrow> message" where
  "user_message text = \<lparr>ms_role = ''user'', ms_content = Some text,
     ms_parts = None, ms_reasoning = None, ms_calls = [], ms_tool_call_id = None\<rparr>"

definition IMAGE_PLACEHOLDER :: string where
  "IMAGE_PLACEHOLDER = ''[image omitted]''"

definition is_image :: "content_part \<Rightarrow> bool" where
  "is_image p = (case p of ImagePart _ \<Rightarrow> True | TextPart _ \<Rightarrow> False)"

definition message_has_images :: "message \<Rightarrow> bool" where
  "message_has_images m = (case ms_parts m of None \<Rightarrow> False | Some ps \<Rightarrow> list_ex is_image ps)"

text \<open>A user message with these parts, or a system one when the message is not a user's.\<close>

definition with_parts :: "message \<Rightarrow> content_part list \<Rightarrow> message" where
  "with_parts m ps =
     \<lparr>ms_role = (if ms_role m = ''user'' then ''user'' else ''system''), ms_content = None,
      ms_parts = Some ps, ms_reasoning = None, ms_calls = [], ms_tool_call_id = None\<rparr>"

definition strip_message_images :: "message \<Rightarrow> message option" where
  "strip_message_images m =
     (case ms_parts m of
        None \<Rightarrow> None
      | Some ps \<Rightarrow>
          if \<not> message_has_images m then None
          else
            let kept = filter (\<lambda>p. \<not> is_image p) ps
            in Some (with_parts m (if kept = [] then [TextPart IMAGE_PLACEHOLDER] else kept)))"

fun part_text :: "content_part \<Rightarrow> string option" where
  "part_text (TextPart t) = Some t"
| "part_text (ImagePart _) = None"

definition pin_text_form :: "message \<Rightarrow> message" where
  "pin_text_form m =
     (case strip_message_images m of
        None \<Rightarrow> m
      | Some stripped \<Rightarrow>
          user_message (case ms_parts stripped of
            None \<Rightarrow> []
          | Some ps \<Rightarrow> join_str [CHR 0x0A] (List.map_filter part_text ps)))"

record pin_attachment =
  pa_record_id :: "string option"
  pa_media_type :: string
  pa_blob_id :: string

datatype turn_kind = Conversation | Pinned string "pin_attachment list"

record turn =
  tu_id :: turn_id
  tu_messages :: "message list"
  tu_tokens :: usize
  tu_kind :: turn_kind

definition is_pinned :: "turn \<Rightarrow> bool" where
  "is_pinned t \<longleftrightarrow> (case tu_kind t of Pinned _ _ \<Rightarrow> True | Conversation \<Rightarrow> False)"

definition label_of :: "turn \<Rightarrow> string option" where
  "label_of t = (case tu_kind t of Pinned label _ \<Rightarrow> Some label | Conversation \<Rightarrow> None)"

definition pinned_attachments :: "turn \<Rightarrow> pin_attachment list" where
  "pinned_attachments t = (case tu_kind t of Pinned _ refs \<Rightarrow> refs | Conversation \<Rightarrow> [])"

definition turn_tokens :: "(message \<Rightarrow> usize) \<Rightarrow> message list \<Rightarrow> usize" where
  "turn_tokens est ms = sum_list (map est ms)"

definition pin_turn :: "turn_id \<Rightarrow> message \<Rightarrow> usize \<Rightarrow> string \<Rightarrow> pin_attachment list \<Rightarrow> turn" where
  "pin_turn i m tokens label refs =
     \<lparr>tu_id = i, tu_messages = [m], tu_tokens = tokens, tu_kind = Pinned label refs\<rparr>"

section \<open>Summary records\<close>

text \<open>The header's dash is U+2014.\<close>

definition CONTEXT_SUMMARY_HEADER :: string where
  "CONTEXT_SUMMARY_HEADER =
     ''[context summary '' @ [CHR 0xE2, CHR 0x80, CHR 0x94] @ '' earlier turns condensed, not a request]''"

definition CONTEXT_SUMMARY_RANGE_MARKER :: string where
  "CONTEXT_SUMMARY_RANGE_MARKER = ''[evicted window]''"

definition CONTEXT_SUMMARY_LABEL :: string where
  "CONTEXT_SUMMARY_LABEL = ''context_summary''"

definition newline :: char where "newline = CHR 0x0A"

definition strip_prefix :: "string \<Rightarrow> string \<Rightarrow> string option" where
  "strip_prefix s p = (if prefix p s then Some (drop (length p) s) else None)"

text \<open>What follows the first blank line, or nothing.\<close>

fun after_blank_line :: "string \<Rightarrow> string" where
  "after_blank_line (a # b # s) =
     (if a = newline \<and> b = newline then s else after_blank_line (b # s))"
| "after_blank_line _ = []"

definition summary_body :: "string \<Rightarrow> string" where
  "summary_body text =
     (case strip_prefix text CONTEXT_SUMMARY_HEADER of
        None \<Rightarrow> text
      | Some rest \<Rightarrow>
          let t = dropWhile (\<lambda>c. c = newline) rest
          in case strip_prefix t CONTEXT_SUMMARY_RANGE_MARKER of
               Some r \<Rightarrow> after_blank_line r
             | None \<Rightarrow> t)"

definition summary_text :: "string \<Rightarrow> string" where
  "summary_text text = CONTEXT_SUMMARY_HEADER @ [newline, newline] @ summary_body text"

definition summary_record :: "string \<Rightarrow> message" where
  "summary_record text = user_message (summary_text text)"

definition summary_text_with_range :: "string \<Rightarrow> summary_range \<Rightarrow> string" where
  "summary_text_with_range text r =
     CONTEXT_SUMMARY_HEADER @ [newline, newline] @ CONTEXT_SUMMARY_RANGE_MARKER @ '' '' @ range_line r
       @ [newline, newline] @ summary_body text"

definition summary_record_with_range :: "string \<Rightarrow> summary_range \<Rightarrow> message" where
  "summary_record_with_range text r = user_message (summary_text_with_range text r)"

section \<open>The store\<close>

record usage =
  us_prompt :: u32
  us_completion :: u32
  us_cache_read :: "u32 option"
  us_cache_write :: "u32 option"
  us_reasoning :: "u32 option"

record cumulative_usage =
  cu_prompt :: u64
  cu_completion :: u64
  cu_cache_read :: u64
  cu_cache_write :: u64

record pinned_item =
  pi_label :: string
  pi_message :: message
  pi_tokens :: usize

record context_store =
  cs_turns :: "turn list"
  cs_legacy_pinned :: "pinned_item list"
  cs_summary :: "string option"
  cs_last_prompt :: "u32 option"
  cs_anchored :: nat
  cs_needs_full :: bool
  cs_usage :: cumulative_usage
  cs_next_id :: nat
  cs_retry_log :: "retry_record list"
  cs_pinned_budget :: usize
  cs_caps :: keep_caps
  cs_warned :: "u8 option"
  cs_budget_warned :: "u8 option"
  cs_injected :: "nat list"

definition store_new :: context_store where
  "store_new =
     \<lparr>cs_turns = [], cs_legacy_pinned = [], cs_summary = None, cs_last_prompt = None,
      cs_anchored = 0, cs_needs_full = True,
      cs_usage = \<lparr>cu_prompt = 0, cu_completion = 0, cu_cache_read = 0, cu_cache_write = 0\<rparr>,
      cs_next_id = 0, cs_retry_log = [], cs_pinned_budget = 0, cs_caps = default_caps,
      cs_warned = None, cs_budget_warned = None, cs_injected = []\<rparr>"

definition pinned_turns :: "context_store \<Rightarrow> turn list" where
  "pinned_turns s = filter is_pinned (cs_turns s)"

definition pinned_turn_count :: "context_store \<Rightarrow> nat" where
  "pinned_turn_count s = length (takeWhile is_pinned (cs_turns s))"

definition pinned_tokens_total :: "context_store \<Rightarrow> usize" where
  "pinned_tokens_total s = sum_list (map tu_tokens (pinned_turns s))"

definition pinned_labels :: "context_store \<Rightarrow> string list" where
  "pinned_labels s = List.map_filter label_of (pinned_turns s)"

definition insert_pin :: "turn \<Rightarrow> context_store \<Rightarrow> context_store" where
  "insert_pin t s =
     (let k = pinned_turn_count s
      in s\<lparr>cs_turns := take k (cs_turns s) @ t # drop k (cs_turns s),
           cs_next_id := cs_next_id s + 1, cs_needs_full := True\<rparr>)"

datatype pin_error =
    AlreadyPinned string
  | PinNotFound string
  | PinnedBudgetExceeded usize usize

definition pin ::
  "(message \<Rightarrow> usize) \<Rightarrow> (message \<Rightarrow> pin_attachment list) \<Rightarrow> string \<Rightarrow> message \<Rightarrow> context_store
     \<Rightarrow> pin_error option \<times> context_store" where
  "pin est refs_of label m s =
     (if Some label \<in> label_of ` set (pinned_turns s) then (Some (AlreadyPinned label), s)
      else if 0 < cs_pinned_budget s \<and> cs_pinned_budget s < pinned_tokens_total s + est m
      then (Some (PinnedBudgetExceeded (pinned_tokens_total s + est m) (cs_pinned_budget s)), s)
      else (None, insert_pin (pin_turn (TurnId (cs_next_id s)) m (est m) label (refs_of m)) s))"

definition pin_position :: "string \<Rightarrow> context_store \<Rightarrow> nat option" where
  "pin_position label s =
     (let i = length (takeWhile (\<lambda>t. \<not> (is_pinned t \<and> label_of t = Some label)) (cs_turns s))
      in if i < length (cs_turns s) then Some i else None)"

definition unpin :: "string \<Rightarrow> context_store \<Rightarrow> pin_error option \<times> context_store" where
  "unpin label s =
     (case pin_position label s of
        None \<Rightarrow> (Some (PinNotFound label), s)
      | Some i \<Rightarrow>
          (None, s\<lparr>cs_turns := take i (cs_turns s) @ drop (Suc i) (cs_turns s), cs_needs_full := True\<rparr>))"

definition replace_pin ::
  "(message \<Rightarrow> usize) \<Rightarrow> (message \<Rightarrow> pin_attachment list) \<Rightarrow> string \<Rightarrow> message \<Rightarrow> context_store
     \<Rightarrow> pin_error option \<times> context_store" where
  "replace_pin est refs_of label m s =
     (let pos = pin_position label s;
          old = (case pos of Some i \<Rightarrow> tu_tokens (cs_turns s ! i) | None \<Rightarrow> 0);
          base = pinned_tokens_total s - old
      in if 0 < cs_pinned_budget s \<and> cs_pinned_budget s < base + est m
         then (Some (PinnedBudgetExceeded (base + est m) (cs_pinned_budget s)), s)
         else case pos of
           Some i \<Rightarrow>
             (None, s\<lparr>cs_turns := (cs_turns s)[i := pin_turn (tu_id (cs_turns s ! i)) m (est m) label (refs_of m)],
                      cs_needs_full := True\<rparr>)
         | None \<Rightarrow>
             (None, insert_pin (pin_turn (TurnId (cs_next_id s)) m (est m) label (refs_of m)) s))"

definition conversation_turn_sizes :: "context_store \<Rightarrow> (turn_id \<times> usize) list" where
  "conversation_turn_sizes s =
     map (\<lambda>t. (tu_id t, tu_tokens t)) (filter (\<lambda>t. \<not> is_pinned t) (cs_turns s))"

record evict_result =
  er_evicted :: nat
  er_remaining :: nat
  er_freed :: usize

definition evict_turns :: "nat \<Rightarrow> context_store \<Rightarrow> evict_result \<times> context_store" where
  "evict_turns n s =
     (let pinned = pinned_turn_count s;
          convo_len = length (cs_turns s) - pinned;
          to_evict = min n convo_len;
          freed = sum_list (map tu_tokens (take to_evict (drop pinned (cs_turns s))));
          s' = s\<lparr>cs_turns := take pinned (cs_turns s) @ drop (pinned + to_evict) (cs_turns s),
                 cs_needs_full := True\<rparr>
      in (\<lparr>er_evicted = to_evict, er_remaining = length (cs_turns s') - pinned_turn_count s',
           er_freed = freed\<rparr>, s'))"

text \<open>\<open>VecDeque::drain\<close> panics on a range that does not fit: \<open>None\<close>.\<close>

definition drain_turns :: "nat \<Rightarrow> nat \<Rightarrow> context_store \<Rightarrow> (turn list \<times> context_store) option" where
  "drain_turns a b s =
     (if a \<le> b \<and> b \<le> length (cs_turns s)
      then Some (take (b - a) (drop a (cs_turns s)),
        s\<lparr>cs_turns := take a (cs_turns s) @ drop b (cs_turns s), cs_needs_full := True\<rparr>)
      else None)"

definition push_turn ::
  "(message \<Rightarrow> usize) \<Rightarrow> message list \<Rightarrow> context_store \<Rightarrow> (turn_id \<times> usize) \<times> context_store" where
  "push_turn est ms s =
     (let i = TurnId (cs_next_id s); tokens = turn_tokens est ms
      in ((i, tokens),
          s\<lparr>cs_turns := cs_turns s @
              [\<lparr>tu_id = i, tu_messages = ms, tu_tokens = tokens, tu_kind = Conversation\<rparr>],
            cs_next_id := cs_next_id s + 1\<rparr>))"

definition reset_context_warnings :: "context_store \<Rightarrow> context_store" where
  "reset_context_warnings s = s\<lparr>cs_warned := None\<rparr>"

definition last_conversation_message_by_role :: "string \<Rightarrow> context_store \<Rightarrow> message option" where
  "last_conversation_message_by_role role s =
     find (\<lambda>m. ms_role m = role \<and> (role \<noteq> ''assistant'' \<or> ms_content m \<noteq> None))
       (concat (map (\<lambda>t. rev (tu_messages t)) (filter (\<lambda>t. \<not> is_pinned t) (rev (cs_turns s)))))"

definition tool_call_info :: "string \<Rightarrow> context_store \<Rightarrow> (string \<times> string) option" where
  "tool_call_info call_id s =
     map_option (\<lambda>c. (tc_name c, tc_arguments c))
       (find (\<lambda>c. tc_id c = call_id)
         (concat (map ms_calls
           (concat (map (\<lambda>t. rev (tu_messages t))
             (filter (\<lambda>t. \<not> is_pinned t) (rev (cs_turns s))))))))"

definition RETRY_LOG_KEEP :: usize where "RETRY_LOG_KEEP = 20"

definition record_retries :: "retry_record list \<Rightarrow> u64 \<Rightarrow> context_store \<Rightarrow> context_store" where
  "record_retries records keep_since s =
     (let log = filter (\<lambda>r. keep_since \<le> rr_timestamp r) (cs_retry_log s @ records)
      in s\<lparr>cs_retry_log := drop (length log - RETRY_LOG_KEEP) log\<rparr>)"

definition add_usage :: "usage \<Rightarrow> cumulative_usage \<Rightarrow> cumulative_usage" where
  "add_usage u c =
     \<lparr>cu_prompt = cu_prompt c + ucast (us_prompt u),
      cu_completion = cu_completion c + ucast (us_completion u),
      cu_cache_read = cu_cache_read c + (case us_cache_read u of Some r \<Rightarrow> ucast r | None \<Rightarrow> 0),
      cu_cache_write = cu_cache_write c + (case us_cache_write u of Some w \<Rightarrow> ucast w | None \<Rightarrow> 0)\<rparr>"

definition accumulate_usage :: "usage \<Rightarrow> context_store \<Rightarrow> context_store" where
  "accumulate_usage u s =
     s\<lparr>cs_usage := add_usage u (cs_usage s), cs_last_prompt := Some (us_prompt u),
       cs_anchored := length (cs_turns s), cs_needs_full := False\<rparr>"

definition accumulate_usage_no_anchor :: "usage \<Rightarrow> context_store \<Rightarrow> context_store" where
  "accumulate_usage_no_anchor u s = s\<lparr>cs_usage := add_usage u (cs_usage s)\<rparr>"

definition mark_needs_full_estimate :: "context_store \<Rightarrow> context_store" where
  "mark_needs_full_estimate s = s\<lparr>cs_needs_full := True\<rparr>"

definition set_pinned_budget :: "usize \<Rightarrow> context_store \<Rightarrow> context_store" where
  "set_pinned_budget b s = s\<lparr>cs_pinned_budget := b\<rparr>"

definition set_eviction_caps :: "keep_caps \<Rightarrow> context_store \<Rightarrow> context_store" where
  "set_eviction_caps caps s = s\<lparr>cs_caps := caps\<rparr>"

definition register_injected_turn :: "turn_id \<Rightarrow> context_store \<Rightarrow> context_store" where
  "register_injected_turn i s = s\<lparr>cs_injected := List.insert (id_num i) (cs_injected s)\<rparr>"

record context_usage =
  cx_pinned :: "(string \<times> usize) list"
  cx_turn_count :: nat
  cx_turn_tokens :: usize
  cx_last_prompt :: "u32 option"
  cx_cumulative :: cumulative_usage
  cx_largest :: "(nat \<times> usize) list"

text \<open>Largest first, ties by id: two stable sorts.\<close>

definition usage_snapshot :: "context_store \<Rightarrow> context_usage" where
  "usage_snapshot s =
     (let convo = filter (\<lambda>t. \<not> is_pinned t) (cs_turns s);
          sizes = map (\<lambda>t. (id_num (tu_id t), tu_tokens t)) convo
      in \<lparr>cx_pinned = List.map_filter
            (\<lambda>t. map_option (\<lambda>l. (l, tu_tokens t)) (label_of t)) (pinned_turns s),
          cx_turn_count = length convo,
          cx_turn_tokens = sum_list (map tu_tokens convo),
          cx_last_prompt = cs_last_prompt s,
          cx_cumulative = cs_usage s,
          cx_largest = take 5 (rev (sort_key snd (rev (sort_key fst sizes))))\<rparr>)"

section \<open>Estimation anchor\<close>

text \<open>The messages the incremental estimate renders: those of the turns past the anchor.\<close>

definition delta_messages :: "context_store \<Rightarrow> message list" where
  "delta_messages s =
     concat (map tu_messages (drop (min (cs_anchored s) (length (cs_turns s))) (cs_turns s)))"

definition estimate_context_tokens ::
  "(message list \<Rightarrow> usize) \<Rightarrow> usize \<Rightarrow> context_store \<Rightarrow> usize" where
  "estimate_context_tokens render full s =
     (case (cs_last_prompt s, cs_needs_full s) of
        (Some base, False) \<Rightarrow>
          unat base + (if delta_messages s = [] then 0 else render (delta_messages s))
      | _ \<Rightarrow> full)"

section \<open>Persistence\<close>

record manifest_doc =
  md_version :: nat
  md_turn_ids :: "nat list"
  md_usage :: cumulative_usage
  md_next_id :: nat
  md_retry_log :: "retry_record list"

record pin_record =
  pr_id :: nat
  pr_label :: string
  pr_message :: message
  pr_tokens :: usize
  pr_attachments :: "pin_attachment list"

definition FORMAT_VERSION :: nat where "FORMAT_VERSION = 1"

definition to_manifest_doc :: "context_store \<Rightarrow> manifest_doc" where
  "to_manifest_doc s =
     \<lparr>md_version = FORMAT_VERSION,
      md_turn_ids = map (id_num \<circ> tu_id)
        (filter (\<lambda>t. \<not> is_pinned t \<and> id_num (tu_id t) \<notin> set (cs_injected s)) (cs_turns s)),
      md_usage = cs_usage s, md_next_id = cs_next_id s, md_retry_log = cs_retry_log s\<rparr>"

definition to_pins_doc :: "(message \<Rightarrow> usize) \<Rightarrow> context_store \<Rightarrow> pin_record list" where
  "to_pins_doc est s =
     map (\<lambda>t. let m = pin_text_form (hd (tu_messages t))
            in \<lparr>pr_id = id_num (tu_id t), pr_label = the (label_of t), pr_message = m,
                pr_tokens = est m, pr_attachments = pinned_attachments t\<rparr>)
       (pinned_turns s)"

definition pin_of_record :: "pin_record \<Rightarrow> turn" where
  "pin_of_record p =
     pin_turn (TurnId (pr_id p)) (pr_message p) (pr_tokens p) (pr_label p) (pr_attachments p)"

definition from_persisted :: "pin_record list \<Rightarrow> turn list \<Rightarrow> manifest_doc \<Rightarrow> context_store" where
  "from_persisted pins convo manifest =
     (let turns = map pin_of_record pins @ convo;
          max_id = (if turns = [] then 0 else id_num (tu_id (last turns)) + 1)
      in store_new\<lparr>cs_turns := turns, cs_next_id := max (md_next_id manifest) max_id,
          cs_usage := md_usage manifest, cs_retry_log := md_retry_log manifest\<rparr>)"

section \<open>Restore-time migrations\<close>

definition migrate_legacy_summary ::
  "(message \<Rightarrow> usize) \<Rightarrow> (message \<Rightarrow> pin_attachment list) \<Rightarrow> context_store \<Rightarrow> context_store" where
  "migrate_legacy_summary est refs_of s =
     (case cs_summary s of
        None \<Rightarrow> s
      | Some summary \<Rightarrow>
          let s1 = s\<lparr>cs_summary := None\<rparr>
          in if summary = [] then s1
             else snd (pin est refs_of CONTEXT_SUMMARY_LABEL (summary_record summary)
                    (snd (unpin CONTEXT_SUMMARY_LABEL s1))))"

definition recast_summary :: "message \<Rightarrow> message" where
  "recast_summary m =
     (if ms_role m = ''assistant'' \<and> ms_calls m = []
      then summary_record (case ms_content m of Some t \<Rightarrow> t | None \<Rightarrow> [])
      else m)"

definition enforce_summary_pin_role :: "context_store \<Rightarrow> context_store" where
  "enforce_summary_pin_role s =
     (case pin_position CONTEXT_SUMMARY_LABEL s of
        None \<Rightarrow> s
      | Some i \<Rightarrow>
          s\<lparr>cs_turns := (cs_turns s)[i := (cs_turns s ! i)\<lparr>tu_messages :=
                map recast_summary (tu_messages (cs_turns s ! i))\<rparr>],
            cs_needs_full := True\<rparr>)"

definition reestimate_cached_tokens :: "(message \<Rightarrow> usize) \<Rightarrow> context_store \<Rightarrow> context_store" where
  "reestimate_cached_tokens est s =
     s\<lparr>cs_turns := map (\<lambda>t. t\<lparr>tu_tokens := turn_tokens est (tu_messages t)\<rparr>) (cs_turns s)\<rparr>"

definition legacy_pin_turns :: "nat \<Rightarrow> pinned_item list \<Rightarrow> turn list" where
  "legacy_pin_turns next items =
     map (\<lambda>(i, item). pin_turn (TurnId i) (pi_message item) (pi_tokens item) (pi_label item) [])
       (zip [next..<next + length items] items)"

definition migrate_legacy_pinned :: "context_store \<Rightarrow> context_store" where
  "migrate_legacy_pinned s =
     (let items = cs_legacy_pinned s
      in s\<lparr>cs_legacy_pinned := [],
           cs_turns := legacy_pin_turns (cs_next_id s) items @ cs_turns s,
           cs_next_id := cs_next_id s + length items,
           cs_needs_full := cs_needs_full s \<or> items \<noteq> []\<rparr>)"

section \<open>Warnings\<close>

definition should_warn :: "u8 option \<Rightarrow> u8 \<Rightarrow> bool" where
  "should_warn highest t = (case highest of None \<Rightarrow> True | Some prev \<Rightarrow> prev < t)"

definition mark_warned :: "u8 \<Rightarrow> u8 option \<Rightarrow> u8 option" where
  "mark_warned pct highest = Some (max (case highest of None \<Rightarrow> 0 | Some p \<Rightarrow> p) pct)"

definition progressive_message :: "u8 \<Rightarrow> usize \<Rightarrow> message" where
  "progressive_message t effective =
     user_message (''[system]'' @ [newline] @ ''Context usage is at '' @ show_nat (unat t) @ ''% (''
       @ show_nat (effective * unat t div 100) @ '' / '' @ show_nat effective @ '' tokens). ''
       @ ''Use context_status to review current turns, then context_evict with a ''
       @ ''summary to condense the older turns while preserving key facts.'')"

definition check_progressive_warnings ::
  "(message \<Rightarrow> usize) \<Rightarrow> u8 list \<Rightarrow> usize \<Rightarrow> usize \<Rightarrow> context_store \<Rightarrow> bool \<times> context_store" where
  "check_progressive_warnings est warnings usage_pct effective s =
     (if warnings = [] then (False, s)
      else if usage_pct < unat (hd warnings) then (False, reset_context_warnings s)
      else
        case find (\<lambda>t. unat t \<le> usage_pct \<and> should_warn (cs_warned s) t) (rev warnings) of
          None \<Rightarrow> (False, s)
        | Some t \<Rightarrow>
            (True, snd (push_turn est [progressive_message t effective]
              (s\<lparr>cs_warned := mark_warned t (cs_warned s)\<rparr>))))"

text \<open>The budget warning's text renders its token counts through a formatter of the shared crate,
  a parameter here.\<close>

definition check_token_budget_warnings ::
  "(message \<Rightarrow> usize) \<Rightarrow> (u8 \<Rightarrow> string) \<Rightarrow> u8 list \<Rightarrow> u8 \<Rightarrow> context_store \<Rightarrow> bool \<times> context_store" where
  "check_token_budget_warnings est text warnings pct s =
     (if warnings = [] \<or> pct = 0 then (False, s)
      else
        case find (\<lambda>t. t \<le> pct \<and> should_warn (cs_budget_warned s) t) (rev warnings) of
          None \<Rightarrow> (False, s)
        | Some t \<Rightarrow>
            (True, snd (push_turn est [user_message (text t)]
              (s\<lparr>cs_budget_warned := mark_warned t (cs_budget_warned s)\<rparr>))))"

section \<open>Manual eviction\<close>

definition NOTHING_NO_TURNS :: string where
  "NOTHING_NO_TURNS = ''the conversation has no turns: nothing to condense''"

definition NOTHING_WINDOW_COVERS :: string where
  "NOTHING_WINDOW_COVERS = ''the keep window covers every turn: nothing to condense''"

definition MAX_TURNS_ZERO_NOTE :: string where
  "MAX_TURNS_ZERO_NOTE = ''max_turns is 0: condensing every conversation turn is the configured ''
     @ ''behaviour, not a lost cap''"

text \<open>The reply names what was evicted, the window it kept, the caps it read and a note; or the call
  fails with the pin's error.\<close>

datatype evict_reply =
    Condensed evict_result keep_window keep_caps "string option"
  | EvictFailed pin_error

definition context_evict ::
  "(message \<Rightarrow> usize) \<Rightarrow> (message \<Rightarrow> pin_attachment list) \<Rightarrow> string \<Rightarrow> context_store
     \<Rightarrow> evict_reply \<times> context_store" where
  "context_evict est refs_of summary s =
     (let caps = cs_caps s; convo = conversation_turn_sizes s; w = plan_keep_window convo caps
      in case kw_range w of
           None \<Rightarrow>
             (Condensed \<lparr>er_evicted = 0, er_remaining = length convo, er_freed = 0\<rparr> w caps
                (Some (if convo = [] then NOTHING_NO_TURNS else NOTHING_WINDOW_COVERS)), s)
         | Some r \<Rightarrow>
             (case replace_pin est refs_of CONTEXT_SUMMARY_LABEL (summary_record_with_range summary r) s of
                (Some err, s1) \<Rightarrow> (EvictFailed err, s1)
              | (None, s1) \<Rightarrow>
                  (let (res, s2) = evict_turns (kw_evict w) s1
                   in (Condensed res w caps (if kc_max_turns caps = 0 then Some MAX_TURNS_ZERO_NOTE else None),
                       reset_context_warnings s2))))"

section \<open>The layout of the turns\<close>

text \<open>What the invariant reads of a turn: its id, and its label when it is pinned.\<close>

definition turn_key :: "turn \<Rightarrow> turn_id \<times> string option" where
  "turn_key t = (tu_id t, label_of t)"

lemma is_pinned_label: "is_pinned t \<longleftrightarrow> label_of t \<noteq> None"
  by (simp add: is_pinned_def label_of_def split: turn_kind.split)

text \<open>Pinned turns first, with different labels; then the conversation, with growing ids; all ids
  different and below the next one.\<close>

definition layout :: "nat \<Rightarrow> (turn_id \<times> string option) list \<Rightarrow> bool" where
  "layout next ks \<longleftrightarrow>
     (\<exists>P C. ks = P @ C \<and> (\<forall>k \<in> set P. snd k \<noteq> None) \<and> (\<forall>k \<in> set C. snd k = None)
        \<and> distinct (map fst ks) \<and> (\<forall>k \<in> set ks. id_num (fst k) < next)
        \<and> sorted_wrt (<) (map fst C) \<and> distinct (map snd P))"

lemma layoutE:
  assumes "layout next ks"
  obtains P C where "ks = P @ C" "\<forall>k \<in> set P. snd k \<noteq> None" "\<forall>k \<in> set C. snd k = None"
    "distinct (map fst (P @ C))" "\<forall>k \<in> set (P @ C). id_num (fst k) < next"
    "sorted_wrt (<) (map fst C)" "distinct (map snd P)"
  using assms unfolding layout_def by blast

lemma layoutI:
  "\<forall>k \<in> set P. snd k \<noteq> None \<Longrightarrow> \<forall>k \<in> set C. snd k = None \<Longrightarrow> distinct (map fst (P @ C)) \<Longrightarrow>
   \<forall>k \<in> set (P @ C). id_num (fst k) < next \<Longrightarrow> sorted_wrt (<) (map fst C) \<Longrightarrow> distinct (map snd P) \<Longrightarrow>
   layout next (P @ C)"
  unfolding layout_def by blast

lemma subseq_set: "subseq xs ys \<Longrightarrow> set xs \<subseteq> set ys"
  by (induction rule: list_emb.induct) auto

lemma sorted_wrt_subseq: "subseq xs ys \<Longrightarrow> sorted_wrt R ys \<Longrightarrow> sorted_wrt R xs"
  by (induction rule: list_emb.induct) (auto dest: subseq_set)

lemma distinct_subseq: "subseq xs ys \<Longrightarrow> distinct ys \<Longrightarrow> distinct xs"
  by (induction rule: list_emb.induct) (auto dest: subseq_set)

text \<open>Removing turns keeps the layout.\<close>

lemma layout_subseq:
  assumes "layout next ks" and "subseq js ks"
  shows "layout next js"
proof -
  from assms(1) obtain P C where ks: "ks = P @ C" and
    facts: "\<forall>k \<in> set P. snd k \<noteq> None" "\<forall>k \<in> set C. snd k = None"
      "distinct (map fst (P @ C))" "\<forall>k \<in> set (P @ C). id_num (fst k) < next"
      "sorted_wrt (<) (map fst C)" "distinct (map snd P)"
    by (rule layoutE)
  from assms(2) obtain P' C' where js: "js = P' @ C'" "subseq P' P" "subseq C' C"
    unfolding ks subseq_append_iff by blast
  have "subseq (map fst (P' @ C')) (map fst (P @ C))" 
    using subseq_map [OF assms(2) [unfolded js(1) ks]] .
  then have "distinct (map fst (P' @ C'))" using facts(3) by (rule distinct_subseq)
  moreover have "distinct (map snd P')" using subseq_map [OF js(2)] facts(6) by (rule distinct_subseq)
  moreover have "sorted_wrt (<) (map fst C')" using subseq_map [OF js(3)] facts(5) by (rule sorted_wrt_subseq)
  moreover have "set P' \<subseteq> set P" "set C' \<subseteq> set C" using js(2,3) by (auto dest: subseq_set)
  ultimately show ?thesis unfolding js(1) using facts(1,2,4) by (intro layoutI) auto
qed

lemma layout_next:
  assumes "\<forall>k \<in> set ks. id_num (fst k) < next"
  shows "TurnId next \<notin> fst ` set ks" and "\<forall>k \<in> set ks. id_num (fst k) < next + 1"
proof -
  show "TurnId next \<notin> fst ` set ks"
  proof
    assume "TurnId next \<in> fst ` set ks"
    then obtain k where "k \<in> set ks" "TurnId next = fst k" by blast
    with assms show False by (metis less_irrefl turn_id.sel)
  qed
  show "\<forall>k \<in> set ks. id_num (fst k) < next + 1" using assms by (simp add: less_SucI)
qed

lemma layout_push:
  assumes "layout next ks"
  shows "layout (next + 1) (ks @ [(TurnId next, None)])"
proof -
  from assms obtain P C where ks: "ks = P @ C" and
    facts: "\<forall>k \<in> set P. snd k \<noteq> None" "\<forall>k \<in> set C. snd k = None"
      "distinct (map fst (P @ C))" "\<forall>k \<in> set (P @ C). id_num (fst k) < next"
      "sorted_wrt (<) (map fst C)" "distinct (map snd P)"
    by (rule layoutE)
  note new = layout_next [OF facts(4)]
  have "layout (next + 1) (P @ (C @ [(TurnId next, None)]))"
  proof (rule layoutI)
    show "distinct (map fst (P @ C @ [(TurnId next, None)]))" using facts(3) new(1) by auto
    show "\<forall>k \<in> set (P @ C @ [(TurnId next, None)]). id_num (fst k) < next + 1" using new(2) by auto
    show "sorted_wrt (<) (map fst (C @ [(TurnId next, None)]))"
      using facts(4,5) by (auto simp: sorted_wrt_append less_turn_id_def)
  qed (use facts in auto)
  then show ?thesis by (simp add: ks)
qed

lemma layout_pin:
  assumes "layout next (P @ C)" and "\<forall>k \<in> set P. snd k \<noteq> None" and "\<forall>k \<in> set C. snd k = None"
    and "Some label \<notin> snd ` set P"
  shows "layout (next + 1) (P @ (TurnId next, Some label) # C)"
proof -
  from assms(1) obtain P' C' where eq: "P @ C = P' @ C'" and
    facts: "\<forall>k \<in> set P'. snd k \<noteq> None" "\<forall>k \<in> set C'. snd k = None"
      "distinct (map fst (P' @ C'))" "\<forall>k \<in> set (P' @ C'). id_num (fst k) < next"
      "sorted_wrt (<) (map fst C')" "distinct (map snd P')"
    by (rule layoutE)
  have "filter (\<lambda>k. snd k \<noteq> None) (P @ C) = P" "filter (\<lambda>k. snd k \<noteq> None) (P' @ C') = P'"
    using assms(2,3) facts(1,2) by (auto simp: filter_id_conv filter_empty_conv)
  then have "P = P'" using eq by simp
  with eq have C: "C = C'" by simp
  note new = layout_next [OF facts(4)]
  have "layout (next + 1) ((P' @ [(TurnId next, Some label)]) @ C')"
  proof (rule layoutI)
    show "distinct (map fst ((P' @ [(TurnId next, Some label)]) @ C'))" using facts(3) new(1) by auto
    show "\<forall>k \<in> set ((P' @ [(TurnId next, Some label)]) @ C'). id_num (fst k) < next + 1"
      using new(2) by auto
    show "distinct (map snd (P' @ [(TurnId next, Some label)]))"
      using facts(6) assms(4) \<open>P = P'\<close> by auto
  qed (use facts in auto)
  then show ?thesis using C \<open>P = P'\<close> by simp
qed

definition store_ok :: "context_store \<Rightarrow> bool" where
  "store_ok s \<longleftrightarrow> layout (cs_next_id s) (map turn_key (cs_turns s))
     \<and> (\<forall>t \<in> set (cs_turns s). is_pinned t \<longrightarrow> length (tu_messages t) = 1)
     \<and> (cs_needs_full s \<or> cs_anchored s \<le> length (cs_turns s))"

definition conversation :: "context_store \<Rightarrow> turn list" where
  "conversation s = filter (\<lambda>t. \<not> is_pinned t) (cs_turns s)"

lemma turns_split:
  assumes "store_ok s"
  shows "cs_turns s = pinned_turns s @ conversation s"
    and "pinned_turn_count s = length (pinned_turns s)"
proof -
  from assms obtain P C where ks: "map turn_key (cs_turns s) = P @ C"
    and P: "\<forall>k \<in> set P. snd k \<noteq> None" and C: "\<forall>k \<in> set C. snd k = None"
    unfolding store_ok_def by (auto elim: layoutE)
  then obtain A B where ts: "cs_turns s = A @ B" "map turn_key A = P" "map turn_key B = C"
    by (auto simp: map_eq_append_conv)
  have A: "\<forall>t \<in> set A. is_pinned t"
    using P ts(2) by (force simp: turn_key_def is_pinned_label)
  have B: "\<forall>t \<in> set B. \<not> is_pinned t"
    using C ts(3) by (force simp: turn_key_def is_pinned_label)
  have "filter is_pinned A = A" "filter is_pinned B = []"
    "filter (\<lambda>t. \<not> is_pinned t) A = []" "filter (\<lambda>t. \<not> is_pinned t) B = B"
    using A B by (simp_all add: filter_id_conv filter_empty_conv)
  then show "cs_turns s = pinned_turns s @ conversation s"
    by (simp add: pinned_turns_def conversation_def ts(1))
  have "takeWhile is_pinned (A @ B) = A" using A B by (cases B) (auto simp: takeWhile_append takeWhile_eq_all_conv)
  then show "pinned_turn_count s = length (pinned_turns s)"
    using \<open>filter is_pinned A = A\<close> \<open>filter is_pinned B = []\<close>
    by (simp add: pinned_turn_count_def pinned_turns_def ts(1))
qed

section \<open>Every operation keeps the layout\<close>

lemma store_ok_sub:
  "store_ok s \<Longrightarrow> subseq (cs_turns s') (cs_turns s) \<Longrightarrow> cs_next_id s' = cs_next_id s \<Longrightarrow>
     cs_needs_full s' \<Longrightarrow> store_ok s'"
  unfolding store_ok_def by (auto dest: subseq_set intro: layout_subseq subseq_map)

lemma store_ok_keys:
  "store_ok s \<Longrightarrow> map turn_key (cs_turns s') = map turn_key (cs_turns s) \<Longrightarrow>
     (\<And>t. t \<in> set (cs_turns s') \<Longrightarrow> is_pinned t \<Longrightarrow> length (tu_messages t) = 1) \<Longrightarrow>
     cs_next_id s' = cs_next_id s \<Longrightarrow> cs_needs_full s' \<or> cs_anchored s' \<le> length (cs_turns s') \<Longrightarrow>
     store_ok s'"
  unfolding store_ok_def by metis

lemma store_ok_insert_pin:
  assumes "store_ok s" and "Some label \<notin> label_of ` set (pinned_turns s)"
  shows "store_ok (insert_pin (pin_turn (TurnId (cs_next_id s)) m n label refs) s)"
    and "cs_turns (insert_pin (pin_turn (TurnId (cs_next_id s)) m n label refs) s)
      = pinned_turns s @ pin_turn (TurnId (cs_next_id s)) m n label refs # conversation s"
proof -
  let ?t = "pin_turn (TurnId (cs_next_id s)) m n label refs"
  let ?P = "map turn_key (pinned_turns s)" and ?C = "map turn_key (conversation s)"
  show ts: "cs_turns (insert_pin ?t s) = pinned_turns s @ ?t # conversation s"
    using turns_split [OF assms(1)] by (simp add: insert_pin_def Let_def)
  have "turn_key ?t = (TurnId (cs_next_id s), Some label)"
    by (simp add: turn_key_def pin_turn_def label_of_def)
  moreover have "layout (cs_next_id s + 1) (?P @ (TurnId (cs_next_id s), Some label) # ?C)"
  proof (rule layout_pin)
    show "layout (cs_next_id s) (?P @ ?C)"
      using assms(1) turns_split(1) [OF assms(1)] by (metis map_append store_ok_def)
    show "\<forall>k \<in> set ?P. snd k \<noteq> None" "\<forall>k \<in> set ?C. snd k = None"
      by (auto simp: turn_key_def pinned_turns_def conversation_def is_pinned_label)
    show "Some label \<notin> snd ` set ?P"
      using assms(2) by (auto simp: turn_key_def)
  qed
  ultimately have "layout (cs_next_id s + 1) (map turn_key (cs_turns (insert_pin ?t s)))"
    by (simp add: ts)
  moreover have "length (tu_messages t) = 1" if "t \<in> set (cs_turns (insert_pin ?t s))" "is_pinned t" for t
    using that assms(1) unfolding ts store_ok_def
    by (auto simp: pinned_turns_def conversation_def pin_turn_def)
  ultimately show "store_ok (insert_pin ?t s)"
    by (simp add: store_ok_def) (simp add: insert_pin_def Let_def)
qed

lemma pin_position_Some:
  assumes "pin_position label s = Some i"
  shows "i < length (cs_turns s)" and "label_of (cs_turns s ! i) = Some label"
proof -
  let ?P = "\<lambda>t. \<not> (is_pinned t \<and> label_of t = Some label)"
  from assms have i: "i = length (takeWhile ?P (cs_turns s))" "i < length (cs_turns s)"
    by (auto simp: pin_position_def Let_def split: if_splits)
  then show "i < length (cs_turns s)" by simp
  show "label_of (cs_turns s ! i) = Some label"
    using nth_length_takeWhile [of ?P "cs_turns s"] i by auto
qed

lemma pin_position_None:
  "pin_position label s = None \<Longrightarrow> Some label \<notin> label_of ` set (cs_turns s)"
proof -
  let ?P = "\<lambda>t. \<not> (is_pinned t \<and> label_of t = Some label)"
  assume "pin_position label s = None"
  then have "length (takeWhile ?P (cs_turns s)) = length (cs_turns s)"
    using length_takeWhile_le [of ?P "cs_turns s"] by (auto simp: pin_position_def Let_def split: if_splits)
  then have "takeWhile ?P (cs_turns s) = cs_turns s"
    by (metis takeWhile_eq_take take_all_iff order_refl)
  then have "\<forall>t \<in> set (cs_turns s). ?P t" by (simp add: takeWhile_eq_all_conv)
  then show ?thesis by (auto simp: is_pinned_label)
qed

lemma store_ok_pin: "store_ok s \<Longrightarrow> store_ok (snd (pin est refs_of label m s))"
  by (simp add: pin_def store_ok_insert_pin(1))

lemma subseq_remove: "subseq (take i xs @ drop j xs) xs" if "i \<le> j" for xs :: "'a list"
proof -
  have "subseq (drop j xs) (drop i xs)"
    using that by (metis le_add_diff_inverse2 drop_drop suffix_drop suffix_imp_subseq)
  then have "subseq (take i xs @ drop j xs) (take i xs @ drop i xs)"
    by (intro list_emb_append_mono) simp_all
  then show ?thesis by simp
qed

lemma store_ok_unpin: "store_ok s \<Longrightarrow> store_ok (snd (unpin label s))"
  by (auto simp: unpin_def subseq_remove split: option.split intro: store_ok_sub)

lemma replace_at:
  assumes "store_ok s" and "pin_position label s = Some i"
  shows "store_ok (s\<lparr>cs_turns := (cs_turns s)[i := pin_turn (tu_id (cs_turns s ! i)) m n label refs],
    cs_needs_full := True\<rparr>)"
proof (rule store_ok_keys [OF assms(1)])
  let ?t = "pin_turn (tu_id (cs_turns s ! i)) m n label refs"
  have "turn_key ?t = turn_key (cs_turns s ! i)"
    using pin_position_Some [OF assms(2)] by (simp add: turn_key_def pin_turn_def label_of_def)
  then show "map turn_key (cs_turns (s\<lparr>cs_turns := (cs_turns s)[i := ?t], cs_needs_full := True\<rparr>))
      = map turn_key (cs_turns s)"
    using pin_position_Some(1) [OF assms(2)] by (simp add: map_update list_update_same_conv)
  fix t assume "t \<in> set (cs_turns (s\<lparr>cs_turns := (cs_turns s)[i := ?t], cs_needs_full := True\<rparr>))" "is_pinned t"
  then show "length (tu_messages t) = 1"
    using assms(1) set_update_subset_insert [of "cs_turns s" i ?t]
    by (auto simp: store_ok_def pin_turn_def)
qed simp_all

lemma store_ok_replace: "store_ok s \<Longrightarrow> store_ok (snd (replace_pin est refs_of label m s))"
proof -
  assume ok: "store_ok s"
  show ?thesis
  proof (cases "pin_position label s")
    case None
    then have "Some label \<notin> label_of ` set (pinned_turns s)"
      using pin_position_None [OF None] by (auto simp: pinned_turns_def)
    with None ok show ?thesis by (simp add: replace_pin_def Let_def store_ok_insert_pin(1))
  next
    case (Some i)
    with ok show ?thesis by (simp add: replace_pin_def Let_def replace_at)
  qed
qed

text \<open>The eviction on the two halves of the turns.\<close>

lemma evict_turns_split:
  assumes "cs_turns s = P @ C" and "pinned_turn_count s = length P"
  shows "snd (evict_turns n s) = s\<lparr>cs_turns := P @ drop n C, cs_needs_full := True\<rparr>"
    and "er_evicted (fst (evict_turns n s)) = min n (length C)"
    and "er_freed (fst (evict_turns n s)) = sum_list (map tu_tokens (take n C))"
    and "er_remaining (fst (evict_turns n s))
      = length P + length (drop n C) - pinned_turn_count (s\<lparr>cs_turns := P @ drop n C, cs_needs_full := True\<rparr>)"
proof -
  have cut: "drop (length P + min n (length C)) (P @ C) = drop n C"
    "take (min n (length C)) C = take n C"
    by (simp_all add: min_def)
  show "snd (evict_turns n s) = s\<lparr>cs_turns := P @ drop n C, cs_needs_full := True\<rparr>"
    unfolding evict_turns_def Let_def snd_conv assms cut(1) by (simp add: min_def)
  show "er_evicted (fst (evict_turns n s)) = min n (length C)"
    unfolding evict_turns_def Let_def fst_conv assms by simp
  show "er_freed (fst (evict_turns n s)) = sum_list (map tu_tokens (take n C))"
    unfolding evict_turns_def Let_def fst_conv assms by (simp add: min_def)
  show "er_remaining (fst (evict_turns n s))
      = length P + length (drop n C) - pinned_turn_count (s\<lparr>cs_turns := P @ drop n C, cs_needs_full := True\<rparr>)"
    unfolding evict_turns_def Let_def fst_conv assms by (simp add: min_def)
qed

lemma evict_turns_facts:
  assumes "store_ok s"
  shows "cs_turns (snd (evict_turns n s)) = pinned_turns s @ drop n (conversation s)"
    and "store_ok (snd (evict_turns n s))"
    and "fst (evict_turns n s) = \<lparr>er_evicted = min n (length (conversation s)),
      er_remaining = length (conversation s) - n,
      er_freed = sum_list (map tu_tokens (take n (conversation s)))\<rparr>"
proof -
  note split = turns_split [OF assms]
  note parts = evict_turns_split [OF split, of n]
  let ?s' = "s\<lparr>cs_turns := pinned_turns s @ drop n (conversation s), cs_needs_full := True\<rparr>"
  show ts: "cs_turns (snd (evict_turns n s)) = pinned_turns s @ drop n (conversation s)"
    by (simp add: parts(1))
  have sub: "subseq (pinned_turns s @ drop n (conversation s)) (cs_turns s)"
    unfolding split(1) by (intro list_emb_append_mono) (simp_all add: suffix_drop suffix_imp_subseq)
  show ok: "store_ok (snd (evict_turns n s))"
    by (rule store_ok_sub [OF assms]) (unfold parts(1), simp_all add: sub)
  have "filter is_pinned (pinned_turns s) = pinned_turns s"
    by (simp add: pinned_turns_def)
  moreover have "filter is_pinned (drop n (conversation s)) = []"
    using set_drop_subset [of n "conversation s"] by (force simp: filter_empty_conv conversation_def)
  ultimately have "pinned_turns ?s' = pinned_turns s"
    by (simp add: pinned_turns_def [of ?s'])
  then have "pinned_turn_count ?s' = length (pinned_turns s)"
    using turns_split(2) [OF ok] by (simp add: parts(1))
  then show "fst (evict_turns n s) = \<lparr>er_evicted = min n (length (conversation s)),
      er_remaining = length (conversation s) - n,
      er_freed = sum_list (map tu_tokens (take n (conversation s)))\<rparr>"
    using parts(2,3,4) by (intro evict_result.equality) simp_all
qed

lemma turn_key_new:
  "turn_key \<lparr>tu_id = i, tu_messages = ms, tu_tokens = n, tu_kind = Conversation\<rparr> = (i, None)"
  by (simp add: turn_key_def label_of_def)

lemma store_ok_push: "store_ok s \<Longrightarrow> store_ok (snd (push_turn est ms s))"
  using layout_push [of "cs_next_id s" "map turn_key (cs_turns s)"]
  by (auto simp: store_ok_def push_turn_def Let_def turn_key_new is_pinned_def)

lemma store_ok_drain: "store_ok s \<Longrightarrow> drain_turns a b s = Some (ts, s') \<Longrightarrow> store_ok s'"
  by (auto simp: drain_turns_def subseq_remove split: if_splits intro: store_ok_sub)

lemma evict_turns_unchanged:
  "cs_caps (snd (evict_turns n s)) = cs_caps s" "cs_pinned_budget (snd (evict_turns n s)) = cs_pinned_budget s"
  by (simp_all add: evict_turns_def Let_def)

text \<open>The fields the invariant does not read.\<close>

lemma store_ok_cong:
  "cs_turns s' = cs_turns s \<Longrightarrow> cs_next_id s' = cs_next_id s \<Longrightarrow> cs_anchored s' = cs_anchored s \<Longrightarrow>
     cs_needs_full s' = cs_needs_full s \<Longrightarrow> store_ok s' = store_ok s"
  by (simp add: store_ok_def)

lemma store_ok_recast: "store_ok s \<Longrightarrow> store_ok (enforce_summary_pin_role s)"
proof -
  assume ok: "store_ok s"
  show ?thesis
  proof (cases "pin_position CONTEXT_SUMMARY_LABEL s")
    case None
    with ok show ?thesis by (simp add: enforce_summary_pin_role_def)
  next
    case (Some i)
    let ?t = "(cs_turns s ! i)\<lparr>tu_messages := map recast_summary (tu_messages (cs_turns s ! i))\<rparr>"
    have i: "i < length (cs_turns s)" by (rule pin_position_Some(1) [OF Some])
    have "is_pinned t \<longrightarrow> length (tu_messages t) = 1" if "t \<in> set ((cs_turns s)[i := ?t])" for t
      using that set_update_subset_insert [of "cs_turns s" i ?t] ok nth_mem [OF i]
      by (auto simp: store_ok_def is_pinned_def)
    moreover have "map turn_key ((cs_turns s)[i := ?t]) = map turn_key (cs_turns s)"
      using i by (simp add: map_update turn_key_def label_of_def list_update_same_conv)
    ultimately show ?thesis
      using Some ok by (intro store_ok_keys [OF ok]) (simp_all add: enforce_summary_pin_role_def)
  qed
qed

lemma store_ok_reestimate: "store_ok s \<Longrightarrow> store_ok (reestimate_cached_tokens est s)"
  by (rule store_ok_keys) (auto simp: reestimate_cached_tokens_def store_ok_def turn_key_def label_of_def is_pinned_def)

lemma store_ok_summary: "store_ok s \<Longrightarrow> store_ok (migrate_legacy_summary est refs_of s)"
  using store_ok_cong [of "s\<lparr>cs_summary := None\<rparr>" s]
  by (auto simp: migrate_legacy_summary_def Let_def split: option.split intro!: store_ok_pin store_ok_unpin)

lemma store_ok_warned: "store_ok s \<Longrightarrow> store_ok (s\<lparr>cs_warned := w\<rparr>)"
  "store_ok s \<Longrightarrow> store_ok (s\<lparr>cs_budget_warned := w\<rparr>)"
  by (simp_all add: store_ok_def)

lemma store_ok_warnings:
  "store_ok s \<Longrightarrow> store_ok (snd (check_progressive_warnings est ws pct effective s))"
  "store_ok s \<Longrightarrow> store_ok (snd (check_token_budget_warnings est budget_text ws p s))"
  by (auto simp: check_progressive_warnings_def check_token_budget_warnings_def
      reset_context_warnings_def store_ok_warned split: option.split intro!: store_ok_push)

lemma context_evict_store:
  "snd (context_evict est refs_of summary s) =
     (let w = plan_keep_window (conversation_turn_sizes s) (cs_caps s)
      in case kw_range w of
           None \<Rightarrow> s
         | Some r \<Rightarrow>
             (let p = replace_pin est refs_of CONTEXT_SUMMARY_LABEL (summary_record_with_range summary r) s
              in if fst p = None then reset_context_warnings (snd (evict_turns (kw_evict w) (snd p)))
                 else snd p))"
  by (simp add: context_evict_def Let_def split: option.split prod.split)

lemma store_ok_context_evict:
  "store_ok s \<Longrightarrow> store_ok (snd (context_evict est refs_of summary s))"
  by (simp add: context_evict_store Let_def reset_context_warnings_def store_ok_warned
      store_ok_replace evict_turns_facts(2) split: option.split)

section \<open>The store as a machine\<close>

datatype store_op =
    SPin string message
  | SUnpin string
  | SReplace string message
  | SEvict nat
  | SDrain nat nat
  | SPush "message list"
  | SUsage usage
  | SUsageNoAnchor usage
  | SMarkFull
  | SBudget usize
  | SCaps keep_caps
  | SResetWarnings
  | SProgressive "u8 list" usize usize
  | SBudgetWarn "u8 list" u8
  | SRetries "retry_record list" u64
  | SInjected turn_id
  | SSummary
  | SEnforceRole
  | SReestimate
  | SEvictTool string

text \<open>An operation the code answers with an error or a panic leaves the store as it was.\<close>

fun store_step ::
  "(message \<Rightarrow> usize) \<Rightarrow> (message \<Rightarrow> pin_attachment list) \<Rightarrow> (u8 \<Rightarrow> string) \<Rightarrow> store_op
     \<Rightarrow> context_store \<Rightarrow> context_store" where
  "store_step est refs_of budget_text (SPin label m) s = snd (pin est refs_of label m s)"
| "store_step est refs_of budget_text (SUnpin label) s = snd (unpin label s)"
| "store_step est refs_of budget_text (SReplace label m) s = snd (replace_pin est refs_of label m s)"
| "store_step est refs_of budget_text (SEvict n) s = snd (evict_turns n s)"
| "store_step est refs_of budget_text (SDrain a b) s =
     (case drain_turns a b s of Some (_, s') \<Rightarrow> s' | None \<Rightarrow> s)"
| "store_step est refs_of budget_text (SPush ms) s = snd (push_turn est ms s)"
| "store_step est refs_of budget_text (SUsage u) s = accumulate_usage u s"
| "store_step est refs_of budget_text (SUsageNoAnchor u) s = accumulate_usage_no_anchor u s"
| "store_step est refs_of budget_text SMarkFull s = mark_needs_full_estimate s"
| "store_step est refs_of budget_text (SBudget b) s = set_pinned_budget b s"
| "store_step est refs_of budget_text (SCaps c) s = set_eviction_caps c s"
| "store_step est refs_of budget_text SResetWarnings s = reset_context_warnings s"
| "store_step est refs_of budget_text (SProgressive ws pct eff) s =
     snd (check_progressive_warnings est ws pct eff s)"
| "store_step est refs_of budget_text (SBudgetWarn ws pct) s =
     snd (check_token_budget_warnings est budget_text ws pct s)"
| "store_step est refs_of budget_text (SRetries rs since) s = record_retries rs since s"
| "store_step est refs_of budget_text (SInjected i) s = register_injected_turn i s"
| "store_step est refs_of budget_text SSummary s = migrate_legacy_summary est refs_of s"
| "store_step est refs_of budget_text SEnforceRole s = enforce_summary_pin_role s"
| "store_step est refs_of budget_text SReestimate s = reestimate_cached_tokens est s"
| "store_step est refs_of budget_text (SEvictTool summary) s = snd (context_evict est refs_of summary s)"

lemmas store_updates = accumulate_usage_def accumulate_usage_no_anchor_def mark_needs_full_estimate_def
  set_pinned_budget_def set_eviction_caps_def reset_context_warnings_def record_retries_def
  register_injected_turn_def

lemma store_step_ok: "store_ok s \<Longrightarrow> store_ok (store_step est refs_of budget_text op s)"
  by (cases op)
    (auto simp: store_ok_pin store_ok_unpin store_ok_replace evict_turns_facts store_ok_push
      store_ok_warnings store_ok_summary store_ok_recast store_ok_reestimate store_ok_context_evict
      split: option.split prod.split intro: store_ok_drain,
     simp_all add: store_updates store_ok_def Let_def)

interpretation store_runs: invariant_machine "store_step est refs_of budget_text" store_ok
  for est :: "message \<Rightarrow> usize" and refs_of :: "message \<Rightarrow> pin_attachment list" and budget_text :: "u8 \<Rightarrow> string"
  by unfold_locales (rule store_step_ok)

lemma store_ok_new: "store_ok store_new"
  by (simp add: store_ok_def store_new_def layout_def)

lemma sizes_of_conversation:
  "conversation_turn_sizes s = map (\<lambda>t. (tu_id t, tu_tokens t)) (conversation s)"
  by (simp add: conversation_turn_sizes_def conversation_def)

lemma conversation_evict:
  assumes "store_ok s"
  shows "conversation (snd (evict_turns n s)) = drop n (conversation s)"
    and "pinned_turns (snd (evict_turns n s)) = pinned_turns s"
proof -
  have "filter is_pinned (drop n (conversation s)) = []"
    "filter (\<lambda>t. \<not> is_pinned t) (drop n (conversation s)) = drop n (conversation s)"
    using set_drop_subset [of n "conversation s"]
    by (force simp: filter_empty_conv filter_id_conv conversation_def)+
  moreover have "filter is_pinned (pinned_turns s) = pinned_turns s"
    "filter (\<lambda>t. \<not> is_pinned t) (pinned_turns s) = []"
    by (simp_all add: pinned_turns_def)
  ultimately show "conversation (snd (evict_turns n s)) = drop n (conversation s)"
    "pinned_turns (snd (evict_turns n s)) = pinned_turns s"
    unfolding conversation_def [of "snd (evict_turns n s)"] pinned_turns_def [of "snd (evict_turns n s)"]
      evict_turns_facts(1) [OF assms] by simp_all
qed

interpretation convo: evictable conversation_turn_sizes cs_caps "\<lambda>n s. snd (evict_turns n s)" store_ok
  by unfold_locales
    (simp_all add: sizes_of_conversation conversation_evict evict_turns_facts evict_turns_unchanged drop_map)

end
