(* ===== verification/History.thy ===== *)
theory History
  imports Context_Store "HOL-Library.Multiset"
begin

text \<open>
  The append-only history log and its readers: \<open>crates/kallipai-adk/src/history.rs\<close>. A day file is
  its lines in order, or unreadable; a line is blank, does not parse, or is a record. The files are
  kept under their UTC dates, oldest first, as the reader sorts them. The lemmas characterise the
  two readers by the newest record of a turn.
\<close>

section \<open>Records\<close>

record attachment_ref =
  ar_modality :: string
  ar_record_id :: "string option"
  ar_media_type :: string
  ar_blob_id :: string
  ar_caption :: "string option"

datatype record_kind = TurnRecord | SystemRecord

datatype system_event =
    AgentRestore
  | CompactionSummary
  | CompactionFailure u32 u32 string string
  | ReferenceInvalidated nat string string

record turn_usage =
  tg_prompt :: u32
  tg_completion :: u32
  tg_cache_read :: u32
  tg_cache_write :: u32
  tg_reasoning :: u32

record turn_attempt =
  tt_profile_set :: string
  tt_profile_id :: string
  tt_provider :: string
  tt_model :: string
  tt_effort :: "string option"
  tt_round :: usize
  tt_usage :: "turn_usage option"
  tt_elapsed_ms :: u64

record history_record =
  hi_turn_id :: "nat option"
  hi_messages :: "message list"
  hi_tokens :: usize
  hi_kind :: record_kind
  hi_event :: "system_event option"
  hi_attachments :: "attachment_ref list"
  hi_attempt :: "turn_attempt option"

definition turn_usage_of :: "usage \<Rightarrow> turn_usage" where
  "turn_usage_of u =
     \<lparr>tg_prompt = us_prompt u, tg_completion = us_completion u,
      tg_cache_read = (case us_cache_read u of None \<Rightarrow> 0 | Some n \<Rightarrow> n),
      tg_cache_write = (case us_cache_write u of None \<Rightarrow> 0 | Some n \<Rightarrow> n),
      tg_reasoning = (case us_reasoning u of None \<Rightarrow> 0 | Some n \<Rightarrow> n)\<rparr>"

datatype log_line = BlankLine | BadLine | Rec history_record

type_synonym history_log = "(string \<times> log_line list option) list"

section \<open>Appending\<close>

text \<open>\<open>HistoryWriter::append\<close>, on the file of the day. Appending to a file that is not valid text
  leaves it so.\<close>

fun append_line :: "string \<Rightarrow> log_line \<Rightarrow> history_log \<Rightarrow> history_log" where
  "append_line today l [] = [(today, Some [l])]"
| "append_line today l ((day, content) # days) =
     (if today < day then (today, Some [l]) # (day, content) # days
      else if today = day then (day, map_option (\<lambda>ls. ls @ [l]) content) # days
      else (day, content) # append_line today l days)"

definition append_record :: "string \<Rightarrow> history_record \<Rightarrow> history_log \<Rightarrow> history_log" where
  "append_record today rec log = append_line today (Rec rec) log"

section \<open>Reading\<close>

text \<open>The lines in the order both readers visit them: newest file first, newest line first.\<close>

definition newest_lines :: "history_log \<Rightarrow> log_line list" where
  "newest_lines log =
     concat (map (\<lambda>(_, content). case content of None \<Rightarrow> [] | Some ls \<Rightarrow> rev ls) (rev log))"

definition has_history :: "history_log \<Rightarrow> bool" where
  "has_history log \<longleftrightarrow> log \<noteq> []"

definition turn_of_record :: "nat \<Rightarrow> history_record \<Rightarrow> turn" where
  "turn_of_record i rec =
     \<lparr>tu_id = TurnId i, tu_messages = hi_messages rec, tu_tokens = hi_tokens rec,
      tu_kind = Conversation\<rparr>"

type_synonym sidecar = "(nat \<times> attachment_ref list) list"

record hydration_report =
  hy_bad_lines :: nat
  hy_missing :: "nat list"
  hy_sidecar :: sidecar

text \<open>The scan of \<open>hydrate_turns\<close>: what is still wanted, the turns and attachments found and the bad
  lines counted so far. It stops when the last wanted turn is found.\<close>

fun hydrate_scan :: "log_line list \<Rightarrow> nat list \<Rightarrow> turn list \<Rightarrow> sidecar \<Rightarrow> nat
    \<Rightarrow> nat list \<times> turn list \<times> sidecar \<times> nat" where
  "hydrate_scan [] wanted turns sc bad = (wanted, turns, sc, bad)"
| "hydrate_scan (BlankLine # ls) wanted turns sc bad = hydrate_scan ls wanted turns sc bad"
| "hydrate_scan (BadLine # ls) wanted turns sc bad = hydrate_scan ls wanted turns sc (bad + 1)"
| "hydrate_scan (Rec rec # ls) wanted turns sc bad =
     (if hi_kind rec \<noteq> TurnRecord then hydrate_scan ls wanted turns sc bad
      else case hi_turn_id rec of
        None \<Rightarrow> hydrate_scan ls wanted turns sc bad
      | Some i \<Rightarrow>
          if i \<in> set wanted then
            (let wanted' = removeAll i wanted;
                 sc' = (if hi_attachments rec \<noteq> [] then AList.update i (hi_attachments rec) sc else sc);
                 turns' = turns @ [turn_of_record i rec]
             in if wanted' = [] then (wanted', turns', sc', bad)
                else hydrate_scan ls wanted' turns' sc' bad)
          else hydrate_scan ls wanted turns sc bad)"

definition hydrate_turns :: "history_log \<Rightarrow> nat list \<Rightarrow> turn list \<times> hydration_report" where
  "hydrate_turns log ids =
     (let (wanted, turns, sc, bad) = hydrate_scan (newest_lines log) (remdups ids) [] [] 0
      in (sort_key (id_num \<circ> tu_id) turns,
          \<lparr>hy_bad_lines = bad, hy_missing = sort wanted, hy_sidecar = sc\<rparr>))"

definition turn_record_id :: "log_line \<Rightarrow> nat option" where
  "turn_record_id l =
     (case l of
        Rec rec \<Rightarrow> if hi_kind rec = TurnRecord then hi_turn_id rec else None
      | _ \<Rightarrow> None)"

definition max_turn_id :: "history_log \<Rightarrow> nat" where
  "max_turn_id log = (case find_map turn_record_id (newest_lines log) of None \<Rightarrow> 0 | Some i \<Rightarrow> i)"

fun tail_scan :: "nat \<Rightarrow> log_line list \<Rightarrow> nat \<Rightarrow> nat list \<Rightarrow> turn list \<Rightarrow> sidecar
    \<Rightarrow> turn list \<times> sidecar" where
  "tail_scan budget [] used seen turns sc = (turns, sc)"
| "tail_scan budget (Rec rec # ls) used seen turns sc =
     (if hi_kind rec \<noteq> TurnRecord then tail_scan budget ls used seen turns sc
      else case hi_turn_id rec of
        None \<Rightarrow> tail_scan budget ls used seen turns sc
      | Some i \<Rightarrow>
          if i \<in> set seen then tail_scan budget ls used seen turns sc
          else if budget < used + hi_tokens rec then (turns, sc)
          else tail_scan budget ls (used + hi_tokens rec) (i # seen)
                 (turns @ [turn_of_record i rec])
                 (if hi_attachments rec \<noteq> [] then AList.update i (hi_attachments rec) sc else sc))"
| "tail_scan budget (_ # ls) used seen turns sc = tail_scan budget ls used seen turns sc"

definition tail_turns_within_budget :: "history_log \<Rightarrow> nat \<Rightarrow> turn list \<times> sidecar" where
  "tail_turns_within_budget log budget =
     (let (turns, sc) = tail_scan budget (newest_lines log) 0 [] [] [] in (rev turns, sc))"

section \<open>The newest record of a turn\<close>

definition newest_in :: "log_line list \<Rightarrow> nat \<Rightarrow> history_record option" where
  "newest_in ls i =
     find_map (\<lambda>l. case l of Rec rec \<Rightarrow> if turn_record_id l = Some i then Some rec else None | _ \<Rightarrow> None) ls"

definition newest_record :: "history_log \<Rightarrow> nat \<Rightarrow> history_record option" where
  "newest_record log i = newest_in (newest_lines log) i"

text \<open>The dates are in order, none is after today, and the file of the day can be read back.\<close>

definition appendable :: "string \<Rightarrow> history_log \<Rightarrow> bool" where
  "appendable today log \<longleftrightarrow>
     sorted_wrt (<) (map fst log) \<and>
     list_all (\<lambda>(day, content). day < today \<or> day = today \<and> content \<noteq> None) log"

lemma newest_lines_Cons:
  "newest_lines ((day, content) # days) =
     newest_lines days @ (case content of None \<Rightarrow> [] | Some ls \<Rightarrow> rev ls)"
  by (simp add: newest_lines_def)

lemma newest_lines_append:
  "appendable today log \<Longrightarrow> newest_lines (append_line today l log) = l # newest_lines log"
proof (induction log)
  case Nil
  then show ?case by (simp add: newest_lines_def)
next
  case (Cons d days)
  obtain day content where d: "d = (day, content)" by (cases d)
  show ?case
  proof (cases "today = day")
    case True
    with Cons.prems have "days = []"
      by (cases days) (auto simp: appendable_def d)
    with True Cons.prems show ?thesis by (auto simp: d newest_lines_def appendable_def)
  next
    case False
    with Cons.prems have "\<not> today < day" by (auto simp: appendable_def d)
    with False Cons show ?thesis by (simp add: d newest_lines_Cons appendable_def)
  qed
qed

lemma set_append_line: "set (map fst (append_line today l log)) = insert today (set (map fst log))"
  by (induction today l log rule: append_line.induct) auto

lemma appendable_append: "appendable today log \<Longrightarrow> appendable today (append_line today l log)"
proof (induction today l log rule: append_line.induct)
  case (2 today l day content days)
  have "\<forall>x \<in> set (map fst (append_line today l days)). day < x" if "day < today"
    using that "2.prems" unfolding set_append_line by (auto simp: appendable_def)
  with 2 show ?case
    by (auto simp: appendable_def map_option_is_None split: if_splits)
qed (simp add: appendable_def)

lemma newest_in_simps [simp]:
  "newest_in [] i = None"
  "newest_in (BlankLine # ls) i = newest_in ls i"
  "newest_in (BadLine # ls) i = newest_in ls i"
  "newest_in (Rec rec # ls) i =
     (if hi_kind rec = TurnRecord \<and> hi_turn_id rec = Some i then Some rec else newest_in ls i)"
  by (simp_all add: newest_in_def turn_record_id_def)

definition turn_at :: "log_line list \<Rightarrow> nat \<Rightarrow> turn" where
  "turn_at ls i = turn_of_record i (the (newest_in ls i))"

lemma turn_at_Rec [simp]:
  "hi_kind rec = TurnRecord \<Longrightarrow> hi_turn_id rec = Some i \<Longrightarrow>
     turn_at (Rec rec # ls) j = (if j = i then turn_of_record i rec else turn_at ls j)"
  by (simp add: turn_at_def)

lemma turn_at_skip [simp]: "turn_at (BlankLine # ls) = turn_at ls" "turn_at (BadLine # ls) = turn_at ls"
  by (simp_all add: turn_at_def fun_eq_iff)

lemma mset_take_one:
  assumes "distinct xs" "i \<in> set xs" "P i"
    and "\<And>j. j \<in> set xs \<Longrightarrow> j \<noteq> i \<Longrightarrow> P j = Q j \<and> f j = g j"
  shows "mset (map f (filter P xs)) = add_mset (f i) (mset (map g (filter Q (removeAll i xs))))"
  using assms
proof (induction xs)
  case (Cons x xs)
  show ?case
  proof (cases "x = i")
    case True
    with Cons.prems have "i \<notin> set xs" by simp
    then have "map f (filter P xs) = map g (filter Q xs)" "removeAll i xs = xs"
      using Cons.prems(4) True by (auto intro!: map_cong filter_cong simp: removeAll_id)
        (metis (mono_tags, lifting) filter_cong list.set_intros(2) map_cong mem_Collect_eq set_filter)
    with True Cons.prems(3) show ?thesis by simp
  next
    case False
    with Cons show ?thesis by auto
  qed
qed simp

text \<open>The scan finds the newest record of each wanted turn, and nothing else.\<close>

lemma hydrate_scan_spec:
  assumes "distinct wanted"
  shows "case hydrate_scan ls wanted turns sc bad of
    (wanted', turns', sc', bad') \<Rightarrow>
      wanted' = filter (\<lambda>i. newest_in ls i = None) wanted \<and>
      mset turns' =
        mset turns + mset (map (turn_at ls) (filter (\<lambda>i. newest_in ls i \<noteq> None) wanted)) \<and>
      (BadLine \<notin> set ls \<longrightarrow> bad' = bad) \<and>
      (\<forall>i. map_of sc' i =
        (if i \<in> set wanted \<and> newest_in ls i \<noteq> None \<and> hi_attachments (the (newest_in ls i)) \<noteq> []
         then Some (hi_attachments (the (newest_in ls i))) else map_of sc i))"
  using assms
proof (induction ls wanted turns sc bad rule: hydrate_scan.induct)
  case (4 rec ls wanted turns sc bad)
  show ?case
  proof (cases "hi_kind rec = TurnRecord \<and> (\<exists>i. hi_turn_id rec = Some i \<and> i \<in> set wanted)")
    case False
    have "newest_in (Rec rec # ls) j = newest_in ls j" if "j \<in> set wanted" for j
      using that False by auto
    then have same: "filter (\<lambda>i. newest_in (Rec rec # ls) i = None) wanted = filter (\<lambda>i. newest_in ls i = None) wanted"
      "filter (\<lambda>i. newest_in (Rec rec # ls) i \<noteq> None) wanted = filter (\<lambda>i. newest_in ls i \<noteq> None) wanted"
      "map (turn_at (Rec rec # ls)) (filter (\<lambda>i. newest_in ls i \<noteq> None) wanted)
        = map (turn_at ls) (filter (\<lambda>i. newest_in ls i \<noteq> None) wanted)"
      by (auto intro!: filter_cong map_cong simp: turn_at_def simp del: newest_in_simps)
    have step: "hydrate_scan (Rec rec # ls) wanted turns sc bad = hydrate_scan ls wanted turns sc bad"
      using False by (auto split: option.split)
    have "case hydrate_scan ls wanted turns sc bad of
        (wanted', turns', sc', bad') \<Rightarrow>
      wanted' = filter (\<lambda>i. newest_in ls i = None) wanted \<and>
      mset turns' =
        mset turns + mset (map (turn_at ls) (filter (\<lambda>i. newest_in ls i \<noteq> None) wanted)) \<and>
      (BadLine \<notin> set ls \<longrightarrow> bad' = bad) \<and>
      (\<forall>i. map_of sc' i =
        (if i \<in> set wanted \<and> newest_in ls i \<noteq> None \<and> hi_attachments (the (newest_in ls i)) \<noteq> []
         then Some (hi_attachments (the (newest_in ls i))) else map_of sc i))"
      using 4 False by (cases "hi_turn_id rec"; cases "hi_kind rec") auto
    moreover have "(if i \<in> set wanted \<and> newest_in ls i \<noteq> None \<and> hi_attachments (the (newest_in ls i)) \<noteq> []
         then Some (hi_attachments (the (newest_in ls i))) else d) =
        (if i \<in> set wanted \<and> newest_in (Rec rec # ls) i \<noteq> None \<and> hi_attachments (the (newest_in (Rec rec # ls) i)) \<noteq> []
         then Some (hi_attachments (the (newest_in (Rec rec # ls) i))) else d)" for i d
      using False by auto
    ultimately show ?thesis unfolding step same by (simp add: case_prod_beta)
  next
    case True
    then obtain i where i: "hi_kind rec = TurnRecord" "hi_turn_id rec = Some i" "i \<in> set wanted" by blast
    let ?w = "removeAll i wanted" and ?turns = "turns @ [turn_of_record i rec]"
    let ?sc = "if hi_attachments rec \<noteq> [] then AList.update i (hi_attachments rec) sc else sc"
    have newest: "newest_in (Rec rec # ls) j = (if j = i then Some rec else newest_in ls j)" for j
      using i by simp
    have none: "filter (\<lambda>j. newest_in (Rec rec # ls) j = None) wanted = filter (\<lambda>j. newest_in ls j = None) ?w"
      by (auto simp: newest removeAll_filter_not_eq simp del: newest_in_simps intro!: filter_cong)
    have found: "mset (map (turn_at (Rec rec # ls)) (filter (\<lambda>j. newest_in (Rec rec # ls) j \<noteq> None) wanted)) =
        add_mset (turn_of_record i rec) (mset (map (turn_at ls) (filter (\<lambda>j. newest_in ls j \<noteq> None) ?w)))"
      using mset_take_one [of wanted i "\<lambda>j. newest_in (Rec rec # ls) j \<noteq> None"
          "\<lambda>j. newest_in ls j \<noteq> None" "turn_at (Rec rec # ls)" "turn_at ls"] "4.prems" i(3)
      by (simp add: newest turn_at_Rec [OF i(1,2)] del: newest_in_simps)
    show ?thesis
    proof (cases "?w = []")
      case w: True
      then have "set wanted - {i} = {}" by (metis set_removeAll empty_set)
      then have only: "j \<in> set wanted \<longleftrightarrow> j = i" for j using i(3) by blast
      have "hydrate_scan (Rec rec # ls) wanted turns sc bad = ([], ?turns, ?sc, bad)"
        using i w by simp
      then show ?thesis using none found by (auto simp: w newest only simp del: newest_in_simps)
    next
      case False
      then have step: "hydrate_scan (Rec rec # ls) wanted turns sc bad = hydrate_scan ls ?w ?turns ?sc bad"
        using i by (simp add: Let_def)
      have "case hydrate_scan ls ?w ?turns ?sc bad of
          (wanted', turns', sc', bad') \<Rightarrow>
        wanted' = filter (\<lambda>i. newest_in ls i = None) ?w \<and>
        mset turns' = mset ?turns + mset (map (turn_at ls) (filter (\<lambda>i. newest_in ls i \<noteq> None) ?w)) \<and>
        (BadLine \<notin> set ls \<longrightarrow> bad' = bad) \<and>
        (\<forall>i. map_of sc' i =
          (if i \<in> set ?w \<and> newest_in ls i \<noteq> None \<and> hi_attachments (the (newest_in ls i)) \<noteq> []
           then Some (hi_attachments (the (newest_in ls i))) else map_of ?sc i))"
        using 4 i False by (simp add: distinct_removeAll)
      then show ?thesis unfolding step none found using i(3) by (auto simp: newest simp del: newest_in_simps)
    qed
  qed
qed auto

lemma sort_key_injective:
  "mset xs = mset ys \<Longrightarrow> inj_on f (set ys) \<Longrightarrow> sorted (map f ys) \<Longrightarrow> sort_key f xs = ys"
  using sort_key_inj_key_eq [of xs ys f] mset_eq_setD [of xs ys] by simp

lemma hydrate_turns_spec:
  assumes "distinct ids"
  shows "fst (hydrate_turns log ids) =
      map (turn_at (newest_lines log)) (sort (filter (\<lambda>i. newest_record log i \<noteq> None) ids))"
    and "hy_missing (snd (hydrate_turns log ids)) = sort (filter (\<lambda>i. newest_record log i = None) ids)"
    and "BadLine \<notin> set (newest_lines log) \<Longrightarrow> hy_bad_lines (snd (hydrate_turns log ids)) = 0"
    and "map_of (hy_sidecar (snd (hydrate_turns log ids))) i =
      (if i \<in> set ids then
         (case newest_record log i of
            None \<Rightarrow> None
          | Some rec \<Rightarrow> if hi_attachments rec = [] then None else Some (hi_attachments rec))
       else None)"
proof -
  obtain wanted turns sc bad where scan: "hydrate_scan (newest_lines log) ids [] [] 0 = (wanted, turns, sc, bad)"
    by (cases "hydrate_scan (newest_lines log) ids [] [] 0") auto
  let ?found = "filter (\<lambda>i. newest_record log i \<noteq> None) ids"
  have spec: "wanted = filter (\<lambda>i. newest_record log i = None) ids"
    "mset turns = mset (map (turn_at (newest_lines log)) ?found)"
    "BadLine \<notin> set (newest_lines log) \<Longrightarrow> bad = 0"
    "map_of sc i = (if i \<in> set ids then
         (case newest_record log i of
            None \<Rightarrow> None
          | Some rec \<Rightarrow> if hi_attachments rec = [] then None else Some (hi_attachments rec))
       else None)" for i
    using hydrate_scan_spec [OF assms, where ls = "newest_lines log" and turns = "[]" and sc = "[]" and bad = 0]
    by (auto simp: scan newest_record_def split: option.split)
  have remdups: "remdups ids = ids" using assms by simp
  have "sort_key (id_num \<circ> tu_id) turns = map (turn_at (newest_lines log)) (sort ?found)"
  proof (rule sort_key_injective)
    show "mset turns = mset (map (turn_at (newest_lines log)) (sort ?found))"
      by (simp add: spec(2))
    have id: "(id_num \<circ> tu_id) (turn_at (newest_lines log) i) = i" for i
      by (simp add: turn_at_def turn_of_record_def)
    show "inj_on (id_num \<circ> tu_id) (set (map (turn_at (newest_lines log)) (sort ?found)))"
      by (rule inj_onI) (use id in auto)
    show "sorted (map (id_num \<circ> tu_id) (map (turn_at (newest_lines log)) (sort ?found)))"
      using id by (simp add: comp_def)
  qed
  then show "fst (hydrate_turns log ids) =
      map (turn_at (newest_lines log)) (sort (filter (\<lambda>i. newest_record log i \<noteq> None) ids))"
    by (simp add: hydrate_turns_def remdups scan)
  show "hy_missing (snd (hydrate_turns log ids)) = sort (filter (\<lambda>i. newest_record log i = None) ids)"
    "BadLine \<notin> set (newest_lines log) \<Longrightarrow> hy_bad_lines (snd (hydrate_turns log ids)) = 0"
    "map_of (hy_sidecar (snd (hydrate_turns log ids))) i =
      (if i \<in> set ids then
         (case newest_record log i of
            None \<Rightarrow> None
          | Some rec \<Rightarrow> if hi_attachments rec = [] then None else Some (hi_attachments rec))
       else None)"
    by (simp_all add: hydrate_turns_def remdups scan spec)
qed

section \<open>The tail window\<close>

text \<open>The turns of the log, each once, the most recently recorded first.\<close>

fun recent :: "nat list \<Rightarrow> log_line list \<Rightarrow> nat list" where
  "recent seen [] = []"
| "recent seen (l # ls) =
     (case turn_record_id l of
        None \<Rightarrow> recent seen ls
      | Some i \<Rightarrow> if i \<in> set seen then recent seen ls else i # recent (i # seen) ls)"

lemma recent_fresh: "i \<in> set (recent seen ls) \<Longrightarrow> i \<notin> set seen"
  by (induction seen ls rule: recent.induct) (auto split: option.splits if_splits)

lemma recent_distinct: "distinct (recent seen ls)"
  by (induction seen ls rule: recent.induct) (auto split: option.split dest: recent_fresh)

definition tokens_of :: "log_line list \<Rightarrow> nat list \<Rightarrow> nat" where
  "tokens_of ls is = sum_list (map (\<lambda>i. tu_tokens (turn_at ls i)) is)"

lemma tail_scan_spec:
  assumes "used \<le> budget"
  shows "\<exists>n. fst (tail_scan budget ls used seen turns sc) =
      turns @ map (turn_at ls) (take n (recent seen ls)) \<and>
    used + tokens_of ls (take n (recent seen ls)) \<le> budget \<and>
    (n < length (recent seen ls) \<longrightarrow> budget < used + tokens_of ls (take (Suc n) (recent seen ls)))"
  using assms
proof (induction budget ls used seen turns sc rule: tail_scan.induct)
  case (1 budget used seen turns sc)
  then show ?case by (auto simp: tokens_of_def)
next
  case (2 budget rec ls used seen turns sc)
  show ?case
  proof (cases "turn_record_id (Rec rec)")
    case None
    then have "newest_in (Rec rec # ls) = newest_in ls"
      by (auto simp: turn_record_id_def fun_eq_iff split: if_splits)
    then have "turn_at (Rec rec # ls) = turn_at ls" by (simp add: turn_at_def fun_eq_iff)
    with 2 None show ?thesis
      by (auto simp: turn_record_id_def tokens_of_def split: if_splits option.splits)
  next
    case (Some i)
    then have i: "hi_kind rec = TurnRecord" "hi_turn_id rec = Some i"
      by (auto simp: turn_record_id_def split: if_splits)
    have other: "map (turn_at (Rec rec # ls)) is = map (turn_at ls) is"
      "tokens_of (Rec rec # ls) is = tokens_of ls is" if "i \<notin> set is" for "is"
      using that by (auto simp: tokens_of_def turn_at_Rec [OF i] intro!: arg_cong [where f = sum_list])
    have fresh: "i \<notin> set (take n (recent (i # s) ls))" for n s
      using recent_fresh [of i "i # s" ls] by (auto dest: in_set_takeD)
    show ?thesis
    proof (cases "i \<in> set seen")
      case True
      have "i \<notin> set (take n (recent seen ls))" for n
        using recent_fresh [of i seen ls] True by (auto dest: in_set_takeD)
      note fresh' = this
      obtain n where n: "fst (tail_scan budget ls used seen turns sc) =
          turns @ map (turn_at ls) (take n (recent seen ls))"
        "used + tokens_of ls (take n (recent seen ls)) \<le> budget"
        "n < length (recent seen ls) \<longrightarrow>
          budget < used + tokens_of ls (take (Suc n) (recent seen ls))"
        using "2.IH"(3) [of i] "2.prems" i True by auto
      have step: "tail_scan budget (Rec rec # ls) used seen turns sc = tail_scan budget ls used seen turns sc"
        "recent seen (Rec rec # ls) = recent seen ls"
        using i True Some by simp_all
      show ?thesis unfolding step
        using n by (intro exI [of _ n]) (simp only: other(1) [OF fresh'] other(2) [OF fresh'] simp_thms)
    next
      case False
      show ?thesis
      proof (cases "budget < used + hi_tokens rec")
        case True
        then show ?thesis using "2.prems" i False Some
          by (intro exI [of _ 0]) (auto simp: tokens_of_def turn_at_Rec [OF i] turn_of_record_def)
      next
        case fits: False
        let ?turns = "turns @ [turn_of_record i rec]"
        let ?sc = "if hi_attachments rec \<noteq> [] then AList.update i (hi_attachments rec) sc else sc"
        obtain n where n: "fst (tail_scan budget ls (used + hi_tokens rec) (i # seen) ?turns ?sc) =
            ?turns @ map (turn_at ls) (take n (recent (i # seen) ls))"
          "used + hi_tokens rec + tokens_of ls (take n (recent (i # seen) ls)) \<le> budget"
          "n < length (recent (i # seen) ls) \<longrightarrow>
            budget < used + hi_tokens rec + tokens_of ls (take (Suc n) (recent (i # seen) ls))"
          using "2.IH"(4) [of i] i False fits by auto
        have tokens: "tokens_of (Rec rec # ls) (i # take m (recent (i # seen) ls)) =
            hi_tokens rec + tokens_of ls (take m (recent (i # seen) ls))" for m
          using other(2) [OF fresh] by (simp add: tokens_of_def turn_at_Rec [OF i] turn_of_record_def)
        show ?thesis
          using n i False fits Some other(1) [OF fresh]
          by (intro exI [of _ "Suc n"]) (simp add: tokens turn_at_Rec [OF i] add.assoc)
      qed
    qed
  qed
qed (simp_all add: turn_record_id_def tokens_of_def)

text \<open>The window recovered from the tail of the log is a suffix of the recorded turns: the most
  recently recorded ones, each once with its newest record and in the order of recording, as many as
  fit the token budget. They stay within the budget, and one more would exceed it.\<close>

theorem tail_window:
  "\<exists>n. fst (tail_turns_within_budget log budget) =
        rev (map (turn_at (newest_lines log)) (take n (recent [] (newest_lines log)))) \<and>
      tokens_of (newest_lines log) (take n (recent [] (newest_lines log))) \<le> budget \<and>
      (length (recent [] (newest_lines log)) \<le> n \<or>
       budget < tokens_of (newest_lines log) (take (Suc n) (recent [] (newest_lines log))))"
proof -
  obtain n where n: "fst (tail_scan budget (newest_lines log) 0 [] [] []) =
      map (turn_at (newest_lines log)) (take n (recent [] (newest_lines log)))"
    "tokens_of (newest_lines log) (take n (recent [] (newest_lines log))) \<le> budget"
    "n < length (recent [] (newest_lines log)) \<longrightarrow>
      budget < tokens_of (newest_lines log) (take (Suc n) (recent [] (newest_lines log)))"
    using tail_scan_spec [of 0 budget "newest_lines log" "[]" "[]" "[]"] by auto
  then have "fst (tail_turns_within_budget log budget) =
      rev (map (turn_at (newest_lines log)) (take n (recent [] (newest_lines log))))"
    by (simp add: tail_turns_within_budget_def case_prod_beta)
  then show ?thesis using n(2,3) by (intro exI [of _ n]) (simp add: not_le [symmetric], linarith)
qed

end
