(* ===== verification/Compaction_Ledger.thy ===== *)
theory Compaction_Ledger
  imports Retry_Decision
begin

text \<open>
  The attempt ledger of compaction (\<open>CompactionLedger\<close> in
  \<open>crates/kallipai-adk/src/context/compact.rs\<close>): the count of one failing stretch of summarizer
  calls, the latch a backoff arms, and a stop met outside a round that waits for the round's gate.
\<close>

record compaction_ledger =
  cl_episode :: episode
  cl_latch_until :: "u64 option"
  cl_pending_stop :: "string option"

definition ledger_new :: "u64 \<Rightarrow> compaction_ledger" where
  "ledger_new now = \<lparr>cl_episode = episode_new now, cl_latch_until = None, cl_pending_stop = None\<rparr>"

definition is_latched :: "u64 \<Rightarrow> compaction_ledger \<Rightarrow> bool" where
  "is_latched now l \<longleftrightarrow> (case cl_latch_until l of Some until \<Rightarrow> now < until | None \<Rightarrow> False)"

definition ledger_attempts :: "compaction_ledger \<Rightarrow> u32" where
  "ledger_attempts l = ep_attempts (cl_episode l)"

definition ledger_clear :: "u64 \<Rightarrow> compaction_ledger \<Rightarrow> compaction_ledger" where
  "ledger_clear now l = ledger_new now"

text \<open>New work restarts the count; what the last verdict left behind stays.\<close>

definition ledger_restart :: "u64 \<Rightarrow> compaction_ledger \<Rightarrow> compaction_ledger" where
  "ledger_restart now l =
     (ledger_new now)\<lparr>cl_latch_until := cl_latch_until l, cl_pending_stop := cl_pending_stop l\<rparr>"

definition charge_failure :: "failure_class \<Rightarrow> shape_key option \<Rightarrow> u64 \<Rightarrow> duration
    \<Rightarrow> compaction_ledger \<Rightarrow> attempt \<times> compaction_ledger" where
  "charge_failure c shape now jitter l =
     (let ep = (if ep_attempts (cl_episode l) = 0 then episode_new now else cl_episode l)
      in (attempt_failed Connect c shape now jitter, l\<lparr>cl_episode := after_attempt ep\<rparr>))"

definition ledger_spend_shape_slot :: "backend_error \<Rightarrow> compaction_ledger \<Rightarrow> compaction_ledger" where
  "ledger_spend_shape_slot e l = l\<lparr>cl_episode := spend_shape_slot e (cl_episode l)\<rparr>"

definition ledger_arm :: "u64 \<Rightarrow> compaction_ledger \<Rightarrow> compaction_ledger" where
  "ledger_arm until l = l\<lparr>cl_latch_until := Some until\<rparr>"

definition record_stop :: "string \<Rightarrow> compaction_ledger \<Rightarrow> compaction_ledger" where
  "record_stop message l = l\<lparr>cl_pending_stop := Some message\<rparr>"

definition take_pending_stop :: "compaction_ledger \<Rightarrow> string option \<times> compaction_ledger" where
  "take_pending_stop l = (cl_pending_stop l, l\<lparr>cl_pending_stop := None\<rparr>)"

text \<open>Whole seconds, rounded up and never below one.\<close>

definition latch_deadline :: "u64 \<Rightarrow> duration \<Rightarrow> u64" where
  "latch_deadline now wait =
     (let secs = sat_add (word_of_nat (wait div nanos_per_sec))
            (if 0 < wait mod nanos_per_sec then 1 else 0)
      in sat_add now (max secs 1))"

text \<open>An armed latch holds at the moment it is armed, unless the clock is at its end, and it holds
  for at least as long as the wait asked for.\<close>

lemma latch_deadline_after: "now < - 1 \<Longrightarrow> now < latch_deadline now wait"
proof -
  assume "now < - 1"
  then have now: "unat now < 2 ^ 64 - 1" by (simp add: word_less_nat_alt unat_minus_one_max)
  have "1 \<le> unat (max (sat_add (word_of_nat (wait div nanos_per_sec))
      (if 0 < wait mod nanos_per_sec then 1 else 0)) (1 :: u64))" (is "1 \<le> unat ?m")
    by (simp add: max_def word_le_nat_alt)
  with now have "unat now < unat (sat_add now ?m)" by (simp add: sat_simps min_def)
  then show ?thesis by (simp add: latch_deadline_def Let_def word_less_nat_alt)
qed

lemma latch_deadline_covers:
  assumes "wait \<le> duration_max" "unat now + wait div nanos_per_sec + 1 < 2 ^ 64"
  shows "wait \<le> (unat (latch_deadline now wait) - unat now) * nanos_per_sec"
proof -
  let ?q = "wait div nanos_per_sec" and ?r = "wait mod nanos_per_sec"
  have q: "unat (word_of_nat ?q :: u64) = ?q" using assms(2) by (simp add: unat_of_nat)
  have secs: "unat (sat_add (word_of_nat ?q :: u64) (if 0 < ?r then 1 else 0)) = ?q + (if 0 < ?r then 1 else 0)"
    using assms(2) q by (auto simp: sat_simps min_def)
  have "?q + (if 0 < ?r then 1 else 0) \<le> unat (latch_deadline now wait) - unat now"
    using assms(2) secs by (auto simp: latch_deadline_def Let_def sat_simps max_def word_le_nat_alt min_def)
  then have "(?q + (if 0 < ?r then 1 else 0)) * nanos_per_sec
      \<le> (unat (latch_deadline now wait) - unat now) * nanos_per_sec" by (rule mult_le_mono1)
  moreover have "wait \<le> (?q + (if 0 < ?r then 1 else 0)) * nanos_per_sec"
  proof -
    have *: "w = q * n + r \<Longrightarrow> r < n \<Longrightarrow> w \<le> (q + (if 0 < r then 1 else 0)) * n" for w q r n :: nat
      by (auto simp: add_mult_distrib)
    show ?thesis by (rule *) (simp_all add: nanos_per_sec_def)
  qed
  ultimately show ?thesis by linarith
qed

end
