(* ===== verification/Agent_State.thy ===== *)
theory Agent_State
  imports Agent_Event Agent_Config Context_Store History Compaction_Ledger Token_Budget
begin

text \<open>
  What one agent carries through a round (\<open>AgentContext\<close> in \<open>crates/kallipai-adk/src/agent_task.rs\<close>):
  the failover chain (\<open>failover.rs\<close>), the context store and its history, the configuration, the
  retry episode, the compaction ledger, the token budget and the handle on the shared table; and what
  it reads and takes from that table (\<open>acquisition/facts.rs\<close>).
\<close>

section \<open>The chain\<close>

datatype modality = ModText | ModImage | ModAudio | ModVideo

record profile =
  pf_id :: string
  pf_endpoint :: string
  pf_model :: string
  pf_window :: usize
  pf_effort :: "string option"
  pf_store :: "bool option"
  pf_modalities :: "modality list"

record profile_snapshot =
  ps_set :: string
  ps_profile :: string
  ps_provider :: string
  ps_model :: string

record failover_state =
  fo_set_name :: string
  fo_profiles :: "profile list"
  fo_idx :: nat
  fo_snapshot :: profile_snapshot

definition snapshot_of :: "string \<Rightarrow> profile \<Rightarrow> profile_snapshot" where
  "snapshot_of set_name p = \<lparr>ps_set = set_name, ps_profile = pf_id p, ps_provider = pf_endpoint p,
     ps_model = pf_model p\<rparr>"

text \<open>A set has at least one profile; its active profile is the head.\<close>

definition failover_new :: "string \<Rightarrow> profile list \<Rightarrow> failover_state" where
  "failover_new set_name profiles =
     \<lparr>fo_set_name = set_name, fo_profiles = profiles, fo_idx = 0,
      fo_snapshot = snapshot_of set_name (hd profiles)\<rparr>"

definition current_profile :: "failover_state \<Rightarrow> profile" where
  "current_profile fo = fo_profiles fo ! fo_idx fo"

definition candidate_profile :: "failover_state \<Rightarrow> nat \<Rightarrow> profile option" where
  "candidate_profile fo offset =
     (if fo_idx fo + offset < length (fo_profiles fo) then Some (fo_profiles fo ! (fo_idx fo + offset))
      else None)"

definition can_advance :: "failover_state \<Rightarrow> bool" where
  "can_advance fo \<longleftrightarrow> fo_idx fo + 1 < length (fo_profiles fo)"

definition advance_to :: "nat \<Rightarrow> failover_state \<Rightarrow> failover_state" where
  "advance_to idx fo = fo\<lparr>fo_idx := idx,
     fo_snapshot := snapshot_of (fo_set_name fo) (fo_profiles fo ! idx)\<rparr>"

text \<open>On a head that cannot be built nothing changes.\<close>

definition reset_and_rebuild ::
  "(profile \<Rightarrow> bool) \<Rightarrow> string \<Rightarrow> profile list \<Rightarrow> failover_state \<Rightarrow> profile option \<times> failover_state" where
  "reset_and_rebuild build set_name profiles fo =
     (if build (hd profiles)
      then (Some (hd profiles), failover_new set_name profiles)
      else (None, fo))"

definition failover_ok :: "failover_state \<Rightarrow> bool" where
  "failover_ok fo \<longleftrightarrow> fo_idx fo < length (fo_profiles fo)
     \<and> fo_snapshot fo = snapshot_of (fo_set_name fo) (current_profile fo)"

section \<open>The agent's view of the table\<close>

record 't agent =
  ag_client :: profile
  ag_conv_store :: bool
  ag_failover :: failover_state
  ag_store :: context_store
  ag_config :: agent_config
  ag_episode :: episode
  ag_origin :: attempt_origin
  ag_history :: "history_log option"
  ag_compaction :: compaction_ledger
  ag_budget :: budget_state
  ag_pacing :: "'t pacing_ops option"
  ag_table :: 't
  ag_signals :: "(u16 \<times> string option) list option"
  ag_events :: "agent_event list"

definition candidate_marked :: "'t pacing_ops \<Rightarrow> string \<Rightarrow> u64 \<Rightarrow> 't \<Rightarrow> bool" where
  "candidate_marked ops p now t \<longleftrightarrow> pp_paced_for ops p now t \<noteq> None"

definition marked_in :: "'t agent \<Rightarrow> string \<Rightarrow> u64 \<Rightarrow> bool" where
  "marked_in ag p now =
     (case ag_pacing ag of None \<Rightarrow> False | Some ops \<Rightarrow> candidate_marked ops p now (ag_table ag))"

text \<open>The loop over the offsets ahead of the active profile.\<close>

definition resolve_alternative :: "'t agent \<Rightarrow> u64 \<Rightarrow> unit option" where
  "resolve_alternative ag now =
     (if ag_pacing ag = None then None
      else if list_ex (\<lambda>p. \<not> marked_in ag (pf_id p) now)
          (drop (fo_idx (ag_failover ag) + 1) (fo_profiles (ag_failover ag)))
      then Some () else None)"

definition table_reading_of :: "'t agent \<Rightarrow> u64 \<Rightarrow> table_reading" where
  "table_reading_of ag now =
     (case ag_pacing ag of
        None \<Rightarrow> no_reading
      | Some ops \<Rightarrow>
          let current = pf_id (current_profile (ag_failover ag));
              own = (if ep_attempts (ag_episode ag) = 0 then claimed_record (ag_episode ag) else None);
              blocked =
                (case pp_paced_for ops current now (ag_table ag) of
                   None \<Rightarrow> None
                 | Some bf \<Rightarrow> if own \<noteq> Some (bf_block bf) then Some bf else None)
          in \<lparr>tr_blocked = blocked,
              tr_alternative = Option.bind blocked (\<lambda>_. resolve_alternative ag now)\<rparr>)"

definition claim_window_for ::
  "string \<Rightarrow> u64 \<Rightarrow> attempt_origin \<Rightarrow> 't agent \<Rightarrow> u64 option \<times> 't agent" where
  "claim_window_for profile now origin ag =
     (if claimed (ag_episode ag) then (None, ag)
      else case ag_pacing ag of
        None \<Rightarrow> (None, ag)
      | Some ops \<Rightarrow>
          (case pp_claim ops profile now (origin = External) (ag_table ag) of
             ((Paced nb, _), t) \<Rightarrow> (Some nb, ag\<lparr>ag_table := t\<rparr>)
           | ((Granted, _), t) \<Rightarrow>
               (None, ag\<lparr>ag_table := t, ag_episode := after_claim profile None (ag_episode ag)\<rparr>)
           | ((Started, rec), t) \<Rightarrow>
               (None, ag\<lparr>ag_table := t, ag_episode := after_claim profile rec (ag_episode ag)\<rparr>)))"

definition release_unspent_window :: "'t agent \<Rightarrow> 't agent" where
  "release_unspent_window ag =
     (if 0 < ep_attempts (ag_episode ag) then ag
      else case ep_claim (ag_episode ag) of
        None \<Rightarrow> ag
      | Some w \<Rightarrow>
          ag\<lparr>ag_table :=
               (case (ag_pacing ag, cw_record w) of
                  (Some ops, Some rec) \<Rightarrow> pp_release ops (cw_profile w) rec (ag_table ag)
                | _ \<Rightarrow> ag_table ag),
             ag_episode := after_release (ag_episode ag)\<rparr>)"

definition start_episode :: "u64 \<Rightarrow> 't agent \<Rightarrow> 't agent" where
  "start_episode now ag = (release_unspent_window ag)\<lparr>ag_episode := episode_new now\<rparr>"

definition quota_blocked_payload ::
  "'t agent \<Rightarrow> string \<Rightarrow> u64 \<Rightarrow> string \<Rightarrow> quota_blocked_info" where
  "quota_blocked_payload ag profile now detail =
     \<lparr>qb_profile = profile,
      qb_reset =
        Option.bind (ag_pacing ag) (\<lambda>ops.
        Option.bind (pp_paced_for ops profile now (ag_table ag)) (\<lambda>bf.
        display_until (bl_recorded_at (bf_block bf)) (bl_until (bf_block bf)))),
      qb_detail = detail\<rparr>"

definition emit_gateway_signal :: "u16 \<times> string option \<Rightarrow> 't agent \<Rightarrow> 't agent" where
  "emit_gateway_signal payload ag =
     (if fst payload \<noteq> 401 \<and> fst payload \<noteq> 403 then ag
      else ag\<lparr>ag_signals := map_option (\<lambda>ss. ss @ [payload]) (ag_signals ag)\<rparr>)"

definition emit_fact_signal :: "blocked_fact option \<Rightarrow> 't agent \<Rightarrow> 't agent" where
  "emit_fact_signal blocked ag =
     (case blocked of
        None \<Rightarrow> ag
      | Some bf \<Rightarrow>
          if bl_kind (bf_block bf) \<noteq> EndpointAuth then ag
          else (case bl_status (bf_block bf) of
                  None \<Rightarrow> ag
                | Some status \<Rightarrow> emit_gateway_signal (status, None) ag))"

definition resumption_note :: "u64 option \<Rightarrow> string" where
  "resumption_note until =
     (case until of
        Some u \<Rightarrow> ''upstream said it reopens at '' @ show_nat (unat u) @ '' (unix seconds)''
      | None \<Rightarrow> ''the upstream gave no resumption time'')"

definition fact_chain_note :: "failover_state \<Rightarrow> string" where
  "fact_chain_note fo =
     (if length (fo_profiles fo) = 1
      then ''no failover attempted: the set has a single profile''
      else if length (fo_profiles fo) \<le> fo_idx fo + 1
      then ''no failover attempted: the chain is already at its last profile''
      else ''no failover attempted: every profile ahead is marked in the shared fact table'')"

section \<open>Outcomes and errors\<close>

datatype agent_outcome =
    RoundIdle
  | MaxRoundsExceeded
  | RoundCancelled
  | TokenBudgetExceeded u64 u64
  | FailoverChainExhausted exhaustion_reason string
  | RoundQuotaBlocked quota_blocked_info

text \<open>An error a round carries: a failure of the client library, or a message of the agent's own.\<close>

datatype round_error = BackendFailed backend_error | PlainError string

fun backend_of :: "round_error \<Rightarrow> backend_error option" where
  "backend_of (BackendFailed e) = Some e"
| "backend_of (PlainError _) = None"

text \<open>The one-line rendering of the whole chain, and the rendering for the operator.\<close>

fun error_line :: "round_error \<Rightarrow> string" where
  "error_line (BackendFailed e) = be_display e @ concat (map (\<lambda>l. '': '' @ el_display l) (be_sources e))"
| "error_line (PlainError text) = text"

fun render_round_error :: "(string \<Rightarrow> json option) \<Rightarrow> round_error \<Rightarrow> string" where
  "render_round_error pj (BackendFailed e) = render_error pj e"
| "render_round_error pj (PlainError text) = text"

section \<open>Recording\<close>

text \<open>What the agent takes from code outside the repository: the estimators of the token counter,
  the JSON parser, the attachment references of a message (they come from the blob store), the
  client library's rendering of an invalid request and of a status, and the text of a token-budget warning, which goes
  through a floating-point formatter.\<close>

record agent_kit =
  ak_est :: "message \<Rightarrow> usize"
  ak_est_text :: "string \<Rightarrow> usize"
  ak_json :: "string \<Rightarrow> json option"
  ak_refs :: "message \<Rightarrow> pin_attachment list"
  ak_invalid_request :: "string \<Rightarrow> string"
  ak_status_text :: "u16 \<Rightarrow> string"
  ak_budget_text :: "budget_snapshot \<Rightarrow> u8 \<Rightarrow> string"

text \<open>A write the history refuses is logged and dropped; an agent may carry no history.\<close>

definition append_history :: "string \<Rightarrow> history_record \<Rightarrow> 't agent \<Rightarrow> 't agent" where
  "append_history today rec ag = ag\<lparr>ag_history := map_option (append_record today rec) (ag_history ag)\<rparr>"

definition turn_attempt_of :: "nat \<Rightarrow> usage option \<Rightarrow> u64 \<Rightarrow> 't agent \<Rightarrow> turn_attempt" where
  "turn_attempt_of round u elapsed ag =
     (let p = current_profile (ag_failover ag)
      in \<lparr>tt_profile_set = fo_set_name (ag_failover ag), tt_profile_id = pf_id p,
          tt_provider = pf_endpoint p, tt_model = pf_model p, tt_effort = pf_effort p,
          tt_round = round, tt_usage = map_option turn_usage_of u, tt_elapsed_ms = elapsed\<rparr>)"

definition turn_record ::
  "nat \<Rightarrow> message list \<Rightarrow> usize \<Rightarrow> attachment_ref list \<Rightarrow> turn_attempt option \<Rightarrow> history_record" where
  "turn_record i ms tokens refs at =
     \<lparr>hi_turn_id = Some i, hi_messages = ms, hi_tokens = tokens, hi_kind = TurnRecord, hi_event = None,
      hi_attachments = refs, hi_attempt = at\<rparr>"

definition system_record ::
  "message list \<Rightarrow> usize \<Rightarrow> system_event \<Rightarrow> turn_attempt option \<Rightarrow> history_record" where
  "system_record ms tokens ev at =
     \<lparr>hi_turn_id = None, hi_messages = ms, hi_tokens = tokens, hi_kind = SystemRecord, hi_event = Some ev,
      hi_attachments = [], hi_attempt = at\<rparr>"

text \<open>A pushed turn and its line in the history.\<close>

definition record_turn_entry ::
  "agent_kit \<Rightarrow> string \<Rightarrow> message list \<Rightarrow> attachment_ref list \<Rightarrow> turn_attempt option \<Rightarrow> 't agent
     \<Rightarrow> turn_id \<times> 't agent" where
  "record_turn_entry kit today ms refs at ag =
     (let ((i, tokens), s) = push_turn (ak_est kit) ms (ag_store ag)
      in (i, append_history today (turn_record (id_num i) ms tokens refs at) (ag\<lparr>ag_store := s\<rparr>)))"

definition record_turn :: "agent_kit \<Rightarrow> string \<Rightarrow> message list \<Rightarrow> 't agent \<Rightarrow> turn_id \<times> 't agent" where
  "record_turn kit today ms ag = record_turn_entry kit today ms [] None ag"

definition retry_keep_since :: "u64 \<Rightarrow> 't agent \<Rightarrow> u64" where
  "retry_keep_since now ag =
     sat_sub now (word_of_nat (retry_timeout (cf_retry (ag_config ag)) div nanos_per_sec))"

definition log_retries :: "retry_record list \<Rightarrow> u64 \<Rightarrow> 't agent \<Rightarrow> 't agent" where
  "log_retries recs now ag =
     ag\<lparr>ag_store := record_retries recs (retry_keep_since now ag) (ag_store ag)\<rparr>"

section \<open>Claims and readings\<close>

context profile_pacing
begin

lemma reading_of:
  assumes "ag_pacing ag = Some ops" and "ok (ag_table ag)"
  shows "tr_blocked (table_reading_of ag now) =
    (case stored (ag_table ag) (pf_id (current_profile (ag_failover ag))) of
       None \<Rightarrow> None
     | Some b \<Rightarrow>
         if is_active b now
            \<and> \<not> (ep_attempts (ag_episode ag) = 0 \<and> claimed_record (ag_episode ag) = Some b)
         then Some \<lparr>bf_block = b, bf_profile = pf_id (current_profile (ag_failover ag))\<rparr> else None)"
  using assms
  by (auto simp: table_reading_of_def paced_for readable_def Let_def split: option.split)

text \<open>The claim settles what the reading that follows it sees: an episode that holds its window
  reads no fact, one that is paced reads the fact that paces it.\<close>

lemma claim_then_reading:
  assumes "ag_pacing ag = Some ops" and "ok (ag_table ag)" and "ep_claim (ag_episode ag) = None"
    and "ep_attempts (ag_episode ag) = 0"
    and "claim_window_for (pf_id (current_profile (ag_failover ag))) now origin ag = (r, ag')"
  shows "(case r of
      None \<Rightarrow> tr_blocked (table_reading_of ag' now) = None
    | Some nb \<Rightarrow> now < nb \<and> origin = System \<and> ag' = ag\<lparr>ag_table := ag_table ag'\<rparr>
        \<and> (\<exists>bf. tr_blocked (table_reading_of ag' now) = Some bf \<and> window_end (bf_block bf) = nb))"
proof -
  let ?p = "pf_id (current_profile (ag_failover ag))"
  let ?t' = "snd (pp_claim ops ?p now (origin = External) (ag_table ag))"
  have ok': "ok ?t'" using assms(2) by (rule ok_claim)
  note claim = claim_result [OF assms(2), of ?p now "origin = External"]
  note fact = claim_fact [OF assms(2), of ?p now "origin = External"]
  obtain c rec t' where res: "pp_claim ops ?p now (origin = External) (ag_table ag) = ((c, rec), t')"
    by (metis prod.exhaust)
  have ok'': "ok t'" using ok' res by simp
  have rd: "tr_blocked (table_reading_of a now) =
    (case stored t' ?p of
       None \<Rightarrow> None
     | Some b \<Rightarrow>
         if is_active b now \<and> \<not> (ep_attempts (ag_episode a) = 0 \<and> claimed_record (ag_episode a) = Some b)
         then Some \<lparr>bf_block = b, bf_profile = ?p\<rparr> else None)"
    if "ag_table a = t'" "ag_pacing a = Some ops" "ag_failover a = ag_failover ag" for a
    using reading_of [of a now] that ok'' by (auto split: option.split)
  show ?thesis
  proof (cases rule: claim_window_cases [of "stored (ag_table ag) ?p" now "origin = External"])
    case granted
    with claim fact res have "c = Granted" "stored t' ?p = None" by simp_all
    with assms(1,3,5) res show ?thesis
      by (auto simp: claim_window_for_def claimed_def rd)
  next
    case (paced b)
    with claim fact res have "c = Paced (window_end b)" "stored t' ?p = Some b" by simp_all
    moreover have "origin = System" using paced(2) by (cases origin) simp_all
    moreover have "claimed_record (ag_episode ag) = None" using assms(3) by (simp add: claimed_record_def)
    ultimately show ?thesis
      using assms(1,3,5) res paced(3) by (auto simp: claim_window_for_def claimed_def rd is_active_def)
  next
    case (started b)
    with claim fact res have "c = Started" "rec = Some (renewed b now)"
      "stored t' ?p = Some (renewed b now)" by simp_all
    with assms(1,3,4,5) res show ?thesis
      by (auto simp: claim_window_for_def claimed_def rd after_claim_def claimed_record_def)
  qed
qed

text \<open>An episode that takes a window and ends without a send leaves no trace of it: the facts are
  those of before, less the one whose window the claim had taken over.\<close>

lemma unspent_episode_leaves_nothing:
  assumes "ag_pacing ag = Some ops" and "ok (ag_table ag)" and "ep_claim (ag_episode ag) = None"
    and "ep_attempts (ag_episode ag) = 0" and "claim_window_for p now origin ag = (r, ag')"
  shows "stored (ag_table (start_episode later ag')) =
    (if claimed_record (ag_episode ag') = None then stored (ag_table ag)
     else (stored (ag_table ag))(p := None))"
proof -
  note claim = claim_result [OF assms(2), of p now "origin = External"]
  note fact = claim_fact [OF assms(2), of p now "origin = External"]
  obtain c rec t' where res: "pp_claim ops p now (origin = External) (ag_table ag) = ((c, rec), t')"
    by (metis prod.exhaust)
  have ok': "ok t'" using ok_claim [OF assms(2), of p now "origin = External"] res by simp
  show ?thesis
  proof (cases rule: claim_window_cases [of "stored (ag_table ag) p" now "origin = External"])
    case granted
    with claim fact res have "c = Granted" "stored t' = stored (ag_table ag)" by simp_all
    with assms(1,3,4,5) res show ?thesis
      by (auto simp: claim_window_for_def claimed_def start_episode_def release_unspent_window_def
          after_claim_def claimed_record_def)
  next
    case (paced b)
    with claim fact res have "c = Paced (window_end b)" "stored t' = stored (ag_table ag)" by simp_all
    with assms(1,3,4,5) res show ?thesis
      by (auto simp: claim_window_for_def claimed_def start_episode_def release_unspent_window_def
          claimed_record_def)
  next
    case (started b)
    with claim fact res have "c = Started" "rec = Some (renewed b now)"
      "stored t' = (stored (ag_table ag))(p := Some (renewed b now))" by simp_all
    with assms(1,3,4,5) res ok' show ?thesis
      by (auto simp: claim_window_for_def claimed_def start_episode_def release_unspent_window_def
          after_claim_def claimed_record_def release_fact)
  qed
qed

end

section \<open>Properties\<close>

definition demo_profile :: "string \<Rightarrow> usize \<Rightarrow> profile" where
  "demo_profile i w = \<lparr>pf_id = i, pf_endpoint = ''e'' @ i, pf_model = ''m'', pf_window = w, pf_effort = None, pf_store = None,
     pf_modalities = [ModText]\<rparr>"

definition demo_chain :: "profile list" where
  "demo_chain = [demo_profile ''p'' 128000, demo_profile ''q'' 9000, demo_profile ''r'' 64000]"

definition demo_config :: agent_config where
  "demo_config = \<lparr>cf_max_tool_rounds = DEFAULT_MAX_TOOL_ROUNDS,
     cf_max_heartbeat_rounds = DEFAULT_MAX_HEARTBEAT_ROUNDS,
     cf_max_transient_retries = DEFAULT_MAX_TRANSIENT_RETRIES, cf_window = 128000,
     cf_output_reserve = DEFAULT_OUTPUT_RESERVE_TOKENS, cf_summary_max = DEFAULT_SUMMARY_MAX_TOKENS,
     cf_retry = default_policy, cf_pinned_ratio = \<lparr>ra_in_range = True, ra_scale = (\<lambda>n. n div 4)\<rparr>,
     cf_keep_turns = DEFAULT_CONTEXT_KEEP_TURNS,
     cf_keep_ratio = \<lparr>ra_in_range = True, ra_scale = (\<lambda>n. n * 15 div 100)\<rparr>,
     cf_thresholds = DEFAULT_CONTEXT_THRESHOLDS, cf_budget_warnings = DEFAULT_TOKEN_BUDGET_WARNINGS\<rparr>"

definition demo_agent :: "pacing_table agent" where
  "demo_agent = \<lparr>ag_client = demo_profile ''p'' 128000, ag_conv_store = True,
     ag_failover = failover_new ''main'' demo_chain, ag_store = store_new, ag_config = demo_config,
     ag_episode = episode_new 1000, ag_origin = System, ag_history = Some [], ag_compaction = ledger_new 0,
     ag_budget = budget_unlimited, ag_pacing = Some table_pacing, ag_table = [(''p'', demo_block)],
     ag_signals = None, ag_events = []\<rparr>"

text \<open>A claim and the reading that follows it agree, on the tagma's table: an episode that took
  its window reads no fact against the profile, and one that is paced, which only a system attempt
  can be, reads the very fact whose window end paces it.\<close>

theorem claim_and_reading_agree:
  assumes "ag_pacing ag = Some table_pacing" and "table_ok (ag_table ag)"
    and "ep_claim (ag_episode ag) = None" and "ep_attempts (ag_episode ag) = 0"
    and "claim_window_for (pf_id (current_profile (ag_failover ag))) now origin ag = (r, ag')"
  shows "(case r of
      None \<Rightarrow> tr_blocked (table_reading_of ag' now) = None
    | Some nb \<Rightarrow> now < nb \<and> origin = System \<and> ag' = ag\<lparr>ag_table := ag_table ag'\<rparr>
        \<and> (\<exists>bf. tr_blocked (table_reading_of ag' now) = Some bf \<and> window_end (bf_block bf) = nb))"
  using assms by (rule table.claim_then_reading)

lemma demo_agent_facts:
  "ag_pacing demo_agent = Some table_pacing" "table_ok (ag_table demo_agent)"
  "ep_claim (ag_episode demo_agent) = None" "ep_attempts (ag_episode demo_agent) = 0"
  "pf_id (current_profile (ag_failover demo_agent)) = ''p''"
  by (simp_all add: demo_agent_def table_ok_def keys_distinct_def FACT_TABLE_CAPACITY_def
      episode_new_def current_profile_def failover_new_def demo_chain_def demo_profile_def)

theorem claim_and_reading_agree_witness:
  "\<exists>ag'. claim_window_for ''p'' 1001 External demo_agent = (None, ag')
     \<and> tr_blocked (table_reading_of ag' 1001) = None"
proof -
  obtain r ag' where run: "claim_window_for ''p'' 1001 External demo_agent = (r, ag')"
    by fastforce
  note agree = claim_and_reading_agree [OF demo_agent_facts(1-4), unfolded demo_agent_facts(5), OF run]
  then have "r = None" by (cases r) auto
  with agree run show ?thesis by simp
qed

text \<open>A window taken and never spent is given back: an episode that claims and then ends with
  no send leaves on the tagma's table what was there, less the ended window it had taken over.\<close>

theorem unspent_window_given_back:
  assumes "ag_pacing ag = Some table_pacing" and "table_ok (ag_table ag)"
    and "ep_claim (ag_episode ag) = None" and "ep_attempts (ag_episode ag) = 0"
    and "claim_window_for p now origin ag = (r, ag')"
  shows "map_of (ag_table (start_episode later ag')) =
    (if claimed_record (ag_episode ag') = None then map_of (ag_table ag)
     else (map_of (ag_table ag))(p := None))"
  using assms by (rule table.unspent_episode_leaves_nothing)

theorem unspent_window_given_back_witness:
  "\<exists>r ag'. claim_window_for ''p'' 1001 External demo_agent = (r, ag')
     \<and> map_of (ag_table (start_episode 1002 ag')) ''q'' = None"
proof -
  obtain r ag' where run: "claim_window_for ''p'' 1001 External demo_agent = (r, ag')"
    by fastforce
  have "map_of (ag_table demo_agent) ''q'' = None" by (simp add: demo_agent_def)
  with unspent_window_given_back [OF demo_agent_facts(1-4) run, of 1002] run show ?thesis by auto
qed

end
