(* ===== verification/Text_Slice.thy ===== *)
theory Text_Slice
  imports Text Agent_Config
begin

text \<open>
  Budget-driven head and tail cuts (\<open>crates/kallipai-adk/src/text_slice.rs\<close>) and the cap on a tool
  result that uses them (\<open>tool_execution.rs\<close>). A text is the list of its characters, each one the
  bytes of its encoding, so that the code's character positions are list positions. The token
  estimator (\<open>est\<close>) is a third-party function and a parameter.
\<close>

section \<open>Characters\<close>

definition lf :: uchar where "lf = [CHR 0x0A]"

section \<open>Cuts\<close>

definition DEFAULT_TOOL_RESULT_LINE_MAX_TOKENS :: usize where
  "DEFAULT_TOOL_RESULT_LINE_MAX_TOKENS = 2000"

definition omission_marker :: "nat \<Rightarrow> string" where
  "omission_marker omitted =
     [CHR 0x0A] @ ''[... '' @ show_nat omitted @ '' chars omitted ...]'' @ [CHR 0x0A]"

text \<open>A cut: the characters kept from the start, those kept from the end, and the text. The
  subtraction of the two positions is on \<open>usize\<close>; the head never passes the tail in a call below.\<close>

record cut =
  ct_head :: usize
  ct_tail :: usize
  ct_text :: string

definition marker_slice :: "uchar list \<Rightarrow> usize \<Rightarrow> usize \<Rightarrow> cut" where
  "marker_slice cs head_end tail_start =
     \<lparr>ct_head = head_end, ct_tail = length cs - tail_start,
      ct_text = concat (take head_end cs) @ omission_marker (tail_start - head_end)
        @ concat (drop tail_start cs)\<rparr>"

definition line_start :: "uchar list \<Rightarrow> usize \<Rightarrow> usize" where
  "line_start cs pos = fold (\<lambda>(i, c) start. if c = lf then Suc i else start) (enumerate 0 (take pos cs)) 0"

definition line_end :: "uchar list \<Rightarrow> usize \<Rightarrow> usize \<Rightarrow> usize" where
  "line_end cs pos len =
     (case find (\<lambda>(i, c). c = lf) (drop pos (enumerate 0 cs)) of
        Some (i, _) \<Rightarrow> i + 1
      | None \<Rightarrow> len)"

definition line_bounds :: "uchar list \<Rightarrow> usize \<Rightarrow> usize \<Rightarrow> usize \<times> usize" where
  "line_bounds cs pos len = (line_start cs pos, line_end cs pos len)"

definition line_est :: "(string \<Rightarrow> usize) \<Rightarrow> uchar list \<Rightarrow> usize \<Rightarrow> usize \<Rightarrow> usize" where
  "line_est est cs start end = est (concat (take (end - start) (drop start cs)))"

definition aligned_head_end :: "(string \<Rightarrow> usize) \<Rightarrow> uchar list \<Rightarrow> usize \<Rightarrow> usize \<Rightarrow> usize" where
  "aligned_head_end est cs pos len =
     (let (start, end) = line_bounds cs pos len
      in if line_est est cs start end \<le> DEFAULT_TOOL_RESULT_LINE_MAX_TOKENS then end else pos)"

definition aligned_tail_start :: "(string \<Rightarrow> usize) \<Rightarrow> uchar list \<Rightarrow> usize \<Rightarrow> usize \<Rightarrow> usize" where
  "aligned_tail_start est cs pos len =
     (let (start, end) = line_bounds cs pos len
      in if line_est est cs start end \<le> DEFAULT_TOOL_RESULT_LINE_MAX_TOKENS then start else pos)"

definition whole :: "uchar list \<Rightarrow> cut" where
  "whole cs = \<lparr>ct_head = length cs, ct_tail = 0, ct_text = concat cs\<rparr>"

definition head_tail_slice :: "(string \<Rightarrow> usize) \<Rightarrow> uchar list \<Rightarrow> usize \<Rightarrow> cut" where
  "head_tail_slice est cs cap_chars =
     (let len = length cs in
      if len \<le> cap_chars then whole cs
      else
        let head_cut = cap_chars * 3 div 5;
            tail_cut = len - (cap_chars - head_cut);
            head_end = aligned_head_end est cs head_cut len;
            tail_start = aligned_tail_start est cs tail_cut len
        in if tail_start \<le> head_end then marker_slice cs head_cut tail_cut
           else marker_slice cs head_end tail_start)"

definition char_head_tail :: "uchar list \<Rightarrow> usize \<Rightarrow> cut" where
  "char_head_tail cs cap_chars =
     (let len = length cs in
      if len \<le> cap_chars then whole cs
      else
        let head_end = cap_chars * 3 div 5; tail_start = len - (cap_chars - head_end)
        in marker_slice cs head_end tail_start)"

section \<open>Convergence under a token target\<close>

text \<open>Up to \<open>n\<close> proportional steps with one way of cutting: the first cut at or under the target is
  the answer (\<open>Inl\<close>), otherwise the cap and the cut reached (\<open>Inr\<close>).\<close>

fun proportional_steps ::
  "(string \<Rightarrow> usize) \<Rightarrow> (usize \<Rightarrow> cut) \<Rightarrow> usize \<Rightarrow> nat \<Rightarrow> usize \<Rightarrow> cut \<Rightarrow> cut + (usize \<times> cut)" where
  "proportional_steps est cutter target 0 cap parts = Inr (cap, parts)"
| "proportional_steps est cutter target (Suc n) cap parts =
     (if est (ct_text parts) \<le> target then Inl parts
      else let cap' = cap * target div max (est (ct_text parts)) 1
           in proportional_steps est cutter target n cap' (cutter cap'))"

text \<open>The backstop: halve the cap while it is above one.\<close>

fun halving :: "(string \<Rightarrow> usize) \<Rightarrow> uchar list \<Rightarrow> usize \<Rightarrow> usize \<Rightarrow> cut \<Rightarrow> cut" where
  "halving est cs target cap parts =
     (if 1 < cap then
        let cap' = cap div 2; parts' = char_head_tail cs cap'
        in if est (ct_text parts') \<le> target then parts' else halving est cs target cap' parts'
      else parts)"

declare halving.simps [simp del]

definition converge_under_cap :: "(string \<Rightarrow> usize) \<Rightarrow> uchar list \<Rightarrow> usize \<Rightarrow> usize \<Rightarrow> cut" where
  "converge_under_cap est cs chars_cap target =
     (let cap = max chars_cap 1 in
      case proportional_steps est (head_tail_slice est cs) target 4 cap (head_tail_slice est cs cap) of
        Inl parts \<Rightarrow> parts
      | Inr (cap1, parts1) \<Rightarrow>
          (case proportional_steps est (char_head_tail cs) target 4 cap1 parts1 of
             Inl parts \<Rightarrow> parts
           | Inr (cap2, parts2) \<Rightarrow> halving est cs target cap2 parts2))"

section \<open>The cap on a tool result\<close>

definition with_banner :: "(string \<Rightarrow> usize) \<Rightarrow> usize \<Rightarrow> usize \<Rightarrow> cut \<Rightarrow> string" where
  "with_banner est len full_est parts =
     ct_text parts @ [CHR 0x0A] @ ''[... truncated: kept first '' @ show_nat (ct_head parts)
       @ '' and last '' @ show_nat (ct_tail parts) @ '' of '' @ show_nat len @ '' chars (~''
       @ show_nat (est (ct_text parts)) @ '' of ~'' @ show_nat full_est
       @ '' estimated tokens). Narrow the command's output and re-run to see other parts ...]''"

definition cap_tool_result :: "(string \<Rightarrow> usize) \<Rightarrow> string \<Rightarrow> string" where
  "cap_tool_result est result =
     (let full_est = est result in
      if full_est \<le> DEFAULT_TOOL_RESULT_FULL_TOKENS then result
      else
        let len = length (chars_of result);
            chars_cap = DEFAULT_TOOL_RESULT_TRUNCATED_TOKENS * len div full_est
        in with_banner est len full_est
             (converge_under_cap est (chars_of result) chars_cap DEFAULT_TOOL_RESULT_TRUNCATED_TOKENS))"

section \<open>Cuts account for the text\<close>

text \<open>A proper cut: a non-empty gap, everything before it and everything after it.\<close>

definition proper_cut :: "uchar list \<Rightarrow> usize \<Rightarrow> usize \<Rightarrow> cut \<Rightarrow> bool" where
  "proper_cut cs h t parts \<longleftrightarrow> h < t \<and> t \<le> length cs
     \<and> parts = \<lparr>ct_head = h, ct_tail = length cs - t,
         ct_text = concat (take h cs) @ omission_marker (t - h) @ concat (drop t cs)\<rparr>"

lemma marker_slice_proper: "h < t \<Longrightarrow> t \<le> length cs \<Longrightarrow> proper_cut cs h t (marker_slice cs h t)"
  by (simp add: proper_cut_def marker_slice_def)

lemma line_start_le: "line_start cs pos \<le> pos"
proof -
  have "fold (\<lambda>(i, c) start. if c = lf then Suc i else start) (enumerate k xs) s \<le> k + length xs"
    if "s \<le> k" for k xs and s :: nat
    using that
  proof (induction xs arbitrary: k s)
    case (Cons x xs)
    then show ?case using Cons.IH [of "Suc k" "Suc k"] Cons.IH [of s "Suc k"] by simp
  qed simp
  from this [of 0 0 "take pos cs"] show ?thesis
    by (simp add: line_start_def min_def split: if_splits)
qed

lemma line_end_bounds:
  assumes "pos < length cs"
  shows "pos < line_end cs pos (length cs)" and "line_end cs pos (length cs) \<le> length cs"
proof -
  have "pos \<le> i \<and> i < length cs" if "find (\<lambda>(i, c). c = lf) (drop pos (enumerate 0 cs)) = Some (i, c)" for i c
  proof -
    from that obtain j where "j < length (drop pos (enumerate 0 cs))" "(i, c) = drop pos (enumerate 0 cs) ! j"
      by (auto simp: find_Some_iff)
    then show ?thesis using assms by (auto simp: nth_enumerate_eq)
  qed
  then show "pos < line_end cs pos (length cs)" "line_end cs pos (length cs) \<le> length cs"
    using assms by (fastforce simp: line_end_def split: option.split)+
qed

lemma aligned_bounds:
  assumes "pos < length cs"
  shows "pos \<le> aligned_head_end est cs pos (length cs)" "aligned_head_end est cs pos (length cs) \<le> length cs"
    and "aligned_tail_start est cs pos (length cs) \<le> pos"
  using line_end_bounds [OF assms] line_start_le [of cs pos] assms
  by (simp_all add: aligned_head_end_def aligned_tail_start_def line_bounds_def)

lemma three_fifths: "(n::nat) * 3 div 5 \<le> n"
  by linarith

lemma kept_at_least: "hc \<le> cap \<Longrightarrow> cap < n \<Longrightarrow> hc \<le> he \<Longrightarrow> ts \<le> n - (cap - hc) \<Longrightarrow> cap \<le> he + (n - ts)"
  for hc cap n he ts :: nat
  by linarith

lemma head_tail_slice_proper:
  assumes "cap < length cs"
  shows "\<exists>h t. proper_cut cs h t (head_tail_slice est cs cap) \<and> cap \<le> h + (length cs - t)"
proof -
  let ?n = "length cs" and ?hc = "cap * 3 div 5"
  let ?tc = "?n - (cap - ?hc)"
  have hc: "?hc \<le> cap" by (rule three_fifths)
  with assms have raw: "?hc < ?tc" "?tc \<le> ?n" "?hc < ?n" by linarith+
  let ?he = "aligned_head_end est cs ?hc ?n" and ?ts = "aligned_tail_start est cs ?tc ?n"
  have he: "?hc \<le> ?he" using aligned_bounds(1) [OF raw(3)] .
  have ts: "?ts \<le> ?tc"
  proof (cases "?tc < ?n")
    case True
    then show ?thesis by (rule aligned_bounds(3))
  next
    case False
    then show ?thesis
      using line_start_le [of cs ?tc] by (simp add: aligned_tail_start_def line_bounds_def)
  qed
  show ?thesis
  proof (cases "?ts \<le> ?he")
    case True
    then have "head_tail_slice est cs cap = marker_slice cs ?hc ?tc"
      using assms by (simp add: head_tail_slice_def Let_def)
    moreover have "cap \<le> ?hc + (?n - ?tc)" using hc assms by linarith
    ultimately show ?thesis
      by (intro exI [of _ ?hc] exI [of _ ?tc]) (simp only: marker_slice_proper [OF raw(1,2)] simp_thms)
  next
    case False
    then have "head_tail_slice est cs cap = marker_slice cs ?he ?ts"
      using assms by (simp add: head_tail_slice_def Let_def)
    moreover have "cap \<le> ?he + (?n - ?ts)" by (rule kept_at_least [OF hc assms he ts])
    moreover have "?he < ?ts" using False by simp
    moreover have "?ts \<le> ?n" using ts by (rule order_trans) simp
    ultimately show ?thesis
      by (intro exI [of _ ?he] exI [of _ ?ts]) (simp only: marker_slice_proper simp_thms)
  qed
qed

lemma char_head_tail_proper:
  assumes "cap < length cs"
  shows "\<exists>h t. proper_cut cs h t (char_head_tail cs cap) \<and> cap = h + (length cs - t)"
proof -
  let ?h = "cap * 3 div 5"
  let ?t = "length cs - (cap - ?h)"
  have "?h \<le> cap" by (rule three_fifths)
  with assms have "?h < ?t" "?t \<le> length cs" "cap = ?h + (length cs - ?t)" by linarith+
  moreover have "char_head_tail cs cap = marker_slice cs ?h ?t"
    using assms by (simp add: char_head_tail_def Let_def)
  ultimately show ?thesis
    by (intro exI [of _ ?h] exI [of _ ?t]) (simp only: marker_slice_proper simp_thms)
qed

section \<open>Convergence\<close>

lemma shrinking_cap: "target < e \<Longrightarrow> cap * target div max e 1 \<le> cap" for cap target e :: nat
proof -
  assume "target < e"
  then have "max e 1 = e" by simp
  then have "cap * target div max e 1 = cap * target div e" by simp
  also have "\<dots> \<le> cap * e div e" using \<open>target < e\<close> by (intro div_le_mono) simp
  also have "\<dots> = cap" using \<open>target < e\<close> by simp
  finally show ?thesis .
qed

lemma proportional_steps_cases:
  assumes "\<And>c. c \<le> cap0 \<Longrightarrow> P (cutter c)" and "cap \<le> cap0" and "P parts"
  shows "case proportional_steps est cutter target n cap parts of
      Inl p \<Rightarrow> P p \<and> est (ct_text p) \<le> target
    | Inr (c, p) \<Rightarrow> P p \<and> c \<le> cap0 \<and> (0 < n \<longrightarrow> p = cutter c)"
  using assms(2,3)
proof (induction n arbitrary: cap parts)
  case 0
  then show ?case by simp
next
  case (Suc n)
  show ?case
  proof (cases "est (ct_text parts) \<le> target")
    case True
    with Suc.prems show ?thesis by simp
  next
    case False
    let ?c = "cap * target div max (est (ct_text parts)) 1"
    have "?c \<le> cap0" using shrinking_cap [of target "est (ct_text parts)" cap] False Suc.prems(1) by linarith
    moreover from this have "P (cutter ?c)" by (rule assms(1))
    ultimately have "case proportional_steps est cutter target n ?c (cutter ?c) of
        Inl p \<Rightarrow> P p \<and> est (ct_text p) \<le> target
      | Inr (c, p) \<Rightarrow> P p \<and> c \<le> cap0 \<and> (0 < n \<longrightarrow> p = cutter c)" by (rule Suc.IH)
    moreover have "n = 0 \<Longrightarrow> proportional_steps est cutter target n ?c (cutter ?c) = Inr (?c, cutter ?c)" by simp
    ultimately show ?thesis
      using False by (cases n) (auto simp: Let_def split: sum.splits)
  qed
qed

lemma halving_cases:
  assumes "\<And>c. c \<le> cap \<Longrightarrow> P (char_head_tail cs c)" and "P parts"
    and "cap \<le> 1 \<Longrightarrow> est (ct_text parts) \<le> target" and "est (ct_text (char_head_tail cs 1)) \<le> target"
  shows "P (halving est cs target cap parts) \<and> est (ct_text (halving est cs target cap parts)) \<le> target"
  using assms
proof (induction est cs target cap parts rule: halving.induct)
  case (1 est cs target cap parts)
  let ?p = "char_head_tail cs (cap div 2)"
  show ?case
  proof (cases "1 < cap \<and> \<not> est (ct_text ?p) \<le> target")
    case True
    then have big: "1 < cap" "\<not> est (ct_text ?p) \<le> target" by blast+
    have "cap div 2 \<noteq> 1" using big(2) "1.prems"(4) by metis
    moreover have "1 \<le> cap div 2" using big(1) by linarith
    ultimately have "\<not> cap div 2 \<le> 1" by linarith
    moreover have "P ?p" by (rule "1.prems"(1)) simp
    moreover have "\<And>c. c \<le> cap div 2 \<Longrightarrow> P (char_head_tail cs c)" using "1.prems"(1) by simp
    ultimately have "P (halving est cs target (cap div 2) ?p)
        \<and> est (ct_text (halving est cs target (cap div 2) ?p)) \<le> target"
      using "1.IH" [OF big(1) refl refl big(2)] "1.prems" by blast
    moreover have "halving est cs target cap parts = halving est cs target (cap div 2) ?p"
      using big by (subst halving.simps) (simp add: Let_def)
    ultimately show ?thesis by simp
  next
    case False
    moreover have "P ?p" by (rule "1.prems"(1)) simp
    ultimately show ?thesis using "1.prems"(2,3)
      by (subst (1 2) halving.simps) (auto simp: Let_def)
  qed
qed

text \<open>The estimator leaves room beyond the marker: the cut of one character and the empty cut fit.\<close>

definition leaves_room :: "(string \<Rightarrow> usize) \<Rightarrow> uchar list \<Rightarrow> usize \<Rightarrow> bool" where
  "leaves_room est cs target \<longleftrightarrow>
     est (ct_text (char_head_tail cs 0)) \<le> target \<and> est (ct_text (char_head_tail cs 1)) \<le> target"

lemma converge_under_cap_cases:
  assumes "chars_cap < length cs" and "1 < length cs" and "leaves_room est cs target"
  shows "(\<exists>h t. proper_cut cs h t (converge_under_cap est cs chars_cap target))
    \<and> est (ct_text (converge_under_cap est cs chars_cap target)) \<le> target"
proof -
  let ?P = "\<lambda>p. \<exists>h t. proper_cut cs h t p"
  let ?cap = "max chars_cap 1"
  let ?first = "proportional_steps est (head_tail_slice est cs) target 4 ?cap (head_tail_slice est cs ?cap)"
  have small: "?cap < length cs" using assms(1,2) by simp
  have line: "?P (head_tail_slice est cs c)" if "c \<le> ?cap" for c
    using head_tail_slice_proper [of c cs est] that small by auto
  have char: "?P (char_head_tail cs c)" if "c \<le> ?cap" for c
    using char_head_tail_proper [of c cs] that small by auto
  have first: "case ?first of Inl p \<Rightarrow> ?P p \<and> est (ct_text p) \<le> target
      | Inr (c, p) \<Rightarrow> ?P p \<and> c \<le> ?cap \<and> (0 < (4::nat) \<longrightarrow> p = head_tail_slice est cs c)"
    by (rule proportional_steps_cases [where P = ?P and cutter = "head_tail_slice est cs"])
      (use line in auto)
  show ?thesis
  proof (cases ?first)
    case (Inl p)
    with first show ?thesis by (simp add: converge_under_cap_def Let_def)
  next
    case (Inr cp)
    obtain c p where cp: "cp = (c, p)" by fastforce
    with Inr first have c: "?P p" "c \<le> ?cap" by auto
    let ?second = "proportional_steps est (char_head_tail cs) target 4 c p"
    have second: "case ?second of Inl p \<Rightarrow> ?P p \<and> est (ct_text p) \<le> target
        | Inr (c', p) \<Rightarrow> ?P p \<and> c' \<le> c \<and> (0 < (4::nat) \<longrightarrow> p = char_head_tail cs c')"
      by (rule proportional_steps_cases [where P = ?P and cutter = "char_head_tail cs"])
        (use char c in auto)
    show ?thesis
    proof (cases ?second)
      case (Inl p')
      with Inr cp second show ?thesis by (simp add: converge_under_cap_def Let_def)
    next
      case (Inr cp')
      obtain c' p' where cp': "cp' = (c', p')" by fastforce
      with Inr second have c': "?P p'" "c' \<le> c" "p' = char_head_tail cs c'" by auto
      have "?P (halving est cs target c' p') \<and> est (ct_text (halving est cs target c' p')) \<le> target"
      proof (rule halving_cases)
        show "?P (char_head_tail cs d)" if "d \<le> c'" for d using char that c'(2) c(2) by auto
        show "?P p'" by fact
        show "est (ct_text p') \<le> target" if "c' \<le> 1"
          using that assms(3) c'(3) by (cases c') (auto simp: leaves_room_def)
        show "est (ct_text (char_head_tail cs 1)) \<le> target"
          using assms(3) by (simp add: leaves_room_def)
      qed
      then show ?thesis using \<open>?first = Inr cp\<close> cp Inr cp'
        by (simp add: converge_under_cap_def Let_def)
    qed
  qed
qed

text \<open>C24. The cap on a tool result: a result at or under the full threshold enters the context
  byte for byte. A larger one becomes a head and a tail of its own characters around a marker that
  counts exactly the characters left out, estimated at no more than the truncation target, followed
  by a banner whose two counts and total are those of the cut. The estimator is only asked to leave
  room for a single character beside the marker.\<close>

theorem tool_result_capped:
  assumes "DEFAULT_TOOL_RESULT_FULL_TOKENS < est result \<Longrightarrow> 1 < length (chars_of result)"
    and "DEFAULT_TOOL_RESULT_FULL_TOKENS < est result \<Longrightarrow>
      leaves_room est (chars_of result) DEFAULT_TOOL_RESULT_TRUNCATED_TOKENS"
  shows "if est result \<le> DEFAULT_TOOL_RESULT_FULL_TOKENS then cap_tool_result est result = result
    else \<exists>before gap behind body.
      chars_of result = before @ gap @ behind \<and> gap \<noteq> []
      \<and> body = concat before @ omission_marker (length gap) @ concat behind
      \<and> est body \<le> DEFAULT_TOOL_RESULT_TRUNCATED_TOKENS
      \<and> cap_tool_result est result = with_banner est (length before + length gap + length behind)
          (est result) \<lparr>ct_head = length before, ct_tail = length behind, ct_text = body\<rparr>"
proof (cases "est result \<le> DEFAULT_TOOL_RESULT_FULL_TOKENS")
  case True
  then show ?thesis by (simp add: cap_tool_result_def)
next
  case False
  let ?cs = "chars_of result" and ?full = "est result"
  let ?cap = "DEFAULT_TOOL_RESULT_TRUNCATED_TOKENS * length ?cs div ?full"
  let ?cut = "converge_under_cap est ?cs ?cap DEFAULT_TOOL_RESULT_TRUNCATED_TOKENS"
  have len: "1 < length ?cs" using assms(1) False by simp
  have "DEFAULT_TOOL_RESULT_TRUNCATED_TOKENS < ?full"
    using False by (simp add: DEFAULT_TOOL_RESULT_TRUNCATED_TOKENS_def DEFAULT_TOOL_RESULT_FULL_TOKENS_def)
  then have "DEFAULT_TOOL_RESULT_TRUNCATED_TOKENS * length ?cs < length ?cs * ?full"
    using len by (subst mult.commute) (rule mult_strict_left_mono, assumption, linarith)
  then have "?cap < length ?cs" by (rule less_mult_imp_div_less)
  from converge_under_cap_cases [OF this len assms(2)] False
  obtain h t where cut: "proper_cut ?cs h t ?cut" "est (ct_text ?cut) \<le> DEFAULT_TOOL_RESULT_TRUNCATED_TOKENS"
    by auto
  let ?before = "take h ?cs" and ?gap = "drop h (take t ?cs)" and ?behind = "drop t ?cs"
  have ht: "h < t" "t \<le> length ?cs" using cut(1) by (simp_all add: proper_cut_def)
  then have parts: "?cs = ?before @ ?gap @ ?behind"
    by (metis append_take_drop_id append_assoc less_imp_le min.absorb1 take_take)
  have lens: "length ?before = h" "length ?gap = t - h" "length ?behind = length ?cs - t"
    using ht by simp_all
  have body: "?cut = \<lparr>ct_head = length ?before, ct_tail = length ?behind,
      ct_text = concat ?before @ omission_marker (length ?gap) @ concat ?behind\<rparr>"
    using cut(1) unfolding lens by (simp add: proper_cut_def)
  have total: "length ?before + length ?gap + length ?behind = length ?cs" using ht unfolding lens by simp
  have "cap_tool_result est result = with_banner est (length ?cs) ?full ?cut"
    using False by (simp add: cap_tool_result_def Let_def)
  moreover have "?gap \<noteq> []" using ht by simp
  moreover have "est (concat ?before @ omission_marker (length ?gap) @ concat ?behind)
      \<le> DEFAULT_TOOL_RESULT_TRUNCATED_TOKENS" using cut(2) by (subst (asm) body) simp
  ultimately show ?thesis unfolding if_not_P [OF False]
    using parts total body
    by - (rule exI [of _ ?before], rule exI [of _ ?gap], rule exI [of _ ?behind],
      rule exI [of _ "concat ?before @ omission_marker (length ?gap) @ concat ?behind"],
      intro conjI refl; assumption?; simp only:)
qed

definition demo_estimate :: "string \<Rightarrow> usize" where
  "demo_estimate s = (if length s < 40 then 1 else 40000)"

lemma chars_of_xs: "chars_of (replicate n CHR ''x'') = replicate n ''x''"
proof (induction n)
  case (Suc n)
  have "\<not> is_cont CHR ''x''" by (simp add: is_cont_def)
  with Suc show ?case by (cases n) simp_all
qed simp

theorem tool_result_capped_witness:
  "\<exists>before gap behind body. chars_of (replicate 45 CHR ''x'') = before @ gap @ behind \<and> gap \<noteq> []
     \<and> body = concat before @ omission_marker (length gap) @ concat behind
     \<and> cap_tool_result demo_estimate (replicate 45 CHR ''x'') = with_banner demo_estimate
         (length before + length gap + length behind) 40000
         \<lparr>ct_head = length before, ct_tail = length behind, ct_text = body\<rparr>"
proof -
  let ?r = "replicate 45 CHR ''x''"
  have est: "demo_estimate ?r = 40000" by (simp add: demo_estimate_def)
  then have big: "\<not> demo_estimate ?r \<le> DEFAULT_TOOL_RESULT_FULL_TOKENS"
    by (simp add: DEFAULT_TOOL_RESULT_FULL_TOKENS_def)
  have len: "1 < length (chars_of ?r)" by (simp add: chars_of_xs)
  have nats: "length (show_nat 45) = 2" "length (show_nat 44) = 2" by (simp_all add: show_nat.simps)
  have room: "leaves_room demo_estimate (chars_of ?r) DEFAULT_TOOL_RESULT_TRUNCATED_TOKENS"
    unfolding chars_of_xs
    by (simp add: leaves_room_def char_head_tail_def Let_def marker_slice_def omission_marker_def
        demo_estimate_def nats DEFAULT_TOOL_RESULT_TRUNCATED_TOKENS_def)
  from tool_result_capped [of demo_estimate ?r, OF len room] show ?thesis
    unfolding est if_not_P [OF big [unfolded est]] by (elim exE conjE) (intro exI conjI; assumption)
qed

end
