(* ===== verification/Context_Window.thy ===== *)
theory Context_Window
  imports Context_Store
begin

text \<open>
  What the context store promises: the layout every run keeps, what a manual eviction leaves behind,
  what an incremental estimate covers, and what survives a save and a restore.
\<close>

abbreviation store_run ::
  "(message \<Rightarrow> usize) \<Rightarrow> (message \<Rightarrow> pin_attachment list) \<Rightarrow> (u8 \<Rightarrow> string) \<Rightarrow> store_op list
     \<Rightarrow> context_store" where
  "store_run est refs_of budget_text ops \<equiv> fold (store_step est refs_of budget_text) ops store_new"

lemma store_run_ok: "store_ok (store_run est refs_of budget_text ops)"
  by (rule store_runs.run_inv [OF store_ok_new])

lemma pinned_labels_map: "map Some (pinned_labels s) = map label_of (pinned_turns s)"
proof -
  have "map Some (List.map_filter label_of ts) = map label_of ts" if "\<forall>t \<in> set ts. is_pinned t" for ts
    using that by (induction ts) (auto simp: List.map_filter_def is_pinned_label)
  then show ?thesis by (simp add: pinned_labels_def pinned_turns_def)
qed

lemma store_ok_ids:
  assumes "store_ok s"
  shows "distinct (map tu_id (cs_turns s))"
    and "\<forall>t \<in> set (cs_turns s). id_num (tu_id t) < cs_next_id s"
    and "sorted_wrt (<) (map tu_id (conversation s))"
    and "distinct (pinned_labels s)"
proof -
  from assms obtain P C where ks: "map turn_key (cs_turns s) = P @ C"
    and facts: "\<forall>k \<in> set P. snd k \<noteq> None" "\<forall>k \<in> set C. snd k = None"
      "distinct (map fst (P @ C))" "\<forall>k \<in> set (P @ C). id_num (fst k) < cs_next_id s"
      "sorted_wrt (<) (map fst C)" "distinct (map snd P)"
    unfolding store_ok_def by (auto elim: layoutE)
  have fst_key: "map fst (map turn_key ts) = map tu_id ts" "map snd (map turn_key ts) = map label_of ts" for ts
    by (simp_all add: turn_key_def comp_def)
  show "distinct (map tu_id (cs_turns s))" using facts(3) by (simp only: fst_key ks [symmetric])
  show "\<forall>t \<in> set (cs_turns s). id_num (tu_id t) < cs_next_id s"
    using facts(4) unfolding ks [symmetric] by (simp add: turn_key_def)
  have "filter (\<lambda>k. snd k = None) (P @ C) = C" "filter (\<lambda>k. snd k \<noteq> None) (P @ C) = P"
    using facts(1,2) by (simp_all add: filter_id_conv filter_empty_conv)
  then have C: "map turn_key (conversation s) = C" and P: "map turn_key (pinned_turns s) = P"
    unfolding ks [symmetric] conversation_def pinned_turns_def is_pinned_label [abs_def]
    by (simp_all add: filter_map comp_def turn_key_def del: not_None_eq)
  show "sorted_wrt (<) (map tu_id (conversation s))" using facts(5) by (simp only: fst_key C [symmetric])
  have "distinct (map Some (pinned_labels s))"
    using facts(6) by (simp only: fst_key P [symmetric] pinned_labels_map)
  then show "distinct (pinned_labels s)" by (simp add: distinct_map)
qed

text \<open>However a context store is driven, its turns stay laid out the way every reader of the
  window assumes: the pinned turns first and the conversation after them, no two turns with one
  id, every id below the next one to hand out, the conversation in the order of its ids, no two pins
  with one label, and an estimation anchor inside the window unless a full estimate is due.\<close>

theorem store_layout_of_runs:
  "let s = store_run est refs_of budget_text ops
   in cs_turns s = pinned_turns s @ conversation s
      \<and> pinned_turn_count s = length (pinned_turns s)
      \<and> distinct (map tu_id (cs_turns s))
      \<and> list_all (\<lambda>t. id_num (tu_id t) < cs_next_id s) (cs_turns s)
      \<and> sorted_wrt (<) (map tu_id (conversation s))
      \<and> distinct (pinned_labels s)
      \<and> list_all (\<lambda>t. length (tu_messages t) = 1) (pinned_turns s)
      \<and> (cs_needs_full s \<or> cs_anchored s \<le> length (cs_turns s))"
proof -
  let ?s = "store_run est refs_of budget_text ops"
  note ok = store_run_ok [of est refs_of budget_text ops]
  have "list_all (\<lambda>t. length (tu_messages t) = 1) (pinned_turns ?s)"
    "cs_needs_full ?s \<or> cs_anchored ?s \<le> length (cs_turns ?s)"
    using ok by (auto simp: store_ok_def list_all_iff pinned_turns_def)
  then show ?thesis
    using turns_split [OF ok] store_ok_ids [OF ok] by (simp add: Let_def list_all_iff)
qed

section \<open>Manual eviction\<close>

definition longest_fit :: "(turn_id \<times> usize) list \<Rightarrow> keep_caps \<Rightarrow> nat \<Rightarrow> bool" where
  "longest_fit convo caps n \<longleftrightarrow>
     window_fits convo caps n \<and> (\<forall>k. window_fits convo caps k \<longrightarrow> k \<le> n)"

text \<open>The pins under other labels than the given one.\<close>

definition other_pins :: "string \<Rightarrow> context_store \<Rightarrow> turn list" where
  "other_pins label s = filter (\<lambda>t. label_of t \<noteq> Some label) (pinned_turns s)"

lemma filter_update_out:
  "\<not> Q (xs ! i) \<Longrightarrow> \<not> Q x \<Longrightarrow> filter Q (xs[i := x]) = filter Q xs"
  by (induction xs arbitrary: i) (auto split: nat.split)

lemma other_pins_alt: "other_pins label s = filter (\<lambda>t. is_pinned t \<and> label_of t \<noteq> Some label) (cs_turns s)"
  by (simp add: other_pins_def pinned_turns_def conj_commute)

lemma replace_pin_effect:
  assumes "store_ok s" and "replace_pin est refs_of label m s = (None, s')"
  shows "store_ok s'" and "conversation s' = conversation s" and "cs_caps s' = cs_caps s"
    and "other_pins label s' = other_pins label s"
    and "\<exists>t. [t \<leftarrow> pinned_turns s'. label_of t = Some label] = [t] \<and> tu_messages t = [m]
      \<and> tu_tokens t = est m"
proof -
  show ok: "store_ok s'" using store_ok_replace [OF assms(1), of est refs_of label m] assms(2) by simp
  have pinned: "is_pinned (pin_turn i m' n l refs)" "label_of (pin_turn i m' n l refs) = Some l" for i m' n l refs
    by (simp_all add: pin_turn_def is_pinned_def label_of_def)
  have single: "\<exists>t. [t \<leftarrow> pinned_turns s'. label_of t = Some label] = [t] \<and> tu_messages t = [m]
      \<and> tu_tokens t = est m"
    if "pin_turn i m (est m) label refs \<in> set (cs_turns s')" for i refs
  proof -
    let ?t = "pin_turn i m (est m) label refs"
    have "?t \<in> set (pinned_turns s')" using that by (simp add: pinned_turns_def pinned)
    then obtain A B where split: "pinned_turns s' = A @ ?t # B" by (meson split_list)
    have "distinct (map label_of (pinned_turns s'))"
      using store_ok_ids(4) [OF ok] by (simp add: pinned_labels_map [symmetric] distinct_map)
    then have "\<forall>u \<in> set A \<union> set B. label_of u \<noteq> Some label"
      unfolding split by (auto simp: pinned image_iff)
    then have "[t \<leftarrow> pinned_turns s'. label_of t = Some label] = [?t]"
      unfolding split by (auto simp: pinned filter_empty_conv)
    then show ?thesis by (auto simp: pin_turn_def)
  qed
  have "conversation s' = conversation s \<and> cs_caps s' = cs_caps s \<and> other_pins label s' = other_pins label s
    \<and> (\<exists>i refs. pin_turn i m (est m) label refs \<in> set (cs_turns s'))"
  proof (cases "pin_position label s")
    case None
    let ?t = "pin_turn (TurnId (cs_next_id s)) m (est m) label (refs_of m)"
    have s': "s' = insert_pin ?t s"
      using assms(2) None by (simp add: replace_pin_def Let_def split: if_splits)
    have "Some label \<notin> label_of ` set (pinned_turns s)"
      using pin_position_None [OF None] by (auto simp: pinned_turns_def)
    then have ts: "cs_turns s' = pinned_turns s @ ?t # conversation s"
      unfolding s' by (rule store_ok_insert_pin(2) [OF assms(1)])
    have "cs_caps s' = cs_caps s" by (simp add: s' insert_pin_def Let_def)
    moreover have "conversation s' = conversation s" "other_pins label s' = other_pins label s"
      by (simp_all add: conversation_def [of s'] other_pins_alt [of _ s'] ts pinned)
        (simp_all add: conversation_def pinned_turns_def other_pins_alt conj_commute)
    ultimately show ?thesis using ts by auto
  next
    case (Some i)
    let ?t = "pin_turn (tu_id (cs_turns s ! i)) m (est m) label (refs_of m)"
    have s': "cs_turns s' = (cs_turns s)[i := ?t]" "cs_caps s' = cs_caps s"
      using assms(2) Some by (auto simp: replace_pin_def Let_def split: if_splits)
    note i = pin_position_Some [OF Some]
    have "conversation s' = conversation s"
      unfolding conversation_def s' by (rule filter_update_out) (use i in \<open>simp_all add: is_pinned_label pinned\<close>)
    moreover have "other_pins label s' = other_pins label s"
      unfolding other_pins_alt s' by (rule filter_update_out) (use i in \<open>simp_all add: pinned\<close>)
    moreover have "?t \<in> set (cs_turns s')" using i(1) by (simp add: s' set_update_memI)
    ultimately show ?thesis using s'(2) by blast
  qed
  then show "conversation s' = conversation s" "cs_caps s' = cs_caps s"
    "other_pins label s' = other_pins label s"
    "\<exists>t. [t \<leftarrow> pinned_turns s'. label_of t = Some label] = [t] \<and> tu_messages t = [m]
      \<and> tu_tokens t = est m"
    using single by blast+
qed

text \<open>What the operations of the manual eviction leave alone.\<close>

lemma evict_turns_other_pins:
  "store_ok s \<Longrightarrow> other_pins label (snd (evict_turns n s)) = other_pins label s"
  "store_ok s \<Longrightarrow> pinned_turns (snd (evict_turns n s)) = pinned_turns s"
  by (simp_all add: other_pins_def conversation_evict)

lemma reset_warnings_views [simp]:
  "conversation (reset_context_warnings s) = conversation s"
  "pinned_turns (reset_context_warnings s) = pinned_turns s"
  "other_pins label (reset_context_warnings s) = other_pins label s"
  "cs_warned (reset_context_warnings s) = None"
  by (simp_all add: reset_context_warnings_def conversation_def pinned_turns_def other_pins_def)

lemma keep_all_range: "kw_range (plan_keep_window convo caps) = None \<longleftrightarrow> keeps_everything (plan_keep_window convo caps)"
  by (simp add: plan_keep_window_def Let_def keeps_everything_def)

lemma longest_fit_of_evict:
  assumes "store_ok s"
  shows "longest_fit (conversation_turn_sizes s) (cs_caps s)
    (length (conversation (snd (evict_turns
      (kw_evict (plan_keep_window (conversation_turn_sizes s) (cs_caps s))) s))))"
  using convo.kept_is_longest_fit [OF assms]
  by (simp add: longest_fit_def convo.evict_to_plan_def sizes_of_conversation)

lemma ids_kept:
  assumes "store_ok s"
  shows "map tu_id (conversation (snd (evict_turns
      (kw_evict (plan_keep_window (conversation_turn_sizes s) (cs_caps s))) s)))
    = kw_kept (plan_keep_window (conversation_turn_sizes s) (cs_caps s))"
  using convo.plan_is_kept [OF assms]
  by (simp add: convo.evict_to_plan_def sizes_of_conversation comp_def)

text \<open>The manual eviction tool, on any store the operations can produce, has three outcomes. When
  the whole conversation fits the configured caps nothing changes. When the new summary pin would
  exceed the pin budget nothing changes either and the call fails. Otherwise the conversation is
  exactly the turns the plan announced, which are the longest run of newest turns within the caps;
  what it reports as evicted and freed are the dropped turns and their tokens, the summary pin is
  there exactly once with the recorded range, and every other pin is untouched.\<close>

theorem manual_eviction_outcomes:
  "let s = store_run est refs_of budget_text ops;
       plan = plan_keep_window (conversation_turn_sizes s) (cs_caps s)
   in case context_evict est refs_of summary s of
        (EvictFailed err, s') \<Rightarrow>
          s' = s \<and> (\<exists>needed. err = PinnedBudgetExceeded needed (cs_pinned_budget s))
      | (Condensed res w caps note, s') \<Rightarrow>
          w = plan \<and> caps = cs_caps s
          \<and> map tu_id (conversation s') = kw_kept plan
          \<and> longest_fit (conversation_turn_sizes s) (cs_caps s) (length (conversation s'))
          \<and> conversation s = take (er_evicted res) (conversation s) @ conversation s'
          \<and> er_remaining res = length (conversation s')
          \<and> er_freed res = sum_list (map tu_tokens (take (er_evicted res) (conversation s)))
          \<and> other_pins CONTEXT_SUMMARY_LABEL s' = other_pins CONTEXT_SUMMARY_LABEL s
          \<and> (case kw_range plan of
               None \<Rightarrow> s' = s
             | Some rg \<Rightarrow> cs_warned s' = None
                 \<and> (\<exists>t. [t \<leftarrow> pinned_turns s'. label_of t = Some CONTEXT_SUMMARY_LABEL] = [t]
                      \<and> tu_messages t = [summary_record_with_range summary rg]))"
proof -
  define s where "s = store_run est refs_of budget_text ops"
  define plan where "plan = plan_keep_window (conversation_turn_sizes s) (cs_caps s)"
  have ok: "store_ok s" unfolding s_def by (rule store_run_ok)
  note start = Let_def s_def [symmetric] plan_def [symmetric]
  show ?thesis
  proof (cases "kw_range plan")
    case None
    then have "kw_evict plan = 0" unfolding plan_def keep_all_range keeps_everything_def .
    moreover have "conversation (snd (evict_turns 0 s)) = conversation s"
      by (simp add: conversation_evict [OF ok])
    ultimately have "longest_fit (conversation_turn_sizes s) (cs_caps s) (length (conversation s))"
      "map tu_id (conversation s) = kw_kept plan"
      using longest_fit_of_evict [OF ok] ids_kept [OF ok] by (simp_all add: plan_def)
    moreover have "length (conversation_turn_sizes s) = length (conversation s)"
      by (simp add: sizes_of_conversation)
    moreover have "context_evict est refs_of summary s =
        (Condensed \<lparr>er_evicted = 0, er_remaining = length (conversation_turn_sizes s), er_freed = 0\<rparr> plan
          (cs_caps s) (Some (if conversation_turn_sizes s = [] then NOTHING_NO_TURNS else NOTHING_WINDOW_COVERS)), s)"
      unfolding context_evict_def start None option.case ..
    ultimately show ?thesis unfolding start by (simp add: None)
  next
    case (Some rg)
    obtain e s1 where r: "replace_pin est refs_of CONTEXT_SUMMARY_LABEL (summary_record_with_range summary rg) s
        = (e, s1)" by fastforce
    show ?thesis
    proof (cases e)
      case (Some err)
      with r have "s1 = s" "\<exists>needed. err = PinnedBudgetExceeded needed (cs_pinned_budget s)"
        by (auto simp: replace_pin_def Let_def split: if_splits option.splits)
      with Some r \<open>kw_range plan = Some rg\<close> show ?thesis
        by (simp add: context_evict_def Let_def plan_def s_def)
    next
      case None
      note eff = replace_pin_effect [OF ok r [unfolded None]]
      have same: "conversation_turn_sizes s1 = conversation_turn_sizes s"
        by (simp add: sizes_of_conversation eff(2))
      let ?ev = "evict_turns (kw_evict plan) s1"
      have cut: "conversation (snd ?ev) = drop (kw_evict plan) (conversation s)"
        by (simp add: conversation_evict [OF eff(1)] eff(2))
      have res: "er_evicted (fst ?ev) = min (kw_evict plan) (length (conversation s))"
        "er_freed (fst ?ev) = sum_list (map tu_tokens (take (kw_evict plan) (conversation s)))"
        "er_remaining (fst ?ev) = length (conversation s) - kw_evict plan"
        by (simp_all add: evict_turns_facts(3) [OF eff(1)] eff(2))
      have take: "take (er_evicted (fst ?ev)) (conversation s) = take (kw_evict plan) (conversation s)"
        by (simp add: res(1) min_def)
      have final: "context_evict est refs_of summary s = (Condensed (fst ?ev) plan (cs_caps s)
          (if kc_max_turns (cs_caps s) = 0 then Some MAX_TURNS_ZERO_NOTE else None), reset_context_warnings (snd ?ev))"
        using r None Some by (simp add: context_evict_def Let_def plan_def case_prod_unfold)
      show ?thesis
        unfolding start final prod.case evict_reply.case Some option.case
      proof (intro conjI)
        show "map tu_id (conversation (reset_context_warnings (snd ?ev))) = kw_kept plan"
          using ids_kept [OF eff(1)] by (simp add: same eff(3) plan_def)
        show "longest_fit (conversation_turn_sizes s) (cs_caps s) (length (conversation (reset_context_warnings (snd ?ev))))"
          using longest_fit_of_evict [OF eff(1)] by (simp add: same eff(3) plan_def)
        show "other_pins CONTEXT_SUMMARY_LABEL (reset_context_warnings (snd ?ev)) = other_pins CONTEXT_SUMMARY_LABEL s"
          by (simp add: evict_turns_other_pins [OF eff(1)] eff(4))
        show "\<exists>t. [t \<leftarrow> pinned_turns (reset_context_warnings (snd ?ev)). label_of t = Some CONTEXT_SUMMARY_LABEL] = [t]
            \<and> tu_messages t = [summary_record_with_range summary rg]"
          using eff(5) by (auto simp: evict_turns_other_pins [OF eff(1)])
      qed (simp_all add: take cut res(2,3))
    qed
  qed
qed

section \<open>The estimation anchor\<close>

definition window_messages :: "context_store \<Rightarrow> message list" where
  "window_messages s = concat (map tu_messages (cs_turns s))"

text \<open>A store relative to the window \<open>base\<close> the last metered round was sent with.\<close>

definition anchored_on :: "message list \<Rightarrow> u32 \<Rightarrow> context_store \<Rightarrow> bool" where
  "anchored_on base n s \<longleftrightarrow> cs_last_prompt s = Some n
     \<and> (cs_needs_full s \<or> (cs_anchored s \<le> length (cs_turns s)
          \<and> concat (map tu_messages (take (cs_anchored s) (cs_turns s))) = base))"

lemma anchored_on_full: "cs_last_prompt s = Some n \<Longrightarrow> cs_needs_full s \<Longrightarrow> anchored_on base n s"
  by (simp add: anchored_on_def)

lemma anchored_on_cong:
  "anchored_on base n s \<Longrightarrow> cs_last_prompt s' = cs_last_prompt s \<Longrightarrow> cs_needs_full s' = cs_needs_full s \<Longrightarrow>
     cs_anchored s' = cs_anchored s \<Longrightarrow>
     (\<exists>ts. map tu_messages (cs_turns s') = map tu_messages (cs_turns s) @ ts) \<Longrightarrow> anchored_on base n s'"
proof -
  assume *: "anchored_on base n s" "cs_last_prompt s' = cs_last_prompt s"
    "cs_needs_full s' = cs_needs_full s" "cs_anchored s' = cs_anchored s"
  assume "\<exists>ts. map tu_messages (cs_turns s') = map tu_messages (cs_turns s) @ ts"
  then obtain ts where ts: "map tu_messages (cs_turns s') = map tu_messages (cs_turns s) @ ts" by blast
  have "length (cs_turns s) \<le> length (cs_turns s')"
    using arg_cong [OF ts, of length] by simp
  moreover have "map tu_messages (take (cs_anchored s) (cs_turns s')) = map tu_messages (take (cs_anchored s) (cs_turns s))"
    if "cs_anchored s \<le> length (cs_turns s)"
    using that by (simp add: take_map [symmetric] ts)
  ultimately show ?thesis using * unfolding anchored_on_def by auto
qed

fun anchors :: "store_op \<Rightarrow> bool" where
  "anchors (SUsage _) = True"
| "anchors _ = False"

lemma pin_flag:
  "cs_last_prompt (snd (pin est refs_of label m s)) = cs_last_prompt s"
  "snd (pin est refs_of label m s) = s \<or> cs_needs_full (snd (pin est refs_of label m s))"
  by (simp_all add: pin_def insert_pin_def Let_def)

lemma unpin_flag:
  "cs_last_prompt (snd (unpin label s)) = cs_last_prompt s"
  "snd (unpin label s) = s \<or> cs_needs_full (snd (unpin label s))"
  by (simp_all add: unpin_def split: option.split)

lemma replace_flag:
  "cs_last_prompt (snd (replace_pin est refs_of label m s)) = cs_last_prompt s"
  "snd (replace_pin est refs_of label m s) = s \<or> cs_needs_full (snd (replace_pin est refs_of label m s))"
  by (simp_all add: replace_pin_def insert_pin_def Let_def split: option.split)

lemma evict_flag:
  "cs_last_prompt (snd (evict_turns k s)) = cs_last_prompt s" "cs_needs_full (snd (evict_turns k s))"
  by (simp_all add: evict_turns_def Let_def)

lemma push_flag:
  "snd (push_turn est ms s) = s\<lparr>cs_turns := cs_turns s @
     [\<lparr>tu_id = TurnId (cs_next_id s), tu_messages = ms, tu_tokens = turn_tokens est ms, tu_kind = Conversation\<rparr>],
     cs_next_id := cs_next_id s + 1\<rparr>"
  by (simp add: push_turn_def Let_def)

lemma anchored_on_id: "anchored_on base n s \<Longrightarrow> cs_last_prompt s' = cs_last_prompt s \<Longrightarrow>
    s' = s \<or> cs_needs_full s' \<Longrightarrow> anchored_on base n s'"
  by (auto simp: anchored_on_def)

lemma anchored_on_warned:
  "anchored_on base n (s\<lparr>cs_warned := w\<rparr>) = anchored_on base n s"
  "anchored_on base n (s\<lparr>cs_budget_warned := w\<rparr>) = anchored_on base n s"
  "anchored_on base n (s\<lparr>cs_summary := x\<rparr>) = anchored_on base n s"
  by (simp_all add: anchored_on_def)

lemma anchored_on_push: "anchored_on base n s \<Longrightarrow> anchored_on base n (snd (push_turn est ms s))"
  by (rule anchored_on_cong) (auto simp: push_flag)

lemma anchored_on_evict: "anchored_on base n s \<Longrightarrow> anchored_on base n (snd (evict_turns k s))"
  by (simp add: anchored_on_def evict_flag)

lemmas anchored_on_ops = anchored_on_id [OF _ pin_flag] anchored_on_id [OF _ unpin_flag]
  anchored_on_id [OF _ replace_flag] anchored_on_push anchored_on_evict

lemma anchored_on_step:
  assumes "anchored_on base n s" and "\<not> anchors op"
  shows "anchored_on base n (store_step est refs_of budget_text op s)"
proof (cases op)
  case (SPin label m)
  then show ?thesis using assms(1) by (simp add: anchored_on_ops)
next
  case (SUnpin label)
  then show ?thesis using assms(1) by (simp add: anchored_on_ops)
next
  case (SReplace label m)
  then show ?thesis using assms(1) by (simp add: anchored_on_ops)
next
  case (SEvict k)
  then show ?thesis using assms(1) by (simp add: anchored_on_ops)
next
  case (SDrain a b)
  then show ?thesis using assms(1)
    by (auto simp: drain_turns_def anchored_on_def split: option.split)
next
  case (SPush ms)
  then show ?thesis using assms(1) by (simp add: anchored_on_push)
next
  case (SUsage u)
  with assms(2) show ?thesis by simp
next
  case (SProgressive ws pct eff)
  then show ?thesis using assms(1)
    by (auto simp: check_progressive_warnings_def reset_context_warnings_def anchored_on_warned
        split: option.split intro!: anchored_on_push)
next
  case (SBudgetWarn ws pct)
  then show ?thesis using assms(1)
    by (auto simp: check_token_budget_warnings_def anchored_on_warned
        split: option.split intro!: anchored_on_push)
next
  case SSummary
  then show ?thesis using assms(1)
    by (auto simp: migrate_legacy_summary_def Let_def anchored_on_warned anchored_on_ops split: option.split)
next
  case SEnforceRole
  then show ?thesis using assms(1)
    by (auto simp: enforce_summary_pin_role_def anchored_on_def split: option.split)
next
  case SReestimate
  then show ?thesis using assms(1)
    by (auto simp: reestimate_cached_tokens_def comp_def intro: anchored_on_cong)
next
  case (SEvictTool summary)
  then show ?thesis using assms(1)
    by (simp add: context_evict_store Let_def reset_context_warnings_def anchored_on_warned
        anchored_on_ops split: option.split)
qed (use assms in \<open>simp_all add: store_updates anchored_on_def Let_def\<close>)

lemma anchored_on_run:
  "anchored_on base n s \<Longrightarrow> list_all (\<lambda>op. \<not> anchors op) ops \<Longrightarrow>
     anchored_on base n (fold (store_step est refs_of budget_text) ops s)"
  by (induction ops arbitrary: s) (simp_all add: anchored_on_step)

text \<open>C23. The context estimate between two metered rounds counts every message of the window exactly
  once: after a round reported its prompt size, and whatever pins, evictions, pushes, warnings or
  migrations follow, either the estimate is a full one, or it is the reported size plus the
  rendering of the messages past the window that round was sent with.\<close>

theorem incremental_estimate_covers_window:
  assumes "list_all (\<lambda>op. \<not> anchors op) ops"
  shows "let sent = accumulate_usage u s;
             now = fold (store_step est refs_of budget_text) ops sent;
             estimate = estimate_context_tokens render full now
         in if cs_needs_full now then estimate = full
            else \<exists>delta. window_messages now = window_messages sent @ delta
              \<and> estimate = unat (us_prompt u) + (if delta = [] then 0 else render delta)"
proof -
  let ?sent = "accumulate_usage u s"
  let ?now = "fold (store_step est refs_of budget_text) ops ?sent"
  have "anchored_on (window_messages ?sent) (us_prompt u) ?sent"
    by (simp add: anchored_on_def window_messages_def accumulate_usage_def)
  then have now: "anchored_on (window_messages ?sent) (us_prompt u) ?now"
    by (rule anchored_on_run [OF _ assms])
  show ?thesis
  proof (cases "cs_needs_full ?now")
    case True
    then show ?thesis by (simp add: Let_def estimate_context_tokens_def split: option.split)
  next
    case False
    with now have *: "cs_last_prompt ?now = Some (us_prompt u)" "cs_anchored ?now \<le> length (cs_turns ?now)"
      "concat (map tu_messages (take (cs_anchored ?now) (cs_turns ?now))) = window_messages ?sent"
      by (auto simp: anchored_on_def)
    then have "window_messages ?now = window_messages ?sent @ delta_messages ?now"
      unfolding window_messages_def delta_messages_def
      by (metis append_take_drop_id concat_append map_append min.absorb1)
    moreover have "estimate_context_tokens render full ?now
        = unat (us_prompt u) + (if delta_messages ?now = [] then 0 else render (delta_messages ?now))"
      using * False by (simp add: estimate_context_tokens_def)
    ultimately show ?thesis using False by (auto simp: Let_def)
  qed
qed

theorem incremental_estimate_covers_window_witness:
  "let sent = accumulate_usage \<lparr>us_prompt = 120, us_completion = 7, us_cache_read = None, us_cache_write = None, us_reasoning = None\<rparr>
         (snd (push_turn (\<lambda>_. 4) [user_message ''hello''] store_new));
       now = fold (store_step (\<lambda>_. 4) (\<lambda>_. []) (\<lambda>_. ''budget''))
         [SPush [user_message ''next''], SUnpin ''absent''] sent;
       estimate = estimate_context_tokens (\<lambda>ms. 10 * length ms) 999 now
   in \<not> cs_needs_full now \<and> estimate = 130"
proof -
  let ?sent = "accumulate_usage \<lparr>us_prompt = 120, us_completion = 7, us_cache_read = None, us_cache_write = None, us_reasoning = None\<rparr>
         (snd (push_turn (\<lambda>_. 4) [user_message ''hello''] store_new))"
  let ?ops = "[SPush [user_message ''next''], SUnpin ''absent'']"
  let ?now = "fold (store_step (\<lambda>_. 4) (\<lambda>_. []) (\<lambda>_. ''budget'')) ?ops ?sent"
  have calm: "list_all (\<lambda>op. \<not> anchors op) ?ops" by simp
  have now: "\<not> cs_needs_full ?now" "window_messages ?now = window_messages ?sent @ [user_message ''next'']"
    by (simp_all add: push_flag accumulate_usage_def unpin_def pin_position_def store_new_def
        is_pinned_def window_messages_def Let_def)
  with incremental_estimate_covers_window [OF calm, of "\<lparr>us_prompt = 120, us_completion = 7,
      us_cache_read = None, us_cache_write = None, us_reasoning = None\<rparr>" "snd (push_turn (\<lambda>_. 4) [user_message ''hello''] store_new)"
      "\<lambda>_. 4" "\<lambda>_. []" "\<lambda>_. ''budget''" "\<lambda>ms. 10 * length ms" 999]
  have "estimate_context_tokens (\<lambda>ms. 10 * length ms) 999 ?now = 130"
    by (simp only: Let_def if_False append_same_eq same_append_eq) auto
  with now(1) show ?thesis by (simp only: Let_def simp_thms)
qed

end
