(* ===== verification/Compaction.thy ===== *)
theory Compaction
  imports Agent_State Text_Slice Context_Window
begin

text \<open>
  Compaction: the passes that summarize the oldest turns and evict them
  (\<open>crates/kallipai-adk/src/context/compact.rs\<close> with \<open>context/summarize.rs\<close>), what a failed pass
  decides, and the two budget gates of a round (\<open>budget_gate.rs\<close>). The answers of the summarizer
  and the clock readings are inputs: one \<open>pass_env\<close> for each pass. A list of them that is shorter
  than the passes the loop wants gives \<open>None\<close>.
\<close>

section \<open>What the summarizer is asked\<close>

definition WEDGE_SLICE_MAX_CHARS :: usize where "WEDGE_SLICE_MAX_CHARS = 100000"

definition message_text :: "message \<Rightarrow> string" where
  "message_text m =
     (case ms_content m of
        Some text \<Rightarrow> text
      | None \<Rightarrow>
          (case ms_parts m of
             None \<Rightarrow> []
           | Some ps \<Rightarrow> join_str [newline]
               (map (\<lambda>p. case p of TextPart text \<Rightarrow> text | ImagePart _ \<Rightarrow> IMAGE_PLACEHOLDER) ps)))"

text \<open>The head and the tail of a turn too big to be summarized whole, under the turn's own id.\<close>

definition slice_oversized_turn :: "agent_kit \<Rightarrow> turn \<Rightarrow> usize \<Rightarrow> turn" where
  "slice_oversized_turn kit t input_budget =
     (let cap_chars = min WEDGE_SLICE_MAX_CHARS (input_budget * 9 div 10);
          text = concat (map (\<lambda>m. message_text m @ [newline]) (tu_messages t));
          sliced = ct_text (head_tail_slice (ak_est_text kit) (chars_of text) cap_chars);
          ms = [user_message (''[Turn '' @ show_nat (id_num (tu_id t))
            @ '' exceeded the summarizer budget; head+tail slice]'' @ [newline] @ sliced)]
      in \<lparr>tu_id = tu_id t, tu_messages = ms, tu_tokens = turn_tokens (ak_est kit) ms,
          tu_kind = Conversation\<rparr>)"

text \<open>The loop over the oldest turns: how many fit, one after the other.\<close>

fun fit_count :: "usize \<Rightarrow> turn list \<Rightarrow> nat" where
  "fit_count budget [] = 0"
| "fit_count budget (t # ts) =
     (if budget < tu_tokens t then 0 else Suc (fit_count (budget - tu_tokens t) ts))"

definition existing_summary :: "context_store \<Rightarrow> string option" where
  "existing_summary s =
     Option.bind (find (\<lambda>t. label_of t = Some CONTEXT_SUMMARY_LABEL) (pinned_turns s))
       (\<lambda>t. case tu_messages t of [] \<Rightarrow> None | m # _ \<Rightarrow> Some (message_text m))"

definition total_estimated_tokens :: "context_store \<Rightarrow> usize" where
  "total_estimated_tokens s = sum_list (map tu_tokens (cs_turns s))"

definition summarizer_input_budget :: "agent_config \<Rightarrow> usize" where
  "summarizer_input_budget cfg = effective_budget cfg - unat (cf_summary_max cfg)"

text \<open>The read phase of a pass: \<open>None\<close> ends the loop, otherwise the window and the carried summary.\<close>

definition compaction_window :: "agent_kit \<Rightarrow> 't agent \<Rightarrow> (turn list \<times> string option) option" where
  "compaction_window kit ag =
     (let s = ag_store ag; cfg = ag_config ag; budget = summarizer_input_budget cfg;
          convo = filter (\<lambda>t. \<not> is_pinned t) (cs_turns s);
          window = take (fit_count budget convo) convo
      in if cs_turns s = [] then None
         else if total_estimated_tokens s \<le> effective_budget cfg then None
         else if window \<noteq> [] then Some (window, existing_summary s)
         else case convo of
           [] \<Rightarrow> None
         | wedge # _ \<Rightarrow> Some ([slice_oversized_turn kit wedge budget], existing_summary s))"

section \<open>The summarizer\<close>

definition SUMMARIZE_PROMPT :: string where
  "SUMMARIZE_PROMPT = ''Summarize the key facts from our conversation so far: ''
     @ ''user goals, decisions made, important outcomes, and the current state of work. ''
     @ ''Be concise.''"

text \<open>A message as the summarizer sees it: images become their placeholder.\<close>

definition summarizer_view :: "message \<Rightarrow> message" where
  "summarizer_view m =
     (case ms_parts m of
        None \<Rightarrow> m
      | Some ps \<Rightarrow>
          if \<not> list_ex is_image ps then m
          else with_parts m (map (\<lambda>p. if is_image p then TextPart IMAGE_PLACEHOLDER else p) ps))"

text \<open>What the summarizer answers: the text and the usage of its response, or the client's error.\<close>

datatype summarizer_reply =
    Answered "string option" "usage option"
  | Rejected backend_error

record summary =
  sm_text :: string
  sm_tokens :: usize
  sm_source_turns :: nat

definition turns_used :: "agent_kit \<Rightarrow> u32 \<Rightarrow> turn list \<Rightarrow> string option \<Rightarrow> usize \<Rightarrow> nat" where
  "turns_used kit max_tokens ts existing available =
     fit_count (available - unat max_tokens
       - (case existing of None \<Rightarrow> 0 | Some text \<Rightarrow> ak_est kit (summary_record text))) ts"

definition summarizer_messages ::
  "agent_kit \<Rightarrow> u32 \<Rightarrow> turn list \<Rightarrow> string option \<Rightarrow> usize \<Rightarrow> message list" where
  "summarizer_messages kit max_tokens ts existing available =
     (case existing of None \<Rightarrow> [] | Some text \<Rightarrow> [summary_record text])
     @ concat (map (\<lambda>t. map summarizer_view (tu_messages t))
         (take (turns_used kit max_tokens ts existing available) ts))
     @ [user_message SUMMARIZE_PROMPT]"

text \<open>The body of an answer; a blank one is no summary.\<close>

definition answer_body :: "string option \<Rightarrow> string option" where
  "answer_body answer =
     (case answer of
        None \<Rightarrow> None
      | Some text \<Rightarrow>
          let body = str_trim (summary_body (str_trim text)) in if body = [] then None else Some body)"

definition summarize ::
  "agent_kit \<Rightarrow> u32 \<Rightarrow> turn list \<Rightarrow> string option \<Rightarrow> usize \<Rightarrow> summarizer_reply
     \<Rightarrow> round_error + (summary \<times> usage option)" where
  "summarize kit max_tokens ts existing available reply =
     (case reply of
        Rejected e \<Rightarrow> Inl (BackendFailed e)
      | Answered answer u \<Rightarrow>
          (case answer_body answer of
             None \<Rightarrow> Inl (PlainError ''summarization: LLM returned empty summary'')
           | Some text \<Rightarrow>
               Inr (\<lparr>sm_text = text, sm_tokens = ak_est kit (summary_record text),
                     sm_source_turns = turns_used kit max_tokens ts existing available\<rparr>, u)))"

section \<open>The passes\<close>

record pass_env =
  pv_reply :: summarizer_reply
  pv_elapsed :: u64
  pv_today :: string

datatype compact_outcome = Compacted | NothingToCompact | CompactBudgetExceeded u64 u64

datatype pass_end = Landed | NoProgress | PassFailed round_error | PassOverBudget u64 u64

text \<open>What the store's refusals say; a replacement is only ever refused for the budget.\<close>

fun replace_refused :: "pin_error \<Rightarrow> round_error" where
  "replace_refused (PinnedBudgetExceeded used budget) =
     PlainError (''pinned budget exceeded after replace: '' @ show_nat used @ '' > '' @ show_nat budget
       @ ''. Unpin other items to make room.'')"
| "replace_refused (AlreadyPinned label) =
     PlainError (''pinned item '' @ [CHR 0x27] @ label @ [CHR 0x27] @ '' already exists'')"
| "replace_refused (PinNotFound label) =
     PlainError (''pinned item '' @ [CHR 0x27] @ label @ [CHR 0x27] @ '' not found'')"

text \<open>The usage of a summarizer call counts against the budget and does not move the anchor.\<close>

definition charge_summary :: "usage option \<Rightarrow> 't agent \<Rightarrow> 't agent" where
  "charge_summary u ag =
     (case u of
        None \<Rightarrow> ag
      | Some u \<Rightarrow> ag\<lparr>ag_store := accumulate_usage_no_anchor u (ag_store ag),
          ag_budget := record_usage (ucast (us_prompt u)) (ucast (us_completion u)) (ag_budget ag)\<rparr>)"

text \<open>The write phase on the store with the new summary pin, the history line and the charge.\<close>

definition land_pass ::
  "summary \<Rightarrow> usage option \<Rightarrow> pass_env \<Rightarrow> context_store \<Rightarrow> 't agent \<Rightarrow> 't agent" where
  "land_pass sm u pv s ag =
     charge_summary u
       (append_history (pv_today pv)
          (system_record [summary_record (sm_text sm)] (sm_tokens sm) CompactionSummary
             (Some (turn_attempt_of 0 u (pv_elapsed pv) ag)))
          (ag\<lparr>ag_store := reset_context_warnings (snd (evict_turns (sm_source_turns sm) s))\<rparr>))"

definition check_charged :: "'t agent \<Rightarrow> pass_end \<times> 't agent" where
  "check_charged ag =
     (let snap = snapshot (ag_budget ag)
      in if snap_is_exceeded snap then (PassOverBudget (bs_consumed snap) (bs_budget snap), ag)
         else (Landed, ag))"

definition run_pass ::
  "agent_kit \<Rightarrow> turn list \<Rightarrow> string option \<Rightarrow> pass_env \<Rightarrow> 't agent \<Rightarrow> pass_end \<times> 't agent" where
  "run_pass kit window existing pv ag =
     (let cfg = ag_config ag
      in case summarize kit (cf_summary_max cfg) window existing (effective_budget cfg) (pv_reply pv) of
           Inl e \<Rightarrow> (PassFailed e, ag)
         | Inr (sm, u) \<Rightarrow>
             (let served = ag\<lparr>ag_table := note_served (ag_pacing ag)
                    (pf_id (current_profile (ag_failover ag))) (ag_table ag)\<rparr>
              in if sm_source_turns sm = 0 then (NoProgress, served)
                 else case replace_pin (ak_est kit) (ak_refs kit) CONTEXT_SUMMARY_LABEL
                     (summary_record (sm_text sm)) (ag_store served) of
                   (Some e, s) \<Rightarrow> (PassFailed (replace_refused e), served\<lparr>ag_store := s\<rparr>)
                 | (None, s) \<Rightarrow> check_charged (land_pass sm u pv s served)))"

definition loop_result :: "bool \<Rightarrow> compact_outcome" where
  "loop_result any = (if any then Compacted else NothingToCompact)"

fun summarize_loop ::
  "agent_kit \<Rightarrow> pass_env list \<Rightarrow> bool \<Rightarrow> 't agent \<Rightarrow> ((round_error + compact_outcome) \<times> 't agent) option"
where
  "summarize_loop kit [] any ag =
     (case compaction_window kit ag of
        None \<Rightarrow> Some (Inr (loop_result any), ag)
      | Some _ \<Rightarrow> None)"
| "summarize_loop kit (pv # pvs) any ag =
     (case compaction_window kit ag of
        None \<Rightarrow> Some (Inr (loop_result any), ag)
      | Some (window, existing) \<Rightarrow>
          (case run_pass kit window existing pv ag of
             (Landed, ag') \<Rightarrow> summarize_loop kit pvs True ag'
           | (NoProgress, ag') \<Rightarrow> Some (Inr (loop_result any), ag')
           | (PassFailed e, ag') \<Rightarrow> Some (Inl e, ag')
           | (PassOverBudget consumed budget, ag') \<Rightarrow>
               Some (Inr (CompactBudgetExceeded consumed budget), ag')))"

definition summarize_and_evict ::
  "agent_kit \<Rightarrow> pass_env list \<Rightarrow> 't agent \<Rightarrow> ((round_error + compact_outcome) \<times> 't agent) option" where
  "summarize_and_evict kit pvs ag = summarize_loop kit pvs False ag"

section \<open>A failed pass\<close>

datatype compaction_verdict =
    RetryLater duration
  | DeferToChain string
  | EndRound string

text \<open>The clock readings and the jitter a recorded failure takes, in their order.\<close>

record failure_env =
  fe_now :: u64
  fe_jitter :: duration
  fe_log_now :: u64
  fe_wait_jitter :: duration
  fe_today :: string

definition stop_compaction ::
  "agent_kit \<Rightarrow> failure_env \<Rightarrow> failure_class \<Rightarrow> round_error \<Rightarrow> string \<Rightarrow> 't agent
     \<Rightarrow> compaction_verdict \<times> 't agent" where
  "stop_compaction kit fe c err reason ag =
     (let attempt = ledger_attempts (ag_compaction ag);
          sends = max_sends (cf_retry (ag_config ag));
          detail = (case backend_of err of Some e \<Rightarrow> render_error (ak_json kit) e | None \<Rightarrow> error_line err);
          consumed = total_estimated_tokens (ag_store ag);
          budget = effective_budget (ag_config ag)
      in (EndRound (''compaction failed: '' @ reason @ '' (class: '' @ class_label c @ ''; attempt ''
            @ show_nat (unat attempt) @ '' of '' @ show_nat (unat sends) @ ''; context ''
            @ show_nat consumed @ '' tokens over the '' @ show_nat budget @ ''-token budget)''),
          append_history (fe_today fe)
            (system_record [] 0 (CompactionFailure attempt sends (class_label c) detail) None) ag))"

definition compaction_attempt :: "nat \<Rightarrow> 't agent \<Rightarrow> retry_attempt" where
  "compaction_attempt round ag =
     \<lparr>ra_round = round, ra_attempt = ledger_attempts (ag_compaction ag),
      ra_max_attempts = max_retries (cf_retry (ag_config ag))\<rparr>"

text \<open>The one recorder behind the gate, the pre-loop pass and the advance of the chain.\<close>

definition note_compaction_failure ::
  "agent_kit \<Rightarrow> failure_env \<Rightarrow> round_error \<Rightarrow> nat \<Rightarrow> 't agent \<Rightarrow> compaction_verdict \<times> 't agent" where
  "note_compaction_failure kit fe err round ag =
     (let policy = cf_retry (ag_config ag); now = fe_now fe; current = current_profile (ag_failover ag);
          c = (case backend_of err of Some e \<Rightarrow> classify (ak_json kit) e Connect | None \<Rightarrow> Unclassified);
          shape = Option.bind (backend_of err) shape_key;
          (at, charged) = charge_failure c shape now (fe_jitter fe) (ag_compaction ag);
          ag1 = ag\<lparr>ag_compaction := charged\<rparr>
      in case decide (episode_facts (cl_episode charged) at) policy of
           Retry wait \<Rightarrow>
             (case retry_kind c of
                None \<Rightarrow> stop_compaction kit fe c err ''the failure class carries no retry kind'' ag1
              | Some kind \<Rightarrow>
                  let rec = record_retry (compaction_attempt round ag1) now (Some (pf_endpoint current)) kind
                        (error_line err) wait;
                      ag2 = log_retries [rec] (fe_log_now fe) ag1;
                      spent = (case backend_of err of
                                 Some e \<Rightarrow> ledger_spend_shape_slot e (ag_compaction ag2)
                               | None \<Rightarrow> ag_compaction ag2)
                  in (RetryLater wait,
                      ag2\<lparr>ag_compaction := ledger_arm (latch_deadline now wait) spent\<rparr>))
         | AdvanceFailover reason \<Rightarrow>
             (let ag2 = (case backend_of err of
                           Some e \<Rightarrow> ag1\<lparr>ag_table := record_fact (ak_json kit) (ag_pacing ag1) (pf_id current)
                                        c e now (ag_table ag1)\<rparr>
                         | None \<Rightarrow> ag1);
                  ag3 = (case retry_kind c of
                           Some kind \<Rightarrow> log_retries [record_observed (compaction_attempt round ag2) now
                             (Some (pf_endpoint current)) kind (error_line err) None] (fe_log_now fe) ag2
                         | None \<Rightarrow> ag2);
                  wait = backoff_schedule policy 0 (fe_wait_jitter fe)
              in (DeferToChain reason,
                  ag3\<lparr>ag_compaction := ledger_arm (latch_deadline now wait) (ag_compaction ag3)\<rparr>))
         | Stop k reason \<Rightarrow> stop_compaction kit fe c err reason ag1
         | Fatal reason \<Rightarrow> stop_compaction kit fe c err reason ag1
         | Proceed \<Rightarrow>
             stop_compaction kit fe c err ''the verdict for a failed attempt was to proceed'' ag1)"

section \<open>The window of a pass and the pre-loop pass\<close>

definition claim_compaction_window :: "u64 \<Rightarrow> 't agent \<Rightarrow> bool \<times> 't agent" where
  "claim_compaction_window now ag =
     (if ag_pacing ag = None then (True, ag)
      else case claim_window_for (pf_id (current_profile (ag_failover ag))) now System ag of
        (None, ag') \<Rightarrow> (True, ag')
      | (Some nb, ag') \<Rightarrow>
          (False, ag'\<lparr>ag_compaction := ledger_arm nb (ag_compaction ag')\<rparr>))"

definition over_budget :: "usize \<Rightarrow> usize \<Rightarrow> bool" where
  "over_budget used budget \<longleftrightarrow> budget < used"

definition compact_if_needed ::
  "agent_kit \<Rightarrow> pass_env list \<Rightarrow> 't agent \<Rightarrow> ((round_error + bool) \<times> 't agent) option" where
  "compact_if_needed kit pvs ag =
     (if \<not> over_budget (total_estimated_tokens (ag_store ag)) (effective_budget (ag_config ag))
      then Some (Inr False, ag)
      else map_option (map_prod (map_sum id (\<lambda>out. out \<noteq> NothingToCompact)) id)
        (summarize_and_evict kit pvs ag))"

record gate_env =
  ge_now :: u64
  ge_passes :: "pass_env list"
  ge_clear_now :: u64
  ge_failure :: failure_env
  ge_today :: string
  ge_cancelled :: bool

definition clear_ledger :: "u64 \<Rightarrow> 't agent \<Rightarrow> 't agent" where
  "clear_ledger now ag = ag\<lparr>ag_compaction := ledger_clear now (ag_compaction ag)\<rparr>"

definition compact_pre_loop :: "agent_kit \<Rightarrow> gate_env \<Rightarrow> 't agent \<Rightarrow> 't agent option" where
  "compact_pre_loop kit ge ag =
     (let over = over_budget (total_estimated_tokens (ag_store ag)) (effective_budget (ag_config ag));
          (may, ag1) = (if over then claim_compaction_window (ge_now ge) ag else (True, ag))
      in if \<not> may then Some ag1
         else case compact_if_needed kit (ge_passes ge) ag1 of
           None \<Rightarrow> None
         | Some (Inr _, ag2) \<Rightarrow> Some (clear_ledger (ge_clear_now ge) ag2)
         | Some (Inl err, ag2) \<Rightarrow>
             (case note_compaction_failure kit (ge_failure ge) err 0 ag2 of
                (EndRound message, ag3) \<Rightarrow>
                  Some (ag3\<lparr>ag_compaction := record_stop message (ag_compaction ag3)\<rparr>)
              | (_, ag3) \<Rightarrow> Some ag3))"

section \<open>The gates of a round\<close>

text \<open>The error of a failed pass under the message of its verdict.\<close>

fun with_context :: "string \<Rightarrow> round_error \<Rightarrow> round_error" where
  "with_context message (BackendFailed e) =
     BackendFailed (e\<lparr>be_display := message,
       be_sources := \<lparr>el_display = be_display e, el_type = IsOther\<rparr> # be_sources e\<rparr>)"
| "with_context message (PlainError text) =
     PlainError (push_layer \<lparr>el_display = text, el_type = IsOther\<rparr> message)"

datatype budget_action =
    Recompose
  | ReturnOutcome agent_outcome
  | ProceedRound
  | FailRound round_error

text \<open>An injected warning is a turn like any other, so the history gets its line.\<close>

definition note_injected :: "string \<Rightarrow> bool \<times> context_store \<Rightarrow> 't agent \<Rightarrow> bool \<times> 't agent" where
  "note_injected today r ag =
     (case r of
        (False, s) \<Rightarrow> (False, ag\<lparr>ag_store := s\<rparr>)
      | (True, s) \<Rightarrow>
          let t = last (cs_turns s)
          in (True, append_history today
                (turn_record (id_num (tu_id t)) (tu_messages t) (tu_tokens t) [] None)
                (ag\<lparr>ag_store := s\<rparr>)))"

definition enforce_pre_call_budget ::
  "agent_kit \<Rightarrow> gate_env \<Rightarrow> usize \<Rightarrow> nat \<Rightarrow> 't agent \<Rightarrow> (budget_action \<times> 't agent) option" where
  "enforce_pre_call_budget kit ge prompt_tokens round ag =
     (if prompt_tokens = 0 then Some (ProceedRound, ag)
      else
        let cfg = ag_config ag; effective = effective_budget cfg;
            pct = prompt_tokens * 100 div effective; now = ge_now ge;
            (warned, ag1) = note_injected (ge_today ge)
              (check_progressive_warnings (ak_est kit) (warning_thresholds cfg) pct effective (ag_store ag)) ag;
            rest = (\<lambda>a. if ge_cancelled ge then (ReturnOutcome RoundCancelled, a) else (ProceedRound, a))
        in if warned then Some (Recompose, ag1)
           else if pct < unat (auto_compact_threshold cfg) then Some (ProceedRound, clear_ledger now ag1)
           else case take_pending_stop (ag_compaction ag1) of
             (Some message, l) \<Rightarrow> Some (FailRound (PlainError message), ag1\<lparr>ag_compaction := l\<rparr>)
           | (None, _) \<Rightarrow>
               if is_latched now (ag_compaction ag1) then Some (rest ag1)
               else case claim_compaction_window now ag1 of
                 (False, ag2) \<Rightarrow> Some (rest ag2)
               | (True, ag2) \<Rightarrow>
                   (case summarize_and_evict kit (ge_passes ge) ag2 of
                      None \<Rightarrow> None
                    | Some (Inr Compacted, ag3) \<Rightarrow> Some (Recompose, clear_ledger (ge_clear_now ge) ag3)
                    | Some (Inr NothingToCompact, ag3) \<Rightarrow> Some (rest ag3)
                    | Some (Inr (CompactBudgetExceeded consumed budget), ag3) \<Rightarrow>
                        Some (ReturnOutcome (TokenBudgetExceeded consumed budget), ag3)
                    | Some (Inl err, ag3) \<Rightarrow>
                        (case note_compaction_failure kit (ge_failure ge) err round ag3 of
                           (EndRound message, ag4) \<Rightarrow> Some (FailRound (with_context message err), ag4)
                         | (_, ag4) \<Rightarrow> Some (rest ag4))))"

definition enforce_post_stream_budget ::
  "agent_kit \<Rightarrow> string \<Rightarrow> usage option \<Rightarrow> 't agent \<Rightarrow> budget_action \<times> 't agent" where
  "enforce_post_stream_budget kit today u ag =
     (let ag1 = (case u of
                   None \<Rightarrow> ag
                 | Some u \<Rightarrow> ag\<lparr>ag_store := accumulate_usage u (ag_store ag),
                     ag_budget := record_usage (ucast (us_prompt u)) (ucast (us_completion u))
                       (ag_budget ag)\<rparr>);
          snap = snapshot (ag_budget ag1);
          (warned, ag2) = note_injected today
            (check_token_budget_warnings (ak_est kit) (ak_budget_text kit snap)
               (cf_budget_warnings (ag_config ag1)) (snap_usage_pct snap) (ag_store ag1)) ag1
      in if warned then (Recompose, ag2)
         else if snap_is_exceeded snap
         then (ReturnOutcome (TokenBudgetExceeded (bs_consumed snap) (bs_budget snap)), ag2)
         else (ProceedRound, ag2))"

section \<open>One pass\<close>

lemma fit_count_le: "fit_count b ts \<le> length ts"
  by (induction ts arbitrary: b) simp_all

lemma fit_count_sum: "sum_list (map tu_tokens (take (fit_count b ts) ts)) \<le> b"
proof (induction ts arbitrary: b)
  case (Cons t ts)
  have "sum_list (map tu_tokens (take (fit_count (b - tu_tokens t) ts) ts)) \<le> b - tu_tokens t"
    by (rule Cons.IH)
  then show ?case by (auto simp: not_less)
qed simp

lemma turns_used_le: "turns_used kit m ts ex b \<le> length ts"
  by (simp add: turns_used_def fit_count_le)

lemma compaction_window_Some:
  assumes "compaction_window kit ag = Some (w, ex)"
  shows "w \<noteq> []" "length w \<le> length (conversation (ag_store ag))"
    "effective_budget (ag_config ag) < total_estimated_tokens (ag_store ag)"
  using assms fit_count_le [of "summarizer_input_budget (ag_config ag)" "conversation (ag_store ag)"]
  by (auto simp: compaction_window_def Let_def conversation_def [symmetric] split: if_splits list.splits)

lemma compaction_window_None:
  "compaction_window kit ag = None \<longleftrightarrow>
     total_estimated_tokens (ag_store ag) \<le> effective_budget (ag_config ag) \<or> conversation (ag_store ag) = []"
proof -
  have conv: "filter (\<lambda>t. \<not> is_pinned t) (cs_turns (ag_store ag)) = conversation (ag_store ag)"
    by (simp add: conversation_def)
  have "cs_turns (ag_store ag) = [] \<Longrightarrow> conversation (ag_store ag) = []" by (simp add: conversation_def)
  then show ?thesis
    unfolding compaction_window_def Let_def conv
    by (cases "conversation (ag_store ag)") (auto split: if_splits)
qed

text \<open>What compaction may do to a store: drop turns from the front of the conversation and rewrite the
  summary pin.\<close>

definition compacts_to :: "context_store \<Rightarrow> context_store \<Rightarrow> bool" where
  "compacts_to s s' \<longleftrightarrow> store_ok s' \<and> suffix (conversation s') (conversation s)
     \<and> other_pins CONTEXT_SUMMARY_LABEL s' = other_pins CONTEXT_SUMMARY_LABEL s
     \<and> cs_caps s' = cs_caps s \<and> cs_pinned_budget s' = cs_pinned_budget s
     \<and> (if cs_needs_full s then cs_needs_full s' else True)"

lemma compacts_to_refl: "store_ok s \<Longrightarrow> compacts_to s s"
  by (simp add: compacts_to_def)

lemma compacts_to_trans: "compacts_to s t \<Longrightarrow> compacts_to t u \<Longrightarrow> compacts_to s u"
  by (auto simp: compacts_to_def intro: suffix_order.trans split: if_splits)

text \<open>A write to the retry log changes no other field.\<close>

definition same_but_log :: "context_store \<Rightarrow> context_store \<Rightarrow> bool" where
  "same_but_log s s' \<longleftrightarrow> s'\<lparr>cs_retry_log := []\<rparr> = s\<lparr>cs_retry_log := []\<rparr>"

lemma same_but_log_refl: "same_but_log s s"
  by (simp add: same_but_log_def)

lemma same_but_log_views:
  assumes "same_but_log s s'"
  shows "cs_turns s' = cs_turns s" "cs_caps s' = cs_caps s" "cs_pinned_budget s' = cs_pinned_budget s"
    "cs_needs_full s' = cs_needs_full s" "store_ok s' = store_ok s"
proof -
  have "f (s'\<lparr>cs_retry_log := []\<rparr>) = f (s\<lparr>cs_retry_log := []\<rparr>)" for f :: "context_store \<Rightarrow> 'a"
    using assms by (simp add: same_but_log_def)
  from this [of cs_turns] this [of cs_caps] this [of cs_pinned_budget] this [of cs_needs_full]
    this [of store_ok]
  show "cs_turns s' = cs_turns s" "cs_caps s' = cs_caps s" "cs_pinned_budget s' = cs_pinned_budget s"
    "cs_needs_full s' = cs_needs_full s" "store_ok s' = store_ok s"
    by (simp_all add: store_ok_def)
qed

lemma compacts_to_log: "same_but_log s s' \<Longrightarrow> store_ok s \<Longrightarrow> compacts_to s s'"
  using same_but_log_views [of s s']
  by (simp add: compacts_to_def conversation_def other_pins_def pinned_turns_def)

text \<open>The fields compaction leaves to others.\<close>

definition agent_frame :: "'t agent \<Rightarrow> 't agent \<Rightarrow> bool" where
  "agent_frame ag ag' \<longleftrightarrow> ag_config ag' = ag_config ag \<and> ag_failover ag' = ag_failover ag
     \<and> ag_client ag' = ag_client ag \<and> ag_episode ag' = ag_episode ag \<and> ag_pacing ag' = ag_pacing ag"

lemma agent_frame_refl: "agent_frame ag ag"
  by (simp add: agent_frame_def)

lemma agent_frame_trans: "agent_frame a b \<Longrightarrow> agent_frame b c \<Longrightarrow> agent_frame a c"
  by (simp add: agent_frame_def)

lemma replace_refused_keeps: "replace_pin est refs_of label m s = (Some e, s') \<Longrightarrow> s' = s"
  by (auto simp: replace_pin_def Let_def split: if_splits option.splits)

lemma replace_pin_budget:
  "replace_pin est refs_of label m s = (None, s') \<Longrightarrow> cs_pinned_budget s' = cs_pinned_budget s"
  by (auto simp: replace_pin_def insert_pin_def Let_def split: if_splits option.splits)

lemma charge_summary_facts [simp]:
  "ag_config (charge_summary u ag) = ag_config ag" "ag_failover (charge_summary u ag) = ag_failover ag"
  "ag_client (charge_summary u ag) = ag_client ag" "ag_episode (charge_summary u ag) = ag_episode ag"
  "ag_pacing (charge_summary u ag) = ag_pacing ag" "ag_table (charge_summary u ag) = ag_table ag"
  "ag_history (charge_summary u ag) = ag_history ag" "ag_compaction (charge_summary u ag) = ag_compaction ag"
  "conversation (ag_store (charge_summary u ag)) = conversation (ag_store ag)"
  "other_pins l (ag_store (charge_summary u ag)) = other_pins l (ag_store ag)"
  "store_ok (ag_store (charge_summary u ag)) = store_ok (ag_store ag)"
  "cs_caps (ag_store (charge_summary u ag)) = cs_caps (ag_store ag)"
  "cs_pinned_budget (ag_store (charge_summary u ag)) = cs_pinned_budget (ag_store ag)"
  "cs_needs_full (ag_store (charge_summary u ag)) = cs_needs_full (ag_store ag)"
  by (cases u; simp add: charge_summary_def accumulate_usage_no_anchor_def conversation_def
      other_pins_def pinned_turns_def store_ok_def)+

lemma append_history_facts [simp]:
  "ag_config (append_history d r ag) = ag_config ag" "ag_failover (append_history d r ag) = ag_failover ag"
  "ag_client (append_history d r ag) = ag_client ag" "ag_episode (append_history d r ag) = ag_episode ag"
  "ag_pacing (append_history d r ag) = ag_pacing ag" "ag_table (append_history d r ag) = ag_table ag"
  "ag_store (append_history d r ag) = ag_store ag" "ag_budget (append_history d r ag) = ag_budget ag"
  "ag_compaction (append_history d r ag) = ag_compaction ag"
  "ag_history (append_history d r ag) = map_option (append_record d r) (ag_history ag)"
  by (simp_all add: append_history_def)

lemma run_pass_cases:
  assumes "run_pass kit w ex pv ag = (r, ag')" and "store_ok (ag_store ag)"
    and "length w \<le> length (conversation (ag_store ag))"
  obtains (failed) e where "r = PassFailed e" "agent_frame ag ag'" "ag_store ag' = ag_store ag"
      "ag_budget ag' = ag_budget ag" "ag_history ag' = ag_history ag"
  | (stuck) "r = NoProgress" "agent_frame ag ag'" "ag_store ag' = ag_store ag"
      "ag_budget ag' = ag_budget ag" "ag_history ag' = ag_history ag"
      "turns_used kit (cf_summary_max (ag_config ag)) w ex (effective_budget (ag_config ag)) = 0"
  | (landed) sm :: summary and u where "r = Landed \<or> r = PassOverBudget (budget_consumed (ag_budget ag')) (budget_limit (ag_budget ag'))"
      "r \<noteq> Landed \<longleftrightarrow> is_exceeded (ag_budget ag')" "agent_frame ag ag'"
      "compacts_to (ag_store ag) (ag_store ag')"
      "length (conversation (ag_store ag')) < length (conversation (ag_store ag))"
      "ag_history ag' = map_option (append_record (pv_today pv)
         (system_record [summary_record (sm_text sm)] (sm_tokens sm) CompactionSummary
            (Some (turn_attempt_of 0 u (pv_elapsed pv) ag)))) (ag_history ag)"
proof -
  let ?cfg = "ag_config ag"
  show ?thesis
  proof (cases "summarize kit (cf_summary_max ?cfg) w ex (effective_budget ?cfg) (pv_reply pv)")
    case (Inl e)
    with assms(1) show ?thesis by (intro failed [of e]) (simp_all add: run_pass_def agent_frame_def)
  next
    case (Inr p)
    obtain sm u where p: "p = (sm, u)" by (cases p)
    from Inr p have used: "sm_source_turns sm = turns_used kit (cf_summary_max ?cfg) w ex (effective_budget ?cfg)"
      by (auto simp: summarize_def split: summarizer_reply.splits option.splits)
    show ?thesis
    proof (cases "sm_source_turns sm = 0")
      case True
      with assms(1) Inr p used show ?thesis
        by (intro stuck) (auto simp: run_pass_def agent_frame_def)
    next
      case False
      obtain e s where rep: "replace_pin (ak_est kit) (ak_refs kit) CONTEXT_SUMMARY_LABEL
          (summary_record (sm_text sm)) (ag_store ag) = (e, s)" by fastforce
      show ?thesis
      proof (cases e)
        case (Some err)
        with assms(1) Inr p False rep replace_refused_keeps [OF rep [unfolded Some]] show ?thesis
          by (intro failed [of "replace_refused err"]) (auto simp: run_pass_def agent_frame_def)
      next
        case None
        note eff = replace_pin_effect [OF assms(2) rep [unfolded None]]
        let ?n = "sm_source_turns sm"
        let ?s = "reset_context_warnings (snd (evict_turns ?n s))"
        have conv: "conversation ?s = drop ?n (conversation (ag_store ag))"
          using conversation_evict(1) [OF eff(1)] eff(2) by simp
        have ok: "store_ok ?s"
          using evict_turns_facts(2) [OF eff(1)] by (simp add: reset_context_warnings_def store_ok_def)
        have frame: "cs_caps ?s = cs_caps (ag_store ag)" "cs_pinned_budget ?s = cs_pinned_budget (ag_store ag)"
          "cs_needs_full ?s"
          using eff(3) replace_pin_budget [OF rep [unfolded None]]
          by (simp_all add: reset_context_warnings_def evict_turns_def Let_def)
        have to: "compacts_to (ag_store ag) ?s"
          using ok conv frame eff(4) evict_turns_other_pins(1) [OF eff(1)]
          by (simp add: compacts_to_def suffix_drop)
        have less: "length (conversation ?s) < length (conversation (ag_store ag))"
          using conv False used turns_used_le [of kit "cf_summary_max ?cfg" w ex "effective_budget ?cfg"] assms(3)
          by simp
        let ?served = "ag\<lparr>ag_table := note_served (ag_pacing ag)
            (pf_id (current_profile (ag_failover ag))) (ag_table ag)\<rparr>"
        have run: "(r, ag') = check_charged (land_pass sm u pv s ?served)"
          using assms(1) Inr p False rep None by (simp add: run_pass_def)
        then have ag': "ag' = land_pass sm u pv s ?served"
          by (simp add: check_charged_def Let_def split: if_splits)
        have attempt: "turn_attempt_of 0 u (pv_elapsed pv) ?served = turn_attempt_of 0 u (pv_elapsed pv) ag"
          by (simp add: turn_attempt_of_def)
        have store: "compacts_to (ag_store ag) (ag_store ag')" "conversation (ag_store ag') = conversation ?s"
          using to by (simp_all add: compacts_to_def ag' land_pass_def)
        have snap: "bs_consumed (snapshot b) = budget_consumed b" "\<not> is_unlimited b \<Longrightarrow> bs_budget (snapshot b) = budget_limit b"
          "snap_is_exceeded (snapshot b) \<Longrightarrow> \<not> is_unlimited b" for b
          by (cases b; simp add: snap_is_exceeded_def)+
        show ?thesis
        proof (rule landed [of sm u])
          show "r = Landed \<or> r = PassOverBudget (budget_consumed (ag_budget ag')) (budget_limit (ag_budget ag'))"
            "r \<noteq> Landed \<longleftrightarrow> is_exceeded (ag_budget ag')"
            using run snap by (auto simp: ag' check_charged_def is_exceeded_def Let_def split: if_splits)
          show "agent_frame ag ag'" by (simp add: ag' agent_frame_def land_pass_def)
          show "compacts_to (ag_store ag) (ag_store ag')" using store(1) .
          show "length (conversation (ag_store ag')) < length (conversation (ag_store ag))"
            using less store(2) by simp
          show "ag_history ag' = map_option (append_record (pv_today pv)
             (system_record [summary_record (sm_text sm)] (sm_tokens sm) CompactionSummary
                (Some (turn_attempt_of 0 u (pv_elapsed pv) ag)))) (ag_history ag)"
            by (simp add: ag' land_pass_def attempt)
        qed
      qed
    qed
  qed
qed

section \<open>The loop\<close>

text \<open>Why a loop ends on its own: the context fits, there is nothing left to evict, or not even one turn
  fits next to the carried summary.\<close>

definition compaction_ended :: "agent_kit \<Rightarrow> 't agent \<Rightarrow> bool" where
  "compaction_ended kit ag \<longleftrightarrow>
     (case compaction_window kit ag of
        None \<Rightarrow> True
      | Some (w, ex) \<Rightarrow>
          turns_used kit (cf_summary_max (ag_config ag)) w ex (effective_budget (ag_config ag)) = 0)"

lemma compaction_ended_cong:
  "ag_store ag' = ag_store ag \<Longrightarrow> ag_config ag' = ag_config ag \<Longrightarrow>
     compaction_ended kit ag' = compaction_ended kit ag"
proof -
  assume same: "ag_store ag' = ag_store ag" "ag_config ag' = ag_config ag"
  then have "compaction_window kit ag' = compaction_window kit ag"
    unfolding compaction_window_def by (simp only: same)
  with same(2) show ?thesis unfolding compaction_ended_def by (simp split: option.split)
qed

lemma summarize_loop_returns:
  "store_ok (ag_store ag) \<Longrightarrow> length (conversation (ag_store ag)) \<le> length pvs \<Longrightarrow>
     \<exists>out ag'. summarize_loop kit pvs any ag = Some (out, ag')"
proof (induction pvs arbitrary: any ag)
  case Nil
  then show ?case using compaction_window_None [of kit ag] by simp
next
  case (Cons pv pvs)
  show ?case
  proof (cases "compaction_window kit ag")
    case None
    then show ?thesis by simp
  next
    case (Some q)
    obtain w ex where q: "q = (w, ex)" by (cases q)
    obtain r ag1 where run: "run_pass kit w ex pv ag = (r, ag1)" by fastforce
    note w = compaction_window_Some [OF Some [unfolded q]]
    from run Cons.prems(1) w(2) show ?thesis
    proof (cases rule: run_pass_cases)
      case (landed sm u)
      show ?thesis
      proof (cases "r = Landed")
        case True
        have "\<exists>out ag'. summarize_loop kit pvs True ag1 = Some (out, ag')"
          using landed(4,5) Cons.prems(2) by (intro Cons.IH) (simp_all add: compacts_to_def)
        with True Some q run show ?thesis by simp
      next
        case False
        with landed(1) Some q run show ?thesis by auto
      qed
    qed (use Some q run in simp_all)
  qed
qed

lemma summarize_loop_spec:
  "summarize_loop kit pvs any ag = Some (out, ag') \<Longrightarrow> store_ok (ag_store ag) \<Longrightarrow>
     agent_frame ag ag' \<and> compacts_to (ag_store ag) (ag_store ag')
     \<and> (case out of
          Inl e \<Rightarrow> True
        | Inr NothingToCompact \<Rightarrow>
            \<not> any \<and> ag_store ag' = ag_store ag \<and> ag_budget ag' = ag_budget ag \<and> compaction_ended kit ag'
        | Inr Compacted \<Rightarrow>
            (any \<or> length (conversation (ag_store ag')) < length (conversation (ag_store ag)))
            \<and> compaction_ended kit ag'
        | Inr (CompactBudgetExceeded consumed budget) \<Rightarrow>
            is_exceeded (ag_budget ag') \<and> consumed = budget_consumed (ag_budget ag')
            \<and> budget = budget_limit (ag_budget ag'))"
proof (induction pvs arbitrary: any ag)
  case Nil
  then show ?case
    by (auto simp: agent_frame_refl compacts_to_refl compaction_ended_def loop_result_def split: option.splits)
next
  case (Cons pv pvs)
  note prems = Cons.prems
  show ?case
  proof (cases "compaction_window kit ag")
    case None
    with prems show ?thesis
      by (auto simp: agent_frame_refl compacts_to_refl compaction_ended_def loop_result_def)
  next
    case (Some q)
    obtain w ex where q: "q = (w, ex)" by (cases q)
    obtain r ag1 where run: "run_pass kit w ex pv ag = (r, ag1)" by fastforce
    note w = compaction_window_Some [OF Some [unfolded q]]
    from run prems(2) w(2) show ?thesis
    proof (cases rule: run_pass_cases)
      case (failed e)
      with prems Some q run have "out = Inl e" "ag' = ag1" by simp_all
      with failed prems(2) show ?thesis by (simp add: compacts_to_refl)
    next
      case stuck
      with prems Some q run have eqs: "out = Inr (loop_result any)" "ag' = ag1" by simp_all
      have "compaction_ended kit ag" using stuck(6) Some q by (simp add: compaction_ended_def)
      then have "compaction_ended kit ag1"
        using stuck(2,3) compaction_ended_cong [of ag1 ag kit] by (simp add: agent_frame_def)
      with eqs stuck prems(2) show ?thesis by (simp add: compacts_to_refl loop_result_def)
    next
      case (landed sm u)
      show ?thesis
      proof (cases "r = Landed")
        case True
        with prems Some q run have rest: "summarize_loop kit pvs True ag1 = Some (out, ag')" by simp
        have ok: "store_ok (ag_store ag1)" using landed(4) by (simp add: compacts_to_def)
        note ih = Cons.IH [OF rest ok]
        have "length (conversation (ag_store ag')) \<le> length (conversation (ag_store ag1))"
          using ih by (auto simp: compacts_to_def suffix_length_le)
        then show ?thesis
          using ih landed(3,4,5) agent_frame_trans [OF landed(3)] compacts_to_trans [OF landed(4)]
          by (auto split: sum.splits compact_outcome.splits)
      next
        case False
        with landed(1) prems Some q run
        have "out = Inr (CompactBudgetExceeded (budget_consumed (ag_budget ag1)) (budget_limit (ag_budget ag1)))"
          "ag' = ag1" by auto
        with landed False show ?thesis by simp
      qed
    qed
  qed
qed

section \<open>A failed pass\<close>

lemma log_retries_facts [simp]:
  "ag_config (log_retries rs n ag) = ag_config ag" "ag_failover (log_retries rs n ag) = ag_failover ag"
  "ag_client (log_retries rs n ag) = ag_client ag" "ag_episode (log_retries rs n ag) = ag_episode ag"
  "ag_pacing (log_retries rs n ag) = ag_pacing ag" "ag_table (log_retries rs n ag) = ag_table ag"
  "ag_history (log_retries rs n ag) = ag_history ag" "ag_budget (log_retries rs n ag) = ag_budget ag"
  "ag_compaction (log_retries rs n ag) = ag_compaction ag"
  "same_but_log s (ag_store (log_retries rs n ag)) = same_but_log s (ag_store ag)"
  by (simp_all add: log_retries_def record_retries_def Let_def same_but_log_def)

lemma charge_failure_facts:
  "charge_failure c shape now j l = (at, l') \<Longrightarrow>
     at = attempt_failed Connect c shape now j \<and> ledger_attempts l' = sat_add (ledger_attempts l) 1
     \<and> cl_latch_until l' = cl_latch_until l \<and> cl_pending_stop l' = cl_pending_stop l"
  by (auto simp: charge_failure_def ledger_attempts_def episode_new_def Let_def)

lemma ledger_facts [simp]:
  "ledger_attempts (ledger_arm u l) = ledger_attempts l" "cl_latch_until (ledger_arm u l) = Some u"
  "ledger_attempts (ledger_spend_shape_slot e l) = ledger_attempts l"
  by (simp_all add: ledger_attempts_def ledger_arm_def ledger_spend_shape_slot_def)

definition is_retry :: "compaction_verdict \<Rightarrow> bool" where
  "is_retry v \<longleftrightarrow> (case v of RetryLater _ \<Rightarrow> True | _ \<Rightarrow> False)"

lemma is_retry_simps [simp]:
  "is_retry (RetryLater w)" "\<not> is_retry (DeferToChain r)" "\<not> is_retry (EndRound m)"
  by (simp_all add: is_retry_def)

lemma stop_compaction_facts:
  "stop_compaction kit fe c err reason ag = (v, ag') \<Longrightarrow>
     (\<exists>m. v = EndRound m) \<and> agent_frame ag ag' \<and> ag_store ag' = ag_store ag \<and> ag_table ag' = ag_table ag
     \<and> ag_budget ag' = ag_budget ag \<and> ag_compaction ag' = ag_compaction ag
     \<and> (\<exists>detail. ag_history ag' = map_option (append_record (fe_today fe)
          (system_record [] 0 (CompactionFailure (ledger_attempts (ag_compaction ag))
             (max_sends (cf_retry (ag_config ag))) (class_label c) detail) None)) (ag_history ag))"
  by (auto simp: stop_compaction_def Let_def agent_frame_def)

lemma note_failure_cases:
  assumes "note_compaction_failure kit fe err round ag = (v, ag')"
  obtains (retry) wait where "v = RetryLater wait" "agent_frame ag ag'" "ag_table ag' = ag_table ag"
      "ag_budget ag' = ag_budget ag" "ag_history ag' = ag_history ag"
      "same_but_log (ag_store ag) (ag_store ag')"
      "ledger_attempts (ag_compaction ag') = sat_add (ledger_attempts (ag_compaction ag)) 1"
      "ledger_attempts (ag_compaction ag') < max_sends (cf_retry (ag_config ag))"
      "cl_latch_until (ag_compaction ag') = Some (latch_deadline (fe_now fe) wait)"
  | (deferred) reason where "v = DeferToChain reason" "agent_frame ag ag'"
      "ag_budget ag' = ag_budget ag" "ag_history ag' = ag_history ag"
      "same_but_log (ag_store ag) (ag_store ag')"
      "ledger_attempts (ag_compaction ag') = sat_add (ledger_attempts (ag_compaction ag)) 1"
      "cl_latch_until (ag_compaction ag') = Some (latch_deadline (fe_now fe)
         (backoff_schedule (cf_retry (ag_config ag)) 0 (fe_wait_jitter fe)))"
  | (ended) m c detail where "v = EndRound m" "agent_frame ag ag'" "ag_table ag' = ag_table ag"
      "ag_budget ag' = ag_budget ag" "ag_store ag' = ag_store ag"
      "ledger_attempts (ag_compaction ag') = sat_add (ledger_attempts (ag_compaction ag)) 1"
      "ag_history ag' = map_option (append_record (fe_today fe)
          (system_record [] 0 (CompactionFailure (ledger_attempts (ag_compaction ag'))
             (max_sends (cf_retry (ag_config ag))) (class_label c) detail) None)) (ag_history ag)"
proof -
  let ?pol = "cf_retry (ag_config ag)"
  let ?c = "case backend_of err of Some e \<Rightarrow> classify (ak_json kit) e Connect | None \<Rightarrow> Unclassified"
  obtain at l where ch: "charge_failure ?c (Option.bind (backend_of err) shape_key) (fe_now fe) (fe_jitter fe)
      (ag_compaction ag) = (at, l)" by fastforce
  note l = charge_failure_facts [OF ch]
  let ?ag = "ag\<lparr>ag_compaction := l\<rparr>"
  have end_with: thesis if "stop_compaction kit fe ?c err reason ?ag = (v, ag')" for reason
  proof -
    from stop_compaction_facts [OF that] obtain m detail where "v = EndRound m" "agent_frame ?ag ag'"
      "ag_store ag' = ag_store ag" "ag_table ag' = ag_table ag" "ag_budget ag' = ag_budget ag"
      "ag_compaction ag' = l" "ag_history ag' = map_option (append_record (fe_today fe)
          (system_record [] 0 (CompactionFailure (ledger_attempts l) (max_sends ?pol) (class_label ?c) detail)
             None)) (ag_history ag)" by auto
    then show thesis using l by (intro ended [of m ?c detail]) (simp_all add: agent_frame_def)
  qed
  show thesis
  proof (cases "decide (episode_facts (cl_episode l) at) ?pol")
    case (Retry wait)
    then have row: "class_row ?c (episode_facts (cl_episode l) at) ?pol = Retry wait"
      using l by (simp only: decide_failed)
    from class_row_Retry [OF this] obtain kind where kind: "retry_kind ?c = Some kind"
      and few: "fa_attempts (episode_facts (cl_episode l) at) < max_sends ?pol"
      by (auto simp: retry_or_stop_Retry)
    have few': "ledger_attempts l < max_sends ?pol" using few by (simp add: episode_facts_def ledger_attempts_def)
    define ag2 where "ag2 = log_retries [record_retry (compaction_attempt round ?ag) (fe_now fe)
        (Some (pf_endpoint (current_profile (ag_failover ag)))) kind (error_line err) wait] (fe_log_now fe) ?ag"
    have "v = RetryLater wait \<and> ag' = ag2\<lparr>ag_compaction := ledger_arm (latch_deadline (fe_now fe) wait)
        (case backend_of err of Some e \<Rightarrow> ledger_spend_shape_slot e l | None \<Rightarrow> l)\<rparr>"
      using assms ch Retry kind
      by (simp add: note_compaction_failure_def Let_def ag2_def cong: option.case_cong)
    then show thesis
      using l few' by (intro retry [of wait]) (auto simp: agent_frame_def ag2_def same_but_log_refl split: option.splits)
  next
    case (AdvanceFailover reason)
    define ag2 where "ag2 = (case backend_of err of
        Some e \<Rightarrow> ?ag\<lparr>ag_table := record_fact (ak_json kit) (ag_pacing ag)
          (pf_id (current_profile (ag_failover ag))) ?c e (fe_now fe) (ag_table ag)\<rparr>
      | None \<Rightarrow> ?ag)"
    define ag3 where "ag3 = (case retry_kind ?c of
        Some kind \<Rightarrow> log_retries [record_observed (compaction_attempt round ag2) (fe_now fe)
          (Some (pf_endpoint (current_profile (ag_failover ag)))) kind (error_line err) None] (fe_log_now fe) ag2
      | None \<Rightarrow> ag2)"
    have ag3: "agent_frame ag ag3" "ag_budget ag3 = ag_budget ag" "ag_history ag3 = ag_history ag"
      "same_but_log (ag_store ag) (ag_store ag3)" "ag_compaction ag3 = l"
      by (simp_all add: ag3_def ag2_def agent_frame_def same_but_log_refl split: option.split)
    have "v = DeferToChain reason \<and> ag' = ag3\<lparr>ag_compaction := ledger_arm (latch_deadline (fe_now fe)
        (backoff_schedule ?pol 0 (fe_wait_jitter fe))) l\<rparr>"
      using assms ch AdvanceFailover ag3(5)
      by (simp add: note_compaction_failure_def Let_def ag3_def ag2_def cong: option.case_cong)
    then show thesis using l ag3 by (intro deferred [of reason]) (simp_all add: agent_frame_def)
  next
    case (Stop k reason)
    with assms ch show thesis
      by (intro end_with [of reason]) (simp add: note_compaction_failure_def Let_def)
  next
    case (Fatal reason)
    with assms ch show thesis
      by (intro end_with [of reason]) (simp add: note_compaction_failure_def Let_def)
  next
    case Proceed
    with l class_row_not_Proceed show thesis by (metis decide_failed)
  qed
qed

text \<open>A stretch of failing passes: the verdicts of one failure after the other, with no success between.\<close>

fun failing_stretch ::
  "agent_kit \<Rightarrow> nat \<Rightarrow> (failure_env \<times> round_error) list \<Rightarrow> 't agent \<Rightarrow> compaction_verdict list" where
  "failing_stretch kit round [] ag = []"
| "failing_stretch kit round ((fe, err) # fs) ag =
     (let (v, ag') = note_compaction_failure kit fe err round ag
      in v # failing_stretch kit round fs ag')"

lemma failing_stretch_bound:
  "length (filter is_retry (failing_stretch kit round fs ag))
     \<le> unat (max_sends (cf_retry (ag_config ag))) - 1 - unat (ledger_attempts (ag_compaction ag))"
proof (induction fs arbitrary: ag)
  case Nil
  then show ?case by simp
next
  case (Cons f fs)
  obtain fe err where f: "f = (fe, err)" by (cases f)
  obtain v ag1 where run: "note_compaction_failure kit fe err round ag = (v, ag1)" by fastforce
  let ?sends = "unat (max_sends (cf_retry (ag_config ag)))"
  let ?a = "unat (ledger_attempts (ag_compaction ag))"
  have ih: "length (filter is_retry (failing_stretch kit round fs ag1))
      \<le> ?sends - 1 - unat (ledger_attempts (ag_compaction ag1))" if "agent_frame ag ag1"
    using Cons.IH [of ag1] that by (simp add: agent_frame_def)
  have sat: "unat (sat_add x 1) = (if unat x < 2 ^ 32 - 1 then unat x + 1 else unat x)" for x :: u32
    using unsigned_less [of x, where ?'a = nat] by (simp add: sat_simps min_def)
  from run show ?case
  proof (cases rule: note_failure_cases)
    case (retry wait)
    have few: "unat (ledger_attempts (ag_compaction ag1)) < ?sends"
      using retry(8) by (simp add: word_less_nat_alt)
    moreover have "?sends < 2 ^ 32" using unsigned_less [of "max_sends (cf_retry (ag_config ag))"] by simp
    ultimately have "unat (ledger_attempts (ag_compaction ag1)) = ?a + 1"
      using sat [of "ledger_attempts (ag_compaction ag)"] retry(7) by (auto split: if_splits)
    with ih [OF retry(2)] few f run retry(1) show ?thesis by simp
  next
    case (deferred reason)
    have "?a \<le> unat (ledger_attempts (ag_compaction ag1))"
      using sat [of "ledger_attempts (ag_compaction ag)"] deferred(6) by (simp split: if_splits)
    with ih [OF deferred(2)] f run deferred(1) show ?thesis by simp
  next
    case (ended m c detail)
    have "?a \<le> unat (ledger_attempts (ag_compaction ag1))"
      using sat [of "ledger_attempts (ag_compaction ag)"] ended(6) by (simp split: if_splits)
    with ih [OF ended(2)] f run ended(1) show ?thesis by simp
  qed
qed

section \<open>The gate\<close>

lemma note_injected_facts:
  "note_injected today r ag = (w, ag') \<Longrightarrow> agent_frame ag ag' \<and> w = fst r \<and> ag_store ag' = snd r
     \<and> ag_table ag' = ag_table ag \<and> ag_budget ag' = ag_budget ag \<and> ag_compaction ag' = ag_compaction ag"
  by (cases r) (auto simp: note_injected_def agent_frame_def Let_def split: bool.splits)

lemma warnings_keep_turns:
  "prefix (cs_turns s) (cs_turns (snd (check_progressive_warnings est ws pct eff s)))"
  by (simp add: check_progressive_warnings_def push_turn_def reset_context_warnings_def Let_def
      split: option.split)

lemma clear_ledger_facts [simp]:
  "ag_store (clear_ledger now ag) = ag_store ag" "ag_table (clear_ledger now ag) = ag_table ag"
  "ag_budget (clear_ledger now ag) = ag_budget ag"
  "ag_compaction (clear_ledger now ag) = ledger_new now"
  by (simp_all add: clear_ledger_def ledger_clear_def)

section \<open>Properties\<close>

definition demo_kit :: agent_kit where
  "demo_kit = \<lparr>ak_est = (\<lambda>m. if ms_role m = ''user'' then 60000 else 1), ak_est_text = length,
     ak_json = (\<lambda>_. None), ak_refs = (\<lambda>_. []), ak_invalid_request = id,
     ak_status_text = (\<lambda>s. show_nat (unat s)),
     ak_budget_text = (\<lambda>_ _. ''budget'')\<rparr>"

definition full_agent :: "pacing_table agent" where
  "full_agent = demo_agent\<lparr>ag_store :=
     snd (push_turn (ak_est demo_kit) [user_message ''b'']
       (snd (push_turn (ak_est demo_kit) [user_message ''a''] store_new)))\<rparr>"

text \<open>C15. Compaction always comes back: on a well-formed store, with an answer for at most every turn of
  the conversation, the loop ends. Whatever it returns, the store is well formed, the conversation is
  a rest of the old one and every pin but the summary is untouched. It reports success only when it
  evicted something, and it ends on its own only when the context fits the budget, nothing is left to
  evict or no turn fits next to the carried summary; a stop for the token budget means the budget is
  spent.\<close>

theorem compaction_returns:
  assumes "store_ok (ag_store ag)" and "length (conversation (ag_store ag)) \<le> length pvs"
  shows "\<exists>out ag'. summarize_and_evict kit pvs ag = Some (out, ag')
     \<and> agent_frame ag ag' \<and> compacts_to (ag_store ag) (ag_store ag')
     \<and> (case out of
          Inl e \<Rightarrow> True
        | Inr NothingToCompact \<Rightarrow>
            ag_store ag' = ag_store ag \<and> ag_budget ag' = ag_budget ag \<and> compaction_ended kit ag'
        | Inr Compacted \<Rightarrow>
            length (conversation (ag_store ag')) < length (conversation (ag_store ag))
            \<and> compaction_ended kit ag'
        | Inr (CompactBudgetExceeded consumed budget) \<Rightarrow>
            is_exceeded (ag_budget ag') \<and> consumed = budget_consumed (ag_budget ag')
            \<and> budget = budget_limit (ag_budget ag'))"
proof -
  from summarize_loop_returns [OF assms] obtain out ag' where run: "summarize_loop kit pvs False ag = Some (out, ag')"
    by blast
  from summarize_loop_spec [OF run assms(1)] run show ?thesis
    by (auto simp: summarize_and_evict_def split: sum.splits compact_outcome.splits)
qed

theorem compaction_returns_witness:
  "\<exists>out ag'. summarize_and_evict demo_kit
     [\<lparr>pv_reply = Answered (Some ''old turns'') None, pv_elapsed = 5, pv_today = ''2026-01-01''\<rparr>,
      \<lparr>pv_reply = Answered (Some ''more'') None, pv_elapsed = 5, pv_today = ''2026-01-01''\<rparr>] full_agent
     = Some (out, ag') \<and> compacts_to (ag_store full_agent) (ag_store ag')"
proof -
  have ok: "store_ok (ag_store full_agent)"
    by (simp add: full_agent_def store_ok_push store_ok_new)
  have "length (conversation (ag_store full_agent)) = 2"
    by (simp add: full_agent_def push_turn_def Let_def conversation_def is_pinned_def store_new_def)
  then show ?thesis
    using compaction_returns [OF ok, of "[\<lparr>pv_reply = Answered (Some ''old turns'') None, pv_elapsed = 5,
      pv_today = ''2026-01-01''\<rparr>, \<lparr>pv_reply = Answered (Some ''more'') None, pv_elapsed = 5,
      pv_today = ''2026-01-01''\<rparr>]" demo_kit] by auto
qed

text \<open>A failing stretch of summarizer calls is bounded by the retry policy: however many failures
  follow one another, of whatever classes, fewer of them than the policy's sends are answered by
  another wait for the same endpoint.\<close>

theorem compaction_retries_bounded:
  "length (filter is_retry (failing_stretch kit round fs ag)) \<le> unat (max_sends (cf_retry (ag_config ag))) - 1"
  using failing_stretch_bound [of kit round fs ag] by linarith

text \<open>C30. A failed pass is settled in one of three ways, and each leaves its trace. A wait or a deferral
  to the chain arms the latch and writes nothing to the history; a stop writes exactly one line, with
  the charged attempt and the policy's cap, and touches neither the store nor the shared table. No
  verdict drops a turn.\<close>

theorem compaction_failure_settles:
  "case note_compaction_failure kit fe err round ag of
     (v, ag') \<Rightarrow>
       cs_turns (ag_store ag') = cs_turns (ag_store ag)
       \<and> ledger_attempts (ag_compaction ag') = sat_add (ledger_attempts (ag_compaction ag)) 1
       \<and> (case v of
            RetryLater wait \<Rightarrow> ag_history ag' = ag_history ag \<and> ag_table ag' = ag_table ag
              \<and> cl_latch_until (ag_compaction ag') = Some (latch_deadline (fe_now fe) wait)
          | DeferToChain _ \<Rightarrow> ag_history ag' = ag_history ag
              \<and> cl_latch_until (ag_compaction ag') = Some (latch_deadline (fe_now fe)
                  (backoff_schedule (cf_retry (ag_config ag)) 0 (fe_wait_jitter fe)))
          | EndRound _ \<Rightarrow> ag_store ag' = ag_store ag \<and> ag_table ag' = ag_table ag
              \<and> (\<exists>c detail. ag_history ag' = map_option (append_record (fe_today fe)
                   (system_record [] 0 (CompactionFailure (ledger_attempts (ag_compaction ag'))
                      (max_sends (cf_retry (ag_config ag))) (class_label c) detail) None)) (ag_history ag)))"
proof -
  obtain v ag' where run: "note_compaction_failure kit fe err round ag = (v, ag')" by fastforce
  from run show ?thesis
    by (cases rule: note_failure_cases) (simp_all add: run same_but_log_views, blast)
qed

text \<open>While the latch of a failed pass holds, the gate before a call never asks the summarizer:
  whatever answers are ready, the round is recomposed for a warning, sent, or found cancelled; no
  turn is dropped, and the token budget and the shared table stay as they are.\<close>

theorem latched_gate_stands_down:
  assumes "is_latched (ge_now ge) (ag_compaction ag)" and "cl_pending_stop (ag_compaction ag) = None"
  shows "\<exists>act ag'. enforce_pre_call_budget kit ge prompt_tokens round ag = Some (act, ag')
     \<and> act \<in> {Recompose, ProceedRound, ReturnOutcome RoundCancelled}
     \<and> prefix (cs_turns (ag_store ag)) (cs_turns (ag_store ag'))
     \<and> ag_budget ag' = ag_budget ag \<and> ag_table ag' = ag_table ag
     \<and> ag_compaction ag' \<in> {ag_compaction ag, ledger_new (ge_now ge)}"
proof (cases "prompt_tokens = 0")
  case True
  then show ?thesis by (simp add: enforce_pre_call_budget_def)
next
  case False
  let ?pct = "prompt_tokens * 100 div effective_budget (ag_config ag)"
  let ?r = "check_progressive_warnings (ak_est kit) (warning_thresholds (ag_config ag)) ?pct
    (effective_budget (ag_config ag)) (ag_store ag)"
  obtain w ag1 where inj: "note_injected (ge_today ge) ?r ag = (w, ag1)" by fastforce
  note facts = note_injected_facts [OF inj]
  have turns: "prefix (cs_turns (ag_store ag)) (cs_turns (ag_store ag1))"
    using warnings_keep_turns [of "ag_store ag" "ak_est kit" "warning_thresholds (ag_config ag)" ?pct
      "effective_budget (ag_config ag)"] facts by simp
  have stop: "take_pending_stop (ag_compaction ag1) = (None, (ag_compaction ag)\<lparr>cl_pending_stop := None\<rparr>)"
    using assms(2) facts by (simp add: take_pending_stop_def)
  have "enforce_pre_call_budget kit ge prompt_tokens round ag =
      Some (if w then (Recompose, ag1)
        else if ?pct < unat (auto_compact_threshold (ag_config ag)) then (ProceedRound, clear_ledger (ge_now ge) ag1)
        else if ge_cancelled ge then (ReturnOutcome RoundCancelled, ag1) else (ProceedRound, ag1))"
    using False inj stop assms(1) facts by (simp add: enforce_pre_call_budget_def Let_def)
  with turns facts show ?thesis by auto
qed

theorem latched_gate_stands_down_witness:
  "\<exists>act ag'. enforce_pre_call_budget demo_kit
      \<lparr>ge_now = 1010, ge_passes = [], ge_clear_now = 1010,
        ge_failure = \<lparr>fe_now = 1010, fe_jitter = 0, fe_log_now = 1010, fe_wait_jitter = 0, fe_today = ''d''\<rparr>,
        ge_today = ''d'', ge_cancelled = False\<rparr> 120000 1
      (full_agent\<lparr>ag_compaction := ledger_arm 1020 (ledger_new 1000)\<rparr>) = Some (act, ag')
    \<and> act \<in> {Recompose, ProceedRound, ReturnOutcome RoundCancelled}"
proof -
  let ?ge = "\<lparr>ge_now = 1010, ge_passes = [], ge_clear_now = 1010,
        ge_failure = \<lparr>fe_now = 1010, fe_jitter = 0, fe_log_now = 1010, fe_wait_jitter = 0, fe_today = ''d''\<rparr>,
        ge_today = ''d'', ge_cancelled = False\<rparr>"
  let ?ag = "full_agent\<lparr>ag_compaction := ledger_arm 1020 (ledger_new 1000)\<rparr>"
  have "is_latched (ge_now ?ge) (ag_compaction ?ag)" "cl_pending_stop (ag_compaction ?ag) = None"
    by (simp_all add: is_latched_def ledger_arm_def ledger_new_def)
  from latched_gate_stands_down [OF this, of demo_kit 120000 1] show ?thesis by blast
qed

end
