(* ===== verification/Failover.thy ===== *)
theory Failover
  imports Compaction
begin

text \<open>
  Within-set failover: the walk that advances the chain, the compaction on the new endpoint, and what
  its outcomes mean for the round (\<open>crates/kallipai-adk/src/acquisition/failover.rs\<close>). Building a
  client is a parameter: \<open>build p\<close> says whether the registry could. The clock readings, whether the
  round was cancelled and the summarizer's answers are inputs of the walk.
\<close>

section \<open>The walk\<close>

datatype candidate_verdict = Usable | Marked | Unbuildable | Infeasible

definition candidate_verdict_of ::
  "(profile \<Rightarrow> bool) \<Rightarrow> 't agent \<Rightarrow> u64 \<Rightarrow> profile \<Rightarrow> candidate_verdict" where
  "candidate_verdict_of build ag now p =
     (if marked_in ag (pf_id p) now then Marked
      else if \<not> build p then Unbuildable
      else if try_context_window (ag_config ag) (pf_window p) \<noteq> None then Infeasible
      else Usable)"

record skipped =
  sk_infeasible :: bool
  sk_unbuildable :: bool
  sk_marked :: bool

fun note_skip :: "candidate_verdict \<Rightarrow> skipped \<Rightarrow> skipped" where
  "note_skip Marked sk = sk\<lparr>sk_marked := True\<rparr>"
| "note_skip Unbuildable sk = sk\<lparr>sk_unbuildable := True\<rparr>"
| "note_skip Infeasible sk = sk\<lparr>sk_infeasible := True\<rparr>"
| "note_skip Usable sk = sk"

fun walk_chain ::
  "(profile \<Rightarrow> candidate_verdict) \<Rightarrow> nat \<Rightarrow> profile list \<Rightarrow> skipped \<Rightarrow> (nat \<times> profile) option \<times> skipped"
where
  "walk_chain verdict offset [] sk = (None, sk)"
| "walk_chain verdict offset (p # ps) sk =
     (if verdict p = Usable then (Some (offset, p), sk)
      else walk_chain verdict (offset + 1) ps (note_skip (verdict p) sk))"

definition exhaustion_of :: "skipped \<Rightarrow> exhaustion_reason" where
  "exhaustion_of sk =
     (if sk_infeasible sk then AllCandidatesInfeasible
      else if sk_unbuildable sk then AllCandidatesUnbuildable
      else if sk_marked sk then AllBackupsExhausted
      else AllCandidatesUnbuildable)"

record walk_env =
  we_cancelled :: bool
  we_now :: u64
  we_cleared_now :: u64
  we_paced_now :: u64
  we_passes :: "pass_env list"
  we_failure :: failure_env

datatype failover_outcome =
    Advanced string string "message list"
  | OutChainExhausted exhaustion_reason round_error
  | OutCancelled
  | OutBudgetExceeded u64 u64
  | OutStop string

definition compose_context :: "context_store \<Rightarrow> message list" where
  "compose_context s = concat (map tu_messages (cs_turns s))"

definition reapply_window :: "'t agent \<Rightarrow> 't agent" where
  "reapply_window ag =
     (let cfg = snd (set_context_window (pf_window (current_profile (ag_failover ag))) (ag_config ag))
      in ag\<lparr>ag_config := cfg,
            ag_store := mark_needs_full_estimate (set_eviction_caps (config_eviction_caps cfg)
              (set_pinned_budget (pinned_budget cfg) (ag_store ag)))\<rparr>)"

text \<open>The commit of a usable candidate, before the compaction.\<close>

definition commit_advance :: "nat \<Rightarrow> profile \<Rightarrow> u64 \<Rightarrow> 't agent \<Rightarrow> 't agent" where
  "commit_advance offset p cleared_now ag =
     clear_ledger cleared_now
       (reapply_window (ag\<lparr>ag_failover := advance_to (fo_idx (ag_failover ag) + offset) (ag_failover ag),
          ag_client := p, ag_conv_store := or_default (pf_store p) True\<rparr>))"

text \<open>The compaction of the carried context on the new endpoint, and the messages that go on.\<close>

definition advance_compact ::
  "agent_kit \<Rightarrow> walk_env \<Rightarrow> nat \<Rightarrow> string \<Rightarrow> string \<Rightarrow> message list \<Rightarrow> 't agent
     \<Rightarrow> (failover_outcome \<times> 't agent) option" where
  "advance_compact kit env round from_id to_id prior ag =
     (case summarize_and_evict kit (we_passes env) ag of
        None \<Rightarrow> None
      | Some (Inr Compacted, ag') \<Rightarrow> Some (Advanced from_id to_id (compose_context (ag_store ag')), ag')
      | Some (Inr NothingToCompact, ag') \<Rightarrow> Some (Advanced from_id to_id prior, ag')
      | Some (Inr (CompactBudgetExceeded consumed budget), ag') \<Rightarrow>
          Some (OutBudgetExceeded consumed budget, ag')
      | Some (Inl err, ag') \<Rightarrow>
          (case note_compaction_failure kit (we_failure env) err round ag' of
             (EndRound message, ag'') \<Rightarrow> Some (OutStop message, ag'')
           | (_, ag'') \<Rightarrow> Some (Advanced from_id to_id prior, ag'')))"

definition advance_failover ::
  "(profile \<Rightarrow> bool) \<Rightarrow> agent_kit \<Rightarrow> walk_env \<Rightarrow> nat \<Rightarrow> message list \<Rightarrow> round_error \<Rightarrow> 't agent
     \<Rightarrow> (failover_outcome \<times> 't agent) option"
where
  "advance_failover build kit env round prior trigger ag =
     (let fo = ag_failover ag in
      if we_cancelled env then Some (OutCancelled, ag)
      else if \<not> can_advance fo then
        Some (OutChainExhausted
           (if length (fo_profiles fo) = 1 then NoFailoverConfigured else AllBackupsExhausted)
           trigger, ag)
      else
        case walk_chain (candidate_verdict_of build ag (we_now env)) 1
            (drop (fo_idx fo + 1) (fo_profiles fo))
            \<lparr>sk_infeasible = False, sk_unbuildable = False, sk_marked = False\<rparr> of
          (None, sk) \<Rightarrow> Some (OutChainExhausted (exhaustion_of sk) trigger, ag)
        | (Some (offset, p), _) \<Rightarrow>
            let ag' = commit_advance offset p (we_cleared_now env) ag;
                from_id = pf_id (current_profile fo)
            in if marked_in ag' (pf_id p) (we_paced_now env)
               then Some (Advanced from_id (pf_id p) prior, ag')
               else advance_compact kit env round from_id (pf_id p) prior ag')"

section \<open>The chain and the walk\<close>

lemma failover_new_ok: "profiles \<noteq> [] \<Longrightarrow> failover_ok (failover_new name profiles)"
  by (cases profiles) (simp_all add: failover_ok_def failover_new_def current_profile_def)

lemma advance_to_ok: "i < length (fo_profiles fo) \<Longrightarrow> failover_ok (advance_to i fo)"
  by (simp add: failover_ok_def advance_to_def current_profile_def)

lemma reset_and_rebuild_ok:
  "failover_ok fo \<Longrightarrow> profiles \<noteq> [] \<Longrightarrow> failover_ok (snd (reset_and_rebuild build name profiles fo))"
  by (simp add: reset_and_rebuild_def failover_new_ok)

lemma walk_chain_Some:
  "walk_chain verdict offset ps sk = (Some (k, p), sk') \<Longrightarrow>
     \<exists>i < length ps. k = offset + i \<and> p = ps ! i \<and> verdict p = Usable
       \<and> (\<forall>j < i. verdict (ps ! j) \<noteq> Usable)"
proof (induction ps arbitrary: offset sk)
  case Nil
  then show ?case by simp
next
  case (Cons q ps)
  show ?case
  proof (cases "verdict q = Usable")
    case True
    with Cons.prems show ?thesis by auto
  next
    case False
    with Cons.prems have "walk_chain verdict (offset + 1) ps (note_skip (verdict q) sk) = (Some (k, p), sk')"
      by simp
    from Cons.IH [OF this] obtain i where "i < length ps" "k = offset + 1 + i" "p = ps ! i"
      "verdict p = Usable" "\<forall>j < i. verdict (ps ! j) \<noteq> Usable" by blast
    with False show ?thesis by (intro exI [of _ "Suc i"]) (auto simp: less_Suc_eq_0_disj)
  qed
qed

lemma walk_chain_None:
  "walk_chain verdict offset ps sk = (None, sk') \<Longrightarrow>
     (\<forall>p \<in> set ps. verdict p \<noteq> Usable)
     \<and> (sk_infeasible sk' \<longleftrightarrow> sk_infeasible sk \<or> (\<exists>p \<in> set ps. verdict p = Infeasible))
     \<and> (sk_unbuildable sk' \<longleftrightarrow> sk_unbuildable sk \<or> (\<exists>p \<in> set ps. verdict p = Unbuildable))
     \<and> (sk_marked sk' \<longleftrightarrow> sk_marked sk \<or> (\<exists>p \<in> set ps. verdict p = Marked))"
proof (induction ps arbitrary: offset sk)
  case Nil
  then show ?case by simp
next
  case (Cons q ps)
  then show ?case by (cases "verdict q") (auto split: if_splits)
qed

lemma reapply_window_facts:
  "ag_failover (reapply_window ag) = ag_failover ag" "ag_client (reapply_window ag) = ag_client ag"
  "ag_table (reapply_window ag) = ag_table ag" "ag_episode (reapply_window ag) = ag_episode ag"
  "ag_pacing (reapply_window ag) = ag_pacing ag"
  by (simp_all add: reapply_window_def Let_def)

lemmas window_updates = mark_needs_full_estimate_def set_eviction_caps_def set_pinned_budget_def

lemma reapply_window_store:
  "cs_turns (ag_store (reapply_window ag)) = cs_turns (ag_store ag)"
  "store_ok (ag_store ag) \<Longrightarrow> store_ok (ag_store (reapply_window ag))"
  by (simp_all add: reapply_window_def Let_def window_updates store_ok_def)

lemma clear_ledger_frame [simp]:
  "ag_config (clear_ledger now ag) = ag_config ag" "ag_failover (clear_ledger now ag) = ag_failover ag"
  "ag_client (clear_ledger now ag) = ag_client ag" "ag_episode (clear_ledger now ag) = ag_episode ag"
  "ag_pacing (clear_ledger now ag) = ag_pacing ag"
  by (simp_all add: clear_ledger_def)

lemma commit_advance_facts:
  fixes ag :: "'t agent" and now :: u64
  assumes "failover_ok (ag_failover ag)" and "fo_idx (ag_failover ag) + k < length (fo_profiles (ag_failover ag))"
    and "p = fo_profiles (ag_failover ag) ! (fo_idx (ag_failover ag) + k)"
    and "try_context_window (ag_config ag) (pf_window p) = None"
  defines "ag' \<equiv> commit_advance k p now ag"
  shows "fo_idx (ag_failover ag') = fo_idx (ag_failover ag) + k"
    and "failover_ok (ag_failover ag')" and "current_profile (ag_failover ag') = p"
    and "ag_client ag' = p"
    and "cf_window (ag_config ag') = pf_window p" and "budget_ok (ag_config ag')"
    and "cs_pinned_budget (ag_store ag') = pinned_budget (ag_config ag')"
    and "cs_caps (ag_store ag') = config_eviction_caps (ag_config ag')" and "cs_needs_full (ag_store ag')"
    and "cs_turns (ag_store ag') = cs_turns (ag_store ag)"
    and "fo_profiles (ag_failover ag') = fo_profiles (ag_failover ag)"
proof -
  have cur: "current_profile (advance_to (fo_idx (ag_failover ag) + k) (ag_failover ag)) = p"
    using assms(3) by (simp add: current_profile_def advance_to_def)
  have set: "set_context_window (pf_window p) (ag_config ag)
      = (None, (ag_config ag)\<lparr>cf_window := pf_window p\<rparr>)"
    using assms(4) by (simp add: set_context_window_def)
  note defs = ag'_def commit_advance_def reapply_window_def Let_def
  show "failover_ok (ag_failover ag')"
    using assms(2) by (simp add: defs advance_to_ok)
  show "current_profile (ag_failover ag') = p" using cur by (simp add: defs)
  show "fo_idx (ag_failover ag') = fo_idx (ag_failover ag) + k"
    "fo_profiles (ag_failover ag') = fo_profiles (ag_failover ag)" by (simp_all add: defs advance_to_def)
  show "budget_ok (ag_config ag')"
    using assms(4) cur set by (simp add: defs try_window_budget)
  show "ag_client ag' = p" "cf_window (ag_config ag') = pf_window p"
    "cs_pinned_budget (ag_store ag') = pinned_budget (ag_config ag')"
    "cs_caps (ag_store ag') = config_eviction_caps (ag_config ag')" "cs_needs_full (ag_store ag')"
    "cs_turns (ag_store ag') = cs_turns (ag_store ag)"
    using cur set by (simp_all add: defs window_updates)
qed

lemma commit_advance_ok:
  "store_ok (ag_store ag) \<Longrightarrow> store_ok (ag_store (commit_advance k p now ag))"
  by (simp add: commit_advance_def reapply_window_store)

text \<open>The compaction keeps what the commit set up.\<close>

lemma advance_compact_facts:
  assumes "advance_compact kit env round from_id to_id prior ag = Some (out, ag')" and "store_ok (ag_store ag)"
  shows "agent_frame ag ag' \<and> compacts_to (ag_store ag) (ag_store ag')
    \<and> (case out of
         Advanced a b ms \<Rightarrow> a = from_id \<and> b = to_id \<and> ms \<in> {prior, compose_context (ag_store ag')}
       | OutBudgetExceeded c b \<Rightarrow> is_exceeded (ag_budget ag')
       | OutStop m \<Rightarrow> True
       | OutChainExhausted r e \<Rightarrow> False
       | OutCancelled \<Rightarrow> False)"
proof -
  from assms(1) obtain res ag1 where sum: "summarize_loop kit (we_passes env) False ag = Some (res, ag1)"
    by (auto simp: advance_compact_def summarize_and_evict_def split: option.splits)
  note spec = summarize_loop_spec [OF sum assms(2)]
  show ?thesis
  proof (cases res)
    case (Inr r)
    with assms(1) sum spec show ?thesis
      by (cases r) (auto simp: advance_compact_def summarize_and_evict_def)
  next
    case (Inl err)
    obtain v ag2 where settled: "note_compaction_failure kit (we_failure env) err round ag1 = (v, ag2)" by fastforce
    then have "agent_frame ag1 ag2 \<and> same_but_log (ag_store ag1) (ag_store ag2)"
      by (cases rule: note_failure_cases) (simp_all add: same_but_log_refl)
    moreover from this have "compacts_to (ag_store ag1) (ag_store ag2)"
      using spec by (auto intro: compacts_to_log simp: compacts_to_def [of "ag_store ag"])
    moreover have "ag' = ag2" "(case v of EndRound m \<Rightarrow> out = OutStop m | _ \<Rightarrow> out = Advanced from_id to_id prior)"
      using assms(1) sum Inl settled
      by (auto simp: advance_compact_def summarize_and_evict_def split: compaction_verdict.splits)
    ultimately show ?thesis
      using spec by (auto intro: agent_frame_trans compacts_to_trans split: compaction_verdict.splits)
  qed
qed

lemma advance_compact_returns:
  assumes "store_ok (ag_store ag)" and "length (conversation (ag_store ag)) \<le> length (we_passes env)"
  shows "\<exists>out ag'. advance_compact kit env round from_id to_id prior ag = Some (out, ag')"
proof -
  from summarize_loop_returns [OF assms] obtain res ag1
    where sum: "summarize_loop kit (we_passes env) False ag = Some (res, ag1)" by blast
  show ?thesis
  proof (cases res)
    case (Inl err)
    obtain v ag2 where "note_compaction_failure kit (we_failure env) err round ag1 = (v, ag2)" by fastforce
    with sum Inl show ?thesis
      by (cases v) (auto simp: advance_compact_def summarize_and_evict_def)
  next
    case (Inr r)
    with sum show ?thesis by (cases r) (auto simp: advance_compact_def summarize_and_evict_def)
  qed
qed

text \<open>The indices ahead of the active profile whose profile could take over.\<close>

definition usable_ahead :: "(profile \<Rightarrow> bool) \<Rightarrow> u64 \<Rightarrow> 't agent \<Rightarrow> nat set" where
  "usable_ahead build now ag =
     {i. fo_idx (ag_failover ag) < i \<and> i < length (fo_profiles (ag_failover ag))
        \<and> candidate_verdict_of build ag now (fo_profiles (ag_failover ag) ! i) = Usable}"

lemma drop_ahead:
  assumes "fo_idx fo < length (fo_profiles fo)"
  shows "set (drop (fo_idx fo + 1) (fo_profiles fo))
    = {fo_profiles fo ! i |i. fo_idx fo < i \<and> i < length (fo_profiles fo)}"
proof -
  have "p \<in> set (drop (fo_idx fo + 1) (fo_profiles fo)) \<longleftrightarrow>
      (\<exists>i. fo_idx fo < i \<and> i < length (fo_profiles fo) \<and> p = fo_profiles fo ! i)" for p
  proof
    assume "p \<in> set (drop (fo_idx fo + 1) (fo_profiles fo))"
    then obtain j where "j < length (fo_profiles fo) - (fo_idx fo + 1)"
      "p = fo_profiles fo ! (fo_idx fo + 1 + j)" by (auto simp: in_set_conv_nth)
    then show "\<exists>i. fo_idx fo < i \<and> i < length (fo_profiles fo) \<and> p = fo_profiles fo ! i"
      by (intro exI [of _ "fo_idx fo + 1 + j"]) auto
  next
    assume "\<exists>i. fo_idx fo < i \<and> i < length (fo_profiles fo) \<and> p = fo_profiles fo ! i"
    then obtain i where "fo_idx fo < i" "i < length (fo_profiles fo)" "p = fo_profiles fo ! i" by blast
    then show "p \<in> set (drop (fo_idx fo + 1) (fo_profiles fo))"
      unfolding in_set_conv_nth by (intro exI [of _ "i - (fo_idx fo + 1)"]) auto
  qed
  then show ?thesis by blast
qed

lemma first_usable:
  fixes ag :: "'t agent"
  assumes "failover_ok (ag_failover ag)"
    and "walk_chain (candidate_verdict_of build ag now) 1
      (drop (fo_idx (ag_failover ag) + 1) (fo_profiles (ag_failover ag))) sk = (Some (k, p), sk')"
  shows "0 < k \<and> fo_idx (ag_failover ag) + k < length (fo_profiles (ag_failover ag))
    \<and> p = fo_profiles (ag_failover ag) ! (fo_idx (ag_failover ag) + k)
    \<and> try_context_window (ag_config ag) (pf_window p) = None
    \<and> is_arg_min id (\<lambda>i. i \<in> usable_ahead build now ag) (fo_idx (ag_failover ag) + k)"
proof -
  let ?ps = "fo_profiles (ag_failover ag)" and ?i = "fo_idx (ag_failover ag)"
  from walk_chain_Some [OF assms(2)] obtain n where n: "n < length (drop (?i + 1) ?ps)" "k = 1 + n"
    "p = drop (?i + 1) ?ps ! n" "candidate_verdict_of build ag now p = Usable"
    and before: "\<forall>j < n. candidate_verdict_of build ag now (drop (?i + 1) ?ps ! j) \<noteq> Usable" by blast
  have p: "p = ?ps ! (?i + k)" using n(1,2,3) by simp
  have "\<not> i < ?i + k" if "i \<in> usable_ahead build now ag" for i
  proof
    assume "i < ?i + k"
    then have "i - (?i + 1) < n" "?i + 1 + (i - (?i + 1)) = i"
      using that n(2) by (auto simp: usable_ahead_def)
    moreover from this have "drop (?i + 1) ?ps ! (i - (?i + 1)) = ?ps ! i" using n(1) by simp
    ultimately show False using before that by (fastforce simp: usable_ahead_def)
  qed
  moreover have "?i + k \<in> usable_ahead build now ag"
    using n p by (simp add: usable_ahead_def)
  moreover have "try_context_window (ag_config ag) (pf_window p) = None"
    using n(4) by (auto simp: candidate_verdict_of_def split: if_splits)
  ultimately show ?thesis using n p by (auto simp: is_arg_min_def)
qed

text \<open>The cases of an advance that was not cancelled.\<close>

lemma advance_cases:
  fixes ag :: "'t agent"
  assumes "failover_ok (ag_failover ag)" and "\<not> we_cancelled env"
  obtains (exhausted) r where "usable_ahead build (we_now env) ag = {}"
      "advance_failover build kit env round prior trigger ag = Some (OutChainExhausted r trigger, ag)"
  | (landed) k p ag1 where
      "is_arg_min id (\<lambda>i. i \<in> usable_ahead build (we_now env) ag) (fo_idx (ag_failover ag) + k)" "0 < k"
      "fo_idx (ag_failover ag) + k < length (fo_profiles (ag_failover ag))"
      "p = fo_profiles (ag_failover ag) ! (fo_idx (ag_failover ag) + k)"
      "try_context_window (ag_config ag) (pf_window p) = None"
      "ag1 = commit_advance k p (we_cleared_now env) ag"
      "advance_failover build kit env round prior trigger ag =
         (if marked_in ag1 (pf_id p) (we_paced_now env)
          then Some (Advanced (pf_id (current_profile (ag_failover ag))) (pf_id p) prior, ag1)
          else advance_compact kit env round (pf_id (current_profile (ag_failover ag))) (pf_id p) prior ag1)"
proof -
  let ?ps = "drop (fo_idx (ag_failover ag) + 1) (fo_profiles (ag_failover ag))"
  let ?sk = "\<lparr>sk_infeasible = False, sk_unbuildable = False, sk_marked = False\<rparr>"
  have idx: "fo_idx (ag_failover ag) < length (fo_profiles (ag_failover ag))"
    using assms(1) by (simp add: failover_ok_def)
  show thesis
  proof (cases "can_advance (ag_failover ag)")
    case False
    then have "usable_ahead build (we_now env) ag = {}"
      by (auto simp: usable_ahead_def can_advance_def)
    with False assms(2) show thesis by (auto simp: advance_failover_def Let_def intro: exhausted)
  next
    case True
    obtain r sk where walk: "walk_chain (candidate_verdict_of build ag (we_now env)) 1 ?ps ?sk = (r, sk)"
      by fastforce
    show thesis
    proof (cases r)
      case None
      with walk_chain_None [of _ 1 ?ps ?sk sk] walk
      have "\<forall>p \<in> set ?ps. candidate_verdict_of build ag (we_now env) p \<noteq> Usable" by blast
      then have "usable_ahead build (we_now env) ag = {}"
        unfolding drop_ahead [OF idx] usable_ahead_def by blast
      with None True walk assms(2) show thesis by (auto simp: advance_failover_def intro: exhausted)
    next
      case (Some kp)
      obtain k p where kp: "kp = (k, p)" by (cases kp)
      note first = first_usable [OF assms(1) walk [unfolded Some kp]]
      have run: "advance_failover build kit env round prior trigger ag =
         (if marked_in (commit_advance k p (we_cleared_now env) ag) (pf_id p) (we_paced_now env)
          then Some (Advanced (pf_id (current_profile (ag_failover ag))) (pf_id p) prior,
            commit_advance k p (we_cleared_now env) ag)
          else advance_compact kit env round (pf_id (current_profile (ag_failover ag))) (pf_id p) prior
            (commit_advance k p (we_cleared_now env) ag))"
        using Some kp True walk assms(2) by (simp add: advance_failover_def Let_def)
      from first run show thesis by (intro landed [OF _ _ _ _ _ refl]) blast+
    qed
  qed
qed

text \<open>What an advance may change, besides the table and the budget.\<close>

lemma advance_result:
  assumes "failover_ok (ag_failover ag)" and "\<not> we_cancelled env" and "store_ok (ag_store ag)"
    and "advance_failover build kit env round prior trigger ag = Some (out, ag')"
  shows "(if usable_ahead build (we_now env) ag = {}
      then ag' = ag \<and> (\<exists>r. out = OutChainExhausted r trigger)
      else is_arg_min id (\<lambda>i. i \<in> usable_ahead build (we_now env) ag) (fo_idx (ag_failover ag'))
        \<and> failover_ok (ag_failover ag') \<and> ag_client ag' = current_profile (ag_failover ag')
        \<and> fo_profiles (ag_failover ag') = fo_profiles (ag_failover ag)
        \<and> cf_window (ag_config ag') = pf_window (ag_client ag') \<and> budget_ok (ag_config ag')
        \<and> cs_pinned_budget (ag_store ag') = pinned_budget (ag_config ag')
        \<and> cs_caps (ag_store ag') = config_eviction_caps (ag_config ag')
        \<and> store_ok (ag_store ag') \<and> suffix (conversation (ag_store ag')) (conversation (ag_store ag))
        \<and> cs_needs_full (ag_store ag') \<and> out \<noteq> OutCancelled
        \<and> \<not> (\<exists>r e. out = OutChainExhausted r e))"
  using assms(1,2)
proof (cases rule: advance_cases [where build = build and kit = kit and round = round and prior = prior
      and trigger = trigger])
  case (exhausted r)
  with assms(4) show ?thesis by auto
next
  case (landed k p ag1)
  note commit = commit_advance_facts [of ag k p "we_cleared_now env", OF assms(1) landed(3,4,5), folded landed(6)]
  have ok: "store_ok (ag_store ag1)" using assms(3) landed(6) by (simp add: commit_advance_ok)
  have "agent_frame ag1 ag' \<and> compacts_to (ag_store ag1) (ag_store ag') \<and> out \<noteq> OutCancelled
      \<and> \<not> (\<exists>r e. out = OutChainExhausted r e)"
  proof (cases "marked_in ag1 (pf_id p) (we_paced_now env)")
    case True
    with landed(7) assms(4) ok show ?thesis by (auto simp: agent_frame_refl compacts_to_refl)
  next
    case False
    with landed(7) assms(4) have "advance_compact kit env round (pf_id (current_profile (ag_failover ag)))
        (pf_id p) prior ag1 = Some (out, ag')" by simp
    from advance_compact_facts [OF this ok] show ?thesis by (cases out) auto
  qed
  moreover have "usable_ahead build (we_now env) ag \<noteq> {}" using landed(1) by (auto simp: is_arg_min_def)
  moreover have "conversation (ag_store ag1) = conversation (ag_store ag)"
    using commit(10) by (simp add: conversation_def)
  ultimately show ?thesis
    using commit landed(1) by (auto simp: agent_frame_def compacts_to_def)
qed

lemma commit_advance_policy: "cf_retry (ag_config (commit_advance k p now ag)) = cf_retry (ag_config ag)"
  by (simp add: commit_advance_def reapply_window_def set_context_window_def Let_def split: option.split)

lemma advance_policy:
  assumes "advance_failover build kit env round prior trigger ag = Some (out, ag')" and "store_ok (ag_store ag)"
  shows "cf_retry (ag_config ag') = cf_retry (ag_config ag)"
proof -
  have "cf_retry (ag_config ag') = cf_retry (ag_config ag)"
    if "advance_compact kit env round a b prior (commit_advance k p now ag) = Some (out, ag')" for a b k p now
    using advance_compact_facts [OF that commit_advance_ok [OF assms(2)]]
    by (simp add: agent_frame_def commit_advance_policy)
  with assms(1) show ?thesis
    by (auto simp: advance_failover_def Let_def commit_advance_policy split: if_splits option.splits prod.splits)
qed

lemma advance_returns:
  assumes "failover_ok (ag_failover ag)" and "store_ok (ag_store ag)"
    and "length (conversation (ag_store ag)) \<le> length (we_passes env)"
  shows "\<exists>out ag'. advance_failover build kit env round prior trigger ag = Some (out, ag')"
proof (cases "we_cancelled env")
  case True
  then show ?thesis by (simp add: advance_failover_def Let_def)
next
  case False
  with assms(1) show ?thesis
  proof (cases rule: advance_cases [where build = build and kit = kit and round = round and prior = prior
      and trigger = trigger])
    case (landed k p ag1)
    note commit = commit_advance_facts [of ag k p "we_cleared_now env", OF assms(1) landed(3,4,5), folded landed(6)]
    have "store_ok (ag_store ag1)" using assms(2) landed(6) by (simp add: commit_advance_ok)
    moreover have "length (conversation (ag_store ag1)) \<le> length (we_passes env)"
      using commit(10) assms(3) by (simp add: conversation_def)
    ultimately show ?thesis using advance_compact_returns landed(7) by auto
  qed auto
qed

section \<open>Properties\<close>

text \<open>C20. The walk always comes back, and lands on the first profile ahead that the table has not marked,
  that builds and whose window fits the budget; then the index, the mirrored snapshot, the client, the
  window, the pinned budget and the caps all belong to that profile, the next estimate is a full one,
  and compaction on the new endpoint only dropped turns from the front. With no such profile the walk
  changes nothing and reports the chain exhausted.\<close>

theorem advance_lands_on_first_usable:
  assumes "failover_ok (ag_failover ag)" and "\<not> we_cancelled env" and "store_ok (ag_store ag)"
    and "length (conversation (ag_store ag)) \<le> length (we_passes env)"
  shows "\<exists>out ag'. advance_failover build kit env round prior trigger ag = Some (out, ag') \<and>
    (if usable_ahead build (we_now env) ag = {}
      then ag' = ag \<and> (\<exists>r. out = OutChainExhausted r trigger)
      else is_arg_min id (\<lambda>i. i \<in> usable_ahead build (we_now env) ag) (fo_idx (ag_failover ag'))
        \<and> failover_ok (ag_failover ag') \<and> ag_client ag' = current_profile (ag_failover ag')
        \<and> cf_window (ag_config ag') = pf_window (ag_client ag') \<and> budget_ok (ag_config ag')
        \<and> cs_pinned_budget (ag_store ag') = pinned_budget (ag_config ag')
        \<and> cs_caps (ag_store ag') = config_eviction_caps (ag_config ag')
        \<and> store_ok (ag_store ag') \<and> suffix (conversation (ag_store ag')) (conversation (ag_store ag))
        \<and> cs_needs_full (ag_store ag'))"
proof -
  from advance_returns [OF assms(1,3,4)] obtain out ag'
    where run: "advance_failover build kit env round prior trigger ag = Some (out, ag')" by blast
  from advance_result [OF assms(1,2,3) run] run show ?thesis by auto
qed

definition demo_walk :: walk_env where
  "demo_walk = \<lparr>we_cancelled = False, we_now = 1001, we_cleared_now = 1001, we_paced_now = 1001,
     we_passes = [], we_failure = \<lparr>fe_now = 1001, fe_jitter = 0, fe_log_now = 1001, fe_wait_jitter = 0,
       fe_today = ''d''\<rparr>\<rparr>"

theorem advance_lands_on_first_usable_witness:
  "\<exists>out ag'. advance_failover (\<lambda>p. pf_id p \<noteq> ''p'') demo_kit demo_walk 0 [] (PlainError ''lost'') demo_agent
       = Some (out, ag')
     \<and> fo_idx (ag_failover ag') = 2
     \<and> cf_window (ag_config ag') = pf_window (current_profile (ag_failover ag'))"
proof -
  let ?build = "\<lambda>p. pf_id p \<noteq> ''p''"
  have ok: "failover_ok (ag_failover demo_agent)" "store_ok (ag_store demo_agent)"
    by (simp_all add: demo_agent_def demo_chain_def failover_new_ok store_ok_new)
  have empty: "length (conversation (ag_store demo_agent)) \<le> length (we_passes demo_walk)"
    by (simp add: demo_agent_def conversation_def store_new_def)
  have table: "\<not> marked_in demo_agent ''q'' 1001" "\<not> marked_in demo_agent ''r'' 1001"
    by (simp_all add: marked_in_def candidate_marked_def demo_agent_def table_paced_for_def)
  have "try_context_window demo_config 9000 \<noteq> None" "try_context_window demo_config 64000 = None"
    by (simp_all add: try_context_window_def check_context_budget_def demo_config_def config_consts Let_def)
  then have "candidate_verdict_of ?build demo_agent 1001 (demo_profile ''q'' 9000) = Infeasible"
    "candidate_verdict_of ?build demo_agent 1001 (demo_profile ''r'' 64000) = Usable"
    using table by (simp_all add: candidate_verdict_of_def demo_profile_def demo_agent_def)
  moreover have "fo_idx (ag_failover demo_agent) = 0" "fo_profiles (ag_failover demo_agent) = demo_chain"
    by (simp_all add: demo_agent_def failover_new_def)
  ultimately have ahead: "usable_ahead ?build 1001 demo_agent = {2}"
    by (auto simp: usable_ahead_def demo_chain_def less_Suc_eq numeral_3_eq_3 numeral_2_eq_2)
  have calm: "\<not> we_cancelled demo_walk" "we_now demo_walk = 1001" by (simp_all add: demo_walk_def)
  from advance_lands_on_first_usable [OF ok(1) calm(1) ok(2) empty, of ?build demo_kit 0 "[]" "PlainError ''lost''"]
  obtain out ag' where run: "advance_failover ?build demo_kit demo_walk 0 [] (PlainError ''lost'') demo_agent
      = Some (out, ag')"
    and facts: "is_arg_min id (\<lambda>i. i \<in> {2}) (fo_idx (ag_failover ag'))"
    "ag_client ag' = current_profile (ag_failover ag')" "cf_window (ag_config ag') = pf_window (ag_client ag')"
    unfolding calm(2) ahead by auto
  from facts(1) have "fo_idx (ag_failover ag') = 2" by (simp add: is_arg_min_def)
  with run facts show ?thesis by auto
qed

text \<open>What an exhausted walk reports: a window that does not fit is named before a client that
  does not build, and only a chain whose every candidate is marked counts as exhausted backups.\<close>

theorem exhaustion_names_the_cause:
  assumes "walk_chain verdict 1 ps \<lparr>sk_infeasible = False, sk_unbuildable = False, sk_marked = False\<rparr>
      = (None, sk)"
    and "ps \<noteq> []"
  shows "exhaustion_of sk =
    (if Infeasible \<in> verdict ` set ps then AllCandidatesInfeasible
     else if Unbuildable \<in> verdict ` set ps then AllCandidatesUnbuildable
     else AllBackupsExhausted)"
proof -
  have im: "(\<exists>p \<in> set ps. verdict p = c) \<longleftrightarrow> c \<in> verdict ` set ps" for c by blast
  from walk_chain_None [OF assms(1)] have none: "\<forall>p \<in> set ps. verdict p \<noteq> Usable"
    and flags: "sk_infeasible sk \<longleftrightarrow> Infeasible \<in> verdict ` set ps"
      "sk_unbuildable sk \<longleftrightarrow> Unbuildable \<in> verdict ` set ps"
      "sk_marked sk \<longleftrightarrow> Marked \<in> verdict ` set ps" by (simp_all add: im)
  have "Marked \<in> verdict ` set ps" if "Infeasible \<notin> verdict ` set ps" "Unbuildable \<notin> verdict ` set ps"
  proof -
    from assms(2) obtain q where q: "q \<in> set ps" by (cases ps) auto
    then have "verdict q \<in> verdict ` set ps" by (rule imageI)
    with that none q have "verdict q = Marked" by (cases "verdict q") auto
    with q show ?thesis by (auto intro: rev_image_eqI)
  qed
  with flags show ?thesis by (auto simp: exhaustion_of_def)
qed

theorem exhaustion_names_the_cause_witness:
  "exhaustion_of (snd (walk_chain (\<lambda>p. if pf_id p = ''q'' then Unbuildable else Marked) 1 demo_chain
     \<lparr>sk_infeasible = False, sk_unbuildable = False, sk_marked = False\<rparr>)) = AllCandidatesUnbuildable"
proof -
  let ?v = "\<lambda>p. if pf_id p = ''q'' then Unbuildable else Marked"
  let ?sk = "\<lparr>sk_infeasible = False, sk_unbuildable = False, sk_marked = False\<rparr>"
  have "fst (walk_chain ?v 1 demo_chain ?sk) = None" by (simp add: demo_chain_def demo_profile_def)
  then obtain sk where run: "walk_chain ?v 1 demo_chain ?sk = (None, sk)" by (metis prod.collapse)
  have "Unbuildable \<in> ?v ` set demo_chain" "Infeasible \<notin> ?v ` set demo_chain"
    by (auto simp: demo_chain_def demo_profile_def)
  then show ?thesis using exhaustion_names_the_cause [OF run] run by (simp add: demo_chain_def)
qed

end
