(* ===== verification/Dir_Lock.thy ===== *)
theory Dir_Lock
  imports Prelude
begin

text \<open>
  The directory write-lock coordinator (\<open>crates/kallipai-adk/src/dirlock.rs\<close>). A canonical path is
  the list of its components below the root; \<open>PathBuf\<close>'s order is lexicographic on components, so
  the \<open>BTreeMap\<close> is an association list sorted by key. Resolving a path in the file system is a
  parameter \<open>canon\<close>, whose answer \<open>None\<close> is the error. The manager's mutex makes each operation
  one step.
\<close>

section \<open>State\<close>

type_synonym path = "string list"
type_synonym agent_id = string
type_synonym lock_map = "(path \<times> agent_id option) list"

definition MAX_LOCKS_PER_AGENT :: usize where "MAX_LOCKS_PER_AGENT = 8"

datatype acquire_outcome = Acquired | AlreadyHeld | Busy agent_id path

datatype transfer_outcome = Transferred | NotOwner

datatype lock_error = CannotCanonicalize | SelfOverlap path path | CapReached

text \<open>\<open>BTreeMap::insert\<close> on the sorted list.\<close>

fun bt_put :: "'k::linorder \<Rightarrow> 'v \<Rightarrow> ('k \<times> 'v) list \<Rightarrow> ('k \<times> 'v) list" where
  "bt_put k v [] = [(k, v)]"
| "bt_put k v ((k', v') # m) =
     (if k < k' then (k, v) # (k', v') # m
      else if k = k' then (k, v) # m
      else (k', v') # bt_put k v m)"

definition bt_sorted :: "('k::linorder \<times> 'v) list \<Rightarrow> bool" where
  "bt_sorted m \<longleftrightarrow> sorted_wrt (<) (map fst m)"

definition retain_held :: "lock_map \<Rightarrow> lock_map" where
  "retain_held m = filter (\<lambda>e. snd e \<noteq> None) m"

section \<open>Conflicts\<close>

text \<open>\<open>Path::ancestors().skip(1)\<close>: the proper prefixes, nearest first.\<close>

definition proper_ancestors :: "path \<Rightarrow> path list" where
  "proper_ancestors p = map (\<lambda>n. take n p) (rev [0..<length p])"

definition blocked_by :: "path \<Rightarrow> agent_id \<Rightarrow> agent_id \<Rightarrow> path \<Rightarrow> lock_error + acquire_outcome" where
  "blocked_by c agent writer conflict =
     (if writer = agent then Inl (SelfOverlap c conflict) else Inr (Busy writer conflict))"

fun ancestor_conflict ::
  "lock_map \<Rightarrow> path \<Rightarrow> agent_id \<Rightarrow> agent_id list \<Rightarrow> path list \<Rightarrow> (lock_error + acquire_outcome) option"
where
  "ancestor_conflict dirs c agent chain [] = None"
| "ancestor_conflict dirs c agent chain (anc # rest) =
     (case map_of dirs anc of
        Some (Some writer) \<Rightarrow>
          if writer = agent then Some (blocked_by c agent writer anc)
          else if writer \<in> set chain then ancestor_conflict dirs c agent chain rest
          else Some (blocked_by c agent writer anc)
      | _ \<Rightarrow> ancestor_conflict dirs c agent chain rest)"

fun descendant_scan ::
  "path \<Rightarrow> agent_id \<Rightarrow> lock_map \<Rightarrow> (lock_error + acquire_outcome) option" where
  "descendant_scan c agent [] = None"
| "descendant_scan c agent ((k, st) # m) =
     (if \<not> prefix c k then None
      else case st of
        Some writer \<Rightarrow> Some (blocked_by c agent writer k)
      | None \<Rightarrow> descendant_scan c agent m)"

definition overlap_conflict ::
  "lock_map \<Rightarrow> path \<Rightarrow> agent_id \<Rightarrow> agent_id list \<Rightarrow> (lock_error + acquire_outcome) option" where
  "overlap_conflict dirs c agent chain =
     (case ancestor_conflict dirs c agent chain (proper_ancestors c) of
        Some res \<Rightarrow> Some res
      | None \<Rightarrow> descendant_scan c agent (filter (\<lambda>e. c < fst e) dirs))"

definition count_held :: "lock_map \<Rightarrow> agent_id \<Rightarrow> nat" where
  "count_held dirs agent = length (filter (\<lambda>e. snd e = Some agent) dirs)"

section \<open>Operations\<close>

definition acquire_at ::
  "agent_id \<Rightarrow> path \<Rightarrow> agent_id list \<Rightarrow> lock_map \<Rightarrow> (lock_error + acquire_outcome) \<times> lock_map" where
  "acquire_at agent c chain dirs =
     (case map_of dirs c of
        Some (Some holder) \<Rightarrow>
          if holder = agent then (Inr AlreadyHeld, dirs) else (Inr (Busy holder c), dirs)
      | _ \<Rightarrow>
          (case overlap_conflict dirs c agent chain of
             Some res \<Rightarrow> (res, dirs)
           | None \<Rightarrow>
               if MAX_LOCKS_PER_AGENT \<le> count_held dirs agent then (Inl CapReached, dirs)
               else (Inr Acquired, bt_put c (Some agent) dirs)))"

definition acquire ::
  "('p \<Rightarrow> path option) \<Rightarrow> agent_id \<Rightarrow> 'p \<Rightarrow> agent_id list \<Rightarrow> lock_map
     \<Rightarrow> (lock_error + acquire_outcome) \<times> lock_map" where
  "acquire canon agent p chain dirs =
     (case canon p of
        None \<Rightarrow> (Inl CannotCanonicalize, dirs)
      | Some c \<Rightarrow> acquire_at agent c chain dirs)"

definition release_at :: "agent_id \<Rightarrow> path \<Rightarrow> lock_map \<Rightarrow> lock_map" where
  "release_at agent c dirs =
     retain_held (map (\<lambda>e. if fst e = c \<and> snd e = Some agent then (fst e, None) else e) dirs)"

definition release :: "('p \<Rightarrow> path option) \<Rightarrow> agent_id \<Rightarrow> 'p \<Rightarrow> lock_map \<Rightarrow> lock_map" where
  "release canon agent p dirs =
     (case canon p of None \<Rightarrow> dirs | Some c \<Rightarrow> release_at agent c dirs)"

definition transfer_at ::
  "agent_id \<Rightarrow> agent_id \<Rightarrow> path \<Rightarrow> lock_map \<Rightarrow> transfer_outcome \<times> lock_map" where
  "transfer_at src dst c dirs =
     (if map_of dirs c = Some (Some src)
      then (Transferred, map (\<lambda>e. if fst e = c then (c, Some dst) else e) dirs)
      else (NotOwner, dirs))"

definition transfer ::
  "('p \<Rightarrow> path option) \<Rightarrow> agent_id \<Rightarrow> agent_id \<Rightarrow> 'p \<Rightarrow> lock_map
     \<Rightarrow> (lock_error + transfer_outcome) \<times> lock_map" where
  "transfer canon src dst p dirs =
     (case canon p of
        None \<Rightarrow> (Inl CannotCanonicalize, dirs)
      | Some c \<Rightarrow> (let r = transfer_at src dst c dirs in (Inr (fst r), snd r)))"

definition release_all :: "agent_id \<Rightarrow> lock_map \<Rightarrow> lock_map" where
  "release_all agent dirs =
     retain_held (map (\<lambda>e. if snd e = Some agent then (fst e, None) else e) dirs)"

definition write_paths :: "agent_id \<Rightarrow> lock_map \<Rightarrow> path list" where
  "write_paths agent dirs = map fst (filter (\<lambda>e. snd e = Some agent) dirs)"

definition readonly_paths :: "agent_id \<Rightarrow> lock_map \<Rightarrow> path list" where
  "readonly_paths agent dirs =
     map fst (filter (\<lambda>e. snd e \<noteq> None \<and> snd e \<noteq> Some agent) dirs)"

definition holder :: "('p \<Rightarrow> path option) \<Rightarrow> 'p \<Rightarrow> lock_map \<Rightarrow> lock_error + agent_id option" where
  "holder canon p dirs =
     (case canon p of
        None \<Rightarrow> Inl CannotCanonicalize
      | Some c \<Rightarrow> Inr (Option.bind (map_of dirs c) id))"

definition holds_exact :: "('p \<Rightarrow> path option) \<Rightarrow> agent_id \<Rightarrow> 'p \<Rightarrow> lock_map \<Rightarrow> bool" where
  "holds_exact canon agent p dirs =
     (case canon p of None \<Rightarrow> False | Some c \<Rightarrow> map_of dirs c = Some (Some agent))"

definition probe_at ::
  "agent_id \<Rightarrow> path \<Rightarrow> agent_id list \<Rightarrow> lock_map \<Rightarrow> lock_error + (agent_id \<times> path) option" where
  "probe_at agent c chain dirs =
     (case map_of dirs c of
        Some (Some h) \<Rightarrow>
          if h \<noteq> agent then Inr (Some (h, c))
          else (case overlap_conflict dirs c agent chain of
                  Some (Inr (Busy h' conflict)) \<Rightarrow> Inr (Some (h', conflict))
                | Some (Inl err) \<Rightarrow> Inl err
                | _ \<Rightarrow> Inr None)
      | _ \<Rightarrow>
          (case overlap_conflict dirs c agent chain of
             Some (Inr (Busy h' conflict)) \<Rightarrow> Inr (Some (h', conflict))
           | Some (Inl err) \<Rightarrow> Inl err
           | _ \<Rightarrow> Inr None))"

definition probe_conflict ::
  "('p \<Rightarrow> path option) \<Rightarrow> agent_id \<Rightarrow> 'p \<Rightarrow> agent_id list \<Rightarrow> lock_map
     \<Rightarrow> lock_error + (agent_id \<times> path) option" where
  "probe_conflict canon agent p chain dirs =
     (case canon p of
        None \<Rightarrow> Inl CannotCanonicalize
      | Some c \<Rightarrow> probe_at agent c chain dirs)"

section \<open>Sorted maps\<close>

lemma bt_sorted_distinct: "bt_sorted m \<Longrightarrow> keys_distinct m"
  by (simp add: bt_sorted_def keys_distinct_def strict_sorted_iff)

lemma set_keys_bt_put: "set (map fst (bt_put k v m)) = insert k (set (map fst m))"
  by (induction k v m rule: bt_put.induct) auto

lemma bt_sorted_put: "bt_sorted m \<Longrightarrow> bt_sorted (bt_put k v m)"
proof (induction k v m rule: bt_put.induct)
  case (1 k v)
  then show ?case by (simp add: bt_sorted_def)
next
  case (2 k v k' v' m)
  then show ?case
    using set_keys_bt_put [of k v m] by (auto simp: bt_sorted_def)
qed

lemma map_of_bt_put: "bt_sorted m \<Longrightarrow> map_of (bt_put k v m) = (map_of m)(k \<mapsto> v)"
proof (induction k v m rule: bt_put.induct)
  case (1 k v)
  then show ?case by simp
next
  case (2 k v k' v' m)
  then show ?case by (auto simp: bt_sorted_def fun_upd_twist)
qed

lemma bt_sorted_filter: "bt_sorted m \<Longrightarrow> bt_sorted (filter P m)"
  by (induction m) (auto simp: bt_sorted_def)

lemma bt_sorted_map_vals: "bt_sorted m \<Longrightarrow> (\<And>e. fst (f e) = fst e) \<Longrightarrow> bt_sorted (map f m)"
  by (simp add: bt_sorted_def comp_def)

text \<open>In the component order the descendants of a path are contiguous: what lies between the path
  and one of its descendants is a descendant.\<close>

lemma between_is_descendant:
  fixes c :: path
  shows "c \<le> k \<Longrightarrow> k \<le> l \<Longrightarrow> prefix c l \<Longrightarrow> prefix c k"
proof (induction c arbitrary: k l)
  case Nil
  then show ?case by simp
next
  case (Cons x c)
  from Cons.prems(1) obtain y k' where k: "k = y # k'" by (cases k) auto
  from Cons.prems(3) obtain l' where l: "l = x # l'" "prefix c l'" by (cases l) auto
  from Cons.prems(1,2) k l(1) have "x = y" by (auto simp: Cons_le_Cons)
  moreover from this have "c \<le> k'" "k' \<le> l'" using Cons.prems(1,2) k l(1) by (auto simp: Cons_le_Cons)
  ultimately show ?case using Cons.IH l(2) k by simp
qed

lemma prefix_le: "prefix c k \<Longrightarrow> c \<le> k" for c k :: path
proof (induction c arbitrary: k)
  case Nil
  then show ?case by simp
next
  case (Cons x c)
  then show ?case by (cases k) (auto simp: Cons_le_Cons)
qed

section \<open>What the two scans find\<close>

lemma set_proper_ancestors: "set (proper_ancestors p) = {q. strict_prefix q p}"
proof -
  have "q \<in> (\<lambda>n. take n p) ` {0..<length p} \<longleftrightarrow> strict_prefix q p" for q
  proof
    assume "q \<in> (\<lambda>n. take n p) ` {0..<length p}"
    then obtain n where "n < length p" "q = take n p" by auto
    then show "strict_prefix q p" by (auto simp: strict_prefix_def take_is_prefix)
  next
    assume "strict_prefix q p"
    then have "length q < length p" "q = take (length q) p"
      by (auto simp: strict_prefix_def prefix_def)
    then show "q \<in> (\<lambda>n. take n p) ` {0..<length p}" by auto
  qed
  then show ?thesis by (auto simp: proper_ancestors_def)
qed

lemma ancestor_conflict_None:
  "ancestor_conflict dirs c agent chain as = None \<longleftrightarrow>
     (\<forall>a \<in> set as. \<forall>w. map_of dirs a = Some (Some w) \<longrightarrow> w \<noteq> agent \<and> w \<in> set chain)"
  by (induction as) (auto split: option.split)

lemma ancestor_conflict_Some:
  "ancestor_conflict dirs c agent chain as = Some r \<Longrightarrow>
     \<exists>a w. a \<in> set as \<and> map_of dirs a = Some (Some w) \<and> (w = agent \<or> w \<notin> set chain)
       \<and> r = blocked_by c agent w a"
  by (induction as) (auto split: option.splits if_splits)

lemma descendant_scan_Some:
  "descendant_scan c agent m = Some r \<Longrightarrow>
     \<exists>k w. (k, Some w) \<in> set m \<and> prefix c k \<and> r = blocked_by c agent w k"
  by (induction c agent m rule: descendant_scan.induct) (fastforce split: option.splits if_splits)+

lemma descendant_scan_None:
  assumes "bt_sorted m" and "\<forall>e \<in> set m. c < fst e" and "descendant_scan c agent m = None"
    and "(k, Some w) \<in> set m"
  shows "\<not> prefix c k"
  using assms
proof (induction c agent m rule: descendant_scan.induct)
  case (1 c agent)
  then show ?case by simp
next
  case (2 c agent k' st m)
  show ?case
  proof (cases "prefix c k'")
    case False
    have "k' \<le> k" using "2.prems"(1,4) by (auto simp: bt_sorted_def)
    moreover have "c \<le> k'" using "2.prems"(2) by (auto intro: less_imp_le)
    ultimately show ?thesis using False between_is_descendant by blast
  next
    case True
    with "2.prems"(3) have "st = None" and "descendant_scan c agent m = None"
      by (auto split: option.splits)
    moreover have "bt_sorted m" "\<forall>e \<in> set m. c < fst e"
      using "2.prems"(1,2) by (auto simp: bt_sorted_def)
    ultimately show ?thesis using "2.IH" True "2.prems"(4) by auto
  qed
qed

text \<open>The locks that stand in the way of a new one at \<open>c\<close>, without any scan order.\<close>

definition conflicts :: "lock_map \<Rightarrow> path \<Rightarrow> agent_id \<Rightarrow> agent_id list \<Rightarrow> path set" where
  "conflicts dirs c agent chain =
     {q. \<exists>w. map_of dirs q = Some (Some w)
        \<and> (strict_prefix q c \<and> (w = agent \<or> w \<notin> set chain) \<or> strict_prefix c q)}"

lemma map_of_sorted: "bt_sorted m \<Longrightarrow> map_of m k = Some v \<longleftrightarrow> (k, v) \<in> set m"
  using bt_sorted_distinct [of m] by (simp add: keys_distinct_def)

lemma overlap_conflict_None_iff:
  assumes "bt_sorted dirs"
  shows "overlap_conflict dirs c agent chain = None \<longleftrightarrow> conflicts dirs c agent chain = {}"
proof -
  let ?above = "filter (\<lambda>e. c < fst e) dirs"
  have sorted: "bt_sorted ?above" using assms by (rule bt_sorted_filter)
  have desc: "descendant_scan c agent ?above = None \<longleftrightarrow>
      (\<forall>k w. map_of dirs k = Some (Some w) \<longrightarrow> \<not> strict_prefix c k)"
  proof
    assume none: "descendant_scan c agent ?above = None"
    show "\<forall>k w. map_of dirs k = Some (Some w) \<longrightarrow> \<not> strict_prefix c k"
    proof (intro allI impI notI)
      fix k w assume "map_of dirs k = Some (Some w)" and sp: "strict_prefix c k"
      then have "(k, Some w) \<in> set dirs" using assms by (simp add: map_of_sorted)
      moreover have "c < k"
        using sp prefix_le [of c k] by (auto simp: strict_prefix_def)
      ultimately have "(k, Some w) \<in> set ?above" by simp
      with descendant_scan_None [OF sorted _ none] sp show False by (auto simp: strict_prefix_def)
    qed
  next
    assume free: "\<forall>k w. map_of dirs k = Some (Some w) \<longrightarrow> \<not> strict_prefix c k"
    show "descendant_scan c agent ?above = None"
    proof (rule ccontr)
      assume "descendant_scan c agent ?above \<noteq> None"
      then obtain r where "descendant_scan c agent ?above = Some r" by blast
      then obtain k w where "(k, Some w) \<in> set dirs" "prefix c k" "c < k"
        by (auto dest!: descendant_scan_Some)
      with free show False using assms by (auto simp: map_of_sorted strict_prefix_def)
    qed
  qed
  show ?thesis
    unfolding overlap_conflict_def conflicts_def
    using ancestor_conflict_None [of dirs c agent chain "proper_ancestors c"] desc
    by (auto simp: set_proper_ancestors split: option.split)
qed

lemma overlap_conflict_Some:
  assumes "bt_sorted dirs" and "overlap_conflict dirs c agent chain = Some r"
  shows "\<exists>q w. q \<in> conflicts dirs c agent chain \<and> map_of dirs q = Some (Some w)
    \<and> r = blocked_by c agent w q"
proof (cases "ancestor_conflict dirs c agent chain (proper_ancestors c)")
  case None
  with assms(2) have "descendant_scan c agent (filter (\<lambda>e. c < fst e) dirs) = Some r"
    by (simp add: overlap_conflict_def)
  from descendant_scan_Some [OF this] obtain k w where "(k, Some w) \<in> set dirs" "c < k"
    "prefix c k" "r = blocked_by c agent w k" by auto
  then show ?thesis
    using assms(1) by (auto simp: conflicts_def map_of_sorted strict_prefix_def)
next
  case (Some r')
  with assms(2) have "r' = r" by (simp add: overlap_conflict_def)
  with ancestor_conflict_Some [OF Some] show ?thesis
    by (auto simp: set_proper_ancestors conflicts_def)
qed

section \<open>The exclusion invariant\<close>

definition all_held :: "lock_map \<Rightarrow> bool" where
  "all_held dirs \<longleftrightarrow> list_all (\<lambda>e. snd e \<noteq> None) dirs"

text \<open>With a fixed delegation tree, \<open>chain_of a\<close> being the ancestors of \<open>a\<close>, every pair of
  overlapping locks is a delegation: the outer one belongs to an ancestor of the inner one's holder.\<close>

definition lock_ok :: "(agent_id \<Rightarrow> agent_id list) \<Rightarrow> lock_map \<Rightarrow> bool" where
  "lock_ok chain_of dirs \<longleftrightarrow>
     bt_sorted dirs \<and> all_held dirs
     \<and> (\<forall>p q wp wq. map_of dirs p = Some (Some wp) \<longrightarrow> map_of dirs q = Some (Some wq) \<longrightarrow>
          strict_prefix p q \<longrightarrow> wp \<noteq> wq \<and> wp \<in> set (chain_of wq))"

lemma lock_okD:
  assumes "lock_ok chain_of dirs"
  shows "bt_sorted dirs" "all_held dirs"
    "map_of dirs p = Some (Some wp) \<Longrightarrow> map_of dirs q = Some (Some wq) \<Longrightarrow> strict_prefix p q \<Longrightarrow>
       wp \<noteq> wq \<and> wp \<in> set (chain_of wq)"
  using assms by (auto simp: lock_ok_def)

lemma count_held_put:
  "map_of m k = None \<Longrightarrow> count_held (bt_put k (Some a) m) x = count_held m x + (if x = a then 1 else 0)"
  by (induction k "Some a" m rule: bt_put.induct) (auto simp: count_held_def split: if_splits)

lemma all_held_put: "all_held m \<Longrightarrow> all_held (bt_put k (Some a) m)"
  by (induction k "Some a" m rule: bt_put.induct) (auto simp: all_held_def)

lemma acquire_at_cases:
  obtains (unchanged) r where "acquire_at agent c chain dirs = (r, dirs)" "r \<noteq> Inr Acquired"
  | (granted) "acquire_at agent c chain dirs = (Inr Acquired, bt_put c (Some agent) dirs)"
      "\<forall>w. map_of dirs c \<noteq> Some (Some w)" "overlap_conflict dirs c agent chain = None"
      "count_held dirs agent < MAX_LOCKS_PER_AGENT"
proof -
  have not: "r \<noteq> Inr Acquired" if "overlap_conflict dirs c agent chain = Some r" for r
  proof -
    from that have "(\<exists>w q. r = blocked_by c agent w q)"
      by (auto simp: overlap_conflict_def split: option.splits
          dest!: ancestor_conflict_Some descendant_scan_Some)
    then show ?thesis by (auto simp: blocked_by_def split: if_splits)
  qed
  show ?thesis
  proof (cases "\<exists>w. map_of dirs c = Some (Some w)")
    case True
    then obtain w where "map_of dirs c = Some (Some w)" by blast
    then show ?thesis
      by (intro unchanged [of "if w = agent then Inr AlreadyHeld else Inr (Busy w c)"])
        (simp_all add: acquire_at_def)
  next
    case False
    then have eq: "acquire_at agent c chain dirs =
        (case overlap_conflict dirs c agent chain of
           Some res \<Rightarrow> (res, dirs)
         | None \<Rightarrow>
             if MAX_LOCKS_PER_AGENT \<le> count_held dirs agent then (Inl CapReached, dirs)
             else (Inr Acquired, bt_put c (Some agent) dirs))"
      unfolding acquire_at_def by (cases "map_of dirs c") (auto split: option.split)
    show ?thesis
    proof (cases "overlap_conflict dirs c agent chain")
      case None
      with eq False show ?thesis
        by (cases "MAX_LOCKS_PER_AGENT \<le> count_held dirs agent") (auto intro: unchanged granted)
    next
      case (Some r)
      with eq not show ?thesis by (auto intro: unchanged)
    qed
  qed
qed

lemma acquire_at_ok:
  assumes "lock_ok chain_of dirs"
  shows "lock_ok chain_of (snd (acquire_at agent c (chain_of agent) dirs))"
proof (cases rule: acquire_at_cases [of agent c "chain_of agent" dirs])
  case (unchanged r)
  with assms show ?thesis by simp
next
  case granted
  let ?m = "bt_put c (Some agent) dirs"
  note ok = lock_okD [OF assms]
  have fresh: "map_of dirs c = None"
    using granted(2) ok(2) by (cases "map_of dirs c") (auto simp: all_held_def list_all_iff dest!: map_of_SomeD)
  have none: "conflicts dirs c agent (chain_of agent) = {}"
    using granted(3) ok(1) by (simp add: overlap_conflict_None_iff)
  have look: "map_of ?m = (map_of dirs)(c \<mapsto> Some agent)" using ok(1) by (rule map_of_bt_put)
  have "wp \<noteq> wq \<and> wp \<in> set (chain_of wq)"
    if "map_of ?m p = Some (Some wp)" "map_of ?m q = Some (Some wq)" "strict_prefix p q" for p q wp wq
  proof (cases "p = c")
    case True
    with that(3) have "q \<noteq> c" by auto
    with that(2) have "map_of dirs q = Some (Some wq)" unfolding look by simp
    with True that(3) none show ?thesis by (auto simp: conflicts_def)
  next
    case False
    with that(1) have p: "map_of dirs p = Some (Some wp)" by (simp add: look)
    show ?thesis
    proof (cases "q = c")
      case True
      with that(2) have "wq = agent" by (simp add: look)
      with True that(3) p none show ?thesis by (auto simp: conflicts_def)
    next
      case False
      with that(2) have "map_of dirs q = Some (Some wq)" by (simp add: look)
      with ok(3) p that(3) show ?thesis by blast
    qed
  qed
  then show ?thesis
    using granted(1) ok(1,2) by (auto simp: lock_ok_def bt_sorted_put all_held_put)
qed

text \<open>A map whose entries are a subset of the old ones keeps the invariant.\<close>

lemma retain_sub:
  assumes "lock_ok chain_of dirs" and "\<And>e. fst (f e) = fst e"
    and "\<And>e. snd (f e) = None \<or> f e = e"
  shows "lock_ok chain_of (retain_held (map f dirs))"
proof -
  note ok = lock_okD [OF assms(1)]
  let ?m = "retain_held (map f dirs)"
  have sub: "e \<in> set dirs" if mem: "e \<in> set ?m" for e
  proof -
    from mem obtain d where d: "d \<in> set dirs" "e = f d" "snd e \<noteq> None"
      by (auto simp: retain_held_def)
    with assms(3) [of d] show ?thesis by metis
  qed
  have sorted: "bt_sorted ?m"
    unfolding retain_held_def by (intro bt_sorted_filter bt_sorted_map_vals ok(1) assms(2))
  have "map_of ?m p = Some (Some w) \<Longrightarrow> map_of dirs p = Some (Some w)" for p w
    using sub sorted ok(1) by (simp add: map_of_sorted)
  moreover have "all_held ?m" by (auto simp: all_held_def retain_held_def list_all_iff)
  ultimately show ?thesis using sorted ok(3) unfolding lock_ok_def by blast
qed

lemma release_at_ok: "lock_ok chain_of dirs \<Longrightarrow> lock_ok chain_of (release_at agent c dirs)"
  unfolding release_at_def by (rule retain_sub) auto

lemma release_all_ok: "lock_ok chain_of dirs \<Longrightarrow> lock_ok chain_of (release_all agent dirs)"
  unfolding release_all_def by (rule retain_sub) auto

section \<open>Handing a lock over\<close>

text \<open>The ancestors of an agent are not the agent, and theirs are among them.\<close>

definition delegation_tree :: "(agent_id \<Rightarrow> agent_id list) \<Rightarrow> bool" where
  "delegation_tree chain_of \<longleftrightarrow>
     (\<forall>a. a \<notin> set (chain_of a)) \<and> (\<forall>a b. b \<in> set (chain_of a) \<longrightarrow> set (chain_of b) \<subseteq> set (chain_of a))"

definition holds_some :: "agent_id \<Rightarrow> lock_map \<Rightarrow> bool" where
  "holds_some a dirs \<longleftrightarrow> list_ex (\<lambda>e. snd e = Some a) dirs"

text \<open>
  When the server hands the lock of a whole workspace over (\<open>kallipai-tagma/src/lifecycle/workspace.rs\<close>,
  \<open>routes/agent/permissions.rs\<close>, \<open>routes/agent/lifecycle.rs\<close>). Forward, at the spawn or the restore of a handoff child: the
  child is new and holds nothing, and its supervisor has no other children, so that whoever below the supervisor
  holds a lock is below the child. Back, at its removal or on the unwinding of a spawn that failed: to the
  supervisor, which holds nothing around the workspace.
\<close>

definition handoff :: "(agent_id \<Rightarrow> agent_id list) \<Rightarrow> agent_id \<Rightarrow> agent_id \<Rightarrow> path \<Rightarrow> lock_map \<Rightarrow> bool" where
  "handoff chain_of src dst c dirs \<longleftrightarrow>
     (if chain_of dst = src # chain_of src
      then \<not> holds_some dst dirs
        \<and> list_all (\<lambda>e. case snd e of Some h \<Rightarrow> src \<notin> set (chain_of h) \<or> dst \<in> set (chain_of h) | None \<Rightarrow> True) dirs
      else chain_of src = dst # chain_of dst
        \<and> list_all (\<lambda>e. snd e \<noteq> Some dst \<or> \<not> strict_prefix (fst e) c) dirs)"

lemma transfer_at_ok:
  assumes ok: "lock_ok chain_of dirs" and tree: "delegation_tree chain_of" and hand: "handoff chain_of src dst c dirs"
  shows "lock_ok chain_of (snd (transfer_at src dst c dirs))"
proof (cases "map_of dirs c = Some (Some src)")
  case False
  with ok show ?thesis by (simp add: transfer_at_def)
next
  case True
  let ?m = "map (\<lambda>e. if fst e = c then (c, Some dst) else e) dirs"
  note inv = lock_okD [OF ok]
  have sorted: "bt_sorted ?m" by (rule bt_sorted_map_vals) (auto intro: inv(1))
  have look: "map_of ?m k = (if k = c then Some (Some dst) else map_of dirs k)" for k
  proof -
    have "c \<in> fst ` set ds \<Longrightarrow>
        map_of (map (\<lambda>e. if fst e = c then (c, Some dst) else e) ds) k = (if k = c then Some (Some dst) else map_of ds k)" for ds
    proof (induction ds)
      case (Cons e ds)
      have "map_of (map (\<lambda>e. if fst e = c then (c, Some dst) else e) ds) k = map_of ds k" if "c \<notin> fst ` set ds"
        using that by (induction ds) auto
      with Cons show ?case by (cases "c \<in> fst ` set ds") auto
    qed simp
    moreover have "c \<in> fst ` set dirs" using map_of_SomeD [OF True] by force
    ultimately show ?thesis by blast
  qed
  have mem: "(k, Some w) \<in> set dirs" if "map_of dirs k = Some (Some w)" for k w using map_of_SomeD [OF that] .
  have around: "w \<noteq> dst \<and> w \<in> set (chain_of dst)" if w: "map_of dirs p = Some (Some w)" "strict_prefix p c" for p w
  proof -
    have "w \<noteq> src \<and> w \<in> set (chain_of src)" using inv(3) [OF w(1) True w(2)] .
    with hand mem [OF w(1)] w(2) show ?thesis
      by (auto simp: handoff_def holds_some_def list_all_iff list_ex_iff split: if_splits)
  qed
  have inside: "dst \<noteq> w \<and> dst \<in> set (chain_of w)" if w: "map_of dirs q = Some (Some w)" "strict_prefix c q" for q w
  proof -
    have w_below: "src \<in> set (chain_of w)" using inv(3) [OF True w] by simp
    have "dst \<in> set (chain_of w)"
    proof (cases "chain_of dst = src # chain_of src")
      case True
      with hand mem [OF w(1)] w_below show ?thesis by (force simp: handoff_def list_all_iff)
    next
      case False
      with hand have "dst \<in> set (chain_of src)" by (simp add: handoff_def)
      with tree w_below show ?thesis unfolding delegation_tree_def by blast
    qed
    with tree show ?thesis by (auto simp: delegation_tree_def)
  qed
  have "wp \<noteq> wq \<and> wp \<in> set (chain_of wq)"
    if "map_of ?m p = Some (Some wp)" "map_of ?m q = Some (Some wq)" "strict_prefix p q" for p q wp wq
    using that inv(3) [of p wp q wq] around [of p wp] inside [of q wq] unfolding look by (auto split: if_splits)
  moreover have "all_held ?m" using inv(2) by (auto simp: all_held_def list_all_iff)
  ultimately have "lock_ok chain_of ?m" using sorted by (simp add: lock_ok_def)
  then show ?thesis using True by (simp add: transfer_at_def)
qed

section \<open>Runs\<close>

datatype 'p lock_op =
    LAcquire agent_id 'p
  | LRelease agent_id 'p
  | LReleaseAll agent_id
  | LTransfer agent_id agent_id 'p

fun lock_step ::
  "('p \<Rightarrow> path option) \<Rightarrow> (agent_id \<Rightarrow> agent_id list) \<Rightarrow> 'p lock_op \<Rightarrow> lock_map \<Rightarrow> lock_map" where
  "lock_step canon chain_of (LAcquire agent p) dirs = snd (acquire canon agent p (chain_of agent) dirs)"
| "lock_step canon chain_of (LRelease agent p) dirs = release canon agent p dirs"
| "lock_step canon chain_of (LReleaseAll agent) dirs = release_all agent dirs"
| "lock_step canon chain_of (LTransfer src dst p) dirs = snd (transfer canon src dst p dirs)"

fun handed_over :: "('p \<Rightarrow> path option) \<Rightarrow> (agent_id \<Rightarrow> agent_id list) \<Rightarrow> 'p lock_op \<Rightarrow> lock_map \<Rightarrow> bool" where
  "handed_over canon chain_of (LTransfer src dst p) dirs =
     (case canon p of None \<Rightarrow> True | Some c \<Rightarrow> handoff chain_of src dst c dirs)"
| "handed_over canon chain_of _ dirs = True"

text \<open>A run whose transfers are the handoffs of the server.\<close>

fun handoff_run :: "('p \<Rightarrow> path option) \<Rightarrow> (agent_id \<Rightarrow> agent_id list) \<Rightarrow> 'p lock_op list \<Rightarrow> lock_map \<Rightarrow> bool" where
  "handoff_run canon chain_of [] dirs = True"
| "handoff_run canon chain_of (op # ops) dirs =
     (handed_over canon chain_of op dirs \<and> handoff_run canon chain_of ops (lock_step canon chain_of op dirs))"

lemma lock_step_ok:
  assumes "lock_ok chain_of dirs" and "delegation_tree chain_of" and "handed_over canon chain_of op dirs"
  shows "lock_ok chain_of (lock_step canon chain_of op dirs)"
  using assms
  by (cases op)
    (auto simp: acquire_def release_def transfer_def Let_def acquire_at_ok release_at_ok release_all_ok transfer_at_ok
      split: option.splits)

text \<open>The machine that refuses every other transfer, over a delegation tree.\<close>

interpretation locks: invariant_machine
  "\<lambda>op dirs. if delegation_tree chain_of \<and> handed_over canon chain_of op dirs then lock_step canon chain_of op dirs else dirs"
  "lock_ok chain_of"
  for canon :: "'p \<Rightarrow> path option" and chain_of :: "agent_id \<Rightarrow> agent_id list"
  by unfold_locales (simp add: lock_step_ok)

lemma handoff_run_fold:
  assumes "delegation_tree chain_of"
  shows "handoff_run canon chain_of ops dirs \<Longrightarrow> fold (lock_step canon chain_of) ops dirs =
    fold (\<lambda>op dirs. if delegation_tree chain_of \<and> handed_over canon chain_of op dirs
       then lock_step canon chain_of op dirs else dirs) ops dirs"
  by (induction ops arbitrary: dirs) (simp_all add: assms)

lemma lock_ok_empty: "lock_ok chain_of []"
  by (simp add: lock_ok_def bt_sorted_def all_held_def)

section \<open>How many locks an agent holds\<close>

definition received :: "agent_id \<Rightarrow> 'p lock_op \<Rightarrow> nat" where
  "received a op = (case op of LTransfer _ dst _ \<Rightarrow> if dst = a then 1 else 0 | _ \<Rightarrow> 0)"

lemma count_held_retain:
  assumes "\<And>e. snd (f e) = None \<or> f e = e"
  shows "count_held (retain_held (map f dirs)) a \<le> count_held dirs a"
proof (induction dirs)
  case (Cons e dirs)
  from assms [of e] Cons show ?case
    by (cases "f e = e") (simp_all add: count_held_def retain_held_def)
qed (simp add: count_held_def retain_held_def)

lemma count_held_transfer:
  assumes "keys_distinct dirs"
  shows "count_held (snd (transfer_at src dst c dirs)) a \<le> count_held dirs a + (if dst = a then 1 else 0)"
proof -
  let ?f = "\<lambda>e. if fst e = c then (c, Some dst) else e"
  have other: "count_held (map ?f ds) a \<le> count_held ds a" if "c \<notin> fst ` set ds" for ds
    using that by (induction ds) (auto simp: count_held_def)
  have "count_held (map ?f ds) a \<le> count_held ds a + (if dst = a then 1 else 0)" if "distinct (map fst ds)" for ds
    using that
  proof (induction ds)
    case (Cons e ds)
    then show ?case using other [of ds] by (cases "fst e = c") (auto simp: count_held_def)
  qed (simp add: count_held_def)
  from this [of dirs] show ?thesis using assms by (auto simp: transfer_at_def keys_distinct_def)
qed

lemma count_held_step:
  assumes "bt_sorted dirs" and "all_held dirs"
  shows "count_held (lock_step canon chain_of op dirs) a
    \<le> max (count_held dirs a) MAX_LOCKS_PER_AGENT + received a op"
proof (cases op)
  case (LAcquire agent p)
  have "count_held (snd (acquire_at agent c (chain_of agent) dirs)) a \<le> max (count_held dirs a) MAX_LOCKS_PER_AGENT" for c
  proof (cases rule: acquire_at_cases [of agent c "chain_of agent" dirs])
    case granted
    have "map_of dirs c = None"
      using granted(2) assms(2) by (cases "map_of dirs c") (auto simp: all_held_def list_all_iff dest!: map_of_SomeD)
    from count_held_put [OF this, of agent a] granted(1,4) show ?thesis by (auto split: if_splits)
  qed simp
  then show ?thesis by (auto simp: LAcquire received_def acquire_def split: option.split)
next
  case (LTransfer src dst p)
  have "count_held (snd (transfer_at src dst c dirs)) a \<le> max (count_held dirs a) MAX_LOCKS_PER_AGENT + received a op" for c
    using count_held_transfer [OF bt_sorted_distinct [OF assms(1)], of src dst c a]
    by (simp add: LTransfer received_def split: if_splits)
  then show ?thesis by (auto simp: LTransfer transfer_def Let_def split: option.split intro: trans_le_add1)
next
  case (LRelease agent p)
  have "count_held (release_at agent c dirs) a \<le> count_held dirs a" for c
    unfolding release_at_def by (rule count_held_retain) auto
  then show ?thesis by (simp add: LRelease received_def release_def le_max_iff_disj split: option.split)
next
  case (LReleaseAll agent)
  have "count_held (release_all agent dirs) a \<le> count_held dirs a"
    unfolding release_all_def by (rule count_held_retain) auto
  then show ?thesis by (simp add: LReleaseAll received_def le_max_iff_disj)
qed

lemma count_held_run:
  assumes "delegation_tree chain_of"
  shows "lock_ok chain_of dirs \<Longrightarrow> handoff_run canon chain_of ops dirs \<Longrightarrow> count_held dirs a \<le> MAX_LOCKS_PER_AGENT + k \<Longrightarrow>
    count_held (fold (lock_step canon chain_of) ops dirs) a \<le> MAX_LOCKS_PER_AGENT + k + sum_list (map (received a) ops)"
proof (induction ops arbitrary: dirs k)
  case (Cons op ops)
  let ?dirs = "lock_step canon chain_of op dirs"
  have "count_held ?dirs a \<le> MAX_LOCKS_PER_AGENT + (k + received a op)"
    using count_held_step [of dirs canon chain_of op a] lock_okD [OF Cons.prems(1)] Cons.prems(3) by fastforce
  moreover have "lock_ok chain_of ?dirs" using Cons.prems by (intro lock_step_ok assms) simp_all
  ultimately show ?case using Cons.IH [of ?dirs "k + received a op"] Cons.prems(2) by (simp add: add.assoc)
qed simp

section \<open>Properties\<close>

text \<open>C21. Write exclusion: along any sequence of acquires, releases, task deaths and handoffs of a workspace as the server
  makes them, two overlapping locks always belong to different agents, the outer one to a delegation ancestor of the
  inner one's holder; so two agents of which neither is an ancestor of the other never hold overlapping
  directories, nor the same one. An agent holds at most eight locks beyond those handed to it: a handoff
  does not look at the limit. The transfers it covers are those of \<open>handoff\<close>: to a new child of a supervisor without
  other children, and back to a supervisor that holds nothing around; any other transfer of the manager can break the
  exclusion.\<close>

theorem overlaps_only_delegated:
  assumes "delegation_tree chain_of" and "handoff_run canon chain_of ops []"
  shows "lock_ok chain_of (fold (lock_step canon chain_of) ops [])
    \<and> count_held (fold (lock_step canon chain_of) ops []) a \<le> 8 + sum_list (map (received a) ops)"
proof
  show "lock_ok chain_of (fold (lock_step canon chain_of) ops [])"
    unfolding handoff_run_fold [OF assms] by (rule locks.run_inv) (rule lock_ok_empty)
  show "count_held (fold (lock_step canon chain_of) ops []) a \<le> 8 + sum_list (map (received a) ops)"
    using count_held_run [OF assms(1) lock_ok_empty assms(2), of a 0] by (simp add: count_held_def MAX_LOCKS_PER_AGENT_def)
qed

definition demo_chain_of :: "agent_id \<Rightarrow> agent_id list" where
  "demo_chain_of a = (if a = ''kid'' then [''root''] else if a = ''grandkid'' then [''kid'', ''root''] else [])"

text \<open>The root hands its workspace to a child, whose own child carves a part out of it; then the lock goes back.\<close>

definition handoff_ops :: "path lock_op list" where
  "handoff_ops = [LAcquire ''root'' [''w''], LTransfer ''root'' ''kid'' [''w''], LAcquire ''grandkid'' [''w'', ''a''],
     LTransfer ''kid'' ''root'' [''w'']]"

theorem overlaps_only_delegated_witness:
  "lock_ok demo_chain_of (fold (lock_step Some demo_chain_of) handoff_ops [])
   \<and> fold (lock_step Some demo_chain_of) handoff_ops [] = [([''w''], Some ''root''), ([''w'', ''a''], Some ''grandkid'')]"
proof
  have "delegation_tree demo_chain_of" by (auto simp: delegation_tree_def demo_chain_of_def)
  moreover have "handoff_run Some demo_chain_of handoff_ops []" by code_simp
  ultimately show "lock_ok demo_chain_of (fold (lock_step Some demo_chain_of) handoff_ops [])"
    using overlaps_only_delegated [of demo_chain_of Some handoff_ops "''root''"] by blast
  show "fold (lock_step Some demo_chain_of) handoff_ops [] = [([''w''], Some ''root''), ([''w'', ''a''], Some ''grandkid'')]"
    by code_simp
qed

text \<open>Why the handoffs need their conditions: a lock handed past a child that works inside it, and one handed back to a
  supervisor that has taken the directory around it.\<close>

lemma other_transfers_break_exclusion:
  "\<not> lock_ok demo_chain_of (snd (transfer_at ''root'' ''peer'' [''w''] [([''w''], Some ''root''), ([''w'', ''a''], Some ''kid'')]))
   \<and> \<not> lock_ok demo_chain_of (snd (transfer_at ''kid'' ''root'' [''w'', ''a''] [([''w''], Some ''root''), ([''w'', ''a''], Some ''kid'')]))"
proof
  let ?m = "snd (transfer_at ''root'' ''peer'' [''w''] [([''w''], Some ''root''), ([''w'', ''a''], Some ''kid'')])"
  have "map_of ?m [''w''] = Some (Some ''peer'')" "map_of ?m [''w'', ''a''] = Some (Some ''kid'')" by (simp_all add: transfer_at_def)
  moreover have "strict_prefix [''w''] [''w'', ''a'']" by (simp add: strict_prefix_def)
  ultimately show "\<not> lock_ok demo_chain_of ?m" using lock_okD(3) by (fastforce simp: demo_chain_of_def)
  let ?m = "snd (transfer_at ''kid'' ''root'' [''w'', ''a''] [([''w''], Some ''root''), ([''w'', ''a''], Some ''kid'')])"
  have "map_of ?m [''w''] = Some (Some ''root'')" "map_of ?m [''w'', ''a''] = Some (Some ''root'')" by (simp_all add: transfer_at_def)
  then show "\<not> lock_ok demo_chain_of ?m" using lock_okD(3) by (fastforce simp: strict_prefix_def)
qed

text \<open>A lock is granted exactly when it must be: nobody holds the path, no lock overlaps it but
  those of the caller's delegation ancestors above it, and the caller has fewer than eight. The
  ordered scan that stops at the first non-descendant misses no lock below the path.\<close>

theorem acquire_granted_iff:
  assumes "bt_sorted dirs"
  shows "fst (acquire_at agent c chain dirs) = Inr Acquired \<longleftrightarrow>
    map_of dirs c \<in> {None, Some None} \<and> conflicts dirs c agent chain = {}
    \<and> count_held dirs agent < 8"
proof (cases rule: acquire_at_cases [of agent c chain dirs])
  case (unchanged r)
  have "\<not> (map_of dirs c \<in> {None, Some None} \<and> conflicts dirs c agent chain = {}
      \<and> count_held dirs agent < 8)"
  proof
    assume a: "map_of dirs c \<in> {None, Some None} \<and> conflicts dirs c agent chain = {}
      \<and> count_held dirs agent < 8"
    then have "overlap_conflict dirs c agent chain = None"
      using assms by (simp add: overlap_conflict_None_iff)
    with a unchanged show False
      by (auto simp: acquire_at_def MAX_LOCKS_PER_AGENT_def)
  qed
  with unchanged show ?thesis by simp
next
  case granted
  moreover from this have "map_of dirs c \<in> {None, Some None}"
    by (cases "map_of dirs c") auto
  ultimately show ?thesis
    using assms by (simp add: overlap_conflict_None_iff MAX_LOCKS_PER_AGENT_def)
qed

definition demo_locks :: lock_map where
  "demo_locks = [([''w''], Some ''root''), ([''w'', ''a''], Some ''kid''), ([''wide''], Some ''peer'')]"

lemma demo_locks_sorted: "bt_sorted demo_locks"
  by (simp add: bt_sorted_def demo_locks_def)

theorem acquire_granted_iff_witness:
  "fst (acquire_at ''kid2'' [''w'', ''b''] [''root''] demo_locks) = Inr Acquired
   \<and> fst (acquire_at ''root'' [] [] demo_locks) \<noteq> Inr Acquired"
proof
  have "conflicts demo_locks [''w'', ''b''] ''kid2'' [''root''] = {}"
    by (auto simp: conflicts_def demo_locks_def strict_prefix_def split: if_splits)
  then show "fst (acquire_at ''kid2'' [''w'', ''b''] [''root''] demo_locks) = Inr Acquired"
    using acquire_granted_iff [OF demo_locks_sorted, of "''kid2''" "[''w'', ''b'']" "[''root'']"]
    by (simp add: demo_locks_def count_held_def)
  have "[''w''] \<in> conflicts demo_locks [] ''root'' []"
    by (simp add: conflicts_def demo_locks_def strict_prefix_def)
  then show "fst (acquire_at ''root'' [] [] demo_locks) \<noteq> Inr Acquired"
    using acquire_granted_iff [OF demo_locks_sorted, of "''root''" "[]" "[]"] by auto
qed

text \<open>The dry run answers for the acquire: unless the caller itself holds exactly that path, the
  probe names the holder and lock that the acquire would report busy, fails with the self-overlap
  the acquire would fail with, and finds nothing exactly when the acquire gets past its conflicts.\<close>

theorem probe_agrees_with_acquire:
  assumes "map_of dirs c \<noteq> Some (Some agent)"
  shows "(case probe_at agent c chain dirs of
      Inl err \<Rightarrow> acquire_at agent c chain dirs = (Inl err, dirs)
    | Inr (Some (h, q)) \<Rightarrow> acquire_at agent c chain dirs = (Inr (Busy h q), dirs)
    | Inr None \<Rightarrow> fst (acquire_at agent c chain dirs) \<in> {Inr Acquired, Inl CapReached})"
proof (cases "\<exists>w. map_of dirs c = Some (Some w)")
  case True
  with assms show ?thesis by (auto simp: probe_at_def acquire_at_def)
next
  case False
  have shape: "(\<exists>w q. r = Inr (Busy w q)) \<or> (\<exists>e. r = Inl e)"
    if "overlap_conflict dirs c agent chain = Some r" for r
    using that by (auto simp: overlap_conflict_def blocked_by_def split: option.splits
        dest!: ancestor_conflict_Some descendant_scan_Some)
  from False have "map_of dirs c = None \<or> map_of dirs c = Some None"
    by (cases "map_of dirs c") auto
  then show ?thesis
    using shape by (cases "overlap_conflict dirs c agent chain")
      (fastforce simp: probe_at_def acquire_at_def)+
qed

theorem probe_agrees_with_acquire_witness:
  "probe_at ''peer'' [''w'', ''a'', ''x''] [] demo_locks = Inr (Some (''kid'', [''w'', ''a'']))
   \<and> acquire_at ''peer'' [''w'', ''a'', ''x''] [] demo_locks = (Inr (Busy ''kid'' [''w'', ''a'']), demo_locks)"
proof -
  have "proper_ancestors [''w'', ''a'', ''x''] = [[''w'', ''a''], [''w''], []]"
    by (simp add: proper_ancestors_def upt_rec)
  then have "probe_at ''peer'' [''w'', ''a'', ''x''] [] demo_locks = Inr (Some (''kid'', [''w'', ''a'']))"
    by (simp add: probe_at_def overlap_conflict_def demo_locks_def blocked_by_def)
  then show ?thesis
    using probe_agrees_with_acquire [of demo_locks "[''w'', ''a'', ''x'']" "''peer''" "[]"]
    by (simp add: demo_locks_def)
qed

text \<open>The exception: for a path the caller already holds, the acquire answers that it is held,
  while the probe reports the lock of a delegated child below it as the conflict that would block.\<close>

theorem probe_blames_delegated_child:
  "acquire_at ''root'' [''w''] [] demo_locks = (Inr AlreadyHeld, demo_locks)
   \<and> probe_at ''root'' [''w''] [] demo_locks = Inr (Some (''kid'', [''w'', ''a'']))"
  by (simp add: acquire_at_def probe_at_def overlap_conflict_def demo_locks_def blocked_by_def
      proper_ancestors_def)

end
