(* ===== verification/Shell_Ast.thy ===== *)
theory Shell_Ast
  imports Text
begin

text \<open>
  The syntax tree of the third-party shell parser, as far as the classifier
  (\<open>crates/kallipai-adk/src/policy/classifier/walker.rs\<close>) takes it apart: every \<open>NodeKind\<close> of its
  exhaustive match, with the fields its arms read. Kinds with the same fields that the walker
  treats in one arm share a constructor tagged by the kind. The items of a list carry the answer
  of \<open>operator == Some(ListOperator::Background)\<close>. Beside it the word helpers of \<open>util.rs\<close> and
  the children the walker visits. The parser itself is a parameter of what calls it.
\<close>

section \<open>The tree\<close>

datatype loop_kind = While | Until

datatype iter_kind = For | Select

datatype group_kind = Subshell | BraceGroup

text \<open>One operand.\<close>

datatype unary_kind =
    Negation | Time | UnaryTest | CondNot | CondParen | ArithUnaryOp | ArithPreIncr
  | ArithPostIncr | ArithPreDecr | ArithPostDecr | ArithSubscript

text \<open>Two operands, both required.\<close>

datatype binary_kind = BinaryTest | CondAnd | CondOr | ArithBinaryOp | ArithAssign | ArithComma

text \<open>No operand the walker looks at.\<close>

datatype leaf_kind =
    WordLiteral | ParamExpansion | ParamLength | CondTerm | AnsiCQuote | LocaleString
  | BraceExpansion | ArrayLit | Comment | ArithNumber | ArithVar | ArithEmpty | ArithEscape
  | ArithDeprecated

datatype node =
    Command "node list" "node list" "node list"
  | Pipeline "node list"
  | CmdList "(node \<times> bool) list"
  | IfNode node node "node option" "node list"
  | Loop loop_kind node node "node list"
  | Iter iter_kind "node list option" node "node list"
  | ForArith node "node list"
  | Case node "(node list \<times> node option) list" "node list"
  | Function node
  | Group group_kind node "node list"
  | Redirect string node
  | HereDoc
  | CommandSubstitution node
  | ProcessSubstitution node
  | Word string "node list"
  | Leaf leaf_kind
  | ParamIndirect
  | ArithmeticExpansion "node option"
  | ArithmeticCommand "node option" "node list"
  | Unary unary_kind node
  | Coproc node
  | ConditionalExpr node "node list"
  | Binary binary_kind node node
  | Empty
  | ArithTernary node "node option" "node option"
  | ArithConcat "node list"

lemma size_fst_pair [termination_simp]:
  "(a, b) \<in> set xs \<Longrightarrow> f a < Suc (size_list (size_prod f g) xs)"
  using size_list_estimation' [of "(a, b)" xs "f a" "size_prod f g"] by simp

section \<open>Words\<close>

definition is_literal_part :: "node \<Rightarrow> bool" where
  "is_literal_part n = (case n of Leaf k \<Rightarrow> k = WordLiteral | _ \<Rightarrow> False)"

text \<open>The text of a word without expansions, quotes included.\<close>

definition word_literal_value :: "node \<Rightarrow> string option" where
  "word_literal_value w =
     (case w of
        Word v parts \<Rightarrow> if list_all is_literal_part parts then Some v else None
      | _ \<Rightarrow> None)"

definition extract_command_name :: "node \<Rightarrow> string option" where
  "extract_command_name w = word_literal_value w"

definition strip_surrounding_quotes :: "string \<Rightarrow> string" where
  "strip_surrounding_quotes s =
     (if 2 \<le> length s \<and>
         (hd s = CHR 0x27 \<and> last s = CHR 0x27 \<or> hd s = CHR 0x22 \<and> last s = CHR 0x22)
      then butlast (tl s) else s)"

definition find_mutating_flag :: "node list \<Rightarrow> string list \<Rightarrow> string option" where
  "find_mutating_flag words flags =
     find_map
       (\<lambda>w. let v = map_option strip_surrounding_quotes (word_literal_value w)
            in find (\<lambda>f. Some f = v) flags)
       (drop 1 words)"

definition redirect_target_literal :: "node \<Rightarrow> string option" where
  "redirect_target_literal n = map_option strip_surrounding_quotes (word_literal_value n)"

text \<open>\<open>s.split(c).next()\<close>: what stands before the first separator.\<close>

definition before_char :: "char \<Rightarrow> string \<Rightarrow> string" where
  "before_char c s = takeWhile (\<lambda>d. d \<noteq> c) s"

lemma length_strip_surrounding_quotes: "length (strip_surrounding_quotes s) \<le> length s"
  by (simp add: strip_surrounding_quotes_def)

text \<open>A word of plain text, as the parser builds it.\<close>

definition plain_word :: "string \<Rightarrow> node" where
  "plain_word s = Word s [Leaf WordLiteral]"

lemma word_literal_plain [simp]: "word_literal_value (plain_word s) = Some s"
  by (simp add: plain_word_def word_literal_value_def is_literal_part_def)

end
