(* ===== verification/Exec_Policy.thy ===== *)
theory Exec_Policy
  imports Text
begin

text \<open>
  The policy types of \<open>crates/kallipai-common/src/policy.rs\<close>: the preset, the decision lattice of
  the overrides with its order, names and parsers, the two written forms of an override, the
  override map and the check that a child agent is at least as strict as its parent; and the
  verdict type of \<open>crates/kallipai-adk/src/policy.rs\<close>. A \<open>BTreeMap\<close> is an association list sorted
  by its keys.
\<close>

section \<open>Presets and decisions\<close>

datatype policy_preset = PresetDefault | PresetAuto | PresetAllowAll

fun preset_str :: "policy_preset \<Rightarrow> string" where
  "preset_str PresetDefault = ''default''"
| "preset_str PresetAuto = ''auto''"
| "preset_str PresetAllowAll = ''allow-all''"

definition preset_from_str :: "string \<Rightarrow> string + policy_preset" where
  "preset_from_str s =
     (if s = ''default'' then Inr PresetDefault
      else if s = ''auto'' then Inr PresetAuto
      else if s = ''allow-all'' then Inr PresetAllowAll
      else Inl (''invalid policy preset '' @ [CHR 0x27] @ s @ [CHR 0x27] @
             '' (expected default, auto, or allow-all)''))"

datatype exec_decision = ExecAllow | ExecAsk | ExecDeny

text \<open>The derived order \<open>Allow < Ask < Deny\<close>.\<close>

fun exec_rank :: "exec_decision \<Rightarrow> nat" where
  "exec_rank ExecAllow = 0"
| "exec_rank ExecAsk = 1"
| "exec_rank ExecDeny = 2"

lemma exec_rank_inj: "exec_rank a = exec_rank b \<Longrightarrow> a = b"
  by (cases a; cases b) simp_all

instantiation exec_decision :: linorder
begin

definition less_eq_exec_decision :: "exec_decision \<Rightarrow> exec_decision \<Rightarrow> bool" where
  "less_eq_exec_decision a b \<longleftrightarrow> exec_rank a \<le> exec_rank b"

definition less_exec_decision :: "exec_decision \<Rightarrow> exec_decision \<Rightarrow> bool" where
  "less_exec_decision a b \<longleftrightarrow> exec_rank a < exec_rank b"

instance
  by standard (auto simp: less_eq_exec_decision_def less_exec_decision_def intro: exec_rank_inj)

end

fun exec_decision_str :: "exec_decision \<Rightarrow> string" where
  "exec_decision_str ExecAllow = ''allow''"
| "exec_decision_str ExecAsk = ''ask''"
| "exec_decision_str ExecDeny = ''deny''"

definition exec_decision_from_str :: "string \<Rightarrow> string + exec_decision" where
  "exec_decision_from_str s =
     (if s = ''allow'' then Inr ExecAllow
      else if s = ''ask'' then Inr ExecAsk
      else if s = ''deny'' then Inr ExecDeny
      else Inl (''invalid exec decision '' @ [CHR 0x27] @ s @ [CHR 0x27] @
             '' (expected allow/ask/deny)''))"

section \<open>Overrides\<close>

record exec_override =
  eo_decision :: exec_decision
  eo_reason :: "string option"

definition override_new :: "exec_decision \<Rightarrow> exec_override" where
  "override_new d = \<lparr>eo_decision = d, eo_reason = None\<rparr>"

definition with_reason :: "exec_override \<Rightarrow> string \<Rightarrow> exec_override" where
  "with_reason ov r = ov\<lparr>eo_reason := Some r\<rparr>"

text \<open>What the override serializer hands to TOML or JSON, and what the deserializer is handed: a
  string, a table of string fields in document order, or anything else.\<close>

datatype serde_value =
    SvStr string
  | SvTable "(string \<times> serde_value) list"
  | SvOther

definition serialize_override :: "exec_override \<Rightarrow> serde_value" where
  "serialize_override ov =
     (case eo_reason ov of
        None \<Rightarrow> SvStr (exec_decision_str (eo_decision ov))
      | Some r \<Rightarrow>
          SvTable [(''decision'', SvStr (exec_decision_str (eo_decision ov))), (''reason'', SvStr r)])"

datatype serde_error =
    ErrCustom string
  | ErrUnknownVariant string
  | ErrDuplicateField string
  | ErrUnknownField string
  | ErrMissingField string
  | ErrInvalidType

text \<open>The derived deserializers of the two fields: a decision is one of the snake-case names,
  untrimmed (the one-entry table that also names a variant is left out), a reason is a string.\<close>

definition next_decision :: "serde_value \<Rightarrow> serde_error + exec_decision" where
  "next_decision v =
     (case v of
        SvStr s \<Rightarrow> (case exec_decision_from_str s of Inl _ \<Rightarrow> Inl (ErrUnknownVariant s) | Inr d \<Rightarrow> Inr d)
      | _ \<Rightarrow> Inl ErrInvalidType)"

definition next_reason :: "serde_value \<Rightarrow> serde_error + string" where
  "next_reason v = (case v of SvStr s \<Rightarrow> Inr s | _ \<Rightarrow> Inl ErrInvalidType)"

fun visit_map :: "(string \<times> serde_value) list \<Rightarrow> exec_decision option \<Rightarrow> string option
    \<Rightarrow> serde_error + exec_override" where
  "visit_map [] d r =
     (case d of
        None \<Rightarrow> Inl (ErrMissingField ''decision'')
      | Some d \<Rightarrow> Inr \<lparr>eo_decision = d, eo_reason = r\<rparr>)"
| "visit_map ((k, v) # fs) d r =
     (if k = ''decision'' then
        (if d \<noteq> None then Inl (ErrDuplicateField ''decision'')
         else case next_decision v of Inl e \<Rightarrow> Inl e | Inr x \<Rightarrow> visit_map fs (Some x) r)
      else if k = ''reason'' then
        (if r \<noteq> None then Inl (ErrDuplicateField ''reason'')
         else case next_reason v of Inl e \<Rightarrow> Inl e | Inr x \<Rightarrow> visit_map fs d (Some x))
      else Inl (ErrUnknownField k))"

definition deserialize_override :: "serde_value \<Rightarrow> serde_error + exec_override" where
  "deserialize_override v =
     (case v of
        SvStr s \<Rightarrow>
          (case exec_decision_from_str (str_trim s) of
             Inl e \<Rightarrow> Inl (ErrCustom e)
           | Inr d \<Rightarrow> Inr (override_new d))
      | SvTable fs \<Rightarrow> visit_map fs None None
      | SvOther \<Rightarrow> Inl ErrInvalidType)"

lemma exec_decision_round_trip: "exec_decision_from_str (exec_decision_str d) = Inr d"
  by (cases d) (simp_all add: exec_decision_from_str_def)

lemma preset_round_trip: "preset_from_str (preset_str p) = Inr p"
  by (cases p) (simp_all add: preset_from_str_def)

lemma exec_decision_from_strD: "exec_decision_from_str s = Inr d \<Longrightarrow> s = exec_decision_str d"
  by (auto simp: exec_decision_from_str_def split: if_splits)

section \<open>The policy of an agent\<close>

fun btree_insert :: "string \<Rightarrow> 'v \<Rightarrow> (string \<times> 'v) list \<Rightarrow> (string \<times> 'v) list" where
  "btree_insert k v [] = [(k, v)]"
| "btree_insert k v ((k', v') # al) =
     (if k < k' then (k, v) # (k', v') # al
      else if k = k' then (k, v) # al
      else (k', v') # btree_insert k v al)"

definition btree_keys :: "(string \<times> 'v) list \<Rightarrow> bool" where
  "btree_keys al \<longleftrightarrow> sorted (map fst al) \<and> distinct (map fst al)"

record exec_policy =
  ep_overrides :: "(string \<times> exec_override) list"

definition override_for :: "exec_policy \<Rightarrow> string \<Rightarrow> exec_override option" where
  "override_for p name = map_of (ep_overrides p) name"

definition lowercase_keys :: "exec_policy \<Rightarrow> exec_policy" where
  "lowercase_keys p =
     p\<lparr>ep_overrides :=
         fold (\<lambda>(k, v). btree_insert (ascii_lower k) v) (ep_overrides p) []\<rparr>"

definition effective :: "(string \<Rightarrow> exec_decision) \<Rightarrow> exec_policy \<Rightarrow> string \<Rightarrow> exec_decision" where
  "effective baseline p name =
     (case override_for p name of Some ov \<Rightarrow> eo_decision ov | None \<Rightarrow> baseline name)"

definition violation_text :: "string \<Rightarrow> exec_decision \<Rightarrow> exec_decision \<Rightarrow> string" where
  "violation_text name mine theirs =
     name @ '': '' @ exec_decision_str mine @ '' is less strict than parent'' @ [CHR 0x27] @ ''s ''
       @ exec_decision_str theirs"

definition validate_at_least_as_strict_as :: "exec_policy \<Rightarrow> exec_policy
    \<Rightarrow> (string \<Rightarrow> exec_decision) \<Rightarrow> string list + unit" where
  "validate_at_least_as_strict_as self other baseline =
     (let names = remdups_adj (sort (map fst (ep_overrides self) @ map fst (ep_overrides other)));
          violations =
            map (\<lambda>n. violation_text n (effective baseline self n) (effective baseline other n))
              (filter (\<lambda>n. effective baseline self n < effective baseline other n) names)
      in if violations = [] then Inr () else Inl violations)"

text \<open>The check passes exactly when no command at all has a looser effective decision.\<close>

lemma validated_iff:
  "validate_at_least_as_strict_as self other baseline = Inr () \<longleftrightarrow>
     (\<forall>n. effective baseline other n \<le> effective baseline self n)"
proof -
  have out: "effective baseline self n = effective baseline other n"
    if "n \<notin> set (map fst (ep_overrides self) @ map fst (ep_overrides other))" for n
  proof -
    from that have "override_for self n = None" "override_for other n = None"
      by (auto simp: override_for_def map_of_eq_None_iff)
    then show ?thesis by (simp add: effective_def)
  qed
  have "validate_at_least_as_strict_as self other baseline = Inr () \<longleftrightarrow>
      (\<forall>n \<in> set (map fst (ep_overrides self) @ map fst (ep_overrides other)).
        \<not> effective baseline self n < effective baseline other n)"
    by (simp add: validate_at_least_as_strict_as_def Let_def filter_empty_conv ball_Un)
  also have "\<dots> \<longleftrightarrow> (\<forall>n. effective baseline other n \<le> effective baseline self n)"
    using out by (metis not_less order_refl)
  finally show ?thesis .
qed

lemma set_btree_insert: "set (map fst (btree_insert k v al)) = insert k (set (map fst al))"
  by (induction k v al rule: btree_insert.induct) auto

lemma btree_keys_insert: "btree_keys al \<Longrightarrow> btree_keys (btree_insert k v al)"
proof (induction k v al rule: btree_insert.induct)
  case (1 k v)
  then show ?case by (simp add: btree_keys_def)
next
  case (2 k v k' v' al)
  from "2.prems" have al: "btree_keys al" and below: "\<forall>x \<in> set (map fst al). k' \<le> x \<and> k' \<noteq> x"
    by (auto simp: btree_keys_def)
  consider "k < k'" | "k = k'" | "k' < k" by fastforce
  then show ?case
  proof cases
    case 3
    then have "btree_keys (btree_insert k v al)" using "2.IH" al by auto
    moreover have "\<forall>x \<in> set (map fst (btree_insert k v al)). k' \<le> x \<and> k' \<noteq> x"
      using below 3 by (simp only: set_btree_insert) auto
    ultimately show ?thesis using 3 by (auto simp: btree_keys_def)
  qed (use "2.prems" in \<open>auto simp: btree_keys_def\<close>)
qed

lemma map_of_btree_insert: "btree_keys al \<Longrightarrow> map_of (btree_insert k v al) = (map_of al)(k \<mapsto> v)"
proof (induction k v al rule: btree_insert.induct)
  case (2 k v k' v' al)
  from "2.prems" have al: "btree_keys al" by (auto simp: btree_keys_def)
  consider "k < k'" | "k = k'" | "k' < k" by fastforce
  then show ?case
  proof cases
    case 3
    then have "map_of (btree_insert k v al) = (map_of al)(k \<mapsto> v)" using "2.IH" al by auto
    then show ?thesis using 3 by (auto simp: fun_eq_iff)
  qed auto
qed simp

definition lowercased :: "(string \<times> 'v) list \<Rightarrow> bool" where
  "lowercased al \<longleftrightarrow> btree_keys al \<and> (\<forall>k \<in> set (map fst al). ascii_lower k = k)"

lemma lowercased_insert: "lowercased al \<Longrightarrow> lowercased (btree_insert (ascii_lower k) v al)"
  unfolding lowercased_def set_btree_insert by (simp add: btree_keys_insert ascii_lower_idem)

lemma lowercase_keys_sorted: "lowercased (ep_overrides (lowercase_keys p))"
proof -
  have "lowercased acc \<Longrightarrow> lowercased (fold (\<lambda>(k, v). btree_insert (ascii_lower k) v) al acc)"
    for al :: "(string \<times> exec_override) list" and acc
    by (induction al arbitrary: acc) (simp_all add: split_beta lowercased_insert)
  from this [of "[]" "ep_overrides p"] show ?thesis
    by (simp add: lowercase_keys_def lowercased_def btree_keys_def)
qed

section \<open>Verdicts\<close>

datatype tool_decision =
    Allow
  | Ask "string option"
  | Deny string

section \<open>The written forms of an override\<close>

lemma visit_map_decided:
  "visit_map fs (Some d) r = Inr ov \<longleftrightarrow>
     (fs = [] \<and> ov = \<lparr>eo_decision = d, eo_reason = r\<rparr> \<or>
      (\<exists>x. r = None \<and> fs = [(''reason'', SvStr x)] \<and> ov = \<lparr>eo_decision = d, eo_reason = Some x\<rparr>))"
proof (induction fs "Some d" r rule: visit_map.induct)
  case (1 r)
  then show ?case by auto
next
  case (2 k v fs r)
  show ?case
  proof (cases "k = ''reason'' \<and> r = None \<and> (\<exists>x. v = SvStr x)")
    case True
    then obtain x where "k = ''reason''" "r = None" "v = SvStr x" by blast
    with 2(2) [of x] show ?thesis by (auto simp: next_reason_def)
  next
    case False
    then show ?thesis by (auto simp: next_reason_def split: serde_value.splits)
  qed
qed

lemma exec_decision_str_inj [simp]: "exec_decision_str a = exec_decision_str b \<longleftrightarrow> a = b"
  by (cases a; cases b) simp_all

lemma next_decision_iff: "next_decision v = Inr d \<longleftrightarrow> v = SvStr (exec_decision_str d)"
  by (auto simp: next_decision_def exec_decision_round_trip dest: exec_decision_from_strD
      split: serde_value.splits sum.splits)

lemma next_decision_str [simp]: "next_decision (SvStr (exec_decision_str d)) = Inr d"
  by (simp add: next_decision_iff)

lemma exec_decision_from_str_iff: "exec_decision_from_str s = Inr d \<longleftrightarrow> s = exec_decision_str d"
  using exec_decision_round_trip exec_decision_from_strD by auto

lemma trim_decision_str: "str_trim (exec_decision_str d) = exec_decision_str d"
proof (cases d)
  case ExecAllow
  show ?thesis unfolding ExecAllow by code_simp
next
  case ExecAsk
  show ?thesis unfolding ExecAsk by code_simp
next
  case ExecDeny
  show ?thesis unfolding ExecDeny by code_simp
qed

lemma visit_map_reasoned:
  "visit_map fs None (Some r) = Inr ov \<longleftrightarrow>
     eo_reason ov = Some r \<and> fs = [(''decision'', SvStr (exec_decision_str (eo_decision ov)))]"
proof (cases fs)
  case (Cons f rest)
  obtain k v where f: "f = (k, v)" by (cases f)
  show ?thesis
    by (cases ov; cases "next_decision v")
      (auto simp: Cons f visit_map_decided next_decision_iff)
qed simp

lemma visit_map_iff:
  "visit_map fs None None = Inr ov \<longleftrightarrow>
     (let d = (''decision'', SvStr (exec_decision_str (eo_decision ov)))
      in case eo_reason ov of
           None \<Rightarrow> fs = [d]
         | Some r \<Rightarrow> fs = [d, (''reason'', SvStr r)] \<or> fs = [(''reason'', SvStr r), d])"
proof (cases fs)
  case Nil
  then show ?thesis by (simp add: Let_def split: option.split)
next
  case (Cons f rest)
  obtain k v where f: "f = (k, v)" by (cases f)
  show ?thesis
  proof (cases "k = ''decision''")
    case True
    show ?thesis
      by (cases ov; cases "next_decision v")
        (auto simp: Cons f True Let_def visit_map_decided next_decision_iff
          split: option.split)
  next
    case False
    then show ?thesis
      by (cases "k = ''reason''"; cases v)
        (auto simp: Cons f Let_def visit_map_reasoned next_reason_def split: option.split)
  qed
qed

text \<open>The two written forms of an override. What is written is read back unchanged, and the
  reader accepts nothing else but a bare name with white space around it and the two fields of a
  table in either order: a second \<open>decision\<close> or \<open>reason\<close>, an unknown field, a missing decision and
  a value of another type are errors.\<close>

theorem override_forms:
  "deserialize_override (serialize_override ov) = Inr ov \<and>
   (deserialize_override v = Inr ov \<longleftrightarrow>
     (let d = (''decision'', SvStr (exec_decision_str (eo_decision ov)))
      in case eo_reason ov of
           None \<Rightarrow> (\<exists>s. v = SvStr s \<and> str_trim s = exec_decision_str (eo_decision ov)) \<or> v = SvTable [d]
         | Some r \<Rightarrow>
             v = SvTable [d, (''reason'', SvStr r)] \<or> v = SvTable [(''reason'', SvStr r), d]))"
proof
  show "deserialize_override (serialize_override ov) = Inr ov"
    by (cases ov) (auto simp: deserialize_override_def serialize_override_def override_new_def
        trim_decision_str exec_decision_round_trip next_reason_def
        split: option.split)
  show "deserialize_override v = Inr ov \<longleftrightarrow>
     (let d = (''decision'', SvStr (exec_decision_str (eo_decision ov)))
      in case eo_reason ov of
           None \<Rightarrow> (\<exists>s. v = SvStr s \<and> str_trim s = exec_decision_str (eo_decision ov)) \<or> v = SvTable [d]
         | Some r \<Rightarrow>
             v = SvTable [d, (''reason'', SvStr r)] \<or> v = SvTable [(''reason'', SvStr r), d])"
    by (cases v; cases ov)
      (auto simp: deserialize_override_def visit_map_iff override_new_def Let_def
        exec_decision_from_str_iff [symmetric] split: sum.split option.split)
qed

end
