(* ===== verification/Shell_Catalog.thy ===== *)
theory Shell_Catalog
  imports Shell_Ast Exec_Policy
begin

text \<open>
  The read-only command catalog, the builtin denylist and what is decided from the words of one
  simple command: \<open>crates/kallipai-adk/src/policy/classifier/catalog.rs\<close>, the source finders of
  \<open>delegate.rs\<close> and the accessors of \<open>classifier.rs\<close>. The lemmas state what the scanners look for.
\<close>

definition quoted :: "string \<Rightarrow> string" where
  "quoted s = [CHR 0x27] @ s @ [CHR 0x27]"

section \<open>The env predicate\<close>

definition is_alpha :: "char \<Rightarrow> bool" where
  "is_alpha c \<longleftrightarrow>
     (let b = of_char c :: nat in 65 \<le> b \<and> b \<le> 90 \<or> 97 \<le> b \<and> b \<le> 122)"

definition is_assignment :: "string \<Rightarrow> bool" where
  "is_assignment token \<longleftrightarrow>
     CHR ''='' \<in> set token \<and>
     (let name = before_char CHR ''='' token
      in name \<noteq> [] \<and> (is_alpha (hd name) \<or> hd name = CHR ''_'') \<and>
         list_all (\<lambda>b. is_alpha b \<or> is_digit b \<or> b = CHR ''_'') name)"

fun env_scan :: "bool \<Rightarrow> node list \<Rightarrow> bool" where
  "env_scan after_dashdash [] = False"
| "env_scan after_dashdash (word # rest) =
     (case word_literal_value word of
        None \<Rightarrow> True
      | Some token \<Rightarrow>
          if after_dashdash then
            (if \<not> is_assignment token then True else env_scan True rest)
          else if token = ''--'' then env_scan True rest
          else if token = ''-S'' \<or> token = ''--split-string'' \<or> prefix ''--split-string='' token
          then True
          else if token \<in> {''-u'', ''-C'', ''--unset'', ''--chdir''} then
            (case rest of [] \<Rightarrow> False | _ # rest' \<Rightarrow> env_scan False rest')
          else if prefix ''-'' token then env_scan False rest
          else if \<not> is_assignment token then True
          else env_scan False rest)"

definition env_runs_command :: "node list \<Rightarrow> bool" where
  "env_runs_command words = env_scan False (drop 1 words)"

section \<open>The catalog\<close>

datatype constraint =
    Subcommands "string list"
  | MutatingFlags "string list"
  | MutatingPredicate "node list \<Rightarrow> bool"

record command_spec =
  sp_name :: string
  sp_constraints :: "constraint list"

text \<open>The inputs of a classification pass (\<open>ClassifyCtx\<close>).\<close>

record classify_ctx =
  cx_catalog :: "command_spec list"
  cx_preset :: policy_preset
  cx_overrides :: exec_policy

definition needs_approval :: "classify_ctx \<Rightarrow> string \<Rightarrow> tool_decision" where
  "needs_approval ctx reason =
     (case cx_preset ctx of
        PresetAuto \<Rightarrow> Allow
      | PresetDefault \<Rightarrow> Ask (Some reason)
      | PresetAllowAll \<Rightarrow> Deny reason)"

text \<open>The reason a constraint trips for, if it does.\<close>

definition constraint_trip :: "string \<Rightarrow> node list \<Rightarrow> constraint \<Rightarrow> string option" where
  "constraint_trip name words c =
     (case c of
        Subcommands safe \<Rightarrow>
          (case (if 1 < length words then word_literal_value (words ! 1) else None) of
             None \<Rightarrow> None
           | Some sub \<Rightarrow>
               if sub \<notin> set safe
               then Some (quoted (name @ '' '' @ sub) @ '' is not a read-only '' @ name
                      @ '' subcommand'')
               else None)
      | MutatingFlags flags \<Rightarrow>
          (case find_mutating_flag words flags of
             None \<Rightarrow> None
           | Some flag \<Rightarrow>
               Some (quoted name @ '' flag '' @ quoted flag @ '' may mutate state''))
      | MutatingPredicate predicate \<Rightarrow>
          (if predicate words then Some (quoted name @ '' invocation runs a command'') else None))"

fun spec_classify_from :: "classify_ctx \<Rightarrow> string \<Rightarrow> node list \<Rightarrow> constraint list \<Rightarrow> tool_decision"
where
  "spec_classify_from ctx name words [] = Allow"
| "spec_classify_from ctx name words (c # cs) =
     (case constraint_trip name words c of
        Some reason \<Rightarrow> needs_approval ctx reason
      | None \<Rightarrow> spec_classify_from ctx name words cs)"

definition spec_classify :: "command_spec \<Rightarrow> classify_ctx \<Rightarrow> node list \<Rightarrow> tool_decision" where
  "spec_classify spec ctx words =
     spec_classify_from ctx (sp_name spec) words (sp_constraints spec)"

definition ro :: "string \<Rightarrow> command_spec" where
  "ro name = \<lparr>sp_name = name, sp_constraints = []\<rparr>"

definition READ_ONLY_CATALOG :: "command_spec list" where
  "READ_ONLY_CATALOG =
     map ro
    [''pwd'', ''ls'', ''stat'', ''file'', ''tree'', ''du'', ''df'', ''rg'', ''grep'', ''ag'',
     ''ack'', ''fgrep'', ''egrep'', ''cat'', ''head'', ''tail'', ''less'', ''more'', ''bat'',
     ''uniq'', ''wc'', ''cut'', ''tr'', ''comm'', ''diff'', ''echo'', ''printf'', ''printenv'',
     ''which'', ''type'', ''date'', ''uname'', ''hostname'', ''whoami'', ''id'', ''ps'',
     ''top'', ''htop'', ''jq'', ''test'', ''true'', ''false'', ''cd'', ''kallip''] @
     [\<lparr>sp_name = ''find'', sp_constraints =
        [MutatingFlags [''-exec'', ''-execdir'', ''-ok'', ''-okdir'', ''-delete'', ''-fls'',
           ''-fprint'', ''-fprint0'', ''-fprintf'']]\<rparr>,
      \<lparr>sp_name = ''sort'', sp_constraints = [MutatingFlags [''-o'']]\<rparr>,
      \<lparr>sp_name = ''yq'', sp_constraints = [MutatingFlags [''-i'', ''--inplace'']]\<rparr>,
      \<lparr>sp_name = ''env'', sp_constraints = [MutatingPredicate env_runs_command]\<rparr>,
      \<lparr>sp_name = ''git'', sp_constraints =
        [Subcommands [''log'', ''status'', ''diff'', ''show'', ''blame''],
         MutatingFlags [''--hard'', ''--keep'']]\<rparr>]"

definition classify_named_command :: "classify_ctx \<Rightarrow> string \<Rightarrow> node list \<Rightarrow> tool_decision option"
where
  "classify_named_command ctx name words =
     map_option (\<lambda>spec. spec_classify spec ctx words)
       (find (\<lambda>spec. sp_name spec = name) (cx_catalog ctx))"

section \<open>Names the walker treats specially\<close>

definition SHELL_INTERPRETERS :: "string list" where
  "SHELL_INTERPRETERS =
    [''bash'', ''sh'', ''dash'', ''zsh'', ''ksh'', ''csh'', ''tcsh'', ''fish'', ''ash'',
     ''busybox'']"

definition EVAL_COMMANDS :: "string list" where
  "EVAL_COMMANDS =
    [''eval'', ''exec'', ''source'', ''.'']"

definition COMMAND_STRING_FLAGS :: "string list" where
  "COMMAND_STRING_FLAGS =
    [''-c'']"

definition SENSITIVE_ENV_VARS :: "string list" where
  "SENSITIVE_ENV_VARS =
    [''PATH'', ''LD_LIBRARY_PATH'', ''LD_PRELOAD'', ''PYTHONPATH'', ''HOME'', ''SHELL'',
     ''IFS'']"

section \<open>The builtin denylist\<close>

definition GIT_VALUE_GLOBAL_FLAGS :: "string list" where
  "GIT_VALUE_GLOBAL_FLAGS =
    [''-c'', ''-C'', ''--git-dir'', ''--work-tree'', ''--namespace'', ''--exec-path'',
     ''--config-env'']"

definition GIT_BOOL_GLOBAL_FLAGS :: "string list" where
  "GIT_BOOL_GLOBAL_FLAGS =
    [''--version'', ''--help'', ''--no-pager'', ''-p'', ''--paginate'',
     ''--no-replace-objects'', ''--bare'', ''--no-optional-locks'', ''--literal-pathspecs'',
     ''--glob-pathspecs'', ''--noglob-pathspecs'', ''--icase-pathspecs'']"

record deny_rule =
  dr_name :: string
  dr_subcommand :: "string option"
  dr_deny_flags :: "string list"
  dr_except_flags :: "string list"
  dr_reason :: string

definition BUILTIN_DENYLIST :: "deny_rule list" where
  "BUILTIN_DENYLIST =
     [\<lparr>dr_name = ''sed'', dr_subcommand = None,
       dr_deny_flags = [], dr_except_flags = [],
       dr_reason =
         ''silent substitution; the scope of changes is hard to confirm; make changes '' @
         ''manually''\<rparr>,
      \<lparr>dr_name = ''awk'', dr_subcommand = None,
       dr_deny_flags = [], dr_except_flags = [],
       dr_reason =
         ''complex, error-prone syntax; a misread misleads decisions; use a more targeted '' @
         ''tool''\<rparr>,
      \<lparr>dr_name = ''ed'', dr_subcommand = None,
       dr_deny_flags = [], dr_except_flags = [],
       dr_reason =
         ''line-editor scripts mutate files silently; hard to confirm the scope of changes''\<rparr>,
      \<lparr>dr_name = ''ex'', dr_subcommand = None,
       dr_deny_flags = [], dr_except_flags = [],
       dr_reason =
         ''line-editor (ex mode) scripts mutate files silently; hard to confirm the scope '' @
         ''of changes''\<rparr>,
      \<lparr>dr_name = ''git'', dr_subcommand = Some ''rebase'',
       dr_deny_flags = [''-i'', ''--interactive''], dr_except_flags = [],
       dr_reason =
         ''interactive rebase rewrites history; that is operator-only (re-run with flags '' @
         ''written literally if this was a false positive)''\<rparr>,
      \<lparr>dr_name = ''git'', dr_subcommand = Some ''push'',
       dr_deny_flags = [''-f'', ''--force'', ''--force-with-lease''], dr_except_flags = [],
       dr_reason =
         ''force push is operator-only: it publishes rewritten history (re-run with flags '' @
         ''written literally if this was a false positive)''\<rparr>,
      \<lparr>dr_name = ''git'', dr_subcommand = Some ''filter-branch'',
       dr_deny_flags = [], dr_except_flags = [],
       dr_reason =
         ''filter-branch rewrites history wholesale; that is operator-only''\<rparr>,
      \<lparr>dr_name = ''git'', dr_subcommand = Some ''config'',
       dr_deny_flags = [], dr_except_flags = [''--get'', ''--get-all'', ''--get-regexp'', ''--list'', ''-l'', ''--get-color'',
       ''--get-colorbool''],
       dr_reason =
         ''git config writes are operator-only: they could plant an alias around these '' @
         ''rules; reads need a --get/--list flag, written literally''\<rparr>]"

definition UNVERIFIABLE_GIT_SHAPE_REASON :: string where
  "UNVERIFIABLE_GIT_SHAPE_REASON =
     ''git subcommand or flag shape could not be verified statically - this floor gates '' @
     ''rebase -i, force push, filter-branch, and config writes; rewrite the command with '' @
     ''literal flags (or have the operator run it)''"

text \<open>\<open>locate_git_subcommand\<close>: \<open>None\<close> for a shape that cannot be verified, \<open>Some None\<close> when the
  words run out.\<close>

fun locate_sub :: "node list \<Rightarrow> string option option" where
  "locate_sub [] = Some None"
| "locate_sub (word # rest) =
     (case word_literal_value word of
        None \<Rightarrow> None
      | Some raw \<Rightarrow>
          let token = strip_surrounding_quotes raw
          in if token \<in> set GIT_VALUE_GLOBAL_FLAGS then
               (case rest of
                  [] \<Rightarrow> Some None
                | nxt # rest' \<Rightarrow>
                    if word_literal_value nxt = None then None else locate_sub rest')
             else if token \<in> set GIT_BOOL_GLOBAL_FLAGS then locate_sub rest
             else if prefix ''-'' token then None
             else Some (Some token))"

definition locate_git_subcommand :: "node list \<Rightarrow> string option option" where
  "locate_git_subcommand words = locate_sub (drop 1 words)"

definition short_flag_char :: "string \<Rightarrow> uchar option" where
  "short_flag_char flag =
     (case chars_of flag of [d, c] \<Rightarrow> if d = ''-'' then Some c else None | _ \<Rightarrow> None)"

definition cluster_carries :: "string \<Rightarrow> uchar \<Rightarrow> bool" where
  "cluster_carries token flag =
     (case chars_of token of
        [] \<Rightarrow> False
      | c # cs \<Rightarrow> c = ''-'' \<and> \<not> prefix ''-'' (concat cs) \<and> length cs \<le> 2 \<and> flag \<in> set cs)"

definition flags_match :: "node list \<Rightarrow> string list \<Rightarrow> bool" where
  "flags_match words flags =
     list_ex
       (\<lambda>word. case word_literal_value word of
          None \<Rightarrow> False
        | Some raw \<Rightarrow>
            let token = strip_surrounding_quotes raw
            in list_ex
                 (\<lambda>f. if prefix ''--'' f then before_char CHR ''='' token = f
                      else token = f \<or>
                        (case short_flag_char f of
                           None \<Rightarrow> False
                         | Some flag \<Rightarrow> cluster_carries token flag))
                 flags)
       (drop 1 words)"

definition eq_ignore_ascii_case :: "string \<Rightarrow> string \<Rightarrow> bool" where
  "eq_ignore_ascii_case a b \<longleftrightarrow> ascii_lower a = ascii_lower b"

definition structured_reason :: "node list \<Rightarrow> string \<Rightarrow> deny_rule \<Rightarrow> string option" where
  "structured_reason words sub rule =
     (if dr_subcommand rule \<noteq> Some sub then None
      else if list_ex (\<lambda>w. word_literal_value w = None) (drop 2 words) then Some (dr_reason rule)
      else if (dr_deny_flags rule = [] \<or> flags_match words (dr_deny_flags rule)) \<and>
              \<not> flags_match words (dr_except_flags rule)
      then Some (dr_reason rule)
      else None)"

definition builtin_deny_reason :: "string \<Rightarrow> node list \<Rightarrow> string option" where
  "builtin_deny_reason name words =
     (let rules = filter (\<lambda>r. eq_ignore_ascii_case (dr_name r) name) BUILTIN_DENYLIST
      in case find (\<lambda>r. dr_subcommand r = None) rules of
           Some rule \<Rightarrow> Some (dr_reason rule)
         | None \<Rightarrow>
             if rules = [] then None
             else case locate_git_subcommand words of
               None \<Rightarrow> Some UNVERIFIABLE_GIT_SHAPE_REASON
             | Some None \<Rightarrow> None
             | Some (Some sub) \<Rightarrow> find_map (structured_reason words sub) rules)"

section \<open>Accessors\<close>

definition catalog_contains :: "string \<Rightarrow> bool" where
  "catalog_contains name = list_ex (\<lambda>spec. sp_name spec = name) READ_ONLY_CATALOG"

definition exec_baseline :: "string \<Rightarrow> exec_decision" where
  "exec_baseline name = (if catalog_contains name then ExecAllow else ExecAsk)"

text \<open>\<open>classifier::builtin_deny_reason\<close>: the name-only rules.\<close>

definition name_deny_reason :: "string \<Rightarrow> string option" where
  "name_deny_reason name =
     map_option dr_reason
       (find (\<lambda>r. dr_subcommand r = None \<and> eq_ignore_ascii_case (dr_name r) name) BUILTIN_DENYLIST)"

definition is_valid_override_key :: "string \<Rightarrow> string + unit" where
  "is_valid_override_key name =
     (if str_trim name = [] then Inl ''override key must not be empty or whitespace''
      else if name \<in> set SHELL_INTERPRETERS \<or> name \<in> set EVAL_COMMANDS
      then Inl (''cannot override '' @ quoted name @
             '': shell interpreter/eval invocations are re-parsed, '' @
             ''so an override would never apply'')
      else if name_deny_reason name \<noteq> None
      then Inl (''cannot override '' @ quoted name @
             '': it is builtin-denied and cannot be widened'')
      else Inr ())"

section \<open>The source handed to an interpreter\<close>

definition strip_quotes :: "string \<Rightarrow> string" where
  "strip_quotes s =
     (if 2 \<le> length s \<and>
         (hd s = CHR 0x27 \<and> last s = CHR 0x27 \<or> hd s = CHR 0x22 \<and> last s = CHR 0x22)
      then butlast (tl s) else s)"

fun c_flag_argument :: "bool \<Rightarrow> node list \<Rightarrow> string option" where
  "c_flag_argument found_c [] = None"
| "c_flag_argument found_c (word # rest) =
     (case word_literal_value word of
        None \<Rightarrow> None
      | Some val \<Rightarrow>
          if found_c then Some val
          else c_flag_argument (val \<in> set COMMAND_STRING_FLAGS) rest)"

definition find_c_flag_argument :: "node list \<Rightarrow> string option" where
  "find_c_flag_argument words = c_flag_argument False (tl words)"

definition collect_remaining_args :: "node list \<Rightarrow> string option" where
  "collect_remaining_args words =
     (let args = List.map_filter (\<lambda>w. map_option strip_quotes (word_literal_value w)) (tl words)
      in if args = [] then None else Some (join_str '' '' args))"

text \<open>The source \<open>classify_interpreter_delegate\<close> parses again, when the command is delegated.\<close>

definition inner_source :: "string \<Rightarrow> node list \<Rightarrow> string option" where
  "inner_source cmd_name words =
     map_option strip_quotes
       (if cmd_name \<in> set SHELL_INTERPRETERS then find_c_flag_argument words
        else if cmd_name \<in> set EVAL_COMMANDS then collect_remaining_args words
        else None)"

end
