(* ===== verification/Policy_Walker.thy ===== *)
theory Policy_Walker
  imports Shell_Catalog
begin

text \<open>
  The walk over the syntax tree: \<open>helpers.rs\<close>, \<open>walker.rs\<close> and \<open>delegate.rs\<close> of
  \<open>crates/kallipai-adk/src/policy/classifier\<close>. The walk re-enters itself on the tree of an inner
  source (\<open>bash -c '...'\<close>), so it is written over the re-entry \<open>re\<close> and the knot is tied with a
  depth: \<open>None\<close> means that the depth did not suffice. A classification by every field is
  summarised by its severity, the maximum of what a node contributes itself and what the children
  the walker visits contribute; the properties of the walk rest on that one equation.
\<close>

section \<open>Merging decisions\<close>

fun merge_reasons :: "string option \<Rightarrow> string option \<Rightarrow> string option" where
  "merge_reasons (Some a) (Some b) = (if a = b then Some a else Some (a @ ''; '' @ b))"
| "merge_reasons (Some a) None = Some a"
| "merge_reasons None (Some a) = Some a"
| "merge_reasons None None = None"

fun stricter :: "tool_decision \<Rightarrow> tool_decision \<Rightarrow> tool_decision" where
  "stricter (Deny r) _ = Deny r"
| "stricter Allow (Deny r) = Deny r"
| "stricter (Ask _) (Deny r) = Deny r"
| "stricter (Ask a) (Ask b) = Ask (merge_reasons a b)"
| "stricter (Ask a) Allow = Ask a"
| "stricter Allow (Ask b) = Ask b"
| "stricter Allow Allow = Allow"

text \<open>The same where a component may not have been classified.\<close>

definition join :: "tool_decision option \<Rightarrow> tool_decision option \<Rightarrow> tool_decision option" where
  "join a b =
     (case a of
        None \<Rightarrow> None
      | Some x \<Rightarrow> (case b of None \<Rightarrow> None | Some y \<Rightarrow> Some (stricter x y)))"

text \<open>\<open>.fold(ToolDecision::Allow, stricter)\<close>.\<close>

definition strictest :: "tool_decision option list \<Rightarrow> tool_decision option" where
  "strictest ds = foldl join (Some Allow) ds"

section \<open>Redirects and assignments\<close>

definition READ_ONLY_REDIRECT_SINKS :: "string list" where
  "READ_ONLY_REDIRECT_SINKS = [''/dev/null'']"

definition WRITE_REDIRECT_OPS :: "string list" where
  "WRITE_REDIRECT_OPS = [''>'', ''>>'', ''>|'', ''<>'', ''&>'', ''&>>'']"

definition is_fd_number :: "string \<Rightarrow> bool" where
  "is_fd_number s \<longleftrightarrow> s \<noteq> [] \<and> list_all is_digit s"

definition classify_redirect_op :: "classify_ctx \<Rightarrow> string \<Rightarrow> string option \<Rightarrow> tool_decision"
where
  "classify_redirect_op ctx op target =
     (let is_write_op = op \<in> set WRITE_REDIRECT_OPS;
          is_dup_op = op \<in> {''>&'', ''<&''};
          unknown = needs_approval ctx (''redirect operator '' @ quoted op @ '' is not auto-approved'')
      in if op = ''>&-'' then Allow
         else if op \<in> {''<'', ''<<<''} then Allow
         else case target of
           Some t \<Rightarrow>
             if is_dup_op \<and> is_fd_number t then Allow
             else if is_write_op \<and> t \<in> set READ_ONLY_REDIRECT_SINKS then Allow
             else if is_write_op
             then needs_approval ctx (''output redirect '' @ quoted op @ '' to '' @ quoted t)
             else if is_dup_op
             then needs_approval ctx (''redirect '' @ quoted op @ '' to '' @ quoted t)
             else unknown
         | None \<Rightarrow>
             if is_write_op
             then needs_approval ctx (''output redirect '' @ quoted op @ '' to a non-literal target'')
             else unknown)"

definition classify_assignment_name :: "classify_ctx \<Rightarrow> node \<Rightarrow> tool_decision" where
  "classify_assignment_name ctx assignment =
     (case assignment of
        Word v _ \<Rightarrow>
          let name = before_char CHR ''='' v
          in if list_ex (\<lambda>s. eq_ignore_ascii_case s name) SENSITIVE_ENV_VARS
             then needs_approval ctx (''assignment to sensitive env var '' @ quoted name)
             else Allow
      | _ \<Rightarrow> Allow)"

text \<open>What the value parts of an assignment add: only words are looked into.\<close>

definition assignment_parts :: "node \<Rightarrow> tool_decision option \<Rightarrow> tool_decision option" where
  "assignment_parts a dec = (case a of Word _ _ \<Rightarrow> dec | _ \<Rightarrow> Some Allow)"

definition classify_assignments :: "classify_ctx \<Rightarrow> (node \<times> tool_decision option) list
    \<Rightarrow> tool_decision option" where
  "classify_assignments ctx assignments =
     strictest
       (map (\<lambda>(a, dec). join (Some (classify_assignment_name ctx a)) (assignment_parts a dec))
         assignments)"

section \<open>Pipelines\<close>

definition command_word :: "node \<Rightarrow> string option" where
  "command_word c =
     (case c of
        Command _ (w # _) _ \<Rightarrow> map_option ascii_lower (word_literal_value w)
      | _ \<Rightarrow> None)"

definition is_download_to_shell :: "node list \<Rightarrow> bool" where
  "is_download_to_shell commands =
     (let names = List.map_filter command_word commands
      in list_ex (\<lambda>n. n = ''curl'' \<or> n = ''wget'') names \<and>
         list_ex (\<lambda>n. n \<in> set SHELL_INTERPRETERS) names)"

definition download_dec :: "node list \<Rightarrow> tool_decision" where
  "download_dec commands =
     (if is_download_to_shell commands
      then Deny (''downloading and piping to a shell is not allowed; '' @
             ''download the file first, review it, then execute it'')
      else Allow)"

section \<open>Simple commands\<close>

text \<open>The overriding of a catalog verdict, below the denylist floor.\<close>

definition override_decision :: "string \<Rightarrow> exec_override \<Rightarrow> tool_decision \<Rightarrow> tool_decision" where
  "override_decision cmd_name ov allowed =
     (case eo_decision ov of
        ExecAllow \<Rightarrow> allowed
      | ExecAsk \<Rightarrow>
          Ask (Some (case eo_reason ov of
            Some r \<Rightarrow> r
          | None \<Rightarrow> quoted cmd_name @ '' is set to '' @ quoted ''ask'' @ '' by exec_policy''))
      | ExecDeny \<Rightarrow>
          Deny (case eo_reason ov of
            Some r \<Rightarrow> r
          | None \<Rightarrow> ''denied by exec_policy override for '' @ quoted cmd_name))"

definition apply_override :: "classify_ctx \<Rightarrow> string \<Rightarrow> node list \<Rightarrow> tool_decision option
    \<Rightarrow> tool_decision" where
  "apply_override ctx cmd_name words catalog_verdict =
     (case builtin_deny_reason cmd_name words of
        Some reason \<Rightarrow> Deny reason
      | None \<Rightarrow>
          (case catalog_verdict of
             None \<Rightarrow>
               (case override_for (cx_overrides ctx) cmd_name of
                  Some ov \<Rightarrow> override_decision cmd_name ov Allow
                | None \<Rightarrow>
                    needs_approval ctx (quoted cmd_name @ '' is not in the read-only catalog''))
           | Some catalog_dec \<Rightarrow>
               (case override_for (cx_overrides ctx) cmd_name of
                  Some ov \<Rightarrow> override_decision cmd_name ov catalog_dec
                | None \<Rightarrow> catalog_dec)))"

text \<open>\<open>classify_simple_command\<close>. Each of the children comes with its own classification; \<open>re\<close>
  classifies an inner source.\<close>

definition classify_simple_command :: "(string \<Rightarrow> tool_decision option) \<Rightarrow> classify_ctx
    \<Rightarrow> (node \<times> tool_decision option) list \<Rightarrow> (node \<times> tool_decision option) list
    \<Rightarrow> (node \<times> tool_decision option) list \<Rightarrow> tool_decision option" where
  "classify_simple_command re ctx words redirects assignments =
     (case words of
        [] \<Rightarrow> classify_assignments ctx assignments
      | (w, w_dec) # args \<Rightarrow>
          (case extract_command_name w of
             None \<Rightarrow>
               join (Some (needs_approval ctx ''command name is not a literal word'')) w_dec
           | Some name \<Rightarrow>
               let cmd_name = ascii_lower name; ws = map fst words
               in case inner_source cmd_name ws of
                    Some src \<Rightarrow> re src
                  | None \<Rightarrow>
                      strictest
                        [Some (apply_override ctx cmd_name ws
                           (classify_named_command ctx cmd_name ws)),
                         strictest (map snd redirects),
                         strictest (map snd args),
                         classify_assignments ctx assignments]))"

section \<open>The walk\<close>

definition classify_multi :: "tool_decision option list \<Rightarrow> tool_decision option option
    \<Rightarrow> tool_decision option list \<Rightarrow> tool_decision option" where
  "classify_multi required optional redirects =
     join
       (case optional of
          None \<Rightarrow> strictest required
        | Some d \<Rightarrow> join (strictest required) d)
       (strictest redirects)"

lemma size_fst_item [termination_simp]:
  "it \<in> set xs \<Longrightarrow> size (fst it) < Suc (size_list (size_prod size g) xs)"
  using size_list_estimation' [of it xs "size (fst it)" "size_prod size g"]
  by (cases it) simp

lemma size_snd_item [termination_simp]:
  assumes "it \<in> set xs" "snd it = Some b"
  shows "size (b :: node) < Suc (size_list (size_prod f (size_option size)) xs)"
  using size_list_estimation' [OF assms(1), of "size b" "size_prod f (size_option size)"] assms(2)
  by (cases it) simp

lemma size_fst_list_item [termination_simp]:
  assumes "it \<in> set xs" "p \<in> set (fst it)"
  shows "size (p :: node) < Suc (size_list (size_prod (size_list size) f) xs)"
proof -
  have "size p \<le> size_list size (fst it)" using assms(2) by (induction "fst it") (auto simp: size_list_estimation')
  with size_list_estimation' [OF assms(1), of "size p" "size_prod (size_list size) f"]
  show ?thesis by (cases it) simp
qed

fun classify_node :: "(string \<Rightarrow> tool_decision option) \<Rightarrow> classify_ctx \<Rightarrow> node
    \<Rightarrow> tool_decision option" where
  "classify_node re ctx (Command assignments words redirects) =
     (if words = [] \<and> assignments = [] \<and> redirects = [] then Some (Deny ''empty command'')
      else classify_simple_command re ctx
        (map (\<lambda>w. (w, classify_node re ctx w)) words)
        (map (\<lambda>r. (r, classify_node re ctx r)) redirects)
        (map (\<lambda>a. (a, classify_node re ctx a)) assignments))"
| "classify_node re ctx (Pipeline commands) =
     join (Some (download_dec commands)) (strictest (map (\<lambda>c. classify_node re ctx c) commands))"
| "classify_node re ctx (CmdList items) =
     (if list_ex snd items
      then Some (needs_approval ctx
             (''background operator '' @ quoted ''&'' @ '' runs an unobservable process; '' @
              ''use the runtime'' @ [CHR 0x27] @ ''s native background execution instead''))
      else strictest (map (\<lambda>it. classify_node re ctx (fst it)) items))"
| "classify_node re ctx (IfNode condition then_body else_body redirects) =
     classify_multi [classify_node re ctx condition, classify_node re ctx then_body]
       (map_option (\<lambda>e. classify_node re ctx e) else_body)
       (map (\<lambda>r. classify_node re ctx r) redirects)"
| "classify_node re ctx (Loop _ condition body redirects) =
     classify_multi [classify_node re ctx condition, classify_node re ctx body] None
       (map (\<lambda>r. classify_node re ctx r) redirects)"
| "classify_node re ctx (Iter _ words body redirects) =
     (let dec = classify_multi [classify_node re ctx body] None
                  (map (\<lambda>r. classify_node re ctx r) redirects)
      in case words of
           None \<Rightarrow> dec
         | Some ws \<Rightarrow> join dec (strictest (map (\<lambda>w. classify_node re ctx w) ws)))"
| "classify_node re ctx (ForArith body redirects) =
     classify_multi [classify_node re ctx body] None
       (map (\<lambda>r. classify_node re ctx r) redirects)"
| "classify_node re ctx (Case word patterns redirects) =
     join
       (foldl join (classify_node re ctx word)
         (concat
           (map (\<lambda>pat. map (\<lambda>p. classify_node re ctx p) (fst pat) @
                  (case snd pat of None \<Rightarrow> [] | Some body \<Rightarrow> [classify_node re ctx body]))
             patterns)))
       (strictest (map (\<lambda>r. classify_node re ctx r) redirects))"
| "classify_node re ctx (Function body) =
     join (Some (needs_approval ctx ''function definitions can later execute arbitrary code''))
       (classify_node re ctx body)"
| "classify_node re ctx (Group _ body redirects) =
     join (classify_node re ctx body) (strictest (map (\<lambda>r. classify_node re ctx r) redirects))"
| "classify_node re ctx (Redirect op target) =
     join (Some (classify_redirect_op ctx op (redirect_target_literal target)))
       (classify_node re ctx target)"
| "classify_node re ctx HereDoc =
     Some (needs_approval ctx ''here-document is not auto-approved'')"
| "classify_node re ctx (CommandSubstitution command) = classify_node re ctx command"
| "classify_node re ctx (ProcessSubstitution command) =
     join (Some (needs_approval ctx ''process substitution runs a command''))
       (classify_node re ctx command)"
| "classify_node re ctx (Word _ parts) =
     (if parts = [] then Some Allow
      else strictest (map (\<lambda>p. classify_node re ctx p) parts))"
| "classify_node re ctx (Leaf _) = Some Allow"
| "classify_node re ctx ParamIndirect =
     Some (needs_approval ctx ''indirect parameter expansion can read arbitrary variables'')"
| "classify_node re ctx (ArithmeticExpansion expression) =
     (case expression of None \<Rightarrow> Some Allow | Some e \<Rightarrow> classify_node re ctx e)"
| "classify_node re ctx (ArithmeticCommand expression redirects) =
     join (case expression of None \<Rightarrow> Some Allow | Some e \<Rightarrow> classify_node re ctx e)
       (strictest (map (\<lambda>r. classify_node re ctx r) redirects))"
| "classify_node re ctx (Unary _ operand) = classify_node re ctx operand"
| "classify_node re ctx (Coproc command) =
     join (Some (needs_approval ctx
             (''coproc runs an unobservable background process; '' @
              ''use the runtime'' @ [CHR 0x27] @ ''s native background execution instead'')))
       (classify_node re ctx command)"
| "classify_node re ctx (ConditionalExpr body redirects) =
     join (classify_node re ctx body) (strictest (map (\<lambda>r. classify_node re ctx r) redirects))"
| "classify_node re ctx (Binary _ left right) =
     join (classify_node re ctx left) (classify_node re ctx right)"
| "classify_node re ctx Empty = Some (Deny ''empty command'')"
| "classify_node re ctx (ArithTernary condition if_true if_false) =
     (let dec = classify_node re ctx condition;
          dec = (case if_true of None \<Rightarrow> dec | Some t \<Rightarrow> join dec (classify_node re ctx t))
      in case if_false of None \<Rightarrow> dec | Some f \<Rightarrow> join dec (classify_node re ctx f))"
| "classify_node re ctx (ArithConcat parts) =
     strictest (map (\<lambda>p. classify_node re ctx p) parts)"

definition classify_nodes :: "(string \<Rightarrow> tool_decision option) \<Rightarrow> classify_ctx \<Rightarrow> node list
    \<Rightarrow> tool_decision option" where
  "classify_nodes re ctx nodes = strictest (map (classify_node re ctx) nodes)"

text \<open>\<open>classify_redirect_node\<close> has arms of its own; they are the walker's.\<close>

definition classify_redirect_node :: "(string \<Rightarrow> tool_decision option) \<Rightarrow> classify_ctx \<Rightarrow> node
    \<Rightarrow> tool_decision option" where
  "classify_redirect_node re ctx node =
     (case node of
        Redirect op target \<Rightarrow>
          join (Some (classify_redirect_op ctx op (redirect_target_literal target)))
            (classify_node re ctx target)
      | HereDoc \<Rightarrow> Some (needs_approval ctx ''here-document is not auto-approved'')
      | _ \<Rightarrow> classify_node re ctx node)"

lemma classify_redirect_node: "classify_redirect_node re ctx node = classify_node re ctx node"
  by (cases node) (simp_all add: classify_redirect_node_def)

section \<open>Entry points\<close>

type_synonym shell_parser = "string \<Rightarrow> string + node list"

text \<open>The inner source of a delegated command, parsed and walked.\<close>

primrec classify_inner :: "shell_parser \<Rightarrow> classify_ctx \<Rightarrow> nat \<Rightarrow> string
    \<Rightarrow> tool_decision option" where
  "classify_inner parse ctx 0 = (\<lambda>src. None)"
| "classify_inner parse ctx (Suc d) = (\<lambda>src.
     (case parse src of
        Inl _ \<Rightarrow> Some (Deny ''failed to parse inner command for interpreter delegate'')
      | Inr nodes \<Rightarrow> classify_nodes (classify_inner parse ctx d) ctx nodes))"

definition classify_command :: "shell_parser \<Rightarrow> nat \<Rightarrow> classify_ctx \<Rightarrow> string
    \<Rightarrow> tool_decision option" where
  "classify_command parse depth ctx command =
     (let trimmed = str_trim command
      in if trimmed = [] then Some (Deny ''empty commands are not allowed'')
         else case parse trimmed of
           Inl e \<Rightarrow> Some (Deny (''failed to parse command: '' @ e))
         | Inr nodes \<Rightarrow>
             if nodes = [] then Some (Deny ''command parsed to an empty AST'')
             else if cx_preset ctx = PresetAllowAll then Some Allow
             else classify_nodes (classify_inner parse ctx depth) ctx nodes)"

text \<open>\<open>Classifier::classify_with\<close> on the default catalog.\<close>

definition classify_with :: "shell_parser \<Rightarrow> nat \<Rightarrow> string \<Rightarrow> exec_policy \<Rightarrow> policy_preset
    \<Rightarrow> tool_decision option" where
  "classify_with parse depth command overrides preset =
     classify_command parse depth
       \<lparr>cx_catalog = READ_ONLY_CATALOG, cx_preset = preset, cx_overrides = overrides\<rparr> command"

section \<open>Severity\<close>

fun sev :: "tool_decision option \<Rightarrow> nat" where
  "sev (Some Allow) = 0"
| "sev (Some (Ask _)) = 1"
| "sev (Some (Deny _)) = 2"
| "sev None = 3"

named_theorems sev_simps "a bound on a severity, taken apart"

lemma sev_join [simp]: "sev (join a b) = max (sev a) (sev b)"
  by (cases a rule: sev.cases; cases b rule: sev.cases) (simp_all add: join_def)

lemma sev_foldl_join: "sev (foldl join d ds) \<le> k \<longleftrightarrow> sev d \<le> k \<and> (\<forall>x \<in> set ds. sev x \<le> k)"
  by (induction ds arbitrary: d) auto

lemma sev_strictest [sev_simps]: "sev (strictest ds) \<le> k \<longleftrightarrow> (\<forall>x \<in> set ds. sev x \<le> k)"
  by (simp add: strictest_def sev_foldl_join)

lemma sev_multi [sev_simps]:
  "sev (classify_multi required optional redirects) \<le> k \<longleftrightarrow>
     (\<forall>x \<in> set required. sev x \<le> k) \<and> (\<forall>x \<in> set_option optional. sev x \<le> k) \<and>
     (\<forall>x \<in> set redirects. sev x \<le> k)"
  by (cases optional) (auto simp: classify_multi_def sev_strictest)

lemma sev_0_iff: "sev x \<le> 0 \<longleftrightarrow> x = Some Allow"
  by (cases x rule: sev.cases) simp_all

lemma sev_le2_iff: "sev x \<le> 2 \<longleftrightarrow> x \<noteq> None"
  by (cases x rule: sev.cases) simp_all

lemma sev_deny: "2 \<le> sev x \<Longrightarrow> x = Some dec \<Longrightarrow> \<exists>r. dec = Deny r"
  by (cases dec) simp_all

text \<open>The children a node is classified by, and what it contributes on its own.\<close>

definition is_word :: "node \<Rightarrow> bool" where
  "is_word n = (case n of Word _ _ \<Rightarrow> True | _ \<Rightarrow> False)"

definition command_source :: "node list \<Rightarrow> string option" where
  "command_source ws =
     (case ws of
        [] \<Rightarrow> None
      | w # _ \<Rightarrow>
          (case word_literal_value w of
             None \<Rightarrow> None
           | Some name \<Rightarrow> inner_source (ascii_lower name) ws))"

definition opt_list :: "'a option \<Rightarrow> 'a list" where
  "opt_list x = (case x of None \<Rightarrow> [] | Some a \<Rightarrow> [a])"

lemma set_opt_list [simp]: "set (opt_list x) = set_option x"
  by (cases x) (simp_all add: opt_list_def)

fun walked :: "node \<Rightarrow> node list" where
  "walked (Command assignments words redirects) =
     (case words of
        [] \<Rightarrow> filter is_word assignments
      | w # args \<Rightarrow>
          if word_literal_value w = None then [w]
          else if command_source words \<noteq> None then []
          else redirects @ args @ filter is_word assignments)"
| "walked (Pipeline commands) = commands"
| "walked (CmdList items) = (if list_ex snd items then [] else map fst items)"
| "walked (IfNode condition then_body else_body redirects) =
     condition # then_body # opt_list else_body @ redirects"
| "walked (Loop _ condition body redirects) = condition # body # redirects"
| "walked (Iter _ words body redirects) =
     body # redirects @ (case words of None \<Rightarrow> [] | Some ws \<Rightarrow> ws)"
| "walked (ForArith body redirects) = body # redirects"
| "walked (Case word patterns redirects) =
     word # concat (map (\<lambda>pat. fst pat @ opt_list (snd pat)) patterns) @ redirects"
| "walked (Group _ body redirects) = body # redirects"
| "walked (Redirect _ target) = [target]"
| "walked (Word _ parts) = parts"
| "walked (ArithmeticExpansion expression) = opt_list expression"
| "walked (ArithmeticCommand expression redirects) = opt_list expression @ redirects"
| "walked (ConditionalExpr body redirects) = body # redirects"
| "walked (Binary _ left right) = [left, right]"
| "walked (ArithTernary condition if_true if_false) =
     condition # opt_list if_true @ opt_list if_false"
| "walked (ArithConcat parts) = parts"
| "walked (Function body) = [body]"
| "walked (CommandSubstitution command) = [command]"
| "walked (ProcessSubstitution command) = [command]"
| "walked (Unary _ operand) = [operand]"
| "walked (Coproc command) = [command]"
| "walked HereDoc = []"
| "walked (Leaf _) = []"
| "walked ParamIndirect = []"
| "walked Empty = []"

definition assignment_names :: "classify_ctx \<Rightarrow> node list \<Rightarrow> tool_decision option" where
  "assignment_names ctx assignments =
     strictest (map (\<lambda>a. Some (classify_assignment_name ctx a)) assignments)"

fun own :: "(string \<Rightarrow> tool_decision option) \<Rightarrow> classify_ctx \<Rightarrow> node \<Rightarrow> tool_decision option" where
  "own re ctx (Command assignments words redirects) =
     (case words of
        [] \<Rightarrow>
          if assignments = [] \<and> redirects = [] then Some (Deny ''empty command'')
          else assignment_names ctx assignments
      | w # args \<Rightarrow>
          (case word_literal_value w of
             None \<Rightarrow> Some (needs_approval ctx ''command name is not a literal word'')
           | Some name \<Rightarrow>
               (case command_source words of
                  Some src \<Rightarrow> re src
                | None \<Rightarrow>
                    join (Some (apply_override ctx (ascii_lower name) words
                            (classify_named_command ctx (ascii_lower name) words)))
                      (assignment_names ctx assignments))))"
| "own re ctx (Pipeline commands) = Some (download_dec commands)"
| "own re ctx (CmdList items) =
     (if list_ex snd items then Some (needs_approval ctx []) else Some Allow)"
| "own re ctx (Redirect op target) =
     Some (classify_redirect_op ctx op (redirect_target_literal target))"
| "own re ctx (Function _) = Some (needs_approval ctx [])"
| "own re ctx HereDoc = Some (needs_approval ctx [])"
| "own re ctx (ProcessSubstitution _) = Some (needs_approval ctx [])"
| "own re ctx ParamIndirect = Some (needs_approval ctx [])"
| "own re ctx (Coproc _) = Some (needs_approval ctx [])"
| "own re ctx Empty = Some (Deny ''empty command'')"
| "own re ctx _ = Some Allow"

lemma sev_needs_approval:
  "sev (Some (needs_approval ctx r)) =
     (case cx_preset ctx of PresetAuto \<Rightarrow> 0 | PresetDefault \<Rightarrow> 1 | PresetAllowAll \<Rightarrow> 2)"
  by (simp add: needs_approval_def split: policy_preset.split)

lemma sev_assignments:
  "sev (classify_assignments ctx (map (\<lambda>a. (a, f a)) assignments)) \<le> k \<longleftrightarrow>
     sev (assignment_names ctx assignments) \<le> k \<and>
     (\<forall>a \<in> set (filter is_word assignments). sev (f a) \<le> k)"
proof -
  have "sev (join (Some (classify_assignment_name ctx a)) (assignment_parts a (f a))) \<le> k \<longleftrightarrow>
      sev (Some (classify_assignment_name ctx a)) \<le> k \<and> (is_word a \<longrightarrow> sev (f a) \<le> k)" for a
    by (simp add: assignment_parts_def is_word_def split: node.split)
  then show ?thesis
    by (auto simp: classify_assignments_def assignment_names_def sev_strictest)
qed

lemma sev_simple_command:
  assumes "words \<noteq> [] \<or> assignments \<noteq> [] \<or> redirects \<noteq> []"
  shows "sev (classify_simple_command re ctx (map (\<lambda>w. (w, f w)) words)
      (map (\<lambda>r. (r, f r)) redirects) (map (\<lambda>a. (a, f a)) assignments)) \<le> k \<longleftrightarrow>
    sev (own re ctx (Command assignments words redirects)) \<le> k \<and>
    (\<forall>m \<in> set (walked (Command assignments words redirects)). sev (f m) \<le> k)"
proof (cases words)
  case Nil
  with assms show ?thesis by (auto simp: classify_simple_command_def sev_assignments)
next
  case (Cons w args)
  then show ?thesis
    by (cases "word_literal_value w")
      (auto simp: classify_simple_command_def extract_command_name_def command_source_def
        comp_def Let_def sev_strictest sev_assignments split: option.split)
qed

lemma sev_node:
  "sev (classify_node re ctx n) \<le> k \<longleftrightarrow>
     sev (own re ctx n) \<le> k \<and> (\<forall>m \<in> set (walked n). sev (classify_node re ctx m) \<le> k)"
proof (cases n)
  case (Command assignments words redirects)
  show ?thesis
  proof (cases "words = [] \<and> assignments = [] \<and> redirects = []")
    case True
    then show ?thesis by (simp add: Command)
  next
    case False
    then show ?thesis
      using sev_simple_command [of words assignments redirects re ctx "classify_node re ctx" k]
      unfolding Command classify_node.simps by (simp only: if_False if_not_P) blast
  qed
next
  case (Case word patterns redirects)
  then show ?thesis
    by (auto simp: sev_simps sev_foldl_join opt_list_def split: option.splits)
next
  case (Iter kind words body redirects)
  then show ?thesis by (cases words) (auto simp: sev_simps Let_def)
next
  case (ArithTernary condition if_true if_false)
  then show ?thesis by (cases if_true; cases if_false) (auto simp: Let_def)
next
  case (ArithmeticExpansion expression)
  then show ?thesis by (cases expression) auto
next
  case (ArithmeticCommand expression redirects)
  then show ?thesis by (cases expression) (auto simp: sev_simps)
next
  case (IfNode condition then_body else_body redirects)
  then show ?thesis by (auto simp: sev_simps)
qed (auto simp: sev_simps sev_needs_approval)

lemma sev_nodes:
  "sev (classify_nodes re ctx ns) \<le> k \<longleftrightarrow> (\<forall>n \<in> set ns. sev (classify_node re ctx n) \<le> k)"
  by (simp add: classify_nodes_def sev_strictest)

lemma walked_size: "m \<in> set (walked n) \<Longrightarrow> size m < size n"
proof (cases n)
  case (Command assignments words redirects)
  then show "m \<in> set (walked n) \<Longrightarrow> size m < size n"
    by (auto split: list.splits if_splits dest: size_list_estimation' [where f = size, OF _ order_refl])
next
  case (Case word patterns redirects)
  assume m: "m \<in> set (walked n)"
  let ?ps = "size_list (size_prod (size_list size) (size_option size)) patterns"
  have pattern: "size m < Suc ?ps"
    if "it \<in> set patterns" "m \<in> set (fst it) \<union> set_option (snd it)" for it
    using size_fst_list_item [of it patterns m "size_option size"]
      size_snd_item [of it patterns m "size_list size"] that by (auto simp: elem_set)
  have redirect: "m \<in> set redirects \<Longrightarrow> size m \<le> size_list size redirects"
    by (erule size_list_estimation') simp
  from m consider "m = word" | "m \<in> set redirects"
    | it where "it \<in> set patterns" "m \<in> set (fst it) \<union> set_option (snd it)"
    by (auto simp: Case)
  then show "size m < size n"
    by cases (use pattern redirect in \<open>fastforce simp: Case\<close>)+
next
  case (CmdList items)
  then show "m \<in> set (walked n) \<Longrightarrow> size m < size n"
    using size_fst_item [of _ items] by (auto split: if_splits)
qed (auto split: option.splits if_splits simp: elem_set
    dest!: size_list_estimation' [where f = size, OF _ order_refl])

end
