(* ===== verification/Policy_Props.thy ===== *)
theory Policy_Props
  imports Policy_Walker
begin

text \<open>
  What the classifier promises about a whole command. A node is visited when the walk reaches it,
  through the tree or through the inner source of a delegated command; the theorems bound the
  verdict by what the visited nodes contribute, compare the verdicts under two policies, and show
  that the depth of delegation is bounded by the length of the command.
\<close>

section \<open>Visited nodes\<close>

text \<open>Inside one tree.\<close>

inductive within :: "node list \<Rightarrow> node \<Rightarrow> bool" for ns where
  within_root: "n \<in> set ns \<Longrightarrow> within ns n"
| within_child: "within ns n \<Longrightarrow> m \<in> set (walked n) \<Longrightarrow> within ns m"

definition node_source :: "node \<Rightarrow> string option" where
  "node_source n = (case n of Command _ ws _ \<Rightarrow> command_source ws | _ \<Rightarrow> None)"

inductive visits :: "shell_parser \<Rightarrow> node list \<Rightarrow> node \<Rightarrow> bool" for parse ns where
  visits_root: "n \<in> set ns \<Longrightarrow> visits parse ns n"
| visits_child: "visits parse ns n \<Longrightarrow> m \<in> set (walked n) \<Longrightarrow> visits parse ns m"
| visits_inner: "visits parse ns n \<Longrightarrow> node_source n = Some src \<Longrightarrow> parse src = Inr ms \<Longrightarrow>
    m \<in> set ms \<Longrightarrow> visits parse ns m"

lemma own_delegated:
  assumes "node_source n = Some src"
  shows "own re ctx n = re src" "walked n = []"
  using assms by (auto simp: node_source_def command_source_def split: node.splits list.splits
      option.splits)

lemma sev_inner:
  "sev (classify_inner parse ctx d src) \<le> k \<Longrightarrow> k \<le> 2 \<Longrightarrow>
    \<exists>d'. d = Suc d' \<and> (\<forall>ms. parse src = Inr ms \<longrightarrow>
      (\<forall>m \<in> set ms. sev (classify_node (classify_inner parse ctx d') ctx m) \<le> k))"
  by (cases d) (auto simp: sev_nodes)

lemma visits_sev:
  assumes "visits parse ns n" and "k \<le> 2"
    and "sev (classify_nodes (classify_inner parse ctx d) ctx ns) \<le> k"
  shows "\<exists>d'. sev (classify_node (classify_inner parse ctx d') ctx n) \<le> k"
  using assms(1)
proof (induction rule: visits.induct)
  case (visits_root n)
  with assms(3) show ?case by (auto simp: sev_nodes)
next
  case (visits_child n m)
  then show ?case by (auto simp: sev_node [of _ _ n])
next
  case (visits_inner n src ms m)
  then obtain d' where "sev (classify_node (classify_inner parse ctx d') ctx n) \<le> k" by blast
  then have "sev (classify_inner parse ctx d' src) \<le> k"
    using own_delegated [OF visits_inner.hyps(2)] by (simp add: sev_node [of _ _ n])
  from sev_inner [OF this assms(2)] visits_inner.hyps(3,4) show ?case by blast
qed

lemma visits_own:
  assumes "visits parse ns n" and "k \<le> 2"
    and "sev (classify_nodes (classify_inner parse ctx d) ctx ns) \<le> k"
  shows "\<exists>d'. sev (own (classify_inner parse ctx d') ctx n) \<le> k"
  using visits_sev [OF assms] by (auto simp: sev_node [of _ _ n])

lemma visits_mono: "visits parse [n] m \<Longrightarrow> visits parse ns n \<Longrightarrow> visits parse ns m"
  by (induction rule: visits.induct) (auto intro: visits.intros)

lemma visits_step:
  "m \<in> set (walked n) \<Longrightarrow> visits parse [m] x \<Longrightarrow> visits parse [n] x"
  by (rule visits_mono [of parse m x "[n]"], assumption)
    (rule visits_child [of parse "[n]" n m], simp_all add: visits_root)

section \<open>The denylist floor\<close>

text \<open>The denylist verdict on a node, when it is a directly named command.\<close>

definition floor_reason :: "node \<Rightarrow> string option" where
  "floor_reason n =
     (case n of
        Command _ (w # args) _ \<Rightarrow>
          (case word_literal_value w of
             None \<Rightarrow> None
           | Some name \<Rightarrow>
               if command_source (w # args) \<noteq> None then None
               else builtin_deny_reason (ascii_lower name) (w # args))
      | _ \<Rightarrow> None)"

lemma floor_own: "floor_reason n = Some r \<Longrightarrow> 2 \<le> sev (own re ctx n)"
  by (auto simp: floor_reason_def apply_override_def le_max_iff_disj
      split: node.splits list.splits option.splits if_splits)

lemma floor_denies_nodes:
  assumes "visits parse ns n" "floor_reason n = Some r"
    and "classify_nodes (classify_inner parse ctx d) ctx ns = Some dec"
  shows "\<exists>r. dec = Deny r"
proof (cases "sev (Some dec) \<le> 1")
  case True
  then obtain d' where "sev (own (classify_inner parse ctx d') ctx n) \<le> 1"
    using visits_own [OF assms(1), of 1 ctx d] assms(3) by auto
  then show ?thesis using floor_own [OF assms(2), of "classify_inner parse ctx d'" ctx] by linarith
next
  case False
  then show ?thesis by (cases dec) auto
qed

section \<open>What an allowed command amounts to\<close>

text \<open>The two redirects that open no file for writing but the null device.\<close>

definition harmless_redirect :: "string \<Rightarrow> string option \<Rightarrow> bool" where
  "harmless_redirect op target \<longleftrightarrow>
     op \<in> {''>&-'', ''<'', ''<<<''} \<or>
     (case target of
        None \<Rightarrow> False
      | Some t \<Rightarrow>
          op \<in> {''>&'', ''<&''} \<and> is_fd_number t \<or>
          op \<in> {''>'', ''>>'', ''>|'', ''<>'', ''&>'', ''&>>''} \<and> t = ''/dev/null'')"

definition plain_assignment :: "node \<Rightarrow> bool" where
  "plain_assignment a \<longleftrightarrow>
     (case a of
        Word v _ \<Rightarrow> \<not> list_ex (\<lambda>s. eq_ignore_ascii_case s (before_char CHR ''='' v)) SENSITIVE_ENV_VARS
      | _ \<Rightarrow> True)"

text \<open>A directly named command that needs nobody's approval: off the denylist and either in the
  catalog with no constraint tripped and no narrowing override, or absent from the catalog and
  allowed by name.\<close>

definition approved_by_name :: "classify_ctx \<Rightarrow> string \<Rightarrow> node list \<Rightarrow> bool" where
  "approved_by_name ctx name words \<longleftrightarrow>
     builtin_deny_reason name words = None \<and>
     (case find (\<lambda>spec. sp_name spec = name) (cx_catalog ctx) of
        Some spec \<Rightarrow>
          list_all (\<lambda>c. constraint_trip (sp_name spec) words c = None) (sp_constraints spec) \<and>
          (case override_for (cx_overrides ctx) name of
             None \<Rightarrow> True | Some ov \<Rightarrow> eo_decision ov = ExecAllow)
      | None \<Rightarrow>
          (case override_for (cx_overrides ctx) name of
             None \<Rightarrow> False | Some ov \<Rightarrow> eo_decision ov = ExecAllow))"

fun needs_nobody :: "shell_parser \<Rightarrow> classify_ctx \<Rightarrow> node \<Rightarrow> bool" where
  "needs_nobody parse ctx (Command assignments words redirects) \<longleftrightarrow>
     (case words of
        [] \<Rightarrow> (assignments \<noteq> [] \<or> redirects \<noteq> []) \<and> list_all plain_assignment assignments
      | w # args \<Rightarrow>
          (case word_literal_value w of
             None \<Rightarrow> False
           | Some name \<Rightarrow>
               (case command_source words of
                  Some src \<Rightarrow> (\<exists>ms. parse src = Inr ms)
                | None \<Rightarrow>
                    approved_by_name ctx (ascii_lower name) words \<and>
                    list_all plain_assignment assignments)))"
| "needs_nobody parse ctx (Pipeline commands) \<longleftrightarrow> \<not> is_download_to_shell commands"
| "needs_nobody parse ctx (CmdList items) \<longleftrightarrow> \<not> list_ex snd items"
| "needs_nobody parse ctx (Redirect op target) \<longleftrightarrow>
     harmless_redirect op (redirect_target_literal target)"
| "needs_nobody parse ctx (Function _) \<longleftrightarrow> False"
| "needs_nobody parse ctx HereDoc \<longleftrightarrow> False"
| "needs_nobody parse ctx (ProcessSubstitution _) \<longleftrightarrow> False"
| "needs_nobody parse ctx ParamIndirect \<longleftrightarrow> False"
| "needs_nobody parse ctx (Coproc _) \<longleftrightarrow> False"
| "needs_nobody parse ctx Empty \<longleftrightarrow> False"
| "needs_nobody parse ctx _ \<longleftrightarrow> True"

lemma redirect_op_0:
  assumes "cx_preset ctx = PresetDefault"
  shows "sev (Some (classify_redirect_op ctx op target)) = 0 \<longleftrightarrow> harmless_redirect op target"
proof -
  have "sev (Some (needs_approval ctx r)) \<noteq> 0" for r
    using assms by (simp add: sev_needs_approval)
  then show ?thesis
    by (auto simp: classify_redirect_op_def harmless_redirect_def WRITE_REDIRECT_OPS_def
        READ_ONLY_REDIRECT_SINKS_def Let_def split: option.split)
qed

lemma assignment_names_0:
  assumes "cx_preset ctx = PresetDefault"
  shows "sev (assignment_names ctx assignments) \<le> 0 \<longleftrightarrow> list_all plain_assignment assignments"
proof -
  have "sev (Some (classify_assignment_name ctx a)) \<le> 0 \<longleftrightarrow> plain_assignment a" for a
    using assms by (auto simp: classify_assignment_name_def plain_assignment_def Let_def
        sev_needs_approval split: node.split)
  then show ?thesis unfolding assignment_names_def sev_strictest by (simp add: list_all_iff)
qed

lemma sev_spec_classify:
  "sev (Some (spec_classify_from ctx name words cs)) =
     (if list_all (\<lambda>c. constraint_trip name words c = None) cs then 0
      else sev (Some (needs_approval ctx [])))"
  by (induction cs) (auto simp: sev_needs_approval split: option.split)

lemma apply_override_0:
  assumes "cx_preset ctx = PresetDefault"
  shows "sev (Some (apply_override ctx name words (classify_named_command ctx name words))) = 0 \<longleftrightarrow>
    approved_by_name ctx name words"
proof (cases "find (\<lambda>spec. sp_name spec = name) (cx_catalog ctx)")
  case None
  then show ?thesis
    using assms by (auto simp: apply_override_def approved_by_name_def classify_named_command_def
        override_decision_def sev_needs_approval split: option.split exec_decision.split)
next
  case (Some spec)
  then show ?thesis
    using assms by (auto simp: apply_override_def approved_by_name_def classify_named_command_def
        override_decision_def spec_classify_def sev_spec_classify sev_needs_approval
        split: option.split exec_decision.split if_splits)
qed

text \<open>A node contributes nothing under the strict preset exactly when it needs nobody, given the
  depth to look into an inner source.\<close>

lemma needs_nobody_own:
  assumes "cx_preset ctx = PresetDefault" "sev (own (classify_inner parse ctx d) ctx n) \<le> 0"
  shows "needs_nobody parse ctx n"
proof (cases n)
  case (Command assignments words redirects)
  show ?thesis
  proof (cases words)
    case Nil
    with assms show ?thesis
      using assignment_names_0 [OF assms(1), of assignments]
      by (auto simp: Command split: if_splits)
  next
    case (Cons w args)
    show ?thesis
    proof (cases "word_literal_value w")
      case None
      with assms show ?thesis by (simp add: Command Cons sev_needs_approval)
    next
      case (Some name)
      show ?thesis
      proof (cases "command_source words")
        case None
        then show ?thesis
          using assms apply_override_0 [OF assms(1)] assignment_names_0 [OF assms(1)]
          by (simp add: Command Cons Some)
      next
        case src: (Some src)
        then have "sev (classify_inner parse ctx d src) = 0" using assms(2) by (simp add: Command Cons Some)
        then have "\<exists>ms. parse src = Inr ms" by (cases d) (auto split: sum.splits)
        with src show ?thesis by (simp add: Command Cons Some)
      qed
    qed
  qed
next
  case (Redirect op target)
  then show ?thesis using assms redirect_op_0 [OF assms(1)] by simp
next
  case (Pipeline commands)
  then show ?thesis using assms by (simp add: download_dec_def split: if_splits)
next
  case (CmdList items)
  then show ?thesis using assms by (simp add: sev_needs_approval split: if_splits)
qed (use assms in \<open>simp_all add: sev_needs_approval\<close>)

lemma own_needs_nobody:
  assumes "cx_preset ctx = PresetDefault" "needs_nobody parse ctx n" "node_source n = None"
  shows "sev (own re ctx n) \<le> 0"
proof (cases n)
  case (Command assignments words redirects)
  show ?thesis
  proof (cases words)
    case Nil
    with assms show ?thesis
      using assignment_names_0 [OF assms(1), of assignments] by (simp add: Command)
  next
    case (Cons w args)
    with assms obtain name where "word_literal_value w = Some name"
      by (auto simp: Command split: option.splits)
    with assms show ?thesis
      using apply_override_0 [OF assms(1)] assignment_names_0 [OF assms(1), of assignments]
      by (simp add: Command Cons node_source_def)
  qed
next
  case (Redirect op target)
  then show ?thesis using assms redirect_op_0 [OF assms(1)] by simp
next
  case (Pipeline commands)
  then show ?thesis using assms by (simp add: download_dec_def)
next
  case (CmdList items)
  then show ?thesis using assms by simp
qed (use assms in simp_all)

lemma needs_nobody_source:
  "needs_nobody parse ctx n \<Longrightarrow> node_source n = Some src \<Longrightarrow> \<exists>ms. parse src = Inr ms"
  by (cases n) (auto simp: node_source_def command_source_def split: list.splits option.splits)

lemma allowed_node:
  assumes default: "cx_preset ctx = PresetDefault"
  shows "sev (classify_node (classify_inner parse ctx d) ctx n) \<le> 2 \<Longrightarrow>
    \<forall>x. visits parse [n] x \<longrightarrow> needs_nobody parse ctx x \<Longrightarrow>
    sev (classify_node (classify_inner parse ctx d) ctx n) \<le> 0"
proof (induction d arbitrary: n rule: less_induct)
  case outer: (less d)
  from outer.prems show ?case
  proof (induction n rule: measure_induct_rule [where f = size])
    case (less n)
    let ?re = "classify_inner parse ctx d"
    have parts: "sev (own ?re ctx n) \<le> 2"
      "\<forall>m \<in> set (walked n). sev (classify_node ?re ctx m) \<le> 2"
      using less.prems(1) sev_node [of ?re ctx n 2] by blast+
    have nobody: "needs_nobody parse ctx n" using less.prems(2) visits_root [of n "[n]" parse] by simp
    have "sev (classify_node ?re ctx m) \<le> 0" if "m \<in> set (walked n)" for m
      using less.IH [OF walked_size [OF that]] parts(2) less.prems(2) visits_step [OF that] that
      by blast
    moreover have "sev (own ?re ctx n) \<le> 0"
    proof (cases "node_source n")
      case None
      with default nobody show ?thesis by (rule own_needs_nobody)
    next
      case (Some src)
      then obtain ms where ms: "parse src = Inr ms" using nobody needs_nobody_source by blast
      from parts(1) obtain d' where d: "d = Suc d'"
        and le: "\<forall>m \<in> set ms. sev (classify_node (classify_inner parse ctx d') ctx m) \<le> 2"
        using sev_inner [of parse ctx d src 2] ms by (auto simp: own_delegated(1) [OF Some])
      have "sev (classify_node (classify_inner parse ctx d') ctx m) \<le> 0" if "m \<in> set ms" for m
      proof (rule outer.IH)
        show "d' < d" by (simp add: d)
        show "sev (classify_node (classify_inner parse ctx d') ctx m) \<le> 2" using le that by blast
        show "\<forall>x. visits parse [m] x \<longrightarrow> needs_nobody parse ctx x"
          using less.prems(2) visits_mono
            visits_inner [OF visits_root [of n "[n]" parse] Some ms that] by simp
      qed
      then have "sev (classify_nodes (classify_inner parse ctx d') ctx ms) \<le> 0"
        by (simp only: sev_nodes) simp
      then show ?thesis by (simp add: own_delegated(1) [OF Some] d ms)
    qed
    ultimately show ?case using sev_node [of ?re ctx n 0] by blast
  qed
qed

lemma classify_command_nodes:
  assumes "str_trim command \<noteq> []" "parse (str_trim command) = Inr ns" "ns \<noteq> []"
    "cx_preset ctx \<noteq> PresetAllowAll"
  shows "classify_command parse d ctx command = classify_nodes (classify_inner parse ctx d) ctx ns"
  using assms by (simp add: classify_command_def)

lemma allowed_nodes_iff:
  assumes default: "cx_preset ctx = PresetDefault"
    and depth: "classify_nodes (classify_inner parse ctx d) ctx ns \<noteq> None"
  shows "classify_nodes (classify_inner parse ctx d) ctx ns = Some Allow \<longleftrightarrow>
    (\<forall>n. visits parse ns n \<longrightarrow> needs_nobody parse ctx n)" (is "?l \<longleftrightarrow> ?r")
proof
  assume ?l
  then have "sev (classify_nodes (classify_inner parse ctx d) ctx ns) \<le> 0" by simp
  then have "\<exists>d'. sev (own (classify_inner parse ctx d') ctx n) \<le> 0" if "visits parse ns n" for n
    using visits_own [OF that, of 0] by simp
  then show ?r using needs_nobody_own [OF default] by blast
next
  assume ?r
  from depth have "sev (classify_nodes (classify_inner parse ctx d) ctx ns) \<le> 2"
    using sev_le2_iff by blast
  then have "sev (classify_node (classify_inner parse ctx d) ctx n) \<le> 0" if "n \<in> set ns" for n
    using allowed_node [OF default, of parse d n] visits_mono visits_root [of n ns parse] that \<open>?r\<close>
    by (meson sev_nodes)
  then have "sev (classify_nodes (classify_inner parse ctx d) ctx ns) \<le> 0" by (simp only: sev_nodes) simp
  then show ?l by (simp only: sev_0_iff)
qed

section \<open>Two policies\<close>

definition default_ctx :: "policy_preset \<Rightarrow> exec_policy \<Rightarrow> classify_ctx" where
  "default_ctx preset p =
     \<lparr>cx_catalog = READ_ONLY_CATALOG, cx_preset = preset, cx_overrides = p\<rparr>"

lemma default_ctx_simps [simp]:
  "cx_preset (default_ctx preset p) = preset" "cx_overrides (default_ctx preset p) = p"
  "cx_catalog (default_ctx preset p) = READ_ONLY_CATALOG"
  by (simp_all add: default_ctx_def)

text \<open>What a preset decides for a name without an override, outside the catalog: the auto preset allows it.\<close>

definition preset_baseline :: "policy_preset \<Rightarrow> string \<Rightarrow> exec_decision" where
  "preset_baseline preset = (if preset = PresetAuto then (\<lambda>_. ExecAllow) else exec_baseline)"

text \<open>The verdict on a name is the catalog verdict or the decision of the override, whichever of the two the
  effective decision stands for.\<close>

lemma sev_apply_override:
  assumes walks: "cx_preset ctx \<noteq> PresetAllowAll"
    and free: "builtin_deny_reason name words = None"
    and base: "exec_baseline name = (if verdict = None then ExecAsk else ExecAllow)"
  shows "sev (Some (apply_override ctx name words verdict)) =
    (case verdict of
       None \<Rightarrow> exec_rank (effective (preset_baseline (cx_preset ctx)) (cx_overrides ctx) name)
     | Some v \<Rightarrow>
         if effective (preset_baseline (cx_preset ctx)) (cx_overrides ctx) name = ExecAllow then sev (Some v)
         else exec_rank (effective (preset_baseline (cx_preset ctx)) (cx_overrides ctx) name))"
  using assms
  by (cases "cx_preset ctx")
    (auto simp: apply_override_def override_decision_def effective_def preset_baseline_def needs_approval_def
      split: option.split exec_decision.split)

lemma apply_override_mono:
  assumes walks: "cx_preset a = preset" "cx_preset b = preset" "preset \<noteq> PresetAllowAll"
    and base: "exec_baseline name = (if verdict = None then ExecAsk else ExecAllow)"
    and verdict: "\<And>v. verdict = Some v \<Longrightarrow> sev (Some v) \<le> 1"
    and le: "effective (preset_baseline preset) (cx_overrides a) name
      \<le> effective (preset_baseline preset) (cx_overrides b) name"
  shows "sev (Some (apply_override a name words verdict))
    \<le> sev (Some (apply_override b name words verdict))"
proof (cases "builtin_deny_reason name words")
  case None
  have rank: "exec_rank x \<le> exec_rank y" "x \<noteq> ExecAllow \<Longrightarrow> 1 \<le> exec_rank x"
    if "x \<le> y" for x y
    using that by (cases x; simp add: less_eq_exec_decision_def)+
  have a: "cx_preset a \<noteq> PresetAllowAll" and b: "cx_preset b \<noteq> PresetAllowAll" using walks by simp_all
  show ?thesis
    unfolding sev_apply_override [OF a None base] sev_apply_override [OF b None base] walks(1,2)
    using rank(1) [OF le] rank(2) [OF order_refl] verdict
    by (cases verdict) (auto split: if_splits intro: order_trans)
next
  case (Some r)
  then show ?thesis by (simp add: apply_override_def)
qed

lemma find_catalog: "catalog_contains name \<longleftrightarrow> find (\<lambda>spec. sp_name spec = name) READ_ONLY_CATALOG \<noteq> None"
  by (auto simp: catalog_contains_def find_None_iff list_ex_iff)

lemma sev_catalog_verdict:
  assumes "cx_preset ctx \<noteq> PresetAllowAll" "classify_named_command ctx name words = Some v"
  shows "sev (Some v) \<le> 1"
proof -
  have "sev (Some (needs_approval ctx r)) \<le> 1" for r
    using assms(1) by (cases "cx_preset ctx") (simp_all add: needs_approval_def)
  with assms(2) show ?thesis
    by (auto simp: classify_named_command_def spec_classify_def sev_spec_classify)
qed

lemma approval_default_ctx: "needs_approval (default_ctx preset p) = needs_approval (default_ctx preset q)"
  by (rule ext) (simp add: needs_approval_def)

lemma named_default_ctx:
  "classify_named_command (default_ctx preset p) name words =
   classify_named_command (default_ctx preset q) name words"
proof -
  have "spec_classify_from (default_ctx preset p) n words cs =
      spec_classify_from (default_ctx preset q) n words cs" for n cs
    by (induction cs) (auto simp: approval_default_ctx [of preset p q] split: option.split)
  then show ?thesis by (simp add: classify_named_command_def spec_classify_def)
qed

lemma own_mono:
  assumes strict: "\<forall>n. effective (preset_baseline preset) p n \<le> effective (preset_baseline preset) c n"
    and walks: "preset \<noteq> PresetAllowAll" and re: "\<And>src. sev (re src) \<le> sev (re' src)"
  shows "sev (own re (default_ctx preset p) n) \<le> sev (own re' (default_ctx preset c) n)"
proof -
  note approval = approval_default_ctx [of preset p c]
  have name: "classify_assignment_name (default_ctx preset p) =
      classify_assignment_name (default_ctx preset c)"
    by (simp only: classify_assignment_name_def [abs_def] approval)
  have names: "assignment_names (default_ctx preset p) =
      assignment_names (default_ctx preset c)"
    by (simp add: assignment_names_def fun_eq_iff name)
  have redir: "classify_redirect_op (default_ctx preset p) =
      classify_redirect_op (default_ctx preset c)"
    by (simp only: classify_redirect_op_def [abs_def] approval)
  have ov: "sev (Some (apply_override (default_ctx preset p) nm ws
        (classify_named_command (default_ctx preset p) nm ws)))
      \<le> sev (Some (apply_override (default_ctx preset c) nm ws
        (classify_named_command (default_ctx preset c) nm ws)))" for nm ws
    unfolding named_default_ctx [of preset p nm ws c]
  proof (rule apply_override_mono [OF default_ctx_simps(1) default_ctx_simps(1) walks])
    show "exec_baseline nm =
        (if classify_named_command (default_ctx preset c) nm ws = None then ExecAsk
         else ExecAllow)"
      by (simp add: exec_baseline_def find_catalog classify_named_command_def)
    show "sev (Some v) \<le> 1" if "classify_named_command (default_ctx preset c) nm ws = Some v" for v
      using sev_catalog_verdict [OF _ that] walks by simp
    show "effective (preset_baseline preset) (cx_overrides (default_ctx preset p)) nm
        \<le> effective (preset_baseline preset) (cx_overrides (default_ctx preset c)) nm"
      using strict by simp
  qed
  show ?thesis
    by (cases n) (auto simp: names redir re approval intro: max.coboundedI1 [OF ov] split: list.split option.split)
qed

lemma node_mono:
  assumes strict: "\<forall>n. effective (preset_baseline preset) p n \<le> effective (preset_baseline preset) c n"
    and walks: "preset \<noteq> PresetAllowAll" and re: "\<And>src. sev (re src) \<le> sev (re' src)"
  shows "sev (classify_node re (default_ctx preset p) n)
    \<le> sev (classify_node re' (default_ctx preset c) n)"
proof (induction n rule: measure_induct_rule [where f = size])
  case (less n)
  let ?k = "sev (classify_node re' (default_ctx preset c) n)"
  have "sev (own re' (default_ctx preset c) n) \<le> ?k"
    "\<forall>m \<in> set (walked n). sev (classify_node re' (default_ctx preset c) m) \<le> ?k"
    using sev_node [of re' "default_ctx preset c" n ?k] by blast+
  then show ?case
    using less.IH [OF walked_size] own_mono [OF strict walks, of re re' n] re
    by (subst sev_node) (meson order_trans)
qed

lemma nodes_mono:
  assumes strict: "\<forall>n. effective (preset_baseline preset) p n \<le> effective (preset_baseline preset) c n"
    and walks: "preset \<noteq> PresetAllowAll" and re: "\<And>src. sev (re src) \<le> sev (re' src)"
  shows "sev (classify_nodes re (default_ctx preset p) ns) \<le> sev (classify_nodes re' (default_ctx preset c) ns)"
  using node_mono [OF strict walks re] sev_nodes order_trans by (meson order_refl)

lemma inner_mono:
  assumes strict: "\<forall>n. effective (preset_baseline preset) p n \<le> effective (preset_baseline preset) c n"
    and walks: "preset \<noteq> PresetAllowAll"
  shows "sev (classify_inner parse (default_ctx preset p) d src)
    \<le> sev (classify_inner parse (default_ctx preset c) d src)"
proof (induction d arbitrary: src)
  case (Suc d)
  then show ?case using nodes_mono [OF strict walks Suc.IH] by (simp split: sum.split)
qed simp

text \<open>The child keeps an override of its own for every uncatalogued name its parent overrides.\<close>

definition keeps_overrides :: "exec_policy \<Rightarrow> exec_policy \<Rightarrow> bool" where
  "keeps_overrides child parent \<longleftrightarrow>
     list_all (\<lambda>(n, _). catalog_contains n \<or> override_for child n \<noteq> None) (ep_overrides parent)"

text \<open>The check compares against the baseline of the strict preset; where the child keeps the overrides, it holds
  against that of the auto preset too.\<close>

lemma strict_baseline:
  assumes "validate_at_least_as_strict_as child parent exec_baseline = Inr ()"
    and "preset \<noteq> PresetAuto \<or> keeps_overrides child parent"
  shows "\<forall>n. effective (preset_baseline preset) parent n \<le> effective (preset_baseline preset) child n"
proof
  fix n
  have strict: "effective exec_baseline parent n \<le> effective exec_baseline child n"
    using assms(1) by (simp add: validated_iff)
  show "effective (preset_baseline preset) parent n \<le> effective (preset_baseline preset) child n"
  proof (cases "preset = PresetAuto \<and> override_for parent n \<noteq> None")
    case True
    then obtain ov where "(n, ov) \<in> set (ep_overrides parent)" by (auto simp: override_for_def dest: map_of_SomeD)
    with True assms(2) have "catalog_contains n \<or> override_for child n \<noteq> None"
      by (auto simp: keeps_overrides_def list_all_iff)
    with True strict show ?thesis
      by (auto simp: effective_def preset_baseline_def exec_baseline_def split: option.splits if_splits)
  next
    case False
    have least: "ExecAllow \<le> x" for x by (cases x) (simp_all add: less_eq_exec_decision_def)
    from False strict least show ?thesis by (auto simp: effective_def preset_baseline_def split: option.split)
  qed
qed

section \<open>The depth of delegation\<close>

text \<open>The room the literal words of a command take in its source: their text and a separator.\<close>

definition word_room :: "node \<Rightarrow> nat" where
  "word_room w = (case word_literal_value w of None \<Rightarrow> 0 | Some v \<Rightarrow> Suc (length v))"

definition words_room :: "node list \<Rightarrow> nat" where
  "words_room ws = sum_list (map word_room ws)"

text \<open>The parser keeps the text of the words: the words of one command are disjoint pieces of the
  source, a separator apart.\<close>

definition keeps_word_text :: "shell_parser \<Rightarrow> bool" where
  "keeps_word_text parse \<longleftrightarrow>
     (\<forall>src ns assignments words redirects. parse src = Inr ns \<longrightarrow>
        within ns (Command assignments words redirects) \<longrightarrow>
        words_room words \<le> Suc (length src))"

lemma length_strip_quotes: "length (strip_quotes s) \<le> length s"
  by (simp add: strip_quotes_def)

lemma c_flag_room: "c_flag_argument b ws = Some v \<Longrightarrow> Suc (length v) \<le> words_room ws"
  by (induction b ws rule: c_flag_argument.induct)
    (auto simp: words_room_def word_room_def split: option.splits if_splits)

lemma length_join_str:
  "xs \<noteq> [] \<Longrightarrow> Suc (length (join_str '' '' xs)) = sum_list (map (\<lambda>x. Suc (length x)) xs)"
  by (induction "'' '' :: string" xs rule: join_str.induct) auto

lemma collect_room: "collect_remaining_args ws = Some v \<Longrightarrow> Suc (length v) \<le> words_room (tl ws)"
proof -
  assume v: "collect_remaining_args ws = Some v"
  let ?args = "List.map_filter (\<lambda>w. map_option strip_quotes (word_literal_value w)) (tl ws)"
  have "sum_list (map (\<lambda>x. Suc (length x))
      (List.map_filter (\<lambda>w. map_option strip_quotes (word_literal_value w)) xs)) \<le> words_room xs"
    for xs
  proof (induction xs)
    case (Cons w xs)
    then show ?case
      using length_strip_quotes le_trans
      by (auto simp: words_room_def word_room_def map_filter_simps intro!: add_mono split: option.split)
  qed (simp add: map_filter_simps)
  moreover from v have "?args \<noteq> []" "v = join_str '' '' ?args"
    by (auto simp: collect_remaining_args_def Let_def split: if_splits)
  ultimately show ?thesis using length_join_str by metis
qed

lemma source_shorter:
  assumes "command_source words = Some src"
  shows "Suc (Suc (length src)) \<le> words_room words"
proof -
  from assms obtain w args name where words: "words = w # args" "word_literal_value w = Some name"
    and src: "inner_source (ascii_lower name) words = Some src"
    by (auto simp: command_source_def split: list.splits option.splits)
  from src obtain s where s: "src = strip_quotes s" "Suc (length s) \<le> words_room (tl words)"
    using c_flag_room [of False "tl words"] collect_room [of words]
    by (auto simp: inner_source_def find_c_flag_argument_def split: if_splits)
  moreover have "words_room words = Suc (length name) + words_room (tl words)"
    by (simp add: words_room_def word_room_def words)
  ultimately show ?thesis using length_strip_quotes [of s] by simp
qed

lemma delegated_node_classified:
  assumes "\<And>src. node_source n = Some src \<Longrightarrow> re src \<noteq> None"
  shows "own re ctx n \<noteq> None"
proof -
  have join: "join (Some a) (Some b) = Some (stricter a b)" for a b by (simp add: join_def)
  have "sev (strictest (map (\<lambda>a. Some (f a)) xs)) \<le> 2" for f and xs :: "node list"
    unfolding sev_strictest by (auto simp: sev_le2_iff)
  then have names: "\<exists>d. assignment_names ctx asg = Some d" for asg
    unfolding assignment_names_def sev_le2_iff by blast
  then obtain nd where nd: "assignment_names ctx asg = Some (nd asg)" for asg by metis
  show ?thesis
    using assms by (cases n) (auto simp: nd join node_source_def command_source_def
        split: list.split option.splits)
qed

lemma tree_classified:
  assumes "\<And>m src. within [n] m \<Longrightarrow> node_source m = Some src \<Longrightarrow> re src \<noteq> None"
  shows "classify_node re ctx n \<noteq> None"
  using assms
proof (induction n rule: measure_induct_rule [where f = size])
  case (less n)
  have sub: "within [n] x" if "m \<in> set (walked n)" "within [m] x" for m x
    using that(2) by (induction rule: within.induct)
      (use that(1) in \<open>auto intro: within_child [OF within_root] within_child\<close>)
  have "sev (classify_node re ctx m) \<le> 2" if "m \<in> set (walked n)" for m
    using less.IH [OF walked_size [OF that]] less.prems sub [OF that] sev_le2_iff by blast
  moreover have "sev (own re ctx n) \<le> 2"
    using delegated_node_classified [of n re ctx] less.prems [OF within_root] sev_le2_iff by simp
  ultimately show ?case using sev_node [of re ctx n 2] sev_le2_iff by blast
qed

lemma nodes_classified:
  assumes "\<And>m src. within ns m \<Longrightarrow> node_source m = Some src \<Longrightarrow> re src \<noteq> None"
  shows "classify_nodes re ctx ns \<noteq> None"
proof -
  have sub: "within ns x" if "n \<in> set ns" "within [n] x" for n x
    using that(2) by (induction rule: within.induct)
      (use that(1) in \<open>auto intro: within.intros\<close>)
  have "sev (classify_node re ctx n) \<le> 2" if "n \<in> set ns" for n
    using tree_classified [of n re ctx] assms sub [OF that] sev_le2_iff by blast
  then have "sev (classify_nodes re ctx ns) \<le> 2" using sev_nodes by blast
  then show ?thesis using sev_le2_iff by blast
qed

lemma parsed_classified:
  assumes "keeps_word_text parse" "parse src = Inr ns"
    and re: "\<And>inner. length inner < length src \<Longrightarrow> re inner \<noteq> None"
  shows "classify_nodes re ctx ns \<noteq> None"
proof (rule nodes_classified)
  fix m inner
  assume m: "within ns m" "node_source m = Some inner"
  then obtain asg ws rs where cmd: "m = Command asg ws rs" "command_source ws = Some inner"
    by (auto simp: node_source_def split: node.splits)
  have "words_room ws \<le> Suc (length src)"
    using assms(1,2) m(1) unfolding cmd keeps_word_text_def by blast
  then have "length inner < length src" using source_shorter [OF cmd(2)] by linarith
  then show "re inner \<noteq> None" by (rule re)
qed

lemma inner_classified:
  assumes "keeps_word_text parse"
  shows "length src < d \<Longrightarrow> classify_inner parse ctx d src \<noteq> None"
proof (induction d arbitrary: src)
  case (Suc d)
  have "classify_nodes (classify_inner parse ctx d) ctx ns \<noteq> None" if "parse src = Inr ns" for ns
    by (rule parsed_classified [OF assms that]) (use Suc in simp)
  then show ?case by (simp split: sum.split)
qed simp

lemma length_str_trim: "length (str_trim s) \<le> length s"
proof -
  have trim: "length (trim_by encs s) \<le> length s" for encs s
  proof (induction encs s rule: trim_by.induct)
    case (1 encs s)
    then show ?case
      by (subst trim_by.simps) (fastforce split: option.split)
  qed
  show ?thesis
    using trim [of "map rev ws_encodings" "rev (trim_by ws_encodings s)"]
      trim [of ws_encodings s] by (simp add: str_trim_def)
qed

section \<open>Properties\<close>

text \<open>A parser for three commands, for the witnesses: the words stand in the source as they are.\<close>

definition plain_command :: "string list \<Rightarrow> node" where
  "plain_command ws = Command [] (map plain_word ws) []"

definition demo_parse :: shell_parser where
  "demo_parse src =
     (if src = ''bash -c sed'' then Inr [plain_command [''bash'', ''-c'', ''sed'']]
      else if src = ''ls'' then Inr [plain_command [''ls'']]
      else if src = ''sed'' then Inr [plain_command [''sed'']]
      else Inl ''unsupported'')"

lemma within_plain:
  "within [plain_command ws] n \<Longrightarrow>
    n = plain_command ws \<or> (\<exists>s. n = plain_word s) \<or> n = Leaf WordLiteral"
proof (induction rule: within.induct)
  case (within_child n m)
  then consider "n = plain_command ws" | s where "n = plain_word s" | "n = Leaf WordLiteral" by blast
  then show ?case
  proof cases
    case 1
    with within_child.hyps(2) show ?thesis
      by (auto simp: plain_command_def split: list.splits if_splits)
  next
    case 2
    with within_child.hyps(2) show ?thesis by (simp add: plain_word_def)
  qed (use within_child.hyps(2) in simp)
qed simp

lemma demo_parse_keeps_text: "keeps_word_text demo_parse"
proof -
  have "words_room words \<le> Suc (length src)"
    if "demo_parse src = Inr ns" "within ns (Command assignments words redirects)"
    for src ns assignments words redirects
  proof -
    from that(1) obtain ws where ns: "ns = [plain_command ws]"
      and room: "sum_list (map (\<lambda>w. Suc (length w)) ws) \<le> Suc (length src)"
      by (auto simp: demo_parse_def split: if_splits)
    from within_plain [OF that(2) [unfolded ns]] have "words = map plain_word ws"
      by (simp add: plain_command_def plain_word_def)
    with room show ?thesis by (simp add: words_room_def word_room_def comp_def)
  qed
  then show ?thesis by (simp add: keeps_word_text_def)
qed

definition no_overrides :: exec_policy where
  "no_overrides = \<lparr>ep_overrides = []\<rparr>"

lemma classified_returns:
  assumes "keeps_word_text parse"
  shows "classify_command parse (length command) ctx command \<noteq> None"
proof -
  have "classify_nodes (classify_inner parse ctx (length command)) ctx ns \<noteq> None"
    if "parse (str_trim command) = Inr ns" for ns
    by (rule parsed_classified [OF assms that])
      (use inner_classified [OF assms] length_str_trim [of command] in auto)
  then show ?thesis
    by (simp add: classify_command_def Let_def split: sum.split)
qed

text \<open>Delegation ends. When the parser keeps the text of the words (the words of one command
  are disjoint pieces of the source, a separator apart), every inner source is shorter than the
  source it stands in, and a depth of the length of the command classifies every command.\<close>

theorem classification_returns:
  assumes "keeps_word_text parse"
  shows "classify_command parse (length command) ctx command \<noteq> None"
  using assms by (rule classified_returns)

theorem classification_returns_witness:
  "classify_command demo_parse (length ''bash -c sed'')
     (default_ctx PresetDefault no_overrides) ''bash -c sed'' \<noteq> None"
  using classification_returns [OF demo_parse_keeps_text] .

text \<open>C8. The denylist is a floor for what the walk visits. A directly named command that a builtin
  rule matches, in a node that the walk visits (also inside delegated sources), makes the command
  denied, whatever the overrides and under every preset short of allow-all. What the walk does not
  visit is not under the floor: the items of a list with a background item, everything else in a
  command whose name is not a literal word, the other words, redirects and assignments of a
  delegated command, and redirects without a command word; nor is a name in quotes matched. C29
  shows how such commands are let through.\<close>

theorem floor_denies:
  assumes "str_trim command \<noteq> []" "parse (str_trim command) = Inr ns"
    and "visits parse ns n" "floor_reason n = Some r"
    and "cx_preset ctx \<noteq> PresetAllowAll"
    and "classify_command parse d ctx command = Some dec"
  shows "\<exists>reason. dec = Deny reason"
proof (cases "ns = []")
  case True
  with assms(1,2,6) show ?thesis by (auto simp: classify_command_def)
next
  case False
  then show ?thesis
    using floor_denies_nodes [OF assms(3,4)] classify_command_nodes [of command parse ns ctx d]
      assms by metis
qed

text \<open>C9. Under the strict preset a command runs without approval exactly when no node the walk
  visits needs any: every directly named command is off the denylist and is in the catalog with no
  constraint tripped or allowed by name, every redirect it carries opens nothing for writing but
  the null device, no sensitive variable is assigned, nothing runs in the background, and every
  delegated source parses and is of that kind again.\<close>

theorem auto_allowed_iff:
  assumes "cx_preset ctx = PresetDefault" "classify_command parse d ctx command \<noteq> None"
  shows "classify_command parse d ctx command = Some Allow \<longleftrightarrow>
    str_trim command \<noteq> [] \<and>
    (\<exists>ns. parse (str_trim command) = Inr ns \<and> ns \<noteq> [] \<and>
      (\<forall>n. visits parse ns n \<longrightarrow> needs_nobody parse ctx n))"
proof (cases "str_trim command = [] \<or> (\<exists>e. parse (str_trim command) = Inl e) \<or>
    parse (str_trim command) = Inr []")
  case True
  then show ?thesis by (auto simp: classify_command_def Let_def)
next
  case False
  then obtain ns where ns: "str_trim command \<noteq> []" "parse (str_trim command) = Inr ns" "ns \<noteq> []"
    by (cases "parse (str_trim command)") auto
  then show ?thesis
    using classify_command_nodes [of command parse ns ctx d] ns allowed_nodes_iff [OF assms(1), of parse d ns] assms
    by simp
qed

text \<open>C17. A child agent is no freer than its parent. When the strictness check accepts the child's
  overrides, every command gets at least as severe a verdict from the child's policy as from the
  parent's: under the strict and the allow-all preset always, and under the auto preset when the child keeps an
  override for every uncatalogued name its parent overrides. (Without that it is not so under auto: the
  check compares with the baseline of the strict preset, see C29.)\<close>

theorem child_no_looser:
  assumes "validate_at_least_as_strict_as child parent exec_baseline = Inr ()"
    and "preset \<noteq> PresetAuto \<or> keeps_overrides child parent"
  shows "sev (classify_with parse d command parent preset)
    \<le> sev (classify_with parse d command child preset)"
proof (cases "preset = PresetAllowAll")
  case True
  then show ?thesis by (simp add: classify_with_def classify_command_def Let_def split: sum.split)
next
  case False
  note strict = strict_baseline [OF assms]
  have "sev (classify_nodes (classify_inner parse (default_ctx preset parent) d) (default_ctx preset parent) ns)
    \<le> sev (classify_nodes (classify_inner parse (default_ctx preset child) d) (default_ctx preset child) ns)" for ns
    by (rule nodes_mono [OF strict False inner_mono [OF strict False]])
  then show ?thesis
    by (simp add: classify_with_def classify_command_def Let_def default_ctx_def split: sum.split)
qed

lemma demo_trim: "str_trim ''bash -c sed'' = ''bash -c sed''" "str_trim ''ls'' = ''ls''"
  by code_simp+

lemma demo_sources:
  "node_source (plain_command [''bash'', ''-c'', ''sed'']) = Some ''sed''"
  "floor_reason (plain_command [''sed'']) = name_deny_reason ''sed''"
  by code_simp+

theorem floor_denies_witness:
  "\<exists>reason. the (classify_command demo_parse 1 (default_ctx PresetAuto no_overrides)
     ''bash -c sed'') = Deny reason"
proof (rule floor_denies [of "''bash -c sed''" demo_parse "[plain_command [''bash'', ''-c'', ''sed'']]"
      "plain_command [''sed'']" "the (name_deny_reason ''sed'')"
      "default_ctx PresetAuto no_overrides" 1])
  show "visits demo_parse [plain_command [''bash'', ''-c'', ''sed'']] (plain_command [''sed''])"
    by (rule visits_inner [of _ _ "plain_command [''bash'', ''-c'', ''sed'']" "''sed''"
          "[plain_command [''sed'']]"])
      (simp_all add: visits_root demo_sources demo_parse_def)
  show "floor_reason (plain_command [''sed'']) = Some (the (name_deny_reason ''sed''))"
    unfolding demo_sources by code_simp
  show "classify_command demo_parse 1 (default_ctx PresetAuto no_overrides) ''bash -c sed'' =
      Some (the (classify_command demo_parse 1 (default_ctx PresetAuto no_overrides) ''bash -c sed''))"
    by code_simp
qed (simp_all add: demo_trim demo_parse_def default_ctx_def)

theorem auto_allowed_iff_witness:
  "\<exists>ns. demo_parse (str_trim ''ls'') = Inr ns \<and> ns \<noteq> [] \<and>
     Collect (visits demo_parse ns) \<subseteq>
       Collect (needs_nobody demo_parse (default_ctx PresetDefault no_overrides))"
proof -
  have "classify_command demo_parse 1 (default_ctx PresetDefault no_overrides) ''ls'' = Some Allow"
    by code_simp
  then show ?thesis
    using auto_allowed_iff [of "default_ctx PresetDefault no_overrides" demo_parse 1 "''ls''"]
    by (auto simp: default_ctx_def)
qed

definition one_override :: "string \<Rightarrow> exec_decision \<Rightarrow> exec_policy" where
  "one_override name d = \<lparr>ep_overrides = [(name, override_new d)]\<rparr>"

theorem child_no_looser_witness:
  "sev (classify_with demo_parse 1 ''ls'' (one_override ''ls'' ExecAsk) PresetDefault)
     \<le> sev (classify_with demo_parse 1 ''ls'' (one_override ''ls'' ExecDeny) PresetDefault) \<and>
   sev (classify_with demo_parse 1 ''ls'' (one_override ''cargo'' ExecAsk) PresetAuto)
     \<le> sev (classify_with demo_parse 1 ''ls'' (one_override ''cargo'' ExecDeny) PresetAuto) \<and>
   sev (classify_with demo_parse 1 ''ls'' (one_override ''ls'' ExecAsk) PresetDefault) = 1"
proof (intro conjI)
  show "sev (classify_with demo_parse 1 ''ls'' (one_override ''ls'' ExecAsk) PresetDefault)
     \<le> sev (classify_with demo_parse 1 ''ls'' (one_override ''ls'' ExecDeny) PresetDefault)"
    by (rule child_no_looser) code_simp+
  show "sev (classify_with demo_parse 1 ''ls'' (one_override ''cargo'' ExecAsk) PresetAuto)
     \<le> sev (classify_with demo_parse 1 ''ls'' (one_override ''cargo'' ExecDeny) PresetAuto)"
    by (rule child_no_looser) code_simp+
  show "sev (classify_with demo_parse 1 ''ls'' (one_override ''ls'' ExecAsk) PresetDefault) = 1"
    by code_simp
qed

text \<open>A name no rule of the denylist has, and the verdict on a command of plain words.\<close>

lemma no_rule:
  "filter (\<lambda>r. eq_ignore_ascii_case (dr_name r) name) BUILTIN_DENYLIST = [] \<Longrightarrow>
    builtin_deny_reason name words = None"
  by (simp add: builtin_deny_reason_def Let_def)

lemma plain_command_allowed:
  assumes "command_source (map plain_word (w # args)) = None"
    and "apply_override ctx (ascii_lower w) (map plain_word (w # args))
      (classify_named_command ctx (ascii_lower w) (map plain_word (w # args))) = Allow"
  shows "classify_node re ctx (plain_command (w # args)) = Some Allow"
proof -
  have "sev (classify_node re ctx (plain_word s)) \<le> 0" for s
    by (simp add: plain_word_def strictest_def join_def)
  then have "sev (classify_node re ctx (plain_command (w # args))) \<le> 0"
    using assms by (subst sev_node) (auto simp: plain_command_def assignment_names_def strictest_def
        join_def)
  then show ?thesis by (simp only: sev_0_iff)
qed

text \<open>C29. Six shapes the classifier lets through. Under the auto preset a trailing ampersand takes
  any list past every other check, a command named by a variable carries whatever arguments,
  redirects and assignments past it, quotes around its name take a denylisted command past the floor,
  and a child that drops its parent's explicit ask on an uncatalogued command passes the strictness
  check and is allowed what the parent must ask for. Under every preset redirects with no command
  word pass the walk, and under the strict preset env with a script attached to its split-string
  flag.\<close>

theorem shapes_let_through:
  "classify_node re (default_ctx PresetAuto p) (CmdList (before @ (c, True) # rest)) = Some Allow \<and>
   classify_node re (default_ctx PresetAuto p)
     (Command assigned (Word variable [Leaf ParamExpansion] # operands) carried) = Some Allow \<and>
   classify_node re (default_ctx PresetAuto no_overrides)
     (plain_command (([CHR 0x27] @ ''sed'' @ [CHR 0x27]) # args)) = Some Allow \<and>
   validate_at_least_as_strict_as no_overrides (one_override ''cargo'' ExecAsk) exec_baseline = Inr () \<and>
   sev (classify_node re (default_ctx PresetAuto (one_override ''cargo'' ExecAsk))
     (plain_command [''cargo''])) = 1 \<and>
   classify_node re (default_ctx PresetAuto no_overrides) (plain_command [''cargo'']) = Some Allow \<and>
   classify_node re (default_ctx preset p) (Command [] [] (redirect # redirects)) = Some Allow \<and>
   classify_node re (default_ctx PresetDefault no_overrides)
     (plain_command [''env'', ''-S'' @ ch # script]) = Some Allow"
proof (intro conjI)
  show "classify_node re (default_ctx PresetAuto p) (CmdList (before @ (c, True) # rest)) = Some Allow"
    by (simp add: needs_approval_def default_ctx_def)
  show "classify_node re (default_ctx PresetAuto p)
     (Command assigned (Word variable [Leaf ParamExpansion] # operands) carried) = Some Allow"
    by (simp add: classify_simple_command_def extract_command_name_def word_literal_value_def
        is_literal_part_def needs_approval_def default_ctx_def strictest_def join_def)
  show "classify_node re (default_ctx preset p) (Command [] [] (redirect # redirects)) = Some Allow"
    by (simp add: classify_simple_command_def classify_assignments_def strictest_def)
  let ?q = "[CHR 0x27] @ ''sed'' @ [CHR 0x27]"
  have lower: "ascii_lower ?q = ?q" "ascii_lower ''env'' = ''env''" by code_simp+
  have none: "builtin_deny_reason ?q ws = None" "builtin_deny_reason ''env'' ws = None" for ws
    by (rule no_rule, code_simp)+
  have cat: "find (\<lambda>spec. sp_name spec = ?q) READ_ONLY_CATALOG = None"
    "find (\<lambda>spec. sp_name spec = ''env'') READ_ONLY_CATALOG =
      Some \<lparr>sp_name = ''env'', sp_constraints = [MutatingPredicate env_runs_command]\<rparr>"
    by (simp_all add: READ_ONLY_CATALOG_def ro_def)
  have src: "inner_source ?q ws = None" "inner_source ''env'' ws = None" for ws
    by (simp_all add: inner_source_def SHELL_INTERPRETERS_def EVAL_COMMANDS_def)
  show "classify_node re (default_ctx PresetAuto no_overrides) (plain_command (?q # args)) = Some Allow"
    by (rule plain_command_allowed)
      (simp_all add: command_source_def src [simplified] lower [simplified] apply_override_def none [simplified]
        classify_named_command_def cat [simplified] default_ctx_def no_overrides_def override_for_def
        needs_approval_def)
  show "classify_node re (default_ctx PresetDefault no_overrides)
     (plain_command [''env'', ''-S'' @ ch # script]) = Some Allow"
    by (rule plain_command_allowed)
      (simp_all add: command_source_def src lower apply_override_def none
        classify_named_command_def cat default_ctx_def no_overrides_def override_for_def
        spec_classify_def constraint_trip_def env_runs_command_def)
qed code_simp+

end
