(* ===== verification/Exec_Hooks.thy ===== *)
theory Exec_Hooks
  imports Policy_Walker
begin

text \<open>
  Post-call hooks (\<open>crates/kallipai-adk/src/policy/classifier/hooks.rs\<close>) and the policy object that
  owns them together with the classifier (\<open>policy/agent.rs\<close>): the scan of a command into literal
  argument vectors and a write-redirect flag, the matching of the declared rules, and the notes of
  a call that ran.
\<close>

section \<open>Rules\<close>

datatype trigger =
    PrefixTrigger "string list"
  | WriteRedirect

definition WRITE_REDIRECT_KEY :: string where
  "WRITE_REDIRECT_KEY = ''@write-redirect''"

datatype hook_phase = Post | Pre

record hook_rule =
  hr_tool :: string
  hr_trigger :: trigger
  hr_phase :: hook_phase
  hr_note :: string

definition override_key :: "hook_rule \<Rightarrow> string" where
  "override_key rule =
     (case hr_trigger rule of
        PrefixTrigger tokens \<Rightarrow> join_str '' '' tokens
      | WriteRedirect \<Rightarrow> WRITE_REDIRECT_KEY)"

section \<open>The scan\<close>

type_synonym segment = "string option list"

text \<open>The segments seen, in order, and whether a write redirection was seen (\<open>Scan\<close>).\<close>

type_synonym scan = "segment list \<times> bool"

definition scan_seq :: "scan list \<Rightarrow> scan" where
  "scan_seq ss = (concat (map fst ss), list_ex snd ss)"

definition observed_write :: "node \<Rightarrow> bool" where
  "observed_write n =
     (case n of
        Redirect op target \<Rightarrow>
          op \<in> set WRITE_REDIRECT_OPS \<and>
          \<not> (case redirect_target_literal target of
               None \<Rightarrow> False | Some t \<Rightarrow> t \<in> set READ_ONLY_REDIRECT_SINKS)
      | _ \<Rightarrow> False)"

definition observe_redirects :: "node list \<Rightarrow> scan" where
  "observe_redirects redirects = ([], list_ex observed_write redirects)"

definition literal_token :: "node \<Rightarrow> string option" where
  "literal_token w = map_option (ascii_lower \<circ> strip_surrounding_quotes) (word_literal_value w)"

fun collect_node :: "node \<Rightarrow> scan" where
  "collect_node (Command _ words redirects) =
     scan_seq
       ((if words \<noteq> [] then [([map literal_token words], False)] else []) @
        map (\<lambda>w. if is_word w then collect_node w else scan_seq []) words @
        [observe_redirects redirects])"
| "collect_node (Pipeline commands) = scan_seq (map (\<lambda>c. collect_node c) commands)"
| "collect_node (CmdList items) = scan_seq (map (\<lambda>it. collect_node (fst it)) items)"
| "collect_node (IfNode condition then_body else_body redirects) =
     scan_seq
       ([collect_node condition, collect_node then_body] @
        (case else_body of None \<Rightarrow> [] | Some e \<Rightarrow> [collect_node e]) @ [observe_redirects redirects])"
| "collect_node (Loop _ condition body redirects) =
     scan_seq [collect_node condition, collect_node body, observe_redirects redirects]"
| "collect_node (Iter _ words body redirects) =
     scan_seq
       ((case words of None \<Rightarrow> [] | Some ws \<Rightarrow> map (\<lambda>w. collect_node w) ws) @
        [collect_node body, observe_redirects redirects])"
| "collect_node (ForArith body redirects) =
     scan_seq [collect_node body, observe_redirects redirects]"
| "collect_node (Case word patterns redirects) =
     scan_seq
       (collect_node word #
        concat (map (\<lambda>pat. case snd pat of None \<Rightarrow> [] | Some body \<Rightarrow> [collect_node body]) patterns) @
        [observe_redirects redirects])"
| "collect_node (ArithmeticCommand expression redirects) =
     scan_seq
       ((case expression of None \<Rightarrow> [] | Some e \<Rightarrow> [collect_node e]) @ [observe_redirects redirects])"
| "collect_node (ConditionalExpr body redirects) =
     scan_seq [collect_node body, observe_redirects redirects]"
| "collect_node (Function body) = collect_node body"
| "collect_node (Unary kind operand) =
     (if kind \<in> {Negation, Time} then collect_node operand else scan_seq [])"
| "collect_node (Coproc command) = collect_node command"
| "collect_node (Group _ body redirects) =
     scan_seq [collect_node body, observe_redirects redirects]"
| "collect_node (CommandSubstitution command) = collect_node command"
| "collect_node (ProcessSubstitution command) = collect_node command"
| "collect_node (Word _ parts) = scan_seq (map (\<lambda>p. collect_node p) parts)"
| "collect_node _ = scan_seq []"

definition collect_segments :: "node list \<Rightarrow> scan" where
  "collect_segments nodes = scan_seq (map collect_node nodes)"

definition scan_command :: "shell_parser \<Rightarrow> string \<Rightarrow> scan" where
  "scan_command parse command =
     (let trimmed = str_trim command
      in if trimmed = [] then ([], False)
         else case parse trimmed of
           Inl _ \<Rightarrow> ([], False)
         | Inr nodes \<Rightarrow> collect_segments nodes)"

section \<open>Matching\<close>

definition prefix_hits :: "string list \<Rightarrow> segment \<Rightarrow> bool" where
  "prefix_hits tokens segment \<longleftrightarrow>
     length tokens \<le> length segment \<and>
     list_all (\<lambda>(token, word). word = Some (ascii_lower token)) (zip tokens segment)"

definition rule_matches :: "segment list \<Rightarrow> bool \<Rightarrow> hook_rule \<Rightarrow> bool" where
  "rule_matches segments write_redirect rule \<longleftrightarrow>
     (case hr_trigger rule of
        PrefixTrigger tokens \<Rightarrow> tokens \<noteq> [] \<and> list_ex (prefix_hits tokens) segments
      | WriteRedirect \<Rightarrow> write_redirect)"

definition hook_matches :: "hook_rule list \<Rightarrow> segment list \<Rightarrow> bool \<Rightarrow> hook_rule list" where
  "hook_matches rules segments write_redirect =
     filter (rule_matches segments write_redirect) rules"

section \<open>The policy of an agent\<close>

text \<open>\<open>parse_args\<close> reads the command out of the arguments of a \<open>bash_exec\<close> call, or reports why it
  cannot; it and the shell parser are third-party parsers.\<close>

record agent_policy =
  pl_exec_policy :: exec_policy
  pl_preset :: policy_preset
  pl_hook_rules :: "hook_rule list"

definition BASH_EXEC :: string where "BASH_EXEC = ''bash_exec''"

definition classify_bash :: "(string \<Rightarrow> string + string) \<Rightarrow> shell_parser \<Rightarrow> agent_policy \<Rightarrow> string
    \<Rightarrow> string + tool_decision option" where
  "classify_bash parse_args parse pol args_json =
     (case parse_args args_json of
        Inl e \<Rightarrow> Inl e
      | Inr command \<Rightarrow>
          Inr (classify_with parse (length command) command (pl_exec_policy pol) (pl_preset pol)))"

definition evaluate :: "(string \<Rightarrow> string + string) \<Rightarrow> shell_parser \<Rightarrow> agent_policy \<Rightarrow> string
    \<Rightarrow> string \<Rightarrow> string + tool_decision option" where
  "evaluate parse_args parse pol tool_name args_json =
     (if tool_name = BASH_EXEC then classify_bash parse_args parse pol args_json
      else Inr (Some Allow))"

definition post_hook_notes :: "(string \<Rightarrow> string + string) \<Rightarrow> shell_parser \<Rightarrow> agent_policy
    \<Rightarrow> string \<Rightarrow> string \<Rightarrow> string list" where
  "post_hook_notes parse_args parse pol tool_name args_json =
     (if pl_hook_rules pol = [] \<or> tool_name \<noteq> BASH_EXEC then []
      else case parse_args args_json of
        Inl _ \<Rightarrow> []
      | Inr command \<Rightarrow>
          let (segments, write_redirect) = scan_command parse command
          in map hr_note (hook_matches (pl_hook_rules pol) segments write_redirect))"

text \<open>A prefix rule fires on the lower-cased literal words of a segment, position by position.\<close>

lemma prefix_hits_iff:
  "prefix_hits tokens segment \<longleftrightarrow> prefix (map (Some \<circ> ascii_lower) tokens) segment"
proof (induction tokens arbitrary: segment)
  case (Cons t tokens)
  then show ?case by (cases segment) (auto simp: prefix_hits_def)
qed (simp add: prefix_hits_def)

lemma rule_fires_once: "distinct rules \<Longrightarrow> distinct (hook_matches rules segments w)"
  by (simp add: hook_matches_def)

end
