(* ===== verification/Tool_Executor.thy ===== *)
theory Tool_Executor
  imports Exec_Hooks Policy_Props Approval Json
begin

text \<open>
  The tool executor behind the policy gate: \<open>crates/kallipai-adk/src/policy/executor.rs\<close>, with
  the result envelope of \<open>kallipai-common/src/toolresult.rs\<close>. A reply is kept as the value its
  JSON text is printed from; the JSON parser, the shell parser, the identifiers minted for new
  approvals and the answers of the dispatcher are parameters. The state is the policy, the
  approval store, the notices handed to the sink and the calls handed to the dispatcher. The
  properties follow a run of agent calls, operator decisions and policy changes and show that
  nothing reaches the dispatcher that policy did not allow or an operator did not approve.
\<close>

section \<open>Replies\<close>

record tool_envelope =
  te_ok :: bool
  te_tool_name :: string
  te_result :: "json option"
  te_error :: "string option"
  te_pending :: "bool option"
  te_rest :: "(string \<times> json) list"

datatype reply =
    EnvelopeReply tool_envelope
  | ListReply "json approval_info list"
  | CommitReply string
  | CancelReply string string

datatype tool_call_outcome =
    Success reply
  | Failed reply
  | Deferred reply

type_synonym json_parser = "string \<Rightarrow> string + json"

definition success_result :: "json_parser \<Rightarrow> string \<Rightarrow> string \<Rightarrow> reply" where
  "success_result parse_json tool_name output =
     EnvelopeReply \<lparr>te_ok = True, te_tool_name = tool_name,
       te_result = Some (case parse_json output of Inr v \<Rightarrow> v | Inl _ \<Rightarrow> JString output),
       te_error = None, te_pending = None, te_rest = []\<rparr>"

definition error_result :: "string \<Rightarrow> string \<Rightarrow> reply" where
  "error_result tool_name err =
     EnvelopeReply \<lparr>te_ok = False, te_tool_name = tool_name, te_result = None,
       te_error = Some err, te_pending = None, te_rest = []\<rparr>"

definition skipped_tool_result :: "string \<Rightarrow> string \<Rightarrow> string \<Rightarrow> reply" where
  "skipped_tool_result tool_name prior_name reason =
     error_result tool_name
       (''skipped: earlier tool call '' @ quoted prior_name @ '' '' @ reason @ '' in this round'')"

definition timed_out_tool_result :: "string \<Rightarrow> nat \<Rightarrow> reply" where
  "timed_out_tool_result tool_name secs =
     error_result tool_name (''timed out after '' @ show_nat secs @ ''s'')"

definition approval_result :: "string \<Rightarrow> string \<Rightarrow> string option \<Rightarrow> reply" where
  "approval_result i tool_name reason =
     EnvelopeReply \<lparr>te_ok = True, te_tool_name = tool_name, te_result = None, te_error = None,
       te_pending = Some True,
       te_rest =
         [(''id'', JString i),
          (''next_steps'', JString
            (''This tool call was deferred because it requires approval'' @
             (case reason of None \<Rightarrow> [] | Some r \<Rightarrow> '': '' @ r) @
             ''. Call approval_commit with the id and a justification for why it is necessary, '' @
             ''or approval_cancel to abandon it.''))]\<rparr>"

section \<open>Outcomes\<close>

definition bash_foreground_failed :: "json \<Rightarrow> bool" where
  "bash_foreground_failed result \<longleftrightarrow>
     (if str_field ''task_id'' result \<noteq> None then False
      else Option.bind (json_get result ''exit_code'') json_i64 \<noteq> Some 0)"

text \<open>The reply that is not an envelope has no tool name, so its text does not parse as one.\<close>

definition classify_outcome :: "reply \<Rightarrow> tool_call_outcome" where
  "classify_outcome r =
     (case r of
        EnvelopeReply e \<Rightarrow>
          if te_pending e = Some True then Deferred r
          else if \<not> te_ok e then Failed r
          else if te_tool_name e = BASH_EXEC \<and>
                  (case te_result e of None \<Rightarrow> False | Some v \<Rightarrow> bash_foreground_failed v)
          then Failed r
          else Success r
      | _ \<Rightarrow> Success r)"

section \<open>Arguments of the approval tools\<close>

definition parse_id :: "json_parser \<Rightarrow> string \<Rightarrow> string + string" where
  "parse_id parse_json args_json =
     (case parse_json args_json of
        Inl e \<Rightarrow> Inl e
      | Inr v \<Rightarrow>
          (case str_field ''id'' v of
             None \<Rightarrow> Inl (''missing or invalid '' @ quoted ''id'' @ '' field'')
           | Some s \<Rightarrow> Inr s))"

definition parse_status_filter :: "json_parser \<Rightarrow> string \<Rightarrow> approval_status option" where
  "parse_status_filter parse_json args_json =
     (case parse_json args_json of
        Inl _ \<Rightarrow> None
      | Inr v \<Rightarrow>
          (case str_field ''status'' v of None \<Rightarrow> None | Some s \<Rightarrow> from_str_name s))"

definition parse_commit_args :: "json_parser \<Rightarrow> string \<Rightarrow> string + string \<times> string" where
  "parse_commit_args parse_json args_json =
     (case parse_json args_json of
        Inl e \<Rightarrow> Inl e
      | Inr v \<Rightarrow>
          (case str_field ''id'' v of
             None \<Rightarrow> Inl (''missing or invalid '' @ quoted ''id'' @ '' field'')
           | Some i \<Rightarrow>
               (case str_field ''reason'' v of
                  None \<Rightarrow> Inl (''missing or invalid '' @ quoted ''reason'' @ '' field'')
                | Some r \<Rightarrow> Inr (i, r))))"

fun status_debug :: "approval_status \<Rightarrow> string" where
  "status_debug Pending = ''Pending''"
| "status_debug Committed = ''Committed''"
| "status_debug Approved = ''Approved''"
| "status_debug Denied = ''Denied''"
| "status_debug Redeemed = ''Redeemed''"
| "status_debug Cancelled = ''Cancelled''"

definition approval_text :: "string \<Rightarrow> string \<Rightarrow> string" where
  "approval_text i rest = ''approval '' @ quoted i @ rest"

fun approval_error_text :: "approval_error \<Rightarrow> string" where
  "approval_error_text (ApprovalNotFound i) = approval_text i '' not found''"
| "approval_error_text (NotCommitted i st) =
     approval_text i ('' is not committed (status: '' @ status_debug st @ '')'')"
| "approval_error_text (NotPending i st) =
     approval_text i ('' is not pending (status: '' @ status_debug st @ '')'')"
| "approval_error_text (StillPending i) =
     approval_text i ('' is still pending '' @ [CHR 0xE2, CHR 0x80, CHR 0x94] @ '' commit it first'')"
| "approval_error_text (AwaitingApproval i) = approval_text i '' is awaiting approval''"
| "approval_error_text (WasDenied i r) = approval_text i ('' was denied: '' @ r)"
| "approval_error_text (AlreadyRedeemed i) = approval_text i '' has already been redeemed''"
| "approval_error_text (WasCancelled i) = approval_text i '' was cancelled''"
| "approval_error_text (AlreadyCancelled i) = approval_text i '' has already been cancelled''"

section \<open>The executor\<close>

text \<open>The third-party parsers: of JSON, of shell commands and of the arguments of a shell call.\<close>

record parsers =
  pa_json :: "string \<Rightarrow> string + json"
  pa_shell :: "string \<Rightarrow> string + node list"
  pa_bash_args :: "string \<Rightarrow> string + string"

record executor =
  ex_policy :: agent_policy
  ex_approvals :: approval_store
  ex_has_sink :: bool
  ex_notices :: "string list"
  ex_calls :: "(string \<times> string) list"

text \<open>What one call draws from outside: the identifier and the time of a new approval, and the
  dispatcher's answer. Without an answer the future is dropped while it waits for one.\<close>

record call_env =
  ce_id :: string
  ce_now :: int
  ce_answer :: "(string + string) option"

definition policy_evaluate :: "parsers \<Rightarrow> agent_policy \<Rightarrow> string \<Rightarrow> string
    \<Rightarrow> string + tool_decision" where
  "policy_evaluate pa pol tool_name args_json =
     (case evaluate (pa_bash_args pa) (pa_shell pa) pol tool_name args_json of
        Inl e \<Rightarrow> Inl e
      | Inr None \<Rightarrow> Inl ''the classifier did not return''
      | Inr (Some d) \<Rightarrow> Inr d)"

definition fire_hook_notes :: "parsers \<Rightarrow> string \<Rightarrow> string \<Rightarrow> executor \<Rightarrow> executor" where
  "fire_hook_notes pa tool_name args_json x =
     (if \<not> ex_has_sink x then x
      else x\<lparr>ex_notices := ex_notices x @
             map (\<lambda>n. ''[hook] NOTE: '' @ n)
               (post_hook_notes (pa_bash_args pa) (pa_shell pa) (ex_policy x) tool_name args_json)\<rparr>)"

text \<open>\<open>dispatch.call_tool\<close> and what follows its answer; \<open>None\<close> when the future is dropped.\<close>

definition dispatch_call :: "parsers \<Rightarrow> call_env \<Rightarrow> string \<Rightarrow> string \<Rightarrow> executor
    \<Rightarrow> reply option \<times> executor" where
  "dispatch_call pa env tool_name args_json x =
     (let x1 = x\<lparr>ex_calls := ex_calls x @ [(tool_name, args_json)]\<rparr>
      in case ce_answer env of
           None \<Rightarrow> (None, x1)
         | Some (Inr output) \<Rightarrow>
             (Some (success_result (pa_json pa) tool_name output),
              fire_hook_notes pa tool_name args_json x1)
         | Some (Inl e) \<Rightarrow> (Some (error_result tool_name e), x1))"

definition execute_tool :: "parsers \<Rightarrow> call_env \<Rightarrow> string \<Rightarrow> string \<Rightarrow> executor
    \<Rightarrow> reply option \<times> executor" where
  "execute_tool pa env tool_name args_json x =
     (case policy_evaluate pa (ex_policy x) tool_name args_json of
        Inl e \<Rightarrow> (Some (error_result tool_name (''policy evaluation failed: '' @ e)), x)
      | Inr Allow \<Rightarrow> dispatch_call pa env tool_name args_json x
      | Inr (tool_decision.Deny reason) \<Rightarrow> (Some (error_result tool_name (''tool denied: '' @ reason)), x)
      | Inr (Ask reason) \<Rightarrow>
          (let (i, q) = enqueue (ce_id env) (ce_now env) tool_name args_json reason (ex_approvals x)
           in (Some (approval_result i tool_name reason), x\<lparr>ex_approvals := q\<rparr>)))"

definition handle_list :: "parsers \<Rightarrow> string \<Rightarrow> executor \<Rightarrow> reply option \<times> executor" where
  "handle_list pa args_json x =
     (Some (ListReply
        (list_approvals (\<lambda>s. case pa_json pa s of Inr v \<Rightarrow> v | Inl _ \<Rightarrow> JNull)
          (parse_status_filter (pa_json pa) args_json) (ex_approvals x))), x)"

definition handle_commit :: "parsers \<Rightarrow> string \<Rightarrow> executor \<Rightarrow> reply option \<times> executor" where
  "handle_commit pa args_json x =
     (case parse_commit_args (pa_json pa) args_json of
        Inl e \<Rightarrow> (Some (error_result ''approval_commit'' e), x)
      | Inr (i, reason) \<Rightarrow>
          (case commit i reason (ex_approvals x) of
             (Inr _, q) \<Rightarrow> (Some (CommitReply i), x\<lparr>ex_approvals := q\<rparr>)
           | (Inl e, q) \<Rightarrow>
               (Some (error_result ''approval_commit'' (approval_error_text e)),
                x\<lparr>ex_approvals := q\<rparr>)))"

definition handle_redeem :: "parsers \<Rightarrow> call_env \<Rightarrow> string \<Rightarrow> executor \<Rightarrow> reply option \<times> executor"
where
  "handle_redeem pa env args_json x =
     (case parse_id (pa_json pa) args_json of
        Inl e \<Rightarrow> (Some (error_result ''approval_redeem'' e), x)
      | Inr i \<Rightarrow>
          (case take_for_redeem i (ex_approvals x) of
             (Inl e, q) \<Rightarrow>
               (Some (error_result ''approval_redeem'' (approval_error_text e)),
                x\<lparr>ex_approvals := q\<rparr>)
           | (Inr a, q) \<Rightarrow>
               dispatch_call pa env (ap_tool_name a) (ap_args_json a) (x\<lparr>ex_approvals := q\<rparr>)))"

definition handle_cancel :: "parsers \<Rightarrow> string \<Rightarrow> executor \<Rightarrow> reply option \<times> executor" where
  "handle_cancel pa args_json x =
     (case parse_id (pa_json pa) args_json of
        Inl e \<Rightarrow> (Some (error_result ''approval_cancel'' e), x)
      | Inr i \<Rightarrow>
          (case cancel i (ex_approvals x) of
             (Inr prev, q) \<Rightarrow> (Some (CancelReply i (status_str prev)), x\<lparr>ex_approvals := q\<rparr>)
           | (Inl e, q) \<Rightarrow>
               (Some (error_result ''approval_cancel'' (approval_error_text e)),
                x\<lparr>ex_approvals := q\<rparr>)))"

definition execute :: "parsers \<Rightarrow> call_env \<Rightarrow> string \<Rightarrow> string \<Rightarrow> executor
    \<Rightarrow> tool_call_outcome option \<times> executor" where
  "execute pa env tool_name args_json x =
     (let (r, x') =
        (if tool_name = ''approval_list'' then handle_list pa args_json x
         else if tool_name = ''approval_commit'' then handle_commit pa args_json x
         else if tool_name = ''approval_redeem'' then handle_redeem pa env args_json x
         else if tool_name = ''approval_cancel'' then handle_cancel pa args_json x
         else execute_tool pa env tool_name args_json x)
      in (map_option classify_outcome r, x'))"

lemma policy_evaluate_returns:
  "keeps_word_text (pa_shell pa) \<Longrightarrow>
     policy_evaluate pa pol tool_name args_json =
       (if tool_name \<noteq> BASH_EXEC then Inr Allow
        else case pa_bash_args pa args_json of
          Inl e \<Rightarrow> Inl e
        | Inr command \<Rightarrow>
            Inr (the (classify_with (pa_shell pa) (length command) command (pl_exec_policy pol)
              (pl_preset pol))))"
proof (cases "pa_bash_args pa args_json")
  case (Inr command)
  assume "keeps_word_text (pa_shell pa)"
  then obtain d where "classify_with (pa_shell pa) (length command) command (pl_exec_policy pol)
      (pl_preset pol) = Some d"
    unfolding classify_with_def using classified_returns by blast
  with Inr show ?thesis by (simp add: policy_evaluate_def evaluate_def classify_bash_def)
qed (simp add: policy_evaluate_def evaluate_def classify_bash_def)

section \<open>Runs\<close>

text \<open>Who acts on an executor: the round loop with the calls of the agent (of which it may drop
  one, and whose one-shot cells it drains), an operator through the routes of the tagma, and
  whoever changes the policy.\<close>

datatype exec_event =
    AgentCall call_env string string
  | OperatorApprove string
  | OperatorDeny string string
  | TakeCells
  | DrainNotes
  | SetPolicy exec_policy

text \<open>The store operations of one event.\<close>

definition call_ops :: "parsers \<Rightarrow> call_env \<Rightarrow> string \<Rightarrow> string \<Rightarrow> executor
    \<Rightarrow> approval_op list" where
  "call_ops pa env tool_name args_json x =
     (if tool_name = ''approval_list'' then []
      else if tool_name = ''approval_commit'' then
        (case parse_commit_args (pa_json pa) args_json of
           Inl _ \<Rightarrow> [] | Inr (i, reason) \<Rightarrow> [Commit i reason])
      else if tool_name = ''approval_redeem'' then
        (case parse_id (pa_json pa) args_json of Inl _ \<Rightarrow> [] | Inr i \<Rightarrow> [Redeem i])
      else if tool_name = ''approval_cancel'' then
        (case parse_id (pa_json pa) args_json of Inl _ \<Rightarrow> [] | Inr i \<Rightarrow> [Cancel i])
      else (case policy_evaluate pa (ex_policy x) tool_name args_json of
              Inr (Ask reason) \<Rightarrow> [Enqueue (ce_id env) (ce_now env) tool_name args_json reason]
            | _ \<Rightarrow> []))"

fun event_ops :: "parsers \<Rightarrow> exec_event \<Rightarrow> executor \<Rightarrow> approval_op list" where
  "event_ops pa (AgentCall env tool args) x = call_ops pa env tool args x"
| "event_ops pa (OperatorApprove i) x = [Approve i]"
| "event_ops pa (OperatorDeny i reason) x = [approval_op.Deny i reason]"
| "event_ops pa TakeCells x = [TakeCommitted, TakeRedeemed, TakeCancelled]"
| "event_ops pa DrainNotes x = [Drain]"
| "event_ops pa (SetPolicy p) x = []"

fun exec_step :: "parsers \<Rightarrow> exec_event \<Rightarrow> executor \<Rightarrow> executor" where
  "exec_step pa (AgentCall env tool args) x = snd (execute pa env tool args x)"
| "exec_step pa (OperatorApprove i) x = x\<lparr>ex_approvals := snd (approve i (ex_approvals x))\<rparr>"
| "exec_step pa (OperatorDeny i reason) x = x\<lparr>ex_approvals := snd (deny i reason (ex_approvals x))\<rparr>"
| "exec_step pa TakeCells x =
     x\<lparr>ex_approvals :=
        snd (take_last_cancelled (snd (take_last_redeemed (snd (take_last_committed (ex_approvals x))))))\<rparr>"
| "exec_step pa DrainNotes x = x\<lparr>ex_approvals := snd (drain_notifications (ex_approvals x))\<rparr>"
| "exec_step pa (SetPolicy p) x = x\<lparr>ex_policy := (ex_policy x)\<lparr>pl_exec_policy := p\<rparr>\<rparr>"

abbreviation exec_run :: "parsers \<Rightarrow> exec_event list \<Rightarrow> executor \<Rightarrow> executor" where
  "exec_run pa \<equiv> fold (exec_step pa)"

fun run_ops :: "parsers \<Rightarrow> exec_event list \<Rightarrow> executor \<Rightarrow> approval_op list" where
  "run_ops pa [] x = []"
| "run_ops pa (e # es) x = event_ops pa e x @ run_ops pa es (exec_step pa e x)"

lemma dispatch_call_frame [simp]:
  "ex_approvals (snd (dispatch_call pa env tool args x)) = ex_approvals x"
  "ex_calls (snd (dispatch_call pa env tool args x)) = ex_calls x @ [(tool, args)]"
  "ex_policy (snd (dispatch_call pa env tool args x)) = ex_policy x"
  by (simp_all add: dispatch_call_def fire_hook_notes_def Let_def split: option.split sum.split)

text \<open>Every change of the store is one of the store's operations.\<close>

lemma exec_step_store:
  "ex_approvals (exec_step pa e x) = approval_run (event_ops pa e x) (ex_approvals x)"
proof (cases e)
  case (AgentCall env tool args)
  then show ?thesis
    by (auto simp: execute_def call_ops_def handle_list_def handle_commit_def handle_redeem_def
        handle_cancel_def execute_tool_def done_of_def Let_def split_beta
        split: sum.split tool_decision.split prod.split)
qed (simp_all add: done_of_def)

lemma exec_run_store:
  "ex_approvals (exec_run pa es x) = approval_run (run_ops pa es x) (ex_approvals x)"
  by (induction es arbitrary: x) (simp_all add: exec_step_store)

text \<open>A call reaches the dispatcher on the policy's word or by a redemption.\<close>

definition redeemed_action :: "parsers \<Rightarrow> exec_event \<Rightarrow> executor \<Rightarrow> approval_action option" where
  "redeemed_action pa e x =
     (case e of
        AgentCall env tool args \<Rightarrow>
          if tool = ''approval_redeem'' then
            (case parse_id (pa_json pa) args of
               Inl _ \<Rightarrow> None
             | Inr i \<Rightarrow>
                 (case fst (take_for_redeem i (ex_approvals x)) of Inl _ \<Rightarrow> None | Inr a \<Rightarrow> Some a))
          else None
      | _ \<Rightarrow> None)"

lemma exec_step_calls:
  assumes "(tool, args) \<in> set (ex_calls (exec_step pa e x))"
  shows "(tool, args) \<in> set (ex_calls x) \<or>
    (\<exists>env. e = AgentCall env tool args \<and> policy_evaluate pa (ex_policy x) tool args = Inr Allow) \<or>
    (\<exists>a. redeemed_action pa e x = Some a \<and> tool = ap_tool_name a \<and> args = ap_args_json a)"
proof (cases e)
  case (AgentCall env tool' args')
  with assms show ?thesis
    by (auto simp: execute_def handle_list_def handle_commit_def handle_redeem_def redeemed_action_def
        handle_cancel_def execute_tool_def Let_def split_beta
        split: sum.splits tool_decision.splits prod.splits if_splits)
qed (use assms in simp_all)

lemma run_ops_append: "run_ops pa (es @ es') x = run_ops pa es x @ run_ops pa es' (exec_run pa es x)"
  by (induction es arbitrary: x) simp_all

lemma life_append: "life i (ops @ ops') s = life i ops s @ life i ops' (approval_run ops s)"
  by (induction ops arbitrary: s) simp_all

lemma calls_origin:
  assumes "(tool, args) \<in> set (ex_calls (exec_run pa es x))" "(tool, args) \<notin> set (ex_calls x)"
  shows "\<exists>before e after. es = before @ e # after \<and>
    ((\<exists>env. e = AgentCall env tool args \<and>
        policy_evaluate pa (ex_policy (exec_run pa before x)) tool args = Inr Allow) \<or>
     (\<exists>a. redeemed_action pa e (exec_run pa before x) = Some a \<and>
        tool = ap_tool_name a \<and> args = ap_args_json a))"
  using assms(1)
proof (induction es rule: rev_induct)
  case Nil
  with assms(2) show ?case by simp
next
  case (snoc e es)
  then have "(tool, args) \<in> set (ex_calls (exec_step pa e (exec_run pa es x)))" by simp
  from exec_step_calls [OF this] show ?case
  proof (elim disjE)
    assume "(tool, args) \<in> set (ex_calls (exec_run pa es x))"
    then obtain before e' after where "es = before @ e' # after" and
      "(\<exists>env. e' = AgentCall env tool args \<and>
        policy_evaluate pa (ex_policy (exec_run pa before x)) tool args = Inr Allow) \<or>
       (\<exists>a. redeemed_action pa e' (exec_run pa before x) = Some a \<and>
        tool = ap_tool_name a \<and> args = ap_args_json a)"
      using snoc.IH by blast
    then show ?thesis by (intro exI [of _ before] exI [of _ e'] exI [of _ "after @ [e]"]) simp
  qed (rule exI [of _ es], rule exI [of _ e], rule exI [of _ "[]"], simp)+
qed

lemma payload_origin:
  "payload_at (approval_run ops approval_new) i = Some (tool, args) \<Longrightarrow>
     \<exists>now d. Enqueue i now tool args d \<in> set ops"
proof (induction ops rule: rev_induct)
  case Nil
  then show ?case by (simp add: payload_at_def approval_new_def)
next
  case (snoc op ops)
  show ?case
  proof (cases "\<exists>now t a d. op = Enqueue i now t a d")
    case True
    then obtain now t a d where op: "op = Enqueue i now t a d" by blast
    with snoc.prems have "t = tool \<and> a = args"
      by (simp add: payload_at_def enqueue_def put_action_def)
    with op show ?thesis by (intro exI [of _ now] exI [of _ d]) simp
  next
    case False
    then have "payload_at (approval_run ops approval_new) i = Some (tool, args)"
      using snoc.prems by (simp add: payload_at_step)
    then show ?thesis using snoc.IH by auto
  qed
qed

lemma enqueue_origin:
  "Enqueue i now tool args d \<in> set (run_ops pa es x) \<Longrightarrow>
     \<exists>before env after. es = before @ AgentCall env tool args # after \<and> ce_id env = i \<and>
       policy_evaluate pa (ex_policy (exec_run pa before x)) tool args = Inr (Ask d)"
proof (induction es arbitrary: x)
  case (Cons e es)
  show ?case
  proof (cases "Enqueue i now tool args d \<in> set (event_ops pa e x)")
    case True
    then obtain env where "e = AgentCall env tool args" "ce_id env = i"
      "policy_evaluate pa (ex_policy x) tool args = Inr (Ask d)"
      by (cases e) (auto simp: call_ops_def split: if_splits sum.splits tool_decision.splits)
    then show ?thesis
      by (intro exI [of _ "[]"] exI [of _ env] exI [of _ es]) simp
  next
    case False
    then obtain before env after where "es = before @ AgentCall env tool args # after" "ce_id env = i"
      "policy_evaluate pa (ex_policy (exec_run pa before (exec_step pa e x))) tool args = Inr (Ask d)"
      using Cons.IH [of "exec_step pa e x"] Cons.prems by auto
    then show ?thesis
      by (intro exI [of _ "e # before"] exI [of _ env] exI [of _ after]) simp
  qed
qed simp

lemma redeemed_life:
  assumes "redeemed_action pa e x = Some a" "ex_approvals x = approval_run ops approval_new"
  shows "\<exists>i. event_ops pa e x = [Redeem i] \<and> fst (approval_step (Redeem i) (ex_approvals x)) \<and>
    payload_at (ex_approvals x) i = Some (ap_tool_name a, ap_args_json a)"
  using assms(1)
  by (cases e)
    (auto simp: redeemed_action_def call_ops_def take_for_redeem_def payload_at_def done_of_def Let_def
      split: if_splits sum.splits option.splits approval_status.splits)

text \<open>C7. Nothing reaches the dispatcher unapproved. In every run of an executor that starts with an
  empty store, whoever acts on it in whatever order, a call handed to the dispatcher was either
  allowed by policy when the agent made it, or was asked for, and then enqueued, committed by the
  agent, approved by an operator and redeemed once, under one identifier and with the very tool
  name and arguments the policy was asked about.\<close>

theorem dispatched_calls_authorised:
  assumes "ex_approvals x = approval_new" "ex_calls x = []"
    and "distinct (enqueued_ids (run_ops pa es x))"
    and "(tool, args) \<in> set (ex_calls (exec_run pa es x))"
  shows "(\<exists>before env after. es = before @ AgentCall env tool args # after \<and>
      policy_evaluate pa (ex_policy (exec_run pa before x)) tool args = Inr Allow) \<or>
    (\<exists>before env after d. es = before @ AgentCall env tool args # after \<and>
      policy_evaluate pa (ex_policy (exec_run pa before x)) tool args = Inr (Ask d) \<and>
      life (ce_id env) (run_ops pa es x) approval_new = [Pending, Committed, Approved, Redeemed])"
proof -
  obtain before e after where es: "es = before @ e # after" and
    e: "(\<exists>env. e = AgentCall env tool args \<and>
        policy_evaluate pa (ex_policy (exec_run pa before x)) tool args = Inr Allow) \<or>
      (\<exists>a. redeemed_action pa e (exec_run pa before x) = Some a \<and>
        tool = ap_tool_name a \<and> args = ap_args_json a)"
    using calls_origin [OF assms(4)] assms(2) by auto
  show ?thesis
  proof (cases "\<exists>env. e = AgentCall env tool args \<and>
        policy_evaluate pa (ex_policy (exec_run pa before x)) tool args = Inr Allow")
    case True
    with es show ?thesis by blast
  next
    case False
    let ?x = "exec_run pa before x"
    from False e obtain a where a: "redeemed_action pa e ?x = Some a"
      "tool = ap_tool_name a" "args = ap_args_json a" by blast
    have store: "ex_approvals ?x = approval_run (run_ops pa before x) approval_new"
      by (simp add: exec_run_store assms(1))
    obtain i where i: "event_ops pa e ?x = [Redeem i]" "fst (approval_step (Redeem i) (ex_approvals ?x))"
      "payload_at (ex_approvals ?x) i = Some (tool, args)"
      using redeemed_life [OF a(1) store] a(2,3) by blast
    obtain now d where "Enqueue i now tool args d \<in> set (run_ops pa before x)"
      using payload_origin i(3) store by metis
    from enqueue_origin [OF this] obtain b env af where b: "before = b @ AgentCall env tool args # af"
      "ce_id env = i" "policy_evaluate pa (ex_policy (exec_run pa b x)) tool args = Inr (Ask d)"
      by blast
    have "Redeemed \<in> set (life i (run_ops pa es x) approval_new)"
      using i(1,2) by (simp add: es run_ops_append life_append store)
    moreover have "path_from None (life i (run_ops pa es x) approval_new)"
      using life_is_path [of "run_ops pa es x" approval_new i] assms(3) by (simp add: fresh_ids_def)
    ultimately have "life i (run_ops pa es x) approval_new = [Pending, Committed, Approved, Redeemed]"
      using path_to_Redeemed_None by blast
    with b es show ?thesis by (metis append.assoc append_Cons)
  qed
qed

text \<open>An agent that asks for an uncatalogued command, commits it and redeems it once approved.\<close>

definition demo_args :: "string \<Rightarrow> string + json" where
  "demo_args s =
     (if s = ''commit'' then Inr (JObject [(''id'', JString ''ap_1''), (''reason'', JString ''needed'')])
      else if s = ''redeem'' then Inr (JObject [(''id'', JString ''ap_1'')])
      else Inl ''not json'')"

definition demo_parsers :: parsers where
  "demo_parsers = \<lparr>pa_json = demo_args,
     pa_shell = (\<lambda>src. if src = ''make'' then Inr [plain_command [''make'']] else Inl ''unsupported''),
     pa_bash_args = Inr\<rparr>"

definition demo_executor :: executor where
  "demo_executor = \<lparr>ex_policy = \<lparr>pl_exec_policy = no_overrides, pl_preset = PresetDefault,
       pl_hook_rules = []\<rparr>,
     ex_approvals = approval_new, ex_has_sink = True, ex_notices = [], ex_calls = []\<rparr>"

definition demo_env :: call_env where
  "demo_env = \<lparr>ce_id = ''ap_1'', ce_now = 7, ce_answer = Some (Inr ''ok'')\<rparr>"

definition demo_events :: "exec_event list" where
  "demo_events =
     [AgentCall demo_env ''bash_exec'' ''make'', AgentCall demo_env ''approval_commit'' ''commit'',
      OperatorApprove ''ap_1'', AgentCall demo_env ''approval_redeem'' ''redeem'']"

lemma demo_dispatched: "ex_calls (exec_run demo_parsers demo_events demo_executor) = [(''bash_exec'', ''make'')]"
  by code_simp

lemma demo_ids: "distinct (enqueued_ids (run_ops demo_parsers demo_events demo_executor))"
  by code_simp

theorem dispatched_calls_authorised_witness:
  "(''bash_exec'', ''make'') \<in> set (ex_calls (exec_run demo_parsers demo_events demo_executor)) \<and>
   ((\<exists>before env after. demo_events = before @ AgentCall env ''bash_exec'' ''make'' # after \<and>
      policy_evaluate demo_parsers (ex_policy (exec_run demo_parsers before demo_executor))
        ''bash_exec'' ''make'' = Inr Allow) \<or>
    (\<exists>before env after d. demo_events = before @ AgentCall env ''bash_exec'' ''make'' # after \<and>
      policy_evaluate demo_parsers (ex_policy (exec_run demo_parsers before demo_executor))
        ''bash_exec'' ''make'' = Inr (Ask d) \<and>
      life (ce_id env) (run_ops demo_parsers demo_events demo_executor) approval_new =
        [Pending, Committed, Approved, Redeemed]))"
proof (intro conjI)
  have start: "ex_approvals demo_executor = approval_new" "ex_calls demo_executor = []"
    by (simp_all add: demo_executor_def)
  show call: "(''bash_exec'', ''make'') \<in> set (ex_calls (exec_run demo_parsers demo_events demo_executor))"
    by (simp add: demo_dispatched)
  show "(\<exists>before env after. demo_events = before @ AgentCall env ''bash_exec'' ''make'' # after \<and>
      policy_evaluate demo_parsers (ex_policy (exec_run demo_parsers before demo_executor))
        ''bash_exec'' ''make'' = Inr Allow) \<or>
    (\<exists>before env after d. demo_events = before @ AgentCall env ''bash_exec'' ''make'' # after \<and>
      policy_evaluate demo_parsers (ex_policy (exec_run demo_parsers before demo_executor))
        ''bash_exec'' ''make'' = Inr (Ask d) \<and>
      life (ce_id env) (run_ops demo_parsers demo_events demo_executor) approval_new =
        [Pending, Committed, Approved, Redeemed])"
    by (rule dispatched_calls_authorised [OF start demo_ids call])
qed

end
