(* ===== verification/Tool_Rounds.thy ===== *)
theory Tool_Rounds
  imports Agent_Event Tool_Executor Text_Slice Context_Store
begin

text \<open>
  The tool calls of one round: \<open>crates/kallipai-adk/src/tool_execution.rs\<close>. The calls run one after
  the other against the executor; after the first that does not cleanly succeed the rest is
  skipped, \<open>break\<close> ends the round wherever it stands, and every call of the recorded turn gets a
  result. What each call meets outside (the dispatcher's answer, the timeout, the cancellation of
  the round) is given per position; the printing of a reply and the token estimator are parameters.
\<close>

section \<open>Pairing of calls and results\<close>

definition assistant_message :: "string option \<Rightarrow> tool_call list \<Rightarrow> string \<Rightarrow> message" where
  "assistant_message content calls reasoning =
     \<lparr>ms_role = ''assistant'', ms_content = content, ms_parts = None,
      ms_reasoning = (if reasoning = [] then None else Some reasoning), ms_calls = calls,
      ms_tool_call_id = None\<rparr>"

definition tool_message :: "string \<Rightarrow> string \<Rightarrow> message" where
  "tool_message result i =
     \<lparr>ms_role = ''tool'', ms_content = Some result, ms_parts = None,
      ms_reasoning = None, ms_calls = [], ms_tool_call_id = Some i\<rparr>"

definition unanswered_call_ids :: "message list \<Rightarrow> (string \<times> string) list" where
  "unanswered_call_ids messages =
     (let declared = map (\<lambda>c. (tc_id c, tc_name c)) (concat (map ms_calls messages));
          answered = List.map_filter ms_tool_call_id messages
      in filter (\<lambda>(i, _). i \<notin> set answered) declared)"

definition orphan_result_ids :: "message list \<Rightarrow> string list" where
  "orphan_result_ids messages =
     (let declared = map tc_id (concat (map ms_calls messages))
      in filter (\<lambda>i. i \<notin> set declared) (List.map_filter ms_tool_call_id messages))"

section \<open>Break\<close>

datatype break_until = Idle | Wait u64

definition DEFAULT_BREAK_TIMEOUT_SECS :: u64 where
  "DEFAULT_BREAK_TIMEOUT_SECS = 600"

definition parse_break_args :: "json_parser \<Rightarrow> string \<Rightarrow> break_until" where
  "parse_break_args parse_json raw =
     (case parse_json raw of
        Inl _ \<Rightarrow> Wait DEFAULT_BREAK_TIMEOUT_SECS
      | Inr args \<Rightarrow>
          if str_field ''until'' args = Some ''idle'' then Idle
          else
            (case Option.bind (json_get args ''timeout_secs'') json_u64 of
               None \<Rightarrow> Wait DEFAULT_BREAK_TIMEOUT_SECS
             | Some t \<Rightarrow> if 1 \<le> t then Wait t else Wait DEFAULT_BREAK_TIMEOUT_SECS))"

definition json_text :: "string \<Rightarrow> string" where
  "json_text s = [CHR 0x22] @ s @ [CHR 0x22]"

definition break_ack :: "break_until \<Rightarrow> string" where
  "break_ack until =
     ''{'' @ json_text ''ok'' @ '':true,'' @ json_text ''tool_name'' @ '':'' @ json_text ''break''
       @ '','' @ json_text ''result'' @ '':{'' @ json_text ''parked'' @ '':true,''
       @ json_text ''until'' @ '':'' @
     (case until of
        Idle \<Rightarrow> json_text ''idle''
      | Wait secs \<Rightarrow>
          json_text ''wait'' @ '','' @ json_text ''timeout_secs'' @ '':'' @ show_nat (unat secs))
     @ ''}}''"

definition not_executed :: "string \<Rightarrow> reply" where
  "not_executed name =
     error_result name
       (''not executed: a '' @ quoted ''break'' @
        '' in this round terminated execution before this call ran'')"

definition synthesize_unanswered_results :: "(reply \<Rightarrow> string) \<Rightarrow> break_until
    \<Rightarrow> message list \<Rightarrow> message list" where
  "synthesize_unanswered_results render until turn_messages =
     turn_messages @
     map (\<lambda>(i, name).
        tool_message (if name = ''break'' then break_ack until else render (not_executed name)) i)
       (unanswered_call_ids turn_messages)"

section \<open>One call\<close>

text \<open>What a call meets: it may answer in time, answer only after the timeout of the round, or be
  overtaken by the cancellation of the round before it is polled or while it waits.\<close>

datatype interruption = InTime | Late | CancelledBefore | CancelledDuring

record round_env =
  rn_id :: string
  rn_now :: int
  rn_answer :: "string + string"
  rn_interruption :: interruption

definition OWNS_TIMEOUT_TOOLS :: "string list" where
  "OWNS_TIMEOUT_TOOLS = [''bash_exec'']"

definition answered_env :: "round_env \<Rightarrow> call_env" where
  "answered_env e = \<lparr>ce_id = rn_id e, ce_now = rn_now e, ce_answer = Some (rn_answer e)\<rparr>"

definition dropped_env :: "round_env \<Rightarrow> call_env" where
  "dropped_env e = \<lparr>ce_id = rn_id e, ce_now = rn_now e, ce_answer = None\<rparr>"

text \<open>\<open>run_tool_bounded\<close> under the \<open>select!\<close> of the loop: no outcome when the cancellation wins.\<close>

definition run_tool_bounded :: "parsers \<Rightarrow> nat \<Rightarrow> round_env \<Rightarrow> string \<Rightarrow> string \<Rightarrow> executor
    \<Rightarrow> tool_call_outcome option \<times> executor" where
  "run_tool_bounded pa timeout_secs e tool_name args x =
     (case rn_interruption e of
        CancelledBefore \<Rightarrow> (None, x)
      | CancelledDuring \<Rightarrow> execute pa (dropped_env e) tool_name args x
      | InTime \<Rightarrow> execute pa (answered_env e) tool_name args x
      | Late \<Rightarrow>
          if tool_name \<in> set OWNS_TIMEOUT_TOOLS then execute pa (answered_env e) tool_name args x
          else (case execute pa (dropped_env e) tool_name args x of
                  (None, x') \<Rightarrow> (Some (Failed (timed_out_tool_result tool_name timeout_secs)), x')
                | (Some outcome, x') \<Rightarrow> (Some outcome, x')))"

section \<open>The round\<close>

datatype tool_exec_result =
    Messages "message list"
  | Break "message list" break_until
  | RoundCancelled

text \<open>The state transitions the one-shot cells of the store report, drained after a call.\<close>

definition drain_cells :: "parsers \<Rightarrow> executor \<Rightarrow> agent_event list \<times> executor" where
  "drain_cells pa x =
     (let (committed, s1) = take_last_committed (ex_approvals x);
          (redeemed, s2) = take_last_redeemed s1;
          (cancelled, s3) = take_last_cancelled s2
      in ((case committed of
             None \<Rightarrow> []
           | Some info \<Rightarrow>
               [ApprovalCommittedEvent info
                  (case pa_json pa (ci_args_json info) of Inr v \<Rightarrow> v | Inl _ \<Rightarrow> JNull)]) @
          (case redeemed of None \<Rightarrow> [] | Some i \<Rightarrow> [ApprovalRedeemedEvent i]) @
          (case cancelled of None \<Rightarrow> [] | Some i \<Rightarrow> [ApprovalCancelledEvent i]),
          x\<lparr>ex_approvals := s3\<rparr>))"

fun outcome_reply :: "tool_call_outcome \<Rightarrow> reply" where
  "outcome_reply (Success r) = r"
| "outcome_reply (Failed r) = r"
| "outcome_reply (Deferred r) = r"

text \<open>Why the calls after this outcome are skipped, if they are.\<close>

fun skip_reason :: "tool_call_outcome \<Rightarrow> string option" where
  "skip_reason (Success _) = None"
| "skip_reason (Failed _) = Some ''did not succeed''"
| "skip_reason (Deferred _) = Some ''is pending approval''"

record round_params =
  rp_parsers :: parsers
  rp_render :: "reply \<Rightarrow> string"
  rp_estimate :: "string \<Rightarrow> usize"
  rp_timeout_secs :: nat

text \<open>The loop over the calls. \<open>skip\<close> is the earlier call that did not succeed, with the reason.\<close>

fun run_calls :: "round_params \<Rightarrow> (nat \<Rightarrow> round_env) \<Rightarrow> nat \<Rightarrow> tool_call list
    \<Rightarrow> (string \<times> string) option \<Rightarrow> executor \<Rightarrow> agent_event list \<Rightarrow> message list
    \<Rightarrow> tool_exec_result \<times> executor \<times> agent_event list" where
  "run_calls rp env n [] skip x evs msgs =
     (Messages (synthesize_unanswered_results (rp_render rp) (Wait DEFAULT_BREAK_TIMEOUT_SECS) msgs),
      x, evs)"
| "run_calls rp env n (c # cs) skip x evs msgs =
     (if tc_name c = ''break'' then
        (let until = parse_break_args (pa_json (rp_parsers rp)) (tc_arguments c)
         in (Break (synthesize_unanswered_results (rp_render rp) until msgs) until, x,
             evs @ [ToolCallEvent ''break'' (tc_arguments c), ToolResultEvent (break_ack until)]))
      else case skip of
        Some (prior, reason) \<Rightarrow>
          (let result = cap_tool_result (rp_estimate rp)
                 (rp_render rp (skipped_tool_result (tc_name c) prior reason))
           in run_calls rp env (Suc n) cs skip x (evs @ [ToolResultEvent result])
                (msgs @ [tool_message result (tc_id c)]))
      | None \<Rightarrow>
          (let evs1 = evs @ [ToolCallEvent (tc_name c) (tc_arguments c)]
           in case run_tool_bounded (rp_parsers rp) (rp_timeout_secs rp) (env n) (tc_name c)
                  (tc_arguments c) x of
                (None, x1) \<Rightarrow> (RoundCancelled, x1, evs1)
              | (Some outcome, x1) \<Rightarrow>
                  (let (cell_evs, x2) = drain_cells (rp_parsers rp) x1;
                       result = cap_tool_result (rp_estimate rp) (rp_render rp (outcome_reply outcome))
                   in run_calls rp env (Suc n) cs
                        (map_option (\<lambda>r. (tc_name c, r)) (skip_reason outcome)) x2
                        (evs1 @ cell_evs @ [ToolResultEvent result])
                        (msgs @ [tool_message result (tc_id c)]))))"

definition execute_tool_calls :: "round_params \<Rightarrow> (nat \<Rightarrow> round_env) \<Rightarrow> string \<Rightarrow> string \<Rightarrow> tool_call list
    \<Rightarrow> executor \<Rightarrow> tool_exec_result \<times> executor \<times> agent_event list" where
  "execute_tool_calls rp env content reasoning calls x =
     run_calls rp env 0 calls None x []
       [assistant_message (if content = [] then None else Some content) calls reasoning]"

section \<open>The reference: one call after the other up to the first failure\<close>

abbreviation is_break :: "tool_call \<Rightarrow> bool" where
  "is_break c \<equiv> tc_name c = ''break''"

definition result_text :: "round_params \<Rightarrow> reply \<Rightarrow> string" where
  "result_text rp r = cap_tool_result (rp_estimate rp) (rp_render rp r)"

text \<open>The outcomes of the calls that ran (none for the one the cancellation overtook), the texts
  recorded for the calls before any break, and the executor they leave.\<close>

fun serial :: "round_params \<Rightarrow> (nat \<Rightarrow> round_env) \<Rightarrow> nat \<Rightarrow> tool_call list \<Rightarrow> executor
    \<Rightarrow> tool_call_outcome option list \<times> string list \<times> executor" where
  "serial rp env n [] x = ([], [], x)"
| "serial rp env n (c # cs) x =
     (if is_break c then ([], [], x)
      else case run_tool_bounded (rp_parsers rp) (rp_timeout_secs rp) (env n) (tc_name c)
             (tc_arguments c) x of
        (None, x1) \<Rightarrow> ([None], [], x1)
      | (Some outcome, x1) \<Rightarrow>
          (let x2 = snd (drain_cells (rp_parsers rp) x1);
               text = result_text rp (outcome_reply outcome)
           in case skip_reason outcome of
                Some reason \<Rightarrow>
                  ([Some outcome],
                   text # map (\<lambda>d. result_text rp (skipped_tool_result (tc_name d) (tc_name c) reason))
                     (takeWhile (\<lambda>d. \<not> is_break d) cs), x2)
              | None \<Rightarrow>
                  (let (outs, texts, x3) = serial rp env (Suc n) cs x2
                   in (Some outcome # outs, text # texts, x3))))"

definition tool_messages :: "string list \<Rightarrow> tool_call list \<Rightarrow> message list" where
  "tool_messages texts calls = map2 tool_message texts (map tc_id calls)"

definition overtaken :: "tool_call_outcome option list \<Rightarrow> bool" where
  "overtaken outs \<longleftrightarrow> outs \<noteq> [] \<and> last outs = None"

text \<open>How the round ends when it is not cancelled, given the messages so far.\<close>

definition ending :: "round_params \<Rightarrow> tool_call list \<Rightarrow> message list \<Rightarrow> tool_exec_result" where
  "ending rp calls msgs =
     (case dropWhile (\<lambda>c. \<not> is_break c) calls of
        [] \<Rightarrow>
          Messages (synthesize_unanswered_results (rp_render rp) (Wait DEFAULT_BREAK_TIMEOUT_SECS) msgs)
      | b # _ \<Rightarrow>
          (let until = parse_break_args (pa_json (rp_parsers rp)) (tc_arguments b)
           in Break (synthesize_unanswered_results (rp_render rp) until msgs) until))"

lemma tool_messages_Cons [simp]:
  "tool_messages (t # ts) (c # cs) = tool_message t (tc_id c) # tool_messages ts cs"
  "tool_messages [] cs = []"
  by (simp_all add: tool_messages_def)

lemma ending_Cons: "\<not> is_break c \<Longrightarrow> ending rp (c # cs) = ending rp cs"
  by (simp add: ending_def fun_eq_iff)

lemma run_skipped:
  "fst (run_calls rp env n cs (Some (prior, reason)) x evs msgs) =
     ending rp cs
        (msgs @ tool_messages
           (map (\<lambda>d. result_text rp (skipped_tool_result (tc_name d) prior reason))
             (takeWhile (\<lambda>d. \<not> is_break d) cs))
           (takeWhile (\<lambda>d. \<not> is_break d) cs)) \<and>
   fst (snd (run_calls rp env n cs (Some (prior, reason)) x evs msgs)) = x"
proof (induction cs arbitrary: n evs msgs)
  case (Cons c cs)
  show ?case
  proof (cases "is_break c")
    case True
    then show ?thesis by (simp add: ending_def Let_def)
  next
    case False
    let ?t = "result_text rp (skipped_tool_result (tc_name c) prior reason)"
    show ?thesis
      using Cons.IH [of "Suc n" "evs @ [ToolResultEvent ?t]" "msgs @ [tool_message ?t (tc_id c)]"] False
      by (simp add: ending_def Let_def result_text_def)
  qed
qed (simp add: ending_def)

lemma run_serial:
  "case serial rp env n cs x of
     (outs, texts, x') \<Rightarrow>
       fst (run_calls rp env n cs None x evs msgs) =
         (if overtaken outs then RoundCancelled
          else ending rp cs (msgs @ tool_messages texts (takeWhile (\<lambda>c. \<not> is_break c) cs))) \<and>
       fst (snd (run_calls rp env n cs None x evs msgs)) = x'"
proof (induction cs arbitrary: n x evs msgs)
  case Nil
  then show ?case by (simp add: ending_def overtaken_def)
next
  case (Cons c cs)
  show ?case
  proof (cases "is_break c")
    case True
    then show ?thesis by (simp add: ending_def overtaken_def Let_def)
  next
    case False
    obtain o1 x1 where call: "run_tool_bounded (rp_parsers rp) (rp_timeout_secs rp) (env n) (tc_name c)
        (tc_arguments c) x = (o1, x1)" by fastforce
    show ?thesis
    proof (cases o1)
      case None
      then show ?thesis using False call by (simp add: overtaken_def)
    next
      case (Some outcome)
      obtain ce x2 where drain: "drain_cells (rp_parsers rp) x1 = (ce, x2)" by fastforce
      let ?t = "result_text rp (outcome_reply outcome)"
      let ?evs = "evs @ [ToolCallEvent (tc_name c) (tc_arguments c)] @ ce @ [ToolResultEvent ?t]"
      let ?msgs = "msgs @ [tool_message ?t (tc_id c)]"
      have step: "run_calls rp env n (c # cs) None x evs msgs =
          run_calls rp env (Suc n) cs (map_option (\<lambda>r. (tc_name c, r)) (skip_reason outcome)) x2 ?evs ?msgs"
        using False call Some drain by (simp add: Let_def result_text_def)
      show ?thesis
      proof (cases "skip_reason outcome")
        case None
        obtain outs texts x3 where rest: "serial rp env (Suc n) cs x2 = (outs, texts, x3)"
          by (cases "serial rp env (Suc n) cs x2") auto
        have "overtaken (Some outcome # outs) = overtaken outs" by (simp add: overtaken_def)
        then show ?thesis
          using Cons.IH [of "Suc n" x2 ?evs ?msgs] False call Some drain None rest
          unfolding step by (simp add: ending_Cons)
      next
        case reason: (Some reason)
        show ?thesis
          using run_skipped [of rp env "Suc n" cs "tc_name c" reason x2 ?evs ?msgs]
            False call Some drain reason
          unfolding step by (simp add: ending_Cons overtaken_def Let_def result_text_def)
      qed
    qed
  qed
qed

lemma serial_length:
  "case serial rp env n cs x of
     (outs, texts, x') \<Rightarrow>
       list_all (\<lambda>d. case d of Some (Success _) \<Rightarrow> True | _ \<Rightarrow> False) (butlast outs) \<and>
       length outs \<le> length (takeWhile (\<lambda>c. \<not> is_break c) cs) \<and>
       (if overtaken outs then True else length texts = length (takeWhile (\<lambda>c. \<not> is_break c) cs))"
proof (induction cs arbitrary: n x)
  case (Cons c cs)
  show ?case
  proof (cases "is_break c")
    case False
    obtain o1 x1 where call: "run_tool_bounded (rp_parsers rp) (rp_timeout_secs rp) (env n) (tc_name c)
        (tc_arguments c) x = (o1, x1)" by fastforce
    show ?thesis
    proof (cases o1)
      case None
      then show ?thesis using False call by (simp add: overtaken_def)
    next
      case (Some outcome)
      let ?x = "snd (drain_cells (rp_parsers rp) x1)"
      obtain outs texts x3 where rest: "serial rp env (Suc n) cs ?x = (outs, texts, x3)"
        by (cases "serial rp env (Suc n) cs ?x") auto
      show ?thesis
        using Cons.IH [of "Suc n" ?x] False call Some rest
        by (cases outcome) (auto simp: overtaken_def Let_def split: if_splits)
    qed
  qed (simp add: overtaken_def)
qed (simp add: overtaken_def)

section \<open>Properties\<close>

definition recorded_turn :: "tool_exec_result \<Rightarrow> message list option" where
  "recorded_turn r =
     (case r of Messages ms \<Rightarrow> Some ms | Break ms _ \<Rightarrow> Some ms | RoundCancelled \<Rightarrow> None)"

lemma map_filter_tool_messages:
  "length texts = length cs \<Longrightarrow> List.map_filter ms_tool_call_id (tool_messages texts cs) = map tc_id cs"
  by (induction texts cs rule: list_induct2) (simp_all add: map_filter_simps tool_message_def)

lemma calls_tool_messages: "concat (map ms_calls (tool_messages texts cs)) = []"
  by (auto simp: tool_messages_def tool_message_def concat_eq_Nil_conv set_zip)

lemma ids_tool_messages:
  "length texts = length cs \<Longrightarrow> map ms_tool_call_id (tool_messages texts cs) = map (Some \<circ> tc_id) cs"
  by (induction texts cs rule: list_induct2) (simp_all add: tool_message_def)

lemma map_filter_append: "List.map_filter f (xs @ ys) = List.map_filter f xs @ List.map_filter f ys"
  by (induction xs) (auto simp: map_filter_simps split: option.split)

text \<open>The calls a synthesis has to answer, and the turn it leaves.\<close>

lemma synthesized:
  fixes content :: "string option" and reasoning :: string
  assumes "length texts = length before" "set (map tc_id before) \<subseteq> set (map tc_id calls)"
  defines "msgs \<equiv> assistant_message content calls reasoning # tool_messages texts before"
  defines "todo \<equiv> filter (\<lambda>c. tc_id c \<notin> set (map tc_id before)) calls"
  shows "\<exists>more. synthesize_unanswered_results render until msgs = msgs @ more \<and>
      map ms_tool_call_id more = map (Some \<circ> tc_id) todo"
    and "unanswered_call_ids (synthesize_unanswered_results render until msgs) = []"
    and "orphan_result_ids (synthesize_unanswered_results render until msgs) = []"
proof -
  have calls: "concat (map ms_calls msgs) = calls" and answered: "List.map_filter ms_tool_call_id msgs = map tc_id before"
    using assms(1) by (simp_all add: msgs_def calls_tool_messages [simplified] assistant_message_def
        map_filter_simps map_filter_tool_messages)
  then have unanswered: "unanswered_call_ids msgs = map (\<lambda>c. (tc_id c, tc_name c)) todo"
    by (simp add: unanswered_call_ids_def Let_def todo_def filter_map comp_def)
  define more where "more = map (\<lambda>(i, name). tool_message
    (if name = ''break'' then break_ack until else render (not_executed name)) i) (unanswered_call_ids msgs)"
  have turn: "synthesize_unanswered_results render until msgs = msgs @ more"
    by (simp add: synthesize_unanswered_results_def more_def)
  have ids: "map ms_tool_call_id more = map (Some \<circ> tc_id) todo"
    by (simp add: more_def unanswered comp_def tool_message_def)
  then show "\<exists>more. synthesize_unanswered_results render until msgs = msgs @ more \<and>
      map ms_tool_call_id more = map (Some \<circ> tc_id) todo" using turn by blast
  have "List.map_filter ms_tool_call_id more = map tc_id todo"
    if "map ms_tool_call_id more = map (Some \<circ> tc_id) todo" for more :: "message list" and todo
    using that by (induction more arbitrary: todo) (auto simp: map_filter_simps map_eq_Cons_conv)
  with ids have more: "List.map_filter ms_tool_call_id more = map tc_id todo" by blast
  have no_calls: "concat (map ms_calls more) = []"
    by (auto simp: more_def tool_message_def concat_eq_Nil_conv)
  show "unanswered_call_ids (synthesize_unanswered_results render until msgs) = []"
    by (auto simp: turn unanswered_call_ids_def Let_def map_filter_append answered more calls no_calls
        todo_def filter_empty_conv)
  show "orphan_result_ids (synthesize_unanswered_results render until msgs) = []"
    using assms(2) by (auto simp: turn orphan_result_ids_def Let_def map_filter_append answered more calls
        no_calls todo_def filter_empty_conv)
qed

lemma ending_turn:
  "\<exists>until. recorded_turn (ending rp calls msgs) =
     Some (synthesize_unanswered_results (rp_render rp) until msgs)"
  by (auto simp: ending_def recorded_turn_def Let_def split: list.split)

lemma execute_serial:
  assumes "serial rp env 0 calls x = (outs, texts, x')"
  shows "recorded_turn (fst (execute_tool_calls rp env content reasoning calls x)) =
      (if overtaken outs then None
       else recorded_turn (ending rp calls
         (assistant_message (if content = [] then None else Some content) calls reasoning #
          tool_messages texts (takeWhile (\<lambda>c. \<not> is_break c) calls))))"
    "fst (snd (execute_tool_calls rp env content reasoning calls x)) = x'"
  using run_serial [of rp env 0 calls x "[]"] assms
  by (auto simp: execute_tool_calls_def recorded_turn_def)

text \<open>A recorded turn answers every call it declares and nothing else.\<close>

lemma recorded_turn_complete:
  assumes "recorded_turn (fst (execute_tool_calls rp env content reasoning calls x)) = Some ms"
  shows "unanswered_call_ids ms = []" "orphan_result_ids ms = []"
proof -
  obtain outs texts x' where serial: "serial rp env 0 calls x = (outs, texts, x')"
    by (cases "serial rp env 0 calls x") auto
  let ?before = "takeWhile (\<lambda>c. \<not> is_break c) calls"
  let ?msgs = "assistant_message (if content = [] then None else Some content) calls reasoning #
      tool_messages texts ?before"
  have ran: "\<not> overtaken outs" using assms by (auto simp: execute_serial(1) [OF serial])
  then have len: "length texts = length ?before"
    using serial_length [where rp = rp and env = env and n = 0 and cs = calls and x = x] by (simp add: serial)
  have sub: "set (map tc_id ?before) \<subseteq> set (map tc_id calls)" by (auto dest: set_takeWhileD)
  obtain until where "recorded_turn (ending rp calls ?msgs) =
      Some (synthesize_unanswered_results (rp_render rp) until ?msgs)"
    using ending_turn by blast
  then have "ms = synthesize_unanswered_results (rp_render rp) until ?msgs"
    using assms ran by (simp add: execute_serial(1) [OF serial])
  then show "unanswered_call_ids ms = []" "orphan_result_ids ms = []"
    using synthesized(2,3) [OF len sub, of "rp_render rp" until "if content = [] then None else Some content" reasoning]
    by simp_all
qed

text \<open>Every recorded turn is valid for the provider. Whatever the calls, their answers, the
  failures and a break anywhere among them, a turn that is recorded starts with the assistant
  message, every call it declares has a result and no result answers a call it does not declare;
  and when the identifiers are distinct there is exactly one result per call, in the order of the
  calls.\<close>

theorem recorded_turn_paired:
  "case recorded_turn (fst (execute_tool_calls rp env content reasoning calls x)) of
     None \<Rightarrow> True
   | Some ms \<Rightarrow>
       unanswered_call_ids ms = [] \<and> orphan_result_ids ms = [] \<and>
       hd ms = assistant_message (if content = [] then None else Some content) calls reasoning \<and>
       (if distinct (map tc_id calls) then map ms_tool_call_id (tl ms) = map (Some \<circ> tc_id) calls
        else True)"
proof -
  obtain outs texts x' where serial: "serial rp env 0 calls x = (outs, texts, x')"
    by (cases "serial rp env 0 calls x") auto
  let ?before = "takeWhile (\<lambda>c. \<not> is_break c) calls"
  let ?msgs = "assistant_message (if content = [] then None else Some content) calls reasoning #
      tool_messages texts ?before"
  show ?thesis
  proof (cases "overtaken outs")
    case True
    then show ?thesis by (simp add: execute_serial(1) [OF serial])
  next
    case False
    then have len: "length texts = length ?before"
      using serial_length [where rp = rp and env = env and n = 0 and cs = calls and x = x] by (simp add: serial)
    have sub: "set (map tc_id ?before) \<subseteq> set (map tc_id calls)"
      by (auto dest: set_takeWhileD)
    obtain until where turn: "recorded_turn (ending rp calls ?msgs) =
        Some (synthesize_unanswered_results (rp_render rp) until ?msgs)"
      using ending_turn by blast
    have rest: "filter (\<lambda>c. tc_id c \<notin> set (map tc_id ?before)) calls =
        dropWhile (\<lambda>c. \<not> is_break c) calls" if "distinct (map tc_id calls)"
    proof -
      have "distinct (map tc_id (?before @ dropWhile (\<lambda>c. \<not> is_break c) calls))"
        using that by (simp only: takeWhile_dropWhile_id)
      then have "set (map tc_id ?before) \<inter> set (map tc_id (dropWhile (\<lambda>c. \<not> is_break c) calls)) = {}"
        by (simp only: map_append distinct_append)
      then have "filter (\<lambda>c. tc_id c \<notin> set (map tc_id ?before))
          (?before @ dropWhile (\<lambda>c. \<not> is_break c) calls) = dropWhile (\<lambda>c. \<not> is_break c) calls"
        unfolding filter_append by (subst filter_False, simp, subst filter_True) auto
      then show ?thesis by (simp only: takeWhile_dropWhile_id)
    qed
    obtain more where more: "synthesize_unanswered_results (rp_render rp) until ?msgs = ?msgs @ more"
      "map ms_tool_call_id more =
        map (Some \<circ> tc_id) (filter (\<lambda>c. tc_id c \<notin> set (map tc_id ?before)) calls)"
      using synthesized(1) [OF len sub] by blast
    have "map ms_tool_call_id (tl (?msgs @ more)) = map (Some \<circ> tc_id) calls"
      if "distinct (map tc_id calls)"
    proof -
      have "tl (?msgs @ more) = tool_messages texts ?before @ more" by simp
      then have "map ms_tool_call_id (tl (?msgs @ more)) =
          map (Some \<circ> tc_id) (?before @ dropWhile (\<lambda>c. \<not> is_break c) calls)"
        by (simp only: map_append ids_tool_messages [OF len] more(2) rest [OF that])
      then show ?thesis by (simp only: takeWhile_dropWhile_id)
    qed
    then show ?thesis
      using synthesized(2,3) [OF len sub, of "rp_render rp" until "if content = [] then None else Some content" reasoning]
      by (simp add: execute_serial(1) [OF serial] False turn more(1))
  qed
qed

text \<open>C25. A round stops at its first call that does not cleanly succeed. The executor ends where the
  calls up to that one leave it, and no later call reaches it; all calls before it succeeded; and
  the results recorded up to a break are the replies of the calls that ran and, for every later
  one, the skip error that names the culprit. Without a recorded turn the cancellation overtook the
  last call.\<close>

theorem round_stops_at_failure:
  "case serial rp env 0 calls x of
     (outs, texts, x') \<Rightarrow>
       fst (snd (execute_tool_calls rp env content reasoning calls x)) = x' \<and>
       list_all (\<lambda>d. case d of Some (Success _) \<Rightarrow> True | _ \<Rightarrow> False) (butlast outs) \<and>
       (case recorded_turn (fst (execute_tool_calls rp env content reasoning calls x)) of
          None \<Rightarrow> overtaken outs
        | Some ms \<Rightarrow>
            \<not> overtaken outs \<and>
            prefix (tool_messages texts (takeWhile (\<lambda>c. \<not> is_break c) calls)) (tl ms))"
proof -
  obtain outs texts x' where serial: "serial rp env 0 calls x = (outs, texts, x')"
    by (cases "serial rp env 0 calls x") auto
  let ?msgs = "assistant_message (if content = [] then None else Some content) calls reasoning #
      tool_messages texts (takeWhile (\<lambda>c. \<not> is_break c) calls)"
  obtain until where "recorded_turn (ending rp calls ?msgs) =
      Some (synthesize_unanswered_results (rp_render rp) until ?msgs)"
    using ending_turn by blast
  then show ?thesis
    using serial_length [where rp = rp and env = env and n = 0 and cs = calls and x = x] execute_serial [OF serial, of content]
    by (simp add: serial synthesize_unanswered_results_def)
qed

end
