(* ===== verification/Restore.thy ===== *)
theory Restore
  imports History Tool_Rounds
begin

text \<open>
  Persisting, restoring and repairing an agent: \<open>crates/kallipai-adk/src/persistence\<close> (\<open>io.rs\<close>,
  \<open>store.rs\<close>, \<open>scan.rs\<close>, \<open>legacy.rs\<close>, \<open>repair.rs\<close>). A directory is its documents with their
  backups and its history log. A document is what reading and parsing it gives; the printing and
  the parsing of the client's serializer are taken as inverse. A write is the list of the states
  the disk goes through, so that a crash or an error is one of them. The token estimator, the
  attachment references and the text form of a pinned message and the printing of a reply are
  parameters.
\<close>

section \<open>Documents\<close>

datatype 'a stored = Missing | Unreadable | Unparsable | Good 'a

abbreviation exists_doc :: "'a stored \<Rightarrow> bool" where
  "exists_doc f \<equiv> f \<noteq> Missing"

record 'a slot =
  sl_primary :: "'a stored"
  sl_bak :: "'a stored"
  sl_temp :: "'a stored"

text \<open>The document and whether the backup won.\<close>

definition load_with_backup :: "'a slot \<Rightarrow> ('a \<times> bool) option" where
  "load_with_backup sl =
     (case sl_primary sl of
        Good d \<Rightarrow> Some (d, False)
      | _ \<Rightarrow> (case sl_bak sl of Good d \<Rightarrow> Some (d, True) | _ \<Rightarrow> None))"

text \<open>How the best-effort copy of the backup ends: it copies, it fails before it touches the backup,
  or it fails half way.\<close>

datatype copy_end = Copied | NotCopied | TornCopy

definition backup_states :: "copy_end \<Rightarrow> 'a slot \<Rightarrow> 'a slot list" where
  "backup_states c sl =
     (if exists_doc (sl_primary sl) then
        (case c of
           Copied \<Rightarrow> [sl, sl\<lparr>sl_bak := Unparsable\<rparr>, sl\<lparr>sl_bak := sl_primary sl\<rparr>]
         | NotCopied \<Rightarrow> [sl]
         | TornCopy \<Rightarrow> [sl, sl\<lparr>sl_bak := Unparsable\<rparr>])
      else [sl])"

definition atomic_write :: "'a \<Rightarrow> 'a slot \<Rightarrow> 'a slot list" where
  "atomic_write d sl =
     [sl\<lparr>sl_temp := Unparsable\<rparr>, sl\<lparr>sl_temp := Good d\<rparr>,
      sl\<lparr>sl_primary := Good d, sl_temp := Missing\<rparr>]"

definition write_with_backup :: "copy_end \<Rightarrow> 'a \<Rightarrow> 'a slot \<Rightarrow> 'a slot list" where
  "write_with_backup c d sl =
     (let before = backup_states c sl in before @ atomic_write d (last before))"

section \<open>Restart notices\<close>

definition RESTART_MESSAGE :: string where
  "RESTART_MESSAGE =
     ''[system]'' @ [newline] @
     ''Agent restored from a previous state. Shell sessions have been reset '' @ em_dash @ [newline] @
     ''environment variables, working directory, and background processes are no'' @ [newline] @
     ''longer available. Review the current state of the project and re-establish'' @ [newline] @
     ''any necessary conditions before continuing. Directory write-locks are managed by'' @ [newline] @
     ''the system for the lifetime of your task and were re-established on restore; they'' @ [newline] @
     ''need no action from you.'' @ [newline]"

definition is_restart_turn :: "turn \<Rightarrow> bool" where
  "is_restart_turn t \<longleftrightarrow>
     \<not> is_pinned t \<and> length (tu_messages t) = 1 \<and>
     ms_content (tu_messages t ! 0) = Some RESTART_MESSAGE"

definition strip_restart_turns :: "context_store \<Rightarrow> context_store" where
  "strip_restart_turns s =
     (let positions = filter (\<lambda>i. is_restart_turn (cs_turns s ! i)) [0..<length (cs_turns s)]
      in fold (\<lambda>i s. case drain_turns i (i + 1) s of Some (_, s') \<Rightarrow> s' | None \<Rightarrow> s)
           (rev positions) s)"

section \<open>The agent directory\<close>

record agent_dir =
  ad_manifest :: "manifest_doc slot"
  ad_pins :: "pin_record list slot"
  ad_context :: "context_store stored"
  ad_archive :: "context_store stored"
  ad_approvals :: "approval_store stored"
  ad_history :: history_log

definition write_manifest :: "copy_end \<Rightarrow> manifest_doc \<Rightarrow> agent_dir \<Rightarrow> agent_dir list" where
  "write_manifest c m d =
     map (\<lambda>sl. d\<lparr>ad_manifest := sl\<rparr>) (write_with_backup c m (ad_manifest d))"

definition write_pins :: "copy_end \<Rightarrow> pin_record list \<Rightarrow> agent_dir \<Rightarrow> agent_dir list" where
  "write_pins c ps d = map (\<lambda>sl. d\<lparr>ad_pins := sl\<rparr>) (write_with_backup c ps (ad_pins d))"

definition persist_context :: "(message \<Rightarrow> usize) \<Rightarrow> copy_end \<Rightarrow> copy_end
    \<Rightarrow> context_store \<Rightarrow> agent_dir \<Rightarrow> agent_dir list" where
  "persist_context est c1 c2 s d =
     (let ms = write_manifest c1 (to_manifest_doc s) d
      in ms @ write_pins c2 (to_pins_doc est s) (last ms))"

definition rename_legacy :: "agent_dir \<Rightarrow> agent_dir" where
  "rename_legacy d = d\<lparr>ad_archive := ad_context d, ad_context := Missing\<rparr>"

definition migrate_legacy_to_split :: "(message \<Rightarrow> usize) \<Rightarrow> copy_end
    \<Rightarrow> copy_end \<Rightarrow> context_store \<Rightarrow> agent_dir \<Rightarrow> agent_dir list" where
  "migrate_legacy_to_split est c1 c2 s d =
     (let ps = write_pins c1 (to_pins_doc est s) d;
          ms = write_manifest c2 (to_manifest_doc s) (last ps)
      in ps @ ms @ [rename_legacy (last ms)])"

section \<open>Loading the store\<close>

text \<open>The values the detail of a degradation is printed from.\<close>

datatype degradation =
    MissingHistoryTurns "nat list"
  | BadHistoryLines nat
  | UnansweredToolCalls nat "string list"
  | OrphanToolResults nat "string list"
  | TailRecovery nat nat nat nat nat
  | PinsLost

datatype restore_error = ContextUnreadable | ContextUnparsable | ApprovalsUnparsable | MigrationFailed
  | AppendFailed nat

definition pairing_damaged :: "message list \<Rightarrow> bool" where
  "pairing_damaged ms \<longleftrightarrow> unanswered_call_ids ms \<noteq> [] \<or> orphan_result_ids ms \<noteq> []"

definition load_pins :: "agent_dir \<Rightarrow> pin_record list \<times> degradation list" where
  "load_pins d =
     (case load_with_backup (ad_pins d) of Some (ps, _) \<Rightarrow> (ps, []) | None \<Rightarrow> ([], [PinsLost]))"

definition zero_usage :: cumulative_usage where
  "zero_usage = \<lparr>cu_prompt = 0, cu_completion = 0, cu_cache_read = 0, cu_cache_write = 0\<rparr>"

definition rebuild_window_from_tail :: "nat \<Rightarrow> agent_dir
    \<Rightarrow> context_store \<times> sidecar \<times> degradation list" where
  "rebuild_window_from_tail budget d =
     (let (pins, lost) = load_pins d;
          (turns, sc) = tail_turns_within_budget (ad_history d) budget;
          damaged = length (takeWhile (\<lambda>t. pairing_damaged (tu_messages t)) turns);
          dropped = map (id_num \<circ> tu_id) (take damaged turns);
          kept = drop damaged turns;
          next_id = max_turn_id (ad_history d) + 1
      in (from_persisted pins kept
            \<lparr>md_version = FORMAT_VERSION, md_turn_ids = map (id_num \<circ> tu_id) kept,
             md_usage = zero_usage, md_next_id = next_id, md_retry_log = []\<rparr>,
          fold AList.delete dropped sc,
          lost @ [TailRecovery (length kept) (length turns) budget damaged next_id]))"

text \<open>The result, what was degraded, and the directory with a leftover migration finished
  (\<open>rename_ok\<close>: the rename succeeds). The flag says that the migration is still to be written.\<close>

definition load_store :: "nat \<Rightarrow> bool \<Rightarrow> agent_dir
    \<Rightarrow> (restore_error + context_store \<times> bool \<times> sidecar) \<times> degradation list \<times> agent_dir" where
  "load_store budget rename_ok d =
     (if exists_doc (sl_primary (ad_manifest d)) \<or> exists_doc (sl_bak (ad_manifest d)) then
        (let d1 = (if exists_doc (ad_context d) \<and> rename_ok then rename_legacy d else d)
         in case load_with_backup (ad_manifest d1) of
              None \<Rightarrow>
                (let (s, sc, degraded) = rebuild_window_from_tail budget d1
                 in (Inr (s, False, sc), degraded, d1))
            | Some (m, _) \<Rightarrow>
                (let (pins, lost) = load_pins d1;
                     (convo, report) = hydrate_turns (ad_history d1) (md_turn_ids m)
                 in (Inr (from_persisted pins convo m, False, hy_sidecar report),
                     lost
                     @ (if 0 < hy_bad_lines report then [BadHistoryLines (hy_bad_lines report)] else [])
                     @ (if hy_missing report \<noteq> [] then [MissingHistoryTurns (hy_missing report)] else []),
                     d1)))
      else case ad_context d of
        Good s \<Rightarrow> (Inr (strip_restart_turns s, True, []), [], d)
      | Unreadable \<Rightarrow> (Inl ContextUnreadable, [], d)
      | Unparsable \<Rightarrow> (Inl ContextUnparsable, [], d)
      | Missing \<Rightarrow>
          if has_history (ad_history d) then
            (let (s, sc, degraded) = rebuild_window_from_tail budget d
             in (Inr (s, False, sc), degraded, d))
          else (Inr (store_new, False, []), [], d))"

section \<open>Restoring an agent\<close>

definition check_tool_pairing :: "context_store \<Rightarrow> degradation list" where
  "check_tool_pairing s =
     concat (map (\<lambda>t.
         (let unanswered = unanswered_call_ids (tu_messages t) in
            if unanswered \<noteq> [] then [UnansweredToolCalls (id_num (tu_id t)) (map fst unanswered)] else []) @
         (let orphan = orphan_result_ids (tu_messages t) in
            if orphan \<noteq> [] then [OrphanToolResults (id_num (tu_id t)) orphan] else []))
       (cs_turns s))"

record restore_params =
  rs_est :: "message \<Rightarrow> usize"
  rs_refs_of :: "message \<Rightarrow> pin_attachment list"
  rs_render :: "reply \<Rightarrow> string"
  rs_budget :: nat

text \<open>How the writes of one restore or repair go: the date, the rename of a leftover legacy document,
  where the migration stops (if it does), whether a turn's record and the notice's can be appended.\<close>

record disk_env =
  dk_today :: string
  dk_rename_ok :: bool
  dk_copy1 :: copy_end
  dk_copy2 :: copy_end
  dk_migration_stops :: "nat option"
  dk_append_ok :: "nat \<Rightarrow> bool"
  dk_notice_ok :: bool

record restored =
  rd_store :: context_store
  rd_approvals :: approval_store
  rd_degraded :: "degradation list"
  rd_sidecar :: sidecar

definition restart_record :: "usize \<Rightarrow> history_record" where
  "restart_record tokens =
     \<lparr>hi_turn_id = None, hi_messages = [user_message RESTART_MESSAGE], hi_tokens = tokens,
      hi_kind = SystemRecord, hi_event = Some AgentRestore, hi_attachments = [], hi_attempt = None\<rparr>"

text \<open>The folds over a loaded store, up to the deferred migration.\<close>

definition restore_folds :: "restore_params \<Rightarrow> context_store \<Rightarrow> degradation list \<times> context_store" where
  "restore_folds p s =
     (let s1 = enforce_summary_pin_role
            (migrate_legacy_summary (rs_est p) (rs_refs_of p) (migrate_legacy_pinned s))
      in (check_tool_pairing s1,
          mark_needs_full_estimate (reestimate_cached_tokens (rs_est p) s1)))"

definition add_restart_notice :: "restore_params \<Rightarrow> context_store \<Rightarrow> usize \<times> context_store" where
  "add_restart_notice p s =
     (let ((i, tokens), s1) = push_turn (rs_est p) [user_message RESTART_MESSAGE] (strip_restart_turns s)
      in (tokens, register_injected_turn i s1))"

definition restore_agent :: "restore_params \<Rightarrow> disk_env \<Rightarrow> agent_dir
    \<Rightarrow> (restore_error + restored) \<times> agent_dir" where
  "restore_agent p e d =
     (case load_store (rs_budget p) (dk_rename_ok e) d of
        (Inl err, _, d1) \<Rightarrow> (Inl err, d1)
      | (Inr (s, pending, sc), degraded, d1) \<Rightarrow>
          (case (case ad_approvals d1 of
                   Good a \<Rightarrow> Some a | Unparsable \<Rightarrow> None | _ \<Rightarrow> Some approval_new) of
             None \<Rightarrow> (Inl ApprovalsUnparsable, d1)
           | Some approvals \<Rightarrow>
               (let (pairing, s1) = restore_folds p s;
                    states = (if pending then migrate_legacy_to_split (rs_est p)
                        (dk_copy1 e) (dk_copy2 e) s1 d1 else [d1])
                in case (if pending then dk_migration_stops e else None) of
                     Some n \<Rightarrow> (Inl MigrationFailed, (d1 # butlast states) ! min n (length states - 1))
                   | None \<Rightarrow>
                       (let d2 = last states;
                            (tokens, s2) = add_restart_notice p s1;
                            d3 = (if dk_notice_ok e then d2\<lparr>ad_history :=
                                append_record (dk_today e) (restart_record tokens) (ad_history d2)\<rparr> else d2)
                        in (Inr \<lparr>rd_store = s2, rd_approvals = approvals,
                              rd_degraded = degraded @ pairing, rd_sidecar = sc\<rparr>, d3)))))"

section \<open>Repairing the pairing offline\<close>

record repair_action =
  ra_turn_id :: nat
  ra_unanswered :: "string list"
  ra_orphans :: "string list"

definition never_answered :: "string \<Rightarrow> reply" where
  "never_answered name =
     error_result name
       ''not executed: no result was ever recorded for this call (offline repair)''"

definition repaired_messages :: "(reply \<Rightarrow> string) \<Rightarrow> message list \<Rightarrow> message list" where
  "repaired_messages render ms =
     (let orphans = orphan_result_ids ms
      in filter (\<lambda>m. case ms_tool_call_id m of None \<Rightarrow> True | Some i \<Rightarrow> i \<notin> set orphans)
           (ms @ map (\<lambda>(i, name). tool_message (render (never_answered name)) i) (unanswered_call_ids ms)))"

definition repair_record :: "restore_params \<Rightarrow> turn \<Rightarrow> history_record" where
  "repair_record p t =
     (let ms = repaired_messages (rs_render p) (tu_messages t)
      in \<lparr>hi_turn_id = Some (id_num (tu_id t)), hi_messages = ms, hi_tokens = turn_tokens (rs_est p) ms,
          hi_kind = TurnRecord, hi_event = None, hi_attachments = [], hi_attempt = None\<rparr>)"

text \<open>The loop over the turns: the turn whose record could not be appended, if any, what was done
  and the history it leaves.\<close>

fun repair_turns :: "restore_params \<Rightarrow> disk_env \<Rightarrow> bool \<Rightarrow> turn list \<Rightarrow> repair_action list
    \<Rightarrow> history_log \<Rightarrow> nat option \<times> repair_action list \<times> history_log" where
  "repair_turns p e act [] actions log = (None, actions, log)"
| "repair_turns p e act (t # ts) actions log =
     (if is_pinned t \<or> \<not> pairing_damaged (tu_messages t)
      then repair_turns p e act ts actions log
      else
        (let actions' = actions @ [\<lparr>ra_turn_id = id_num (tu_id t),
               ra_unanswered = map fst (unanswered_call_ids (tu_messages t)),
               ra_orphans = orphan_result_ids (tu_messages t)\<rparr>]
         in if \<not> act then repair_turns p e act ts actions' log
            else if dk_append_ok e (id_num (tu_id t)) then
              repair_turns p e act ts actions' (append_record (dk_today e) (repair_record p t) log)
            else (Some (id_num (tu_id t)), actions', log)))"

definition repair_agent_context :: "restore_params \<Rightarrow> disk_env \<Rightarrow> bool \<Rightarrow> agent_dir
    \<Rightarrow> (restore_error + degradation list \<times> repair_action list) \<times> agent_dir" where
  "repair_agent_context p e act d =
     (case load_store (rs_budget p) (dk_rename_ok e) d of
        (Inl err, _, d1) \<Rightarrow> (Inl err, d1)
      | (Inr (s, _, _), degraded, d1) \<Rightarrow>
          (case repair_turns p e act (cs_turns s) [] (ad_history d1) of
             (failed, actions, log) \<Rightarrow>
               (case failed of None \<Rightarrow> Inr (degraded, actions) | Some i \<Rightarrow> Inl (AppendFailed i),
                d1\<lparr>ad_history := log\<rparr>)))"

end
