(* ===== verification/Restore_Props.thy ===== *)
theory Restore_Props
  imports Restore
begin

text \<open>
  What persisting, restoring and repairing an agent keep: a write that stops anywhere, the round
  trip of a persisted store, the restart notice, the window rebuilt from the tail of the history,
  and the offline repair.
\<close>

section \<open>Writes that stop half way\<close>

lemma last_write [simp]:
  "sl_primary (last (write_with_backup c d sl)) = Good d"
  by (simp add: write_with_backup_def atomic_write_def Let_def)

lemma load_written [simp]: "sl_primary sl = Good d \<Longrightarrow> load_with_backup sl = Some (d, False)"
  by (simp add: load_with_backup_def)

abbreviation loaded :: "'a slot \<Rightarrow> 'a option" where
  "loaded sl \<equiv> map_option fst (load_with_backup sl)"

text \<open>A write that stops anywhere leaves the old document or the new one, except when the backup is
  the only good copy and is overwritten with the bad primary first.\<close>

lemma write_keeps_a_document:
  "loaded ` set (write_with_backup c d sl) \<subseteq> {loaded sl, Some d} \<longleftrightarrow>
     \<not> (sl_primary sl \<in> {Unreadable, Unparsable} \<and> c \<noteq> NotCopied \<and> loaded sl \<noteq> None)"
  by (cases "sl_primary sl"; cases c; cases "sl_bak sl")
    (simp_all add: write_with_backup_def backup_states_def atomic_write_def load_with_backup_def)

lemma write_states [simp]: "write_with_backup c d sl \<noteq> []"
  by (simp add: write_with_backup_def atomic_write_def Let_def)

section \<open>Restart notices\<close>

lemma strip_upto:
  assumes "take n (cs_turns s') = take n ts" "n \<le> length (cs_turns s')" "n \<le> length ts"
  shows "cs_turns (fold (\<lambda>i s. case drain_turns i (Suc i) s of Some (_, s') \<Rightarrow> s' | None \<Rightarrow> s)
      (rev (filter (\<lambda>i. is_restart_turn (ts ! i)) [0..<n])) s') =
    filter (\<lambda>t. \<not> is_restart_turn t) (take n ts) @ drop n (cs_turns s')"
  using assms
proof (induction n arbitrary: s')
  case (Suc n)
  have take: "take n (cs_turns s') = take n ts"
    using Suc.prems(1) by (metis Suc_n_not_le_n nat_le_linear take_take min_absorb1)
  have nth: "ts ! n = cs_turns s' ! n" using Suc.prems by (metis lessI nth_take)
  have split: "take (Suc n) ts = take n ts @ [ts ! n]" "drop n (cs_turns s') = ts ! n # drop (Suc n) (cs_turns s')"
    using Suc.prems by (simp_all add: take_Suc_conv_app_nth nth Cons_nth_drop_Suc)
  show ?case
  proof (cases "is_restart_turn (ts ! n)")
    case False
    then show ?thesis using Suc.IH [OF take] Suc.prems split by simp
  next
    case True
    let ?s = "s'\<lparr>cs_turns := take n (cs_turns s') @ drop (Suc n) (cs_turns s'), cs_needs_full := True\<rparr>"
    have "drain_turns n (Suc n) s' = Some (take 1 (drop n (cs_turns s')), ?s)"
      using Suc.prems by (simp add: drain_turns_def)
    then show ?thesis using Suc.IH [of ?s] Suc.prems split True by (simp add: take)
  qed
qed simp

lemma strip_fields:
  "cs_next_id (fold (\<lambda>i s. case drain_turns i (Suc i) s of Some (_, s') \<Rightarrow> s' | None \<Rightarrow> s) is s) = cs_next_id s"
  by (induction "is" arbitrary: s) (simp_all add: drain_turns_def)

lemma strip_restart_turns_simps [simp]:
  "cs_turns (strip_restart_turns s) = filter (\<lambda>t. \<not> is_restart_turn t) (cs_turns s)"
  "cs_next_id (strip_restart_turns s) = cs_next_id s"
  using strip_upto [of "length (cs_turns s)" s "cs_turns s"]
  by (simp_all add: strip_restart_turns_def strip_fields)

section \<open>Reading back what was written\<close>

text \<open>The history holds the turn under its id.\<close>

definition recorded :: "history_log \<Rightarrow> turn \<Rightarrow> bool" where
  "recorded log t \<longleftrightarrow>
     (case newest_record log (id_num (tu_id t)) of
        None \<Rightarrow> False
      | Some rec \<Rightarrow> hi_messages rec = tu_messages t \<and> hi_tokens rec = tu_tokens t)"

abbreviation window_turns :: "context_store \<Rightarrow> turn list" where
  "window_turns s \<equiv>
     filter (\<lambda>t. \<not> is_pinned t \<and> id_num (tu_id t) \<notin> set (cs_injected s)) (cs_turns s)"

lemma recorded_turn_at:
  "recorded log t \<Longrightarrow> \<not> is_pinned t \<Longrightarrow> turn_at (newest_lines log) (id_num (tu_id t)) = t"
  by (cases t)
    (auto simp: recorded_def turn_at_def turn_of_record_def newest_record_def is_pinned_def
      split: option.splits turn_kind.splits)

lemma layout_facts:
  assumes "layout next ks"
  shows "\<forall>k \<in> set ks. id_num (fst k) < next"
    and "sorted_wrt (<) (map fst (filter (\<lambda>k. snd k = None) ks))"
proof -
  obtain P C where ks: "ks = P @ C" and P: "\<forall>k \<in> set P. snd k \<noteq> None" and C: "\<forall>k \<in> set C. snd k = None"
    and rest: "\<forall>k \<in> set (P @ C). id_num (fst k) < next" "sorted_wrt (<) (map fst C)"
    using assms by (rule layoutE)
  show "\<forall>k \<in> set ks. id_num (fst k) < next" using rest(1) ks by simp
  have "filter (\<lambda>k. snd k = None) P = []" using P by (simp add: filter_empty_conv)
  moreover have "filter (\<lambda>k. snd k = None) C = C" using C by (simp add: filter_id_conv)
  ultimately show "sorted_wrt (<) (map fst (filter (\<lambda>k. snd k = None) ks))"
    using rest(2) by (simp add: ks)
qed

lemma window_layout:
  assumes "store_ok s"
  shows "sorted_wrt (<) (map (id_num \<circ> tu_id) (window_turns s))"
    and "\<forall>t \<in> set (cs_turns s). id_num (tu_id t) < cs_next_id s"
    and "layout (cs_next_id s) (map turn_key (pinned_turns s @ window_turns s))"
proof -
  have layout: "layout (cs_next_id s) (map turn_key (cs_turns s))" using assms by (simp add: store_ok_def)
  have window: "window_turns s = filter (\<lambda>t. id_num (tu_id t) \<notin> set (cs_injected s)) (conversation s)"
    by (simp add: conversation_def conj_commute)
  have sub: "subseq (window_turns s) (conversation s)"
    unfolding window by (rule subseq_filter_left)
  then have "subseq (pinned_turns s @ window_turns s) (cs_turns s)"
    unfolding turns_split(1) [OF assms] by (intro list_emb_append_mono) simp_all
  then show "layout (cs_next_id s) (map turn_key (pinned_turns s @ window_turns s))"
    by (intro layout_subseq [OF layout] subseq_map)
  show "\<forall>t \<in> set (cs_turns s). id_num (tu_id t) < cs_next_id s"
    using layout_facts(1) [OF layout] by (simp add: turn_key_def)
  have "map fst (filter (\<lambda>k. snd k = None) (map turn_key (cs_turns s))) = map tu_id (conversation s)"
    by (simp add: filter_map comp_def turn_key_def conversation_def is_pinned_label)
  then have "sorted_wrt (<) (map tu_id (conversation s))" using layout_facts(2) [OF layout] by simp
  then have "sorted_wrt (<) (map (id_num \<circ> tu_id) (conversation s))"
    by (simp add: sorted_wrt_map less_turn_id_def)
  then show "sorted_wrt (<) (map (id_num \<circ> tu_id) (window_turns s))"
    by (rule sorted_wrt_subseq [OF subseq_map [OF sub]])
qed

lemma hydrate_window:
  assumes "store_ok s" "list_all (recorded log) (window_turns s)" "BadLine \<notin> set (newest_lines log)"
  shows "fst (hydrate_turns log (map (id_num \<circ> tu_id) (window_turns s))) = window_turns s"
    and "hy_missing (snd (hydrate_turns log (map (id_num \<circ> tu_id) (window_turns s)))) = []"
    and "hy_bad_lines (snd (hydrate_turns log (map (id_num \<circ> tu_id) (window_turns s)))) = 0"
proof -
  let ?ids = "map (id_num \<circ> tu_id) (window_turns s)"
  have sorted: "sorted_wrt (<) ?ids" by (rule window_layout(1) [OF assms(1)])
  then have d: "distinct ?ids" and srt: "sorted ?ids"
    by (simp_all only: strict_sorted_iff)
  have found: "newest_record log i \<noteq> None" if "i \<in> set ?ids" for i
    using that assms(2) by (auto simp: recorded_def list_all_iff split: option.splits)
  have at: "map (turn_at (newest_lines log)) ?ids = window_turns s"
    using assms(2) by (auto simp: list_all_iff recorded_turn_at intro!: map_idI)
  have "filter (\<lambda>i. newest_record log i \<noteq> None) ?ids = ?ids" "filter (\<lambda>i. newest_record log i = None) ?ids = []"
    using found by (simp_all only: filter_id_conv filter_empty_conv) blast+
  note filters = this
  show "fst (hydrate_turns log ?ids) = window_turns s"
    unfolding hydrate_turns_spec(1) [OF d] filters sorted_sort_id [OF srt] by (rule at)
  show "hy_missing (snd (hydrate_turns log ?ids)) = []"
    unfolding hydrate_turns_spec(2) [OF d] filters by simp
  show "hy_bad_lines (snd (hydrate_turns log ?ids)) = 0"
    by (rule hydrate_turns_spec(3) [OF d assms(3)])
qed

lemma from_persisted_fields:
  "cs_turns (from_persisted pins convo m) = map pin_of_record pins @ convo"
  "cs_usage (from_persisted pins convo m) = md_usage m"
  "cs_retry_log (from_persisted pins convo m) = md_retry_log m"
  "cs_needs_full (from_persisted pins convo m)" "cs_injected (from_persisted pins convo m) = []"
  "cs_next_id (from_persisted pins convo m) =
     max (md_next_id m)
       (if map pin_of_record pins @ convo = [] then 0
        else id_num (tu_id (last (map pin_of_record pins @ convo))) + 1)"
  by (simp_all add: from_persisted_def Let_def store_new_def)

text \<open>What persisting keeps of a pinned turn.\<close>

definition pin_image :: "(message \<Rightarrow> usize) \<Rightarrow> turn \<Rightarrow> turn" where
  "pin_image est t =
     (let m = pin_text_form (hd (tu_messages t)) in t\<lparr>tu_messages := [m], tu_tokens := est m\<rparr>)"

lemma pin_of_to_pins_doc:
  "map pin_of_record (to_pins_doc est s) = map (pin_image est) (pinned_turns s)"
  by (auto simp: to_pins_doc_def Let_def pin_of_record_def pin_turn_def pin_image_def pinned_turns_def
      is_pinned_def label_of_def pinned_attachments_def split: turn_kind.splits
      intro!: turn.equality)

text \<open>A store of pins and window turns that follows the layout of another one.\<close>

lemma reloaded_ok:
  fixes est s
  assumes "store_ok s"
  defines "s' \<equiv> from_persisted (to_pins_doc est s) (window_turns s) (to_manifest_doc s)"
  shows "cs_next_id s' = cs_next_id s" "store_ok s'"
proof -
  have turns: "cs_turns s' = map (pin_image est) (pinned_turns s) @ window_turns s"
    by (simp add: s'_def from_persisted_fields pin_of_to_pins_doc)
  have "id_num (tu_id t) < cs_next_id s" if "t \<in> set (cs_turns s')" for t
    using that window_layout(2) [OF assms(1)]
    by (auto simp: turns pin_image_def Let_def pinned_turns_def)
  then have "cs_turns s' \<noteq> [] \<Longrightarrow> id_num (tu_id (last (cs_turns s'))) < cs_next_id s" by simp
  then show next_id: "cs_next_id s' = cs_next_id s"
    unfolding s'_def from_persisted_fields by (auto simp: to_manifest_doc_def max_def)
  have keys: "map turn_key (cs_turns s') = map turn_key (pinned_turns s @ window_turns s)"
    by (simp add: turns turn_key_def pin_image_def Let_def label_of_def)
  have "length (tu_messages t) = 1" if "t \<in> set (cs_turns s')" "is_pinned t" for t
    using that by (auto simp: turns pin_image_def Let_def)
  then show "store_ok s'"
    using window_layout(3) [OF assms(1)] keys
    by (simp add: store_ok_def next_id) (simp add: s'_def from_persisted_fields)
qed

lemma after_persist:
  assumes "persist_context est c1 c2 s d = ds"
  shows "ds \<noteq> []" "sl_primary (ad_manifest (last ds)) = Good (to_manifest_doc s)"
    "sl_primary (ad_pins (last ds)) = Good (to_pins_doc est s)"
    "ad_history (last ds) = ad_history d"
  using assms [symmetric]
  by (simp_all add: persist_context_def Let_def write_manifest_def write_pins_def last_map)

text \<open>C26. A persisted store comes back. Persisting a well-formed store over any directory, whatever the
  backup copies did, and loading it again gives, when the history holds the turns of its window,
  the pins in their text form and order, the window turns unchanged, the usage, the retry log and the
  next id; nothing is reported as degraded, and the loaded store is well formed.\<close>

theorem persist_then_load:
  assumes "store_ok s" "list_all (recorded (ad_history d)) (window_turns s)"
    and "BadLine \<notin> set (newest_lines (ad_history d))"
  shows "case load_store budget rename_ok (last (persist_context est c1 c2 s d)) of
      (result, degraded, _) \<Rightarrow>
        degraded = [] \<and>
        (case result of
           Inl _ \<Rightarrow> False
         | Inr (s', pending, _) \<Rightarrow>
             \<not> pending \<and> store_ok s' \<and>
             cs_turns s' = map (pin_image est) (pinned_turns s) @ window_turns s \<and>
             cs_next_id s' = cs_next_id s \<and> cs_usage s' = cs_usage s \<and>
             cs_retry_log s' = cs_retry_log s)"
proof -
  obtain ds where ds: "persist_context est c1 c2 s d = ds" by simp
  note after = after_persist [OF ds]
  define d1 where "d1 = (if exists_doc (ad_context (last ds)) \<and> rename_ok then rename_legacy (last ds) else last ds)"
  have d1: "sl_primary (ad_manifest d1) = Good (to_manifest_doc s)"
    "sl_primary (ad_pins d1) = Good (to_pins_doc est s)" "ad_history d1 = ad_history d"
    using after by (simp_all add: d1_def rename_legacy_def)
  let ?h = "hydrate_turns (ad_history d) (map (id_num \<circ> tu_id) (window_turns s))"
  have ids: "md_turn_ids (to_manifest_doc s) = map (id_num \<circ> tu_id) (window_turns s)"
    by (simp add: to_manifest_doc_def)
  have "exists_doc (sl_primary (ad_manifest (last ds)))" using after by simp
  then have "load_store budget rename_ok (last ds) =
      (Inr (from_persisted (to_pins_doc est s) (fst ?h) (to_manifest_doc s), False,
         hy_sidecar (snd ?h)),
       (if 0 < hy_bad_lines (snd ?h) then [BadHistoryLines (hy_bad_lines (snd ?h))] else [])
       @ (if hy_missing (snd ?h) \<noteq> [] then [MissingHistoryTurns (hy_missing (snd ?h))] else []), d1)"
    by (simp add: load_store_def d1_def [symmetric] d1 load_pins_def ids case_prod_beta)
  then show ?thesis
    using hydrate_window [OF assms] reloaded_ok [OF assms(1), of est]
    by (simp add: ds from_persisted_fields pin_of_to_pins_doc) (simp add: to_manifest_doc_def)
qed

definition sample_store :: context_store where
  "sample_store = snd (push_turn (\<lambda>_. 3) [user_message ''hello''] store_new)"

definition sample_record :: history_record where
  "sample_record =
     \<lparr>hi_turn_id = Some 0, hi_messages = [user_message ''hello''], hi_tokens = 3,
      hi_kind = TurnRecord, hi_event = None, hi_attachments = [], hi_attempt = None\<rparr>"

definition empty_slot :: "'a slot" where
  "empty_slot = \<lparr>sl_primary = Missing, sl_bak = Missing, sl_temp = Missing\<rparr>"

definition sample_dir :: agent_dir where
  "sample_dir =
     \<lparr>ad_manifest = empty_slot, ad_pins = empty_slot, ad_context = Missing, ad_archive = Missing,
      ad_approvals = Missing, ad_history = append_record ''2026-01-01'' sample_record []\<rparr>"

lemmas sample_defs = sample_store_def sample_dir_def sample_record_def empty_slot_def store_new_def
  push_turn_def append_record_def newest_lines_def

lemma persist_then_load_witness:
  "case load_store 1000 True (last (persist_context (\<lambda>_. 3) Copied Copied sample_store sample_dir)) of
     (result, degraded, _) \<Rightarrow>
       degraded = [] \<and>
       (case result of
          Inl _ \<Rightarrow> False
        | Inr (s', pending, _) \<Rightarrow>
            \<not> pending \<and> store_ok s' \<and>
            cs_turns s' = map (pin_image (\<lambda>_. 3)) (pinned_turns sample_store) @ window_turns sample_store \<and>
            cs_next_id s' = cs_next_id sample_store \<and> cs_usage s' = cs_usage sample_store \<and>
            cs_retry_log s' = cs_retry_log sample_store)"
proof (rule persist_then_load)
  show "store_ok sample_store" unfolding sample_store_def by (intro store_ok_push store_ok_new)
  show "list_all (recorded (ad_history sample_dir)) (window_turns sample_store)"
    by (simp add: sample_defs recorded_def newest_record_def turn_tokens_def Let_def is_pinned_def)
  show "BadLine \<notin> set (newest_lines (ad_history sample_dir))"
    by (simp add: sample_defs)
qed

section \<open>Crashes and errors in a persist\<close>

lemma persist_documents:
  assumes "d' \<in> set (persist_context est c1 c2 s d)"
  obtains (manifest) m where "m \<in> set (write_with_backup c1 (to_manifest_doc s) (ad_manifest d))"
      "d' = d\<lparr>ad_manifest := m\<rparr>"
  | (pins) m ps where "sl_primary m = Good (to_manifest_doc s)"
      "ps \<in> set (write_with_backup c2 (to_pins_doc est s) (ad_pins d))"
      "d' = d\<lparr>ad_manifest := m, ad_pins := ps\<rparr>"
proof -
  let ?m = "last (write_with_backup c1 (to_manifest_doc s) (ad_manifest d))"
  have "last (write_manifest c1 (to_manifest_doc s) d) = d\<lparr>ad_manifest := ?m\<rparr>"
    by (simp add: write_manifest_def last_map)
  then show ?thesis
    using assms manifest pins [of ?m] last_write
    by (auto simp: persist_context_def Let_def write_manifest_def write_pins_def)
qed

text \<open>C27. A persist that a crash or an error stops anywhere loses no document. When both documents are
  readable before it, every state on the way loads the old or the new manifest and the old or the new
  pins, and never the new pins with the old manifest, so no pin can carry an id the manifest
  would hand out again; the history and the approvals are not touched. (A document is lost exactly
  when its backup is the only good copy and the bad primary is copied over it.)\<close>

theorem persist_crash_consistent:
  assumes "sl_primary (ad_manifest d) = Good m" "sl_primary (ad_pins d) = Good ps"
  shows "(\<lambda>d'. (loaded (ad_manifest d'), loaded (ad_pins d'), ad_history d', ad_approvals d')) `
      set (persist_context est c1 c2 s d) \<subseteq>
    {(Some m, Some ps, ad_history d, ad_approvals d),
     (Some (to_manifest_doc s), Some ps, ad_history d, ad_approvals d),
     (Some (to_manifest_doc s), Some (to_pins_doc est s), ad_history d, ad_approvals d)}"
proof (rule image_subsetI)
  have m: "loaded ` set (write_with_backup c1 (to_manifest_doc s) (ad_manifest d)) \<subseteq>
      {Some m, Some (to_manifest_doc s)}"
    using assms(1) write_keeps_a_document [of c1 "to_manifest_doc s" "ad_manifest d"] by simp
  have p: "loaded ` set (write_with_backup c2 (to_pins_doc est s) (ad_pins d)) \<subseteq>
      {Some ps, Some (to_pins_doc est s)}"
    using assms(2) write_keeps_a_document [of c2 "to_pins_doc est s" "ad_pins d"] by simp
  fix d' assume "d' \<in> set (persist_context est c1 c2 s d)"
  then show "(loaded (ad_manifest d'), loaded (ad_pins d'), ad_history d', ad_approvals d') \<in>
    {(Some m, Some ps, ad_history d, ad_approvals d),
     (Some (to_manifest_doc s), Some ps, ad_history d, ad_approvals d),
     (Some (to_manifest_doc s), Some (to_pins_doc est s), ad_history d, ad_approvals d)}"
  proof (cases rule: persist_documents)
    case (manifest sl)
    then have "loaded sl \<in> {Some m, Some (to_manifest_doc s)}" using m by blast
    then show ?thesis using manifest(2) assms(2) by auto
  next
    case (pins sl sp)
    then have "loaded sp \<in> {Some ps, Some (to_pins_doc est s)}" using p by blast
    then show ?thesis using pins(1,3) by auto
  qed
qed

lemma persist_crash_consistent_witness:
  "(\<lambda>d'. (loaded (ad_manifest d'), loaded (ad_pins d'), ad_history d', ad_approvals d')) `
      set (persist_context (\<lambda>_. 3) TornCopy Copied sample_store
        (last (persist_context (\<lambda>_. 3) Copied Copied store_new sample_dir))) \<subseteq>
    {(Some (to_manifest_doc store_new), Some [], ad_history sample_dir, Missing),
     (Some (to_manifest_doc sample_store), Some [], ad_history sample_dir, Missing),
     (Some (to_manifest_doc sample_store), Some (to_pins_doc (\<lambda>_. 3) sample_store),
      ad_history sample_dir, Missing)}"
proof -
  let ?d = "last (persist_context (\<lambda>_. 3) Copied Copied store_new sample_dir)"
  have "sl_primary (ad_manifest ?d) = Good (to_manifest_doc store_new)" "sl_primary (ad_pins ?d) = Good []"
    "ad_history ?d = ad_history sample_dir" "ad_approvals ?d = Missing"
    by (simp_all add: persist_context_def write_manifest_def write_pins_def last_map Let_def sample_dir_def
        to_pins_doc_def store_new_def pinned_turns_def)
  then show ?thesis
    using persist_crash_consistent [where d = ?d and m = "to_manifest_doc store_new" and ps = "[]"
        and est = "\<lambda>_. 3" and s = sample_store and ?c1.0 = TornCopy and ?c2.0 = Copied]
    by simp
qed

section \<open>The restart notice\<close>

lemma restored_store:
  assumes "restore_agent p e d = (Inr r, d')"
  obtains s where "rd_store r = snd (add_restart_notice p s)"
  using assms
  by (auto simp: restore_agent_def Let_def split: prod.splits sum.splits option.splits if_splits)
    (metis snd_conv)+

text \<open>Every restore leaves exactly one restart notice, as the last turn, with an id of its own, and
  keeps it out of the manifest, so that the next persist does not carry it over. This holds for
  whatever the directory holds, notices of earlier restores included.\<close>

theorem one_restart_notice:
  "case fst (restore_agent p e d) of
     Inl _ \<Rightarrow> True
   | Inr r \<Rightarrow>
       (let turns = cs_turns (rd_store r); notice = last turns
        in turns \<noteq> [] \<and> tu_messages notice = [user_message RESTART_MESSAGE] \<and>
           filter is_restart_turn turns = [notice] \<and>
           id_num (tu_id notice) + 1 = cs_next_id (rd_store r) \<and>
           id_num (tu_id notice) \<notin> set (md_turn_ids (to_manifest_doc (rd_store r))))"
proof (cases "fst (restore_agent p e d)")
  case (Inr r)
  then have "restore_agent p e d = (Inr r, snd (restore_agent p e d))" by (simp add: prod_eq_iff)
  then obtain s where r: "rd_store r = snd (add_restart_notice p s)" by (rule restored_store)
  have "is_restart_turn \<lparr>tu_id = i, tu_messages = [user_message RESTART_MESSAGE], tu_tokens = n,
      tu_kind = Conversation\<rparr>" for i n
    by (simp add: is_restart_turn_def is_pinned_def user_message_def)
  then show ?thesis
    by (auto simp: Inr r add_restart_notice_def Let_def push_turn_def register_injected_turn_def
        to_manifest_doc_def case_prod_beta)
qed simp

section \<open>The offline repair\<close>

lemma map_filter_ids: "List.map_filter ms_tool_call_id (filter Q ms) =
    filter (\<lambda>i. i \<notin> set orphans) (List.map_filter ms_tool_call_id ms)"
  if "Q = (\<lambda>m. case ms_tool_call_id m of None \<Rightarrow> True | Some i \<Rightarrow> i \<notin> set orphans)"
  unfolding that by (induction ms) (auto simp: map_filter_simps split: option.split)

text \<open>A message that answers a call declares none.\<close>

definition proper_results :: "message list \<Rightarrow> bool" where
  "proper_results ms \<longleftrightarrow> list_all (\<lambda>m. ms_tool_call_id m = None \<or> ms_calls m = []) ms"

lemma repaired_clean:
  assumes "proper_results ms"
  shows "\<not> pairing_damaged (repaired_messages render ms)"
proof -
  let ?un = "unanswered_call_ids ms" and ?orphans = "orphan_result_ids ms"
  let ?more = "map (\<lambda>(i, name). tool_message (render (never_answered name)) i) ?un"
  have calls: "concat (map ms_calls (repaired_messages render ms)) = concat (map ms_calls ms)"
  proof -
    have "concat (map ms_calls (filter (\<lambda>m. case ms_tool_call_id m of None \<Rightarrow> True | Some i \<Rightarrow> i \<notin> set os) xs))
        = concat (map ms_calls xs)" if "proper_results xs" for xs os
      using that by (induction xs) (auto simp: proper_results_def split: option.splits)
    moreover have "proper_results (ms @ ?more)"
      using assms by (auto simp: proper_results_def list_all_iff tool_message_def)
    moreover have "concat (map ms_calls ?more) = []" by (auto simp: concat_eq_Nil_conv tool_message_def)
    ultimately show ?thesis by (simp add: repaired_messages_def Let_def del: filter_append)
  qed
  have "List.map_filter ms_tool_call_id
      (map (\<lambda>(i, name). tool_message (render (never_answered name)) i) xs) = map fst xs" for xs
    by (induction xs) (auto simp: map_filter_simps tool_message_def)
  then have answered: "List.map_filter ms_tool_call_id (repaired_messages render ms) =
      filter (\<lambda>i. i \<notin> set ?orphans) (List.map_filter ms_tool_call_id ms @ map fst ?un)"
    by (simp add: repaired_messages_def Let_def map_filter_ids map_filter_append del: filter_append)
  let ?D = "set (concat (map ms_calls ms))" and ?A = "set (List.map_filter ms_tool_call_id ms)"
  have un: "fst ` set ?un = tc_id ` ?D - ?A" by (force simp: unanswered_call_ids_def Let_def)
  have orphans: "set ?orphans = ?A - tc_id ` ?D" by (auto simp: orphan_result_ids_def Let_def)
  have "unanswered_call_ids (repaired_messages render ms) = []"
    unfolding unanswered_call_ids_def [of "repaired_messages render ms"] calls answered Let_def
    using un orphans by (auto simp: filter_empty_conv)
  moreover have "orphan_result_ids (repaired_messages render ms) = []"
    unfolding orphan_result_ids_def [of "repaired_messages render ms"] calls answered Let_def
    using un orphans by (auto simp: filter_empty_conv)
  ultimately show ?thesis by (simp add: pairing_damaged_def)
qed

lemma newest_in_append:
  "newest_in (xs @ ys) i = (case newest_in xs i of None \<Rightarrow> newest_in ys i | Some rec \<Rightarrow> Some rec)"
proof (induction xs)
  case (Cons l xs)
  then show ?case by (cases l) auto
qed simp

lemma newest_in_records:
  "(\<exists>t \<in> set ts. id_num (tu_id t) = i \<and> newest_in (map (Rec \<circ> repair_record p) ts) i = Some (repair_record p t))
   \<or> (\<forall>t \<in> set ts. id_num (tu_id t) \<noteq> i) \<and> newest_in (map (Rec \<circ> repair_record p) ts) i = None"
  by (induction ts) (auto simp: repair_record_def Let_def)

definition damaged_turns :: "turn list \<Rightarrow> turn list" where
  "damaged_turns ts = filter (\<lambda>t. \<not> is_pinned t \<and> pairing_damaged (tu_messages t)) ts"

lemma repair_turns_clean:
  "damaged_turns ts = [] \<Longrightarrow> repair_turns p e act ts actions log = (None, actions, log)"
  by (induction ts) (auto simp: damaged_turns_def split: if_split_asm)

lemma repair_turns_history:
  assumes "appendable (dk_today e) log" "repair_turns p e True ts actions log = (None, actions', log')"
  shows "newest_lines log' = rev (map (Rec \<circ> repair_record p) (damaged_turns ts)) @ newest_lines log \<and>
    length actions' = length actions + length (damaged_turns ts)"
  using assms
proof (induction ts arbitrary: actions log)
  case (Cons t ts)
  show ?case
  proof (cases "is_pinned t \<or> \<not> pairing_damaged (tu_messages t)")
    case True
    with Cons show ?thesis by (auto simp: damaged_turns_def)
  next
    case False
    then have dam: "damaged_turns (t # ts) = t # damaged_turns ts" by (simp add: damaged_turns_def)
    obtain a where a: "repair_turns p e True ts (actions @ [a])
        (append_record (dk_today e) (repair_record p t) log) = (None, actions', log')"
      using Cons.prems(2) False by (auto simp: Let_def split: if_splits)
    then show ?thesis
      using Cons.IH [OF _ a] appendable_append [OF Cons.prems(1)]
        newest_lines_append [OF Cons.prems(1)]
      by (simp add: dam append_record_def)
  qed
qed (simp add: damaged_turns_def)

text \<open>Loading from a readable manifest.\<close>

lemma load_store_manifest:
  fixes rename_ok :: bool
  assumes "load_with_backup (ad_manifest d) = Some (m, b)"
  defines "d1 \<equiv> if exists_doc (ad_context d) \<and> rename_ok then rename_legacy d else d"
  shows "\<exists>sc degraded. load_store budget rename_ok d =
      (Inr (from_persisted (fst (load_pins d)) (fst (hydrate_turns (ad_history d) (md_turn_ids m))) m, False, sc),
       degraded, d1)"
proof -
  have same: "ad_manifest d1 = ad_manifest d" "ad_pins d1 = ad_pins d" "ad_history d1 = ad_history d"
    by (simp_all add: d1_def rename_legacy_def)
  have "exists_doc (sl_primary (ad_manifest d)) \<or> exists_doc (sl_bak (ad_manifest d))"
    using assms(1) by (auto simp: load_with_backup_def split: stored.splits)
  then show ?thesis
    using assms(1) by (simp add: load_store_def Let_def d1_def [symmetric] same load_pins_def case_prod_beta)
qed

lemma damaged_from_persisted:
  "damaged_turns (cs_turns (from_persisted pins convo m)) = damaged_turns convo"
  by (auto simp: from_persisted_fields damaged_turns_def filter_empty_conv pin_of_record_def pin_turn_def is_pinned_def)

lemma hydrated_turns:
  "fst (hydrate_turns log ids) =
     map (turn_at (newest_lines log)) (sort (filter (\<lambda>i. newest_record log i \<noteq> None) (remdups ids)))"
  using hydrate_turns_spec(1) [of "remdups ids" log]
  by (simp add: hydrate_turns_def distinct_remdups_id)

text \<open>Once every damaged turn has been rewritten, none is left among those the ids name.\<close>

lemma nothing_left:
  assumes "newest_lines log' =
      rev (map (Rec \<circ> repair_record p) (damaged_turns (fst (hydrate_turns log ids)))) @ newest_lines log"
    and "list_all (\<lambda>t. proper_results (tu_messages t)) (fst (hydrate_turns log ids))"
  shows "damaged_turns (fst (hydrate_turns log' ids)) = []"
proof -
  let ?W = "fst (hydrate_turns log ids)" and ?D = "damaged_turns (fst (hydrate_turns log ids))"
  have "\<not> pairing_damaged (tu_messages (turn_at (newest_lines log') i))"
    if i: "i \<in> set ids" "newest_record log' i \<noteq> None" for i
  proof (cases "newest_in (map (Rec \<circ> repair_record p) (rev ?D)) i")
    case (Some rec)
    then obtain t where t: "t \<in> set ?D" "rec = repair_record p t"
      using newest_in_records [where ts = "rev ?D" and i = i and p = p] by auto
    then have "proper_results (tu_messages t)"
      using assms(2) by (auto simp: damaged_turns_def list_all_iff)
    moreover have "newest_in (newest_lines log') i = Some (repair_record p t)"
      using Some t(2) by (simp add: assms(1) newest_in_append rev_map)
    ultimately show ?thesis
      using repaired_clean by (simp add: turn_at_def turn_of_record_def repair_record_def Let_def)
  next
    case None
    then have absent: "\<forall>t \<in> set ?D. id_num (tu_id t) \<noteq> i"
      using newest_in_records [where ts = "rev ?D" and i = i and p = p] by auto
    have same: "newest_in (newest_lines log') i = newest_in (newest_lines log) i"
      using None by (simp add: assms(1) newest_in_append rev_map)
    then have "turn_at (newest_lines log) i \<in> set ?W"
      using i by (auto simp: hydrated_turns newest_record_def)
    moreover have "id_num (tu_id (turn_at (newest_lines log) i)) = i" "\<not> is_pinned (turn_at (newest_lines log) i)"
      by (simp_all add: turn_at_def turn_of_record_def is_pinned_def)
    ultimately have "\<not> pairing_damaged (tu_messages (turn_at (newest_lines log) i))"
      using absent by (auto simp: damaged_turns_def)
    then show ?thesis by (simp add: turn_at_def same)
  qed
  then show ?thesis
    by (auto simp: damaged_turns_def filter_empty_conv hydrated_turns)
qed

text \<open>The offline repair appends and is done. When the manifest (or its backup) is readable, a repair
  that succeeds rewrites nothing in the history but appends one record per turn it reports, and a
  second repair of what it left reports nothing and appends nothing.\<close>

theorem repair_appends_once:
  assumes "repair_agent_context p e True d = (Inr (degraded, actions), d')"
    and "load_with_backup (ad_manifest d) = Some (m, from_backup)"
    and "appendable (dk_today e) (ad_history d)"
    and "list_all (\<lambda>t. proper_results (tu_messages t)) (fst (hydrate_turns (ad_history d) (md_turn_ids m)))"
  shows "\<exists>records degraded'.
      newest_lines (ad_history d') = map Rec records @ newest_lines (ad_history d) \<and>
      length records = length actions \<and>
      repair_agent_context p e True d' = (Inr (degraded', []), d')"
proof -
  define d1 where "d1 = (if exists_doc (ad_context d) \<and> dk_rename_ok e then rename_legacy d else d)"
  let ?convo = "fst (hydrate_turns (ad_history d) (md_turn_ids m))"
  let ?s = "from_persisted (fst (load_pins d)) ?convo m"
  obtain sc where load: "load_store (rs_budget p) (dk_rename_ok e) d = (Inr (?s, False, sc), degraded, d1)"
    and repair: "repair_turns p e True (cs_turns ?s) [] (ad_history d1) = (None, actions, ad_history d')"
    and d': "d' = d1\<lparr>ad_history := ad_history d'\<rparr>"
    using assms(1) load_store_manifest [OF assms(2), of "rs_budget p" "dk_rename_ok e"]
    unfolding d1_def [symmetric]
    by (auto simp: repair_agent_context_def split: prod.splits option.splits)
  have same: "ad_manifest d1 = ad_manifest d" "ad_pins d1 = ad_pins d" "ad_history d1 = ad_history d"
    by (simp_all add: d1_def rename_legacy_def)
  note history = repair_turns_history [OF _ repair, unfolded same damaged_from_persisted, OF assms(3)]
  have clean: "damaged_turns (fst (hydrate_turns (ad_history d') (md_turn_ids m))) = []"
    by (rule nothing_left [OF conjunct1 [OF history] assms(4)])
  have manifest: "load_with_backup (ad_manifest d') = Some (m, from_backup)"
    using d' same assms(2) by (metis agent_dir.select_convs(1) agent_dir.surjective agent_dir.update_convs(6))
  have "(if exists_doc (ad_context d') \<and> dk_rename_ok e then rename_legacy d' else d') = d'"
    by (subst (1 2) d') (simp add: d1_def rename_legacy_def)
  then obtain sc' degraded' where
    "load_store (rs_budget p) (dk_rename_ok e) d' = (Inr (from_persisted (fst (load_pins d'))
       (fst (hydrate_turns (ad_history d') (md_turn_ids m))) m, False, sc'), degraded', d')"
    using load_store_manifest [OF manifest, of "rs_budget p" "dk_rename_ok e"] by auto
  then have "repair_agent_context p e True d' = (Inr (degraded', []), d')"
    by (simp add: repair_agent_context_def repair_turns_clean damaged_from_persisted clean)
  moreover have "newest_lines (ad_history d') =
      map Rec (rev (map (repair_record p) (damaged_turns ?convo))) @ newest_lines (ad_history d)"
    using history by (simp add: rev_map)
  ultimately show ?thesis using history
    by (intro exI [of _ "rev (map (repair_record p) (damaged_turns ?convo))"] exI [of _ degraded']) simp
qed

definition dangling_turn :: "message list" where
  "dangling_turn =
     [assistant_message None [\<lparr>tc_id = ''c1'', tc_name = ''read'', tc_arguments = []\<rparr>] [],
      tool_message ''ghost'' ''c9'']"

definition turn_record :: "nat \<Rightarrow> message list \<Rightarrow> attachment_ref list \<Rightarrow> history_record" where
  "turn_record i ms refs =
     \<lparr>hi_turn_id = Some i, hi_messages = ms, hi_tokens = 3, hi_kind = TurnRecord, hi_event = None,
      hi_attachments = refs, hi_attempt = None\<rparr>"

definition picture :: attachment_ref where
  "picture = \<lparr>ar_modality = ''image'', ar_record_id = None, ar_media_type = ''image/png'',
     ar_blob_id = ''sha256-0'', ar_caption = None\<rparr>"

definition manifest_of :: "nat list \<Rightarrow> nat \<Rightarrow> manifest_doc" where
  "manifest_of is next =
     \<lparr>md_version = FORMAT_VERSION, md_turn_ids = is, md_usage = zero_usage, md_next_id = next,
      md_retry_log = []\<rparr>"

definition good_slot :: "'a \<Rightarrow> 'a slot" where
  "good_slot x = \<lparr>sl_primary = Good x, sl_bak = Missing, sl_temp = Missing\<rparr>"

definition damaged_dir :: agent_dir where
  "damaged_dir =
     \<lparr>ad_manifest = good_slot (manifest_of [3, 4] 5), ad_pins = good_slot [], ad_context = Missing,
      ad_archive = Missing, ad_approvals = Missing,
      ad_history = [(''2026-01-01'',
        Some [Rec (turn_record 3 dangling_turn [picture]), Rec (turn_record 4 [user_message ''next''] [])])]\<rparr>"

definition sample_params :: restore_params where
  "sample_params =
     \<lparr>rs_est = (\<lambda>_. 3), rs_refs_of = (\<lambda>_. []), rs_render = (\<lambda>_. ''error''), rs_budget = 1000\<rparr>"

definition sample_disk :: disk_env where
  "sample_disk =
     \<lparr>dk_today = ''2026-01-02'', dk_rename_ok = True, dk_copy1 = Copied, dk_copy2 = Copied,
      dk_migration_stops = None, dk_append_ok = (\<lambda>_. True), dk_notice_ok = True\<rparr>"

text \<open>The steps of the sample runs that evaluate.\<close>

definition damaged_actions :: "repair_action list" where
  "damaged_actions = [\<lparr>ra_turn_id = 3, ra_unanswered = [''c1''], ra_orphans = [''c9'']\<rparr>]"

definition repaired_turn_messages :: "message list" where
  "repaired_turn_messages =
     [assistant_message None [\<lparr>tc_id = ''c1'', tc_name = ''read'', tc_arguments = []\<rparr>] [],
      tool_message ''error'' ''c1'']"

definition repaired_history :: history_log where
  "repaired_history =
     [(''2026-01-01'',
        Some [Rec (turn_record 3 dangling_turn [picture]), Rec (turn_record 4 [user_message ''next''] [])]),
      (''2026-01-02'', Some [Rec ((turn_record 3 repaired_turn_messages [])\<lparr>hi_tokens := 6\<rparr>)])]"

definition sample_turn :: "nat \<Rightarrow> message list \<Rightarrow> turn" where
  "sample_turn i ms = \<lparr>tu_id = TurnId i, tu_messages = ms, tu_tokens = 3, tu_kind = Conversation\<rparr>"

lemma sample_hydration:
  "hydrate_turns (ad_history damaged_dir) [3, 4] =
     ([sample_turn 3 dangling_turn, sample_turn 4 [user_message ''next'']],
      \<lparr>hy_bad_lines = 0, hy_missing = [], hy_sidecar = [(3, [picture])]\<rparr>)"
  "hydrate_turns repaired_history [3, 4] =
     ([(sample_turn 3 repaired_turn_messages)\<lparr>tu_tokens := 6\<rparr>, sample_turn 4 [user_message ''next'']],
      \<lparr>hy_bad_lines = 0, hy_missing = [], hy_sidecar = []\<rparr>)"
  by code_simp+

lemma sample_repair_turns:
  "repair_turns sample_params sample_disk True
       [sample_turn 3 dangling_turn, sample_turn 4 [user_message ''next'']] [] (ad_history damaged_dir) =
     (None, damaged_actions, repaired_history)"
  by code_simp

lemma sample_fields:
  "ad_manifest damaged_dir = good_slot (manifest_of [3, 4] 5)" "ad_pins damaged_dir = good_slot []"
  "ad_context damaged_dir = Missing" "dk_rename_ok sample_disk" "dk_today sample_disk = ''2026-01-02''"
  "load_with_backup (good_slot x) = Some (x, False)" "sl_primary (good_slot x) = Good x"
  "md_turn_ids (manifest_of is n) = is"
  by (simp_all add: damaged_dir_def sample_disk_def good_slot_def manifest_of_def)

lemma sample_repair:
  "repair_agent_context sample_params sample_disk True damaged_dir =
     (Inr ([], damaged_actions), damaged_dir\<lparr>ad_history := repaired_history\<rparr>)"
  by (simp add: repair_agent_context_def load_store_def load_pins_def from_persisted_fields
      sample_fields sample_hydration sample_repair_turns del: repair_turns.simps)

lemma repair_appends_once_witness:
  "\<exists>records degraded.
      newest_lines repaired_history = map Rec records @ newest_lines (ad_history damaged_dir) \<and>
      length records = length damaged_actions \<and>
      repair_agent_context sample_params sample_disk True (damaged_dir\<lparr>ad_history := repaired_history\<rparr>) =
        (Inr (degraded, []), damaged_dir\<lparr>ad_history := repaired_history\<rparr>)"
proof -
  have "appendable (dk_today sample_disk) (ad_history damaged_dir)"
    "list_all (\<lambda>t. proper_results (tu_messages t)) (fst (hydrate_turns (ad_history damaged_dir) [3, 4]))"
    by code_simp+
  then show ?thesis
    using repair_appends_once [OF sample_repair, of "manifest_of [3, 4] 5" False]
    by (simp add: sample_fields)
qed

lemma sample_tail:
  "tail_turns_within_budget repaired_history 1000 =
     ([sample_turn 4 [user_message ''next''], (sample_turn 3 repaired_turn_messages)\<lparr>tu_tokens := 6\<rparr>], [])"
  "max_turn_id repaired_history = 3"
  "\<not> pairing_damaged [user_message ''next'']"
  by code_simp+

definition legacy_dir :: agent_dir where
  "legacy_dir =
     damaged_dir\<lparr>ad_manifest := empty_slot, ad_context := Good (store_new\<lparr>cs_turns :=
       [sample_turn 3 dangling_turn, sample_turn 4 [user_message ''next'']]\<rparr>)\<rparr>"

lemma legacy_load:
  "load_store budget ok (legacy_dir\<lparr>ad_history := log\<rparr>) =
     (Inr (strip_restart_turns (store_new\<lparr>cs_turns :=
        [sample_turn 3 dangling_turn, sample_turn 4 [user_message ''next'']]\<rparr>), True, []), [],
      legacy_dir\<lparr>ad_history := log\<rparr>)"
  by (simp add: load_store_def legacy_dir_def empty_slot_def)

lemma legacy_turns:
  "filter (\<lambda>t. \<not> is_restart_turn t) [sample_turn 3 dangling_turn, sample_turn 4 [user_message ''next'']] =
     [sample_turn 3 dangling_turn, sample_turn 4 [user_message ''next'']]"
  by code_simp

lemma sample_repair_again:
  "repair_turns sample_params sample_disk True
       [sample_turn 3 dangling_turn, sample_turn 4 [user_message ''next'']] [] repaired_history =
     (None, damaged_actions, append_record ''2026-01-02''
       ((turn_record 3 repaired_turn_messages [])\<lparr>hi_tokens := 6\<rparr>) repaired_history)"
  by code_simp

lemma legacy_repair:
  "repair_agent_context sample_params sample_disk True (legacy_dir\<lparr>ad_history := ad_history damaged_dir\<rparr>) =
     (Inr ([], damaged_actions), legacy_dir\<lparr>ad_history := repaired_history\<rparr>)"
  "fst (repair_agent_context sample_params sample_disk True (legacy_dir\<lparr>ad_history := repaired_history\<rparr>)) =
     Inr ([], damaged_actions)"
  by (simp_all add: repair_agent_context_def legacy_load sample_repair_turns sample_repair_again
      legacy_turns del: repair_turns.simps filter.simps)

text \<open>C28. Five shapes of damage the writes above do not survive. A backup that is the only good copy is
  overwritten by the bad primary before the new document is in place, so a crash in between loses both.
  After an offline repair the newest record is not the one with the highest id: a window then rebuilt
  from the tail hands out an id that a turn of the window already has. A repaired record carries no
  attachments, so the restored turn has lost its references. In a directory that still holds the legacy
  document a second repair finds the same damage and appends the same records. A dry run renames a
  leftover legacy document.\<close>

theorem restore_gaps:
  "None \<in> loaded ` set (write_with_backup Copied 8
      \<lparr>sl_primary = Unparsable, sl_bak = Good (7 :: nat), sl_temp = Missing\<rparr>) \<and>
   (let repaired = snd (repair_agent_context sample_params sample_disk True damaged_dir);
        (s, _, _) = rebuild_window_from_tail 1000 (repaired\<lparr>ad_manifest := empty_slot\<rparr>)
    in cs_next_id s = 4 \<and> map tu_id (cs_turns s) = [TurnId 4, TurnId 3]) \<and>
   (let repaired = snd (repair_agent_context sample_params sample_disk True damaged_dir)
    in hy_sidecar (snd (hydrate_turns (ad_history damaged_dir) [3, 4])) = [(3, [picture])] \<and>
       hy_sidecar (snd (hydrate_turns (ad_history repaired) [3, 4])) = []) \<and>
   (let repaired = snd (repair_agent_context sample_params sample_disk True
          (legacy_dir\<lparr>ad_history := ad_history damaged_dir\<rparr>))
    in fst (repair_agent_context sample_params sample_disk True repaired) = Inr ([], damaged_actions)) \<and>
   ad_context (snd (repair_agent_context sample_params sample_disk False
      (damaged_dir\<lparr>ad_context := Good store_new\<rparr>))) = Missing"
proof (intro conjI)
  show "None \<in> loaded ` set (write_with_backup Copied 8
      \<lparr>sl_primary = Unparsable, sl_bak = Good (7 :: nat), sl_temp = Missing\<rparr>)"
    by (simp add: write_with_backup_def backup_states_def atomic_write_def load_with_backup_def Let_def)
  show "let repaired = snd (repair_agent_context sample_params sample_disk True damaged_dir);
        (s, _, _) = rebuild_window_from_tail 1000 (repaired\<lparr>ad_manifest := empty_slot\<rparr>)
    in cs_next_id s = 4 \<and> map tu_id (cs_turns s) = [TurnId 4, TurnId 3]"
    by (simp add: sample_repair rebuild_window_from_tail_def sample_tail load_pins_def sample_fields
        from_persisted_fields sample_turn_def)
  show "let repaired = snd (repair_agent_context sample_params sample_disk True damaged_dir)
    in hy_sidecar (snd (hydrate_turns (ad_history damaged_dir) [3, 4])) = [(3, [picture])] \<and>
       hy_sidecar (snd (hydrate_turns (ad_history repaired) [3, 4])) = []"
    by (simp add: sample_repair sample_hydration)
  show "let repaired = snd (repair_agent_context sample_params sample_disk True
          (legacy_dir\<lparr>ad_history := ad_history damaged_dir\<rparr>))
    in fst (repair_agent_context sample_params sample_disk True repaired) = Inr ([], damaged_actions)"
    by (simp add: legacy_repair)
  show "ad_context (snd (repair_agent_context sample_params sample_disk False
      (damaged_dir\<lparr>ad_context := Good store_new\<rparr>))) = Missing"
    by (simp add: repair_agent_context_def load_store_def sample_fields rename_legacy_def Let_def
        case_prod_beta)
qed

end
