(* ===== verification/Acquisition.thy ===== *)
theory Acquisition
  imports Failover
begin

text \<open>
  The acquisition of one answer (\<open>crates/kallipai-adk/src/acquisition/phases.rs\<close> with \<open>stream.rs\<close>,
  the error wordings of \<open>facts.rs\<close> and \<open>failover.rs\<close>, and \<open>stream_accumulator.rs\<close>): settle the
  verdict before a send, send through the retry loop, consume the stream, and decide a stream that
  drops. Each turn of the loop meets one \<open>acquire_env\<close>: the clock readings, the answers of the sends,
  what the stream delivered and the inputs of a walk. A list of them that is shorter than the loop
  gives \<open>None\<close>. The stateful chain of response ids lives in the client library and is not modelled.
\<close>

section \<open>Consuming a stream\<close>

record tool_call_delta =
  td_index :: "u32 option"
  td_id :: "string option"
  td_name :: "string option"
  td_arguments :: "string option"

record accumulated_call =
  ac_id :: "string option"
  ac_name :: "string option"
  ac_arguments :: string

type_synonym call_accumulator = "(u32 \<times> accumulated_call) list"

text \<open>The ordered map of the calls, as the list of its entries.\<close>

fun acc_update :: "u32 \<Rightarrow> (accumulated_call \<Rightarrow> accumulated_call) \<Rightarrow> call_accumulator \<Rightarrow> call_accumulator" where
  "acc_update i f [] = [(i, f \<lparr>ac_id = None, ac_name = None, ac_arguments = []\<rparr>)]"
| "acc_update i f ((j, c) # acc) =
     (if i < j then (i, f \<lparr>ac_id = None, ac_name = None, ac_arguments = []\<rparr>) # (j, c) # acc
      else if i = j then (j, f c) # acc
      else (j, c) # acc_update i f acc)"

definition acc_push :: "tool_call_delta \<Rightarrow> call_accumulator \<Rightarrow> call_accumulator" where
  "acc_push d acc =
     acc_update (case td_index d of None \<Rightarrow> 0 | Some i \<Rightarrow> i)
       (\<lambda>c. \<lparr>ac_id = (case td_id d of None \<Rightarrow> ac_id c | Some i \<Rightarrow> Some i),
              ac_name = (case td_name d of None \<Rightarrow> ac_name c | Some n \<Rightarrow> Some n),
              ac_arguments = ac_arguments c @ (case td_arguments d of None \<Rightarrow> [] | Some a \<Rightarrow> a)\<rparr>) acc"

definition acc_finish :: "call_accumulator \<Rightarrow> tool_call list" where
  "acc_finish acc =
     map (\<lambda>(_, c). \<lparr>tc_id = (case ac_id c of None \<Rightarrow> [] | Some i \<Rightarrow> i),
        tc_name = (case ac_name c of None \<Rightarrow> [] | Some n \<Rightarrow> n), tc_arguments = ac_arguments c\<rparr>) acc"

datatype generation_event =
    EvText string
  | EvReasoning string
  | EvToolCall tool_call_delta
  | EvUsage usage
  | EvEnd

text \<open>How the reading of a stream stopped: closed, cancelled, or dropped with a transport error, which
  the library promotes to a provider error; the rendering of the bare transport error comes with it.\<close>

datatype stream_close = Closed | CutOff | Dropped string backend_error

record consumed =
  co_content :: string
  co_reasoning :: string
  co_calls :: "tool_call list"
  co_usage :: "usage option"

datatype stream_outcome = Completed consumed | StreamCancelled | TransientDrop string backend_error

fun consume_events ::
  "generation_event list \<Rightarrow> consumed \<Rightarrow> call_accumulator \<Rightarrow> agent_event list
     \<Rightarrow> consumed \<times> call_accumulator \<times> agent_event list" where
  "consume_events [] co acc out = (co, acc, out)"
| "consume_events (EvText d # es) co acc out =
     consume_events es (co\<lparr>co_content := co_content co @ d\<rparr>) acc (out @ [ContentDelta d])"
| "consume_events (EvReasoning d # es) co acc out =
     consume_events es (co\<lparr>co_reasoning := co_reasoning co @ d\<rparr>) acc (out @ [ReasoningDelta d])"
| "consume_events (EvToolCall d # es) co acc out = consume_events es co (acc_push d acc) out"
| "consume_events (EvUsage u # es) co acc out = consume_events es (co\<lparr>co_usage := Some u\<rparr>) acc out"
| "consume_events (EvEnd # es) co acc out = consume_events es co acc out"

definition consume_stream ::
  "generation_event list \<Rightarrow> stream_close \<Rightarrow> stream_outcome \<times> agent_event list" where
  "consume_stream es close =
     (let (co, acc, out) = consume_events es
            \<lparr>co_content = [], co_reasoning = [], co_calls = [], co_usage = None\<rparr> [] []
      in (case close of
            Closed \<Rightarrow> Completed (co\<lparr>co_calls := acc_finish acc\<rparr>)
          | CutOff \<Rightarrow> StreamCancelled
          | Dropped text e \<Rightarrow> TransientDrop text e, out))"

section \<open>Results and wordings\<close>

datatype acquire_result =
    Consumed consumed
  | AcqOutcome agent_outcome
  | AcqError round_error
  | AcqStop string

datatype exhaustion =
    ExTransient
  | ExExternalOnly string
  | ExQuotaBlocked quota_blocked_info

definition LOCAL_CONFIG_NOTE :: string where
  "LOCAL_CONFIG_NOTE = ''no failover attempted: a local misconfiguration fails on every profile''"

definition endpoint_text :: "string \<Rightarrow> 't agent \<Rightarrow> string" where
  "endpoint_text reason ag =
     (let p = current_profile (ag_failover ag)
      in reason @ '': endpoint '' @ pf_endpoint p @ '' (profile '' @ pf_id p @ ''); '')"

definition stop_message :: "agent_kit \<Rightarrow> string \<Rightarrow> 't agent \<Rightarrow> round_error \<Rightarrow> string \<Rightarrow> string" where
  "stop_message kit reason ag err chain_note =
     endpoint_text reason ag @ chain_note @ ''; evidence: '' @ render_round_error (ak_json kit) err"

fun block_kind_debug :: "block_kind \<Rightarrow> string" where
  "block_kind_debug Quota = ''Quota''"
| "block_kind_debug Payment = ''Payment''"
| "block_kind_debug EndpointAuth = ''EndpointAuth''"
| "block_kind_debug EndpointShape = ''EndpointShape''"

definition fact_error :: "table_reading \<Rightarrow> round_error" where
  "fact_error rd =
     PlainError (case tr_blocked rd of
       None \<Rightarrow> ''shared fact: the table has nothing to say''
     | Some bf \<Rightarrow> ''shared fact '' @ block_kind_debug (bl_kind (bf_block bf)) @ '' on this endpoint: ''
         @ resumption_note (bl_until (bf_block bf)) @ ''; evidence: '' @ bl_detail (bf_block bf))"

definition fact_stop_message :: "string \<Rightarrow> 't agent \<Rightarrow> table_reading \<Rightarrow> string \<Rightarrow> string" where
  "fact_stop_message reason ag rd chain_note =
     endpoint_text reason ag @ chain_note
     @ (case tr_blocked rd of
          None \<Rightarrow> ''; evidence: the shared table has nothing to say''
        | Some bf \<Rightarrow> ''; '' @ resumption_note (bl_until (bf_block bf)) @ ''; evidence: ''
            @ bl_detail (bf_block bf))"

definition spent_budget_error :: "agent_kit \<Rightarrow> backend_error" where
  "spent_budget_error kit =
     \<lparr>be_variant = VInvalidRequest,
      be_display = ak_invalid_request kit
        ''retry budget for this episode is spent before the request could be sent'',
      be_sources = [], be_rejection = None, be_body = None\<rparr>"

text \<open>The payload of the gateway's signal, when the trigger is an upstream rejection.\<close>

definition rejection_payload :: "round_error \<Rightarrow> (u16 \<times> string option) option" where
  "rejection_payload err =
     Option.bind (backend_of err) (\<lambda>e. map_option (\<lambda>r. (rj_status r, rj_code r)) (be_rejection e))"

section \<open>One step of the chain\<close>

record acquire_env =
  ae_now :: u64
  ae_sends :: "send_env list"
  ae_cut :: "u64 option"
  ae_flush_now :: u64
  ae_payload_now :: u64
  ae_events :: "generation_event list"
  ae_close :: stream_close
  ae_failed_now :: u64
  ae_jitter :: duration
  ae_fact_now :: u64
  ae_record_now :: u64
  ae_log_now :: u64
  ae_backoff_cancelled :: bool
  ae_walk :: walk_env
  ae_episode_now :: u64

record failed_send =
  fs_trigger :: round_error
  fs_reason :: string
  fs_exhaustion :: exhaustion

definition push_events :: "agent_event list \<Rightarrow> 't agent \<Rightarrow> 't agent" where
  "push_events es ag = ag\<lparr>ag_events := ag_events ag @ es\<rparr>"

text \<open>\<open>step_failover\<close> and \<open>walk_or_finish\<close>: \<open>Inl\<close> carries the messages of an advance, \<open>Inr\<close> the result
  the round ends with.\<close>

definition walk_or_finish ::
  "(profile \<Rightarrow> bool) \<Rightarrow> agent_kit \<Rightarrow> acquire_env \<Rightarrow> nat \<Rightarrow> message list \<Rightarrow> failed_send \<Rightarrow> 't agent
     \<Rightarrow> ((message list + acquire_result) \<times> 't agent) option" where
  "walk_or_finish build kit env round messages failed ag =
     (case advance_failover build kit (ae_walk env) round messages (fs_trigger failed) ag of
        None \<Rightarrow> None
      | Some (Advanced a b new_messages, ag') \<Rightarrow>
          Some (Inl new_messages, start_episode (ae_episode_now env)
            (push_events [FailoverEvent a b (fs_reason failed)] ag'))
      | Some (OutChainExhausted reason trigger, ag') \<Rightarrow>
          (let ag'' = (case rejection_payload trigger of
                         Some payload \<Rightarrow> emit_gateway_signal payload ag'
                       | None \<Rightarrow> ag')
           in Some (Inr (case fs_exhaustion failed of
                ExExternalOnly stop_reason \<Rightarrow>
                  AcqStop (stop_message kit stop_reason ag'' trigger (exhaustion_text reason))
              | ExQuotaBlocked info \<Rightarrow> AcqOutcome (RoundQuotaBlocked info)
              | ExTransient \<Rightarrow>
                  AcqOutcome (FailoverChainExhausted reason (render_round_error (ak_json kit) trigger))), ag''))
      | Some (OutCancelled, ag') \<Rightarrow> Some (Inr (AcqOutcome RoundCancelled), ag')
      | Some (OutBudgetExceeded consumed budget, ag') \<Rightarrow>
          Some (Inr (AcqOutcome (TokenBudgetExceeded consumed budget)), ag')
      | Some (OutStop message, ag') \<Rightarrow> Some (Inr (AcqStop message), ag'))"

section \<open>Before a send\<close>

text \<open>What the driver does next: send, run its head again with these messages, or return.\<close>

datatype next_move = SendNow | AgainWith "message list" | FinishWith acquire_result

definition of_walk :: "(message list + acquire_result) \<times> 't agent \<Rightarrow> next_move \<times> 't agent" where
  "of_walk r = (case r of (Inl ms, ag) \<Rightarrow> (AgainWith ms, ag) | (Inr res, ag) \<Rightarrow> (FinishWith res, ag))"

definition parks :: "blocked_fact option \<Rightarrow> bool" where
  "parks blocked = (case blocked of None \<Rightarrow> False | Some bf \<Rightarrow> parks_the_round (bl_kind (bf_block bf)))"

definition fact_detail :: "blocked_fact option \<Rightarrow> string" where
  "fact_detail blocked = (case blocked of None \<Rightarrow> [] | Some bf \<Rightarrow> bl_detail (bf_block bf))"

definition enter_attempt ::
  "(profile \<Rightarrow> bool) \<Rightarrow> agent_kit \<Rightarrow> acquire_env \<Rightarrow> nat \<Rightarrow> message list \<Rightarrow> attempt \<Rightarrow> 't agent
     \<Rightarrow> (next_move \<times> 't agent) option" where
  "enter_attempt build kit env round messages at ag =
     (let pid = pf_id (current_profile (ag_failover ag)); rd = at_reading at; blocked = tr_blocked rd
      in case decide (episode_facts (ag_episode ag) at) (cf_retry (ag_config ag)) of
           Proceed \<Rightarrow> Some (SendNow, ag)
         | AdvanceFailover reason \<Rightarrow>
             (let err = fact_error rd;
                  ex = (if parks blocked
                        then ExQuotaBlocked (quota_blocked_payload ag pid (ae_payload_now env) (fact_detail blocked))
                        else ExExternalOnly reason)
              in case walk_or_finish build kit env round messages
                  \<lparr>fs_trigger = err, fs_reason = render_round_error (ak_json kit) err, fs_exhaustion = ex\<rparr> ag of
                   None \<Rightarrow> None
                 | Some (Inl ms, ag') \<Rightarrow> Some (AgainWith ms, ag')
                 | Some (Inr res, ag') \<Rightarrow> Some (FinishWith res, emit_fact_signal blocked ag'))
         | Stop ExternalOnly reason \<Rightarrow>
             if parks blocked
             then Some (FinishWith (AcqOutcome (RoundQuotaBlocked
               (quota_blocked_payload ag pid (ae_payload_now env) (fact_detail blocked)))), ag)
             else (let ag' = emit_fact_signal blocked ag
               in Some (FinishWith (AcqStop (fact_stop_message reason ag' rd (fact_chain_note (ag_failover ag')))),
                    ag'))
         | Stop ChainExhausted reason \<Rightarrow>
             (let err = BackendFailed (spent_budget_error kit)
              in map_option of_walk (walk_or_finish build kit env round messages
                   \<lparr>fs_trigger = err, fs_reason = render_round_error (ak_json kit) err,
                    fs_exhaustion = ExTransient\<rparr> ag))
         | _ \<Rightarrow> Some (FinishWith (AcqError (PlainError
             ''pre-send reading produced a verdict this path cannot perform'')), ag))"

section \<open>A stream that drops\<close>

definition void_partial :: "string \<Rightarrow> duration \<Rightarrow> 't agent \<Rightarrow> 't agent" where
  "void_partial text delay ag =
     push_events [StreamReset text (ep_attempts (ag_episode ag)) (max_retries (cf_retry (ag_config ag))) delay] ag"

definition episode_attempt :: "nat \<Rightarrow> 't agent \<Rightarrow> retry_attempt" where
  "episode_attempt round ag =
     \<lparr>ra_round = round, ra_attempt = ep_attempts (ag_episode ag),
      ra_max_attempts = max_retries (cf_retry (ag_config ag))\<rparr>"

text \<open>The observation a quota or payment rejection leaves in the retry log.\<close>

definition observe_rejection ::
  "agent_kit \<Rightarrow> acquire_env \<Rightarrow> nat \<Rightarrow> failure_class \<Rightarrow> backend_error \<Rightarrow> 't agent \<Rightarrow> 't agent" where
  "observe_rejection kit env round c e ag =
     (let found = fact_of (ak_json kit) c e (ae_record_now env);
          parking = (case found of None \<Rightarrow> False | Some b \<Rightarrow> parks_the_round (bl_kind b))
      in case (parking, retry_kind c) of
           (True, Some kind) \<Rightarrow>
             log_retries [record_observed (episode_attempt round ag) (ae_record_now env)
               (Some (pf_endpoint (current_profile (ag_failover ag)))) kind (render_error (ak_json kit) e)
               (Option.bind found bl_until)] (ae_log_now env) ag
         | _ \<Rightarrow> ag)"

definition on_mid_stream_failure ::
  "(profile \<Rightarrow> bool) \<Rightarrow> agent_kit \<Rightarrow> acquire_env \<Rightarrow> nat \<Rightarrow> message list \<Rightarrow> string \<Rightarrow> backend_error \<Rightarrow> 't agent
     \<Rightarrow> ((message list + acquire_result) \<times> 't agent) option" where
  "on_mid_stream_failure build kit env round messages text e ag =
     (let p = current_profile (ag_failover ag); pj = ak_json kit; c = classify pj e MidStream;
          at = attempt_failed MidStream c (shape_key e) (ae_failed_now env) (ae_jitter env);
          rendered = render_error pj e
      in case decide (episode_facts (ag_episode ag) at) (cf_retry (ag_config ag)) of
           Stop ExternalOnly reason \<Rightarrow>
             Some (Inr (AcqStop (stop_message kit reason ag (BackendFailed e) LOCAL_CONFIG_NOTE)), ag)
         | AdvanceFailover reason \<Rightarrow>
             (let ag1 = void_partial text 0 ag;
                  ag2 = ag1\<lparr>ag_table := record_fact pj (ag_pacing ag1) (pf_id p) c e (ae_fact_now env) (ag_table ag1)\<rparr>;
                  ex = (if c = QuotaBlocked \<or> c = Throttled
                        then ExQuotaBlocked (quota_blocked_payload ag2 (pf_id p) (ae_payload_now env) rendered)
                        else ExExternalOnly reason)
              in walk_or_finish build kit env round messages
                   \<lparr>fs_trigger = BackendFailed e, fs_reason = rendered, fs_exhaustion = ex\<rparr>
                   (observe_rejection kit env round c e ag2))
         | Stop ChainExhausted reason \<Rightarrow>
             walk_or_finish build kit env round messages
               \<lparr>fs_trigger = BackendFailed e, fs_reason = rendered, fs_exhaustion = ExTransient\<rparr>
               (void_partial text 0 ag)
         | Retry wait \<Rightarrow>
             (case retry_kind c of
                None \<Rightarrow> Some (Inr (AcqError (BackendFailed e)), ag)
              | Some kind \<Rightarrow>
                  (let ag1 = void_partial text wait (ag\<lparr>ag_episode := spend_shape_slot e (ag_episode ag)\<rparr>)
                   in if ae_backoff_cancelled env then Some (Inr (AcqOutcome RoundCancelled), ag1)
                      else Some (Inl messages,
                        log_retries [record_retry (episode_attempt round ag1) (ae_record_now env)
                          (Some (pf_endpoint p)) kind text wait] (ae_log_now env) ag1)))
         | _ \<Rightarrow> Some (Inr (AcqError (BackendFailed e)), ag))"

section \<open>The loop\<close>

text \<open>A cancellation while a send is in flight drops the retry loop where it stands: the sends before it
  failed and slept, and the one in flight is charged.\<close>

fun cut_stream ::
  "(string \<Rightarrow> json option) \<Rightarrow> 't retry_call \<Rightarrow> u64 \<Rightarrow> send_env list \<Rightarrow> 't shell \<Rightarrow> 't shell" where
  "cut_stream pj rc now [] sh =
     (if decide (episode_facts (sh_episode sh) (pre_send Connect System now no_reading)) (rc_policy rc) = Proceed
      then sh\<lparr>sh_episode := after_attempt (sh_episode sh)\<rparr> else sh)"
| "cut_stream pj rc now (env # envs) sh =
     (case se_error env of
        None \<Rightarrow> cut_stream pj rc now [] sh
      | Some e \<Rightarrow>
          (case settle_failure pj rc env e (sh\<lparr>sh_episode := after_attempt (sh_episode sh)\<rparr>) of
             (None, sh2) \<Rightarrow> cut_stream pj rc now envs sh2
           | (Some f, sh2) \<Rightarrow> cut_stream pj rc now [] sh))"

definition call_of :: "nat \<Rightarrow> 't agent \<Rightarrow> 't retry_call" where
  "call_of round ag =
     \<lparr>rc_policy = cf_retry (ag_config ag), rc_round = round,
      rc_provider = pf_endpoint (current_profile (ag_failover ag)),
      rc_profile = pf_id (current_profile (ag_failover ag)), rc_pacing = ag_pacing ag\<rparr>"

definition shell_of :: "'t agent \<Rightarrow> 't shell" where
  "shell_of ag = \<lparr>sh_episode = ag_episode ag, sh_log = [], sh_events = [], sh_table = ag_table ag\<rparr>"

definition flush_retry_records :: "retry_record list \<Rightarrow> u64 \<Rightarrow> 't agent \<Rightarrow> 't agent" where
  "flush_retry_records recs now ag = (if recs = [] then ag else log_retries recs now ag)"

text \<open>What the retry loop leaves in the agent: the episode, the table, its events and the flushed log.\<close>

definition absorb :: "acquire_env \<Rightarrow> 't shell \<Rightarrow> 't agent \<Rightarrow> 't agent" where
  "absorb env sh ag =
     flush_retry_records (sh_log sh) (ae_flush_now env)
       (push_events (map RetryEvent (sh_events sh))
         (ag\<lparr>ag_episode := sh_episode sh, ag_table := sh_table sh\<rparr>))"

definition request_failed ::
  "(profile \<Rightarrow> bool) \<Rightarrow> agent_kit \<Rightarrow> acquire_env \<Rightarrow> nat \<Rightarrow> message list \<Rightarrow> request_failure \<Rightarrow> 't agent
     \<Rightarrow> ((message list + acquire_result) \<times> 't agent) option" where
  "request_failed build kit env round messages f ag =
     (let walk = (\<lambda>e ex. walk_or_finish build kit env round messages
            \<lparr>fs_trigger = BackendFailed e, fs_reason = render_error (ak_json kit) e, fs_exhaustion = ex\<rparr> ag)
      in case f of
           FatalRequest e \<Rightarrow> Some (Inr (AcqError (BackendFailed e)), ag)
         | SpentBudget \<Rightarrow> Some (Inr (AcqError (BackendFailed (spent_budget_error kit))), ag)
         | Failover e \<Rightarrow> walk e ExTransient
         | Switch reason e block \<Rightarrow>
             walk e (if (case block of None \<Rightarrow> False | Some k \<Rightarrow> parks_the_round k)
               then ExQuotaBlocked (quota_blocked_payload ag (pf_id (current_profile (ag_failover ag)))
                 (ae_payload_now env) (render_error (ak_json kit) e))
               else ExExternalOnly reason)
         | StopRound reason e \<Rightarrow>
             Some (Inr (AcqStop (stop_message kit reason ag (BackendFailed e) LOCAL_CONFIG_NOTE)), ag)
         | Cancelled \<Rightarrow> Some (Inr (AcqOutcome RoundCancelled), ag))"

definition send_and_consume ::
  "(profile \<Rightarrow> bool) \<Rightarrow> agent_kit \<Rightarrow> acquire_env \<Rightarrow> nat \<Rightarrow> message list \<Rightarrow> 't agent
     \<Rightarrow> ((message list + acquire_result) \<times> 't agent) option" where
  "send_and_consume build kit env round messages ag =
     (case ae_cut env of
        Some now \<Rightarrow>
          Some (Inr (AcqOutcome RoundCancelled),
            absorb env (cut_stream (ak_json kit) (call_of round ag) now (ae_sends env) (shell_of ag)) ag)
      | None \<Rightarrow>
          (case stream_with_retry (ak_json kit) (call_of round ag) (ae_sends env) (shell_of ag) of
             None \<Rightarrow> None
           | Some (Inl f, sh, _) \<Rightarrow> request_failed build kit env round messages f (absorb env sh ag)
           | Some (Inr _, sh, _) \<Rightarrow>
               (let (out, evs) = consume_stream (ae_events env) (ae_close env);
                    ag' = push_events evs (absorb env sh ag)
                in case out of
                     Completed co \<Rightarrow> Some (Inr (Consumed co), ag')
                   | StreamCancelled \<Rightarrow> Some (Inr (AcqOutcome RoundCancelled), ag')
                   | TransientDrop text e \<Rightarrow> on_mid_stream_failure build kit env round messages text e ag')))"

text \<open>One turn of the loop: \<open>Inl\<close> runs it again with these messages.\<close>

definition acquire_once ::
  "(profile \<Rightarrow> bool) \<Rightarrow> agent_kit \<Rightarrow> acquire_env \<Rightarrow> nat \<Rightarrow> message list \<Rightarrow> 't agent
     \<Rightarrow> ((message list + acquire_result) \<times> 't agent) option" where
  "acquire_once build kit env round messages ag =
     (let pid = pf_id (current_profile (ag_failover ag)); now = ae_now env; origin = ag_origin ag;
          ag1 = snd (claim_window_for pid now origin (ag\<lparr>ag_origin := System\<rparr>));
          at = pre_send Connect origin now (table_reading_of ag1 now)
      in case enter_attempt build kit env round messages at ag1 of
           None \<Rightarrow> None
         | Some (AgainWith ms, ag2) \<Rightarrow> Some (Inl ms, ag2)
         | Some (FinishWith r, ag2) \<Rightarrow> Some (Inr r, ag2)
         | Some (SendNow, ag2) \<Rightarrow> send_and_consume build kit env round messages ag2)"

fun acquire_stream ::
  "(profile \<Rightarrow> bool) \<Rightarrow> agent_kit \<Rightarrow> acquire_env list \<Rightarrow> nat \<Rightarrow> message list \<Rightarrow> 't agent
     \<Rightarrow> (acquire_result \<times> 't agent) option" where
  "acquire_stream build kit [] round messages ag = None"
| "acquire_stream build kit (env # envs) round messages ag =
     (case acquire_once build kit env round messages ag of
        None \<Rightarrow> None
      | Some (Inr r, ag') \<Rightarrow> Some (r, ag')
      | Some (Inl ms, ag') \<Rightarrow> acquire_stream build kit envs round ms ag')"

section \<open>A rejected request with images\<close>

definition fatal_provider_status :: "round_error \<Rightarrow> u16 option" where
  "fatal_provider_status err =
     Option.bind (Option.bind (backend_of err) be_rejection)
       (\<lambda>r. let st = rj_status r
            in if 400 \<le> st \<and> st < 500 \<and> st \<noteq> 401 \<and> st \<noteq> 403 \<and> st \<noteq> 404 then Some st else None)"

definition stripped :: "message \<Rightarrow> message" where
  "stripped m = (case strip_message_images m of Some m' \<Rightarrow> m' | None \<Rightarrow> m)"

definition strip_turns :: "agent_kit \<Rightarrow> nat list \<Rightarrow> context_store \<Rightarrow> context_store" where
  "strip_turns kit ids s =
     mark_needs_full_estimate (s\<lparr>cs_turns := map (\<lambda>t.
       if id_num (tu_id t) \<in> set ids
       then (let ms = map stripped (tu_messages t) in t\<lparr>tu_messages := ms, tu_tokens := turn_tokens (ak_est kit) ms\<rparr>)
       else t) (cs_turns s)\<rparr>)"

definition degrade_on_image_rejection ::
  "(profile \<Rightarrow> bool) \<Rightarrow> agent_kit \<Rightarrow> acquire_env list \<Rightarrow> u64 \<Rightarrow> string \<Rightarrow> round_error \<Rightarrow> nat \<Rightarrow> 't agent
     \<Rightarrow> (acquire_result option \<times> 't agent) option" where
  "degrade_on_image_rejection build kit envs now today err round ag =
     (case fatal_provider_status err of
        None \<Rightarrow> Some (None, ag)
      | Some status \<Rightarrow>
          let ids = map (\<lambda>t. id_num (tu_id t))
                (filter (\<lambda>t. list_ex message_has_images (tu_messages t)) (cs_turns (ag_store ag)))
          in if ids = [] then Some (None, ag)
             else case acquire_stream build kit envs round (map stripped (compose_context (ag_store ag)))
                 (start_episode now ag) of
               None \<Rightarrow> None
             | Some (Consumed co, ag') \<Rightarrow>
                 Some (Some (Consumed co),
                   snd (record_turn kit today [user_message
                     (''[system] image attachments were removed from the request: the provider rejected them (HTTP ''
                      @ ak_status_text kit status
                      @ ''). the affected turns stay text-only; continue without the image content.'')]
                     (ag'\<lparr>ag_store := strip_turns kit ids (ag_store ag')\<rparr>)))
             | Some (AcqOutcome out, ag') \<Rightarrow> Some (Some (AcqOutcome out), ag')
             | Some (AcqError _, ag') \<Rightarrow> Some (None, ag')
             | Some (AcqStop m, ag') \<Rightarrow> Some (Some (AcqStop m), ag'))"

section \<open>What a turn of the loop changes\<close>

definition acquire_ok :: "'t agent \<Rightarrow> bool" where
  "acquire_ok ag \<longleftrightarrow> failover_ok (ag_failover ag) \<and> store_ok (ag_store ag)"

text \<open>What the whole acquisition keeps: the invariants, the chain, the policy, and a conversation that is
  only shortened.\<close>

definition acquire_frame :: "'t agent \<Rightarrow> 't agent \<Rightarrow> bool" where
  "acquire_frame ag ag' \<longleftrightarrow> acquire_ok ag'
     \<and> fo_profiles (ag_failover ag') = fo_profiles (ag_failover ag)
     \<and> fo_idx (ag_failover ag) \<le> fo_idx (ag_failover ag')
     \<and> cf_retry (ag_config ag') = cf_retry (ag_config ag)
     \<and> suffix (conversation (ag_store ag')) (conversation (ag_store ag))"

lemma acquire_frame_refl: "acquire_ok ag \<Longrightarrow> acquire_frame ag ag"
  by (simp add: acquire_frame_def)

lemma acquire_frame_trans: "acquire_frame a b \<Longrightarrow> acquire_frame b c \<Longrightarrow> acquire_frame a c"
  by (auto simp: acquire_frame_def intro: suffix_order.trans)

text \<open>A change of the fields that the frame does not look at.\<close>

definition outside_frame :: "'t agent \<Rightarrow> 't agent \<Rightarrow> bool" where
  "outside_frame ag ag' \<longleftrightarrow> ag_failover ag' = ag_failover ag \<and> ag_config ag' = ag_config ag
     \<and> same_but_log (ag_store ag) (ag_store ag')"

lemma outside_frame_refl [simp]: "outside_frame ag ag"
  by (simp add: outside_frame_def same_but_log_refl)

lemma outside_frame_trans: "outside_frame a b \<Longrightarrow> outside_frame b c \<Longrightarrow> outside_frame a c"
  by (auto simp: outside_frame_def same_but_log_def)

lemma outside_frameD:
  assumes "outside_frame ag ag'"
  shows "acquire_ok ag' = acquire_ok ag" "acquire_frame ag ag' = acquire_ok ag"
    "acquire_frame ag' x = acquire_frame ag x"
  using assms same_but_log_views [of "ag_store ag" "ag_store ag'"]
  by (auto simp: outside_frame_def acquire_ok_def acquire_frame_def conversation_def)

lemma outside_frame_updates [simp]:
  "outside_frame a (b\<lparr>ag_episode := x\<rparr>) = outside_frame a b"
  "outside_frame a (b\<lparr>ag_table := t\<rparr>) = outside_frame a b"
  "outside_frame a (b\<lparr>ag_origin := y\<rparr>) = outside_frame a b"
  "outside_frame a (b\<lparr>ag_signals := z\<rparr>) = outside_frame a b"
  "outside_frame a (push_events es b) = outside_frame a b"
  "outside_frame a (log_retries rs now b) = outside_frame a b"
  "outside_frame a (emit_gateway_signal pl b) = outside_frame a b"
  "outside_frame a (emit_fact_signal bf b) = outside_frame a b"
  "outside_frame a (void_partial text d b) = outside_frame a b"
  "outside_frame a (release_unspent_window b) = outside_frame a b"
  "outside_frame a (start_episode now b) = outside_frame a b"
  "outside_frame a (flush_retry_records rs now b) = outside_frame a b"
  "outside_frame a (absorb env sh b) = outside_frame a b"
  "outside_frame a (observe_rejection kit env round c e b) = outside_frame a b"
  by (simp_all add: outside_frame_def push_events_def emit_gateway_signal_def emit_fact_signal_def
      void_partial_def release_unspent_window_def start_episode_def flush_retry_records_def absorb_def
      observe_rejection_def Let_def split: option.split bool.split)

lemma claim_outside_frame: "outside_frame ag (snd (claim_window_for pid now origin ag))"
  by (simp add: claim_window_for_def split: option.split prod.split claim.split)

lemma claim_episode:
  "ep_attempts (ag_episode (snd (claim_window_for pid now origin ag))) = ep_attempts (ag_episode ag)"
  by (simp add: claim_window_for_def after_claim_def split: option.split prod.split claim.split)

lemma start_episode_attempts: "ep_attempts (ag_episode (start_episode now ag)) = 0"
  by (simp add: start_episode_def episode_new_def)

text \<open>A walk that lets the loop go on has moved the chain ahead and opened a fresh episode.\<close>

lemma walk_or_finish_facts:
  assumes "walk_or_finish build kit env round messages failed ag = Some (r, ag')" and "acquire_ok ag"
  shows "acquire_frame ag ag' \<and> (case r of
      Inl _ \<Rightarrow> fo_idx (ag_failover ag) < fo_idx (ag_failover ag') \<and> ep_attempts (ag_episode ag') = 0
    | Inr _ \<Rightarrow> True)"
proof -
  from assms(1) obtain out ag1 where adv: "advance_failover build kit (ae_walk env) round messages
      (fs_trigger failed) ag = Some (out, ag1)"
    by (auto simp: walk_or_finish_def split: option.splits)
  have inv: "failover_ok (ag_failover ag)" "store_ok (ag_store ag)" using assms(2) by (simp_all add: acquire_ok_def)
  have frame: "acquire_frame ag ag1 \<and> ((\<exists>a b ms. out = Advanced a b ms) \<longrightarrow>
      fo_idx (ag_failover ag) < fo_idx (ag_failover ag1))"
  proof (cases "we_cancelled (ae_walk env)")
    case True
    with adv assms(2) show ?thesis by (auto simp: advance_failover_def Let_def acquire_frame_refl)
  next
    case False
    note res = advance_result [OF inv(1) False inv(2) adv]
    note pol = advance_policy [OF adv inv(2)]
    show ?thesis
    proof (cases "usable_ahead build (we_now (ae_walk env)) ag = {}")
      case True
      with res assms(2) show ?thesis by (auto simp: acquire_frame_refl)
    next
      case False
      with res have "fo_idx (ag_failover ag1) \<in> usable_ahead build (we_now (ae_walk env)) ag"
        by (simp add: is_arg_min_def)
      with False res pol show ?thesis
        by (auto simp: acquire_frame_def acquire_ok_def usable_ahead_def)
    qed
  qed
  then have ok1: "acquire_ok ag1" by (simp add: acquire_frame_def)
  show ?thesis
  proof (cases out)
    case (Advanced a b ms)
    define pushed where "pushed = push_events [FailoverEvent a b (fs_reason failed)] ag1"
    have "r = Inl ms" "ag' = start_episode (ae_episode_now env) pushed"
      using assms(1) adv Advanced by (simp_all add: walk_or_finish_def pushed_def)
    moreover have "outside_frame ag1 ag'" using calculation by (simp add: pushed_def)
    moreover from this have "fo_idx (ag_failover ag') = fo_idx (ag_failover ag1)" by (simp add: outside_frame_def)
    ultimately show ?thesis
      using frame Advanced ok1 outside_frameD [of ag1 ag'] acquire_frame_trans [of ag ag1 ag']
      by (simp add: start_episode_attempts)
  next
    case (OutChainExhausted reason trigger)
    then have "outside_frame ag1 ag'" "\<not> (\<exists>ms. r = Inl ms)"
      using assms(1) adv by (auto simp: walk_or_finish_def Let_def split: option.splits exhaustion.splits)
    then show ?thesis
      using frame ok1 outside_frameD [of ag1 ag'] acquire_frame_trans [of ag ag1 ag'] by (cases r) auto
  qed (use assms(1) adv frame in \<open>auto simp: walk_or_finish_def\<close>)
qed

lemma walk_or_finish_returns:
  assumes "acquire_ok ag" and "length (conversation (ag_store ag)) \<le> length (we_passes (ae_walk env))"
  shows "walk_or_finish build kit env round messages failed ag \<noteq> None"
proof -
  have "\<exists>out ag1. advance_failover build kit (ae_walk env) round messages (fs_trigger failed) ag = Some (out, ag1)"
    using assms by (intro advance_returns) (simp_all add: acquire_ok_def)
  then obtain out ag1 where
    "advance_failover build kit (ae_walk env) round messages (fs_trigger failed) ag = Some (out, ag1)" by blast
  then show ?thesis by (cases out) (simp_all add: walk_or_finish_def Let_def)
qed

text \<open>How an iteration that goes on got there: the chain moved, or the episode has sends left.\<close>

definition went_on :: "'t agent \<Rightarrow> 't agent \<Rightarrow> bool" where
  "went_on ag ag' \<longleftrightarrow>
     (if fo_idx (ag_failover ag') = fo_idx (ag_failover ag)
      then ep_attempts (ag_episode ag) \<le> ep_attempts (ag_episode ag')
        \<and> ep_attempts (ag_episode ag') < max_sends (cf_retry (ag_config ag))
      else ep_attempts (ag_episode ag') = 0)"

lemma walk_went_on:
  assumes "walk_or_finish build kit env round messages failed ag = Some (r, ag')" and "acquire_ok ag"
  shows "acquire_frame ag ag' \<and> (case r of Inl _ \<Rightarrow> went_on ag ag' | Inr _ \<Rightarrow> True)"
  using walk_or_finish_facts [OF assms] by (cases r) (auto simp: went_on_def)

text \<open>A walk from an agent that differs outside the frame.\<close>

lemma walk_from:
  assumes "walk_or_finish build kit env round messages failed ag1 = Some (r, ag')" and "acquire_ok ag"
    and "outside_frame ag ag1"
  shows "acquire_frame ag ag' \<and> (case r of Inl _ \<Rightarrow> went_on ag ag' | Inr _ \<Rightarrow> True)"
proof -
  have ok: "acquire_ok ag1" "fo_idx (ag_failover ag1) = fo_idx (ag_failover ag)"
    using assms(2) outside_frameD(1) [OF assms(3)] assms(3) by (simp_all add: outside_frame_def)
  from walk_or_finish_facts [OF assms(1) ok(1)] show ?thesis
    using outside_frameD(3) [OF assms(3)] ok(2) by (cases r) (auto simp: went_on_def)
qed

lemma mid_stream_facts:
  assumes "on_mid_stream_failure build kit env round messages text e ag = Some (r, ag')" and "acquire_ok ag"
  shows "acquire_frame ag ag' \<and> (case r of Inl _ \<Rightarrow> went_on ag ag' | Inr _ \<Rightarrow> True)"
proof -
  let ?c = "classify (ak_json kit) e MidStream"
  let ?at = "attempt_failed MidStream ?c (shape_key e) (ae_failed_now env) (ae_jitter env)"
  have same: "acquire_frame ag ag" using assms(2) by (rule acquire_frame_refl)
  show ?thesis
  proof (cases "decide (episode_facts (ag_episode ag) ?at) (cf_retry (ag_config ag))")
    case (Retry wait)
    then have row: "class_row ?c (episode_facts (ag_episode ag) ?at) (cf_retry (ag_config ag)) = Retry wait"
      by (simp only: decide_failed)
    from class_row_Retry [OF this] obtain kind where kind: "retry_kind ?c = Some kind"
      and few: "ep_attempts (ag_episode ag) < max_sends (cf_retry (ag_config ag))"
      by (auto simp: retry_or_stop_Retry)
    have out: "outside_frame ag ag'" and r: "case r of Inl _ \<Rightarrow> ep_attempts (ag_episode ag') = ep_attempts (ag_episode ag) | Inr _ \<Rightarrow> True"
      using assms(1) Retry kind
      by (auto simp: on_mid_stream_failure_def Let_def void_partial_def push_events_def log_retries_def
          outside_frame_def same_but_log_refl split: if_splits)
        (simp_all add: same_but_log_def record_retries_def Let_def)
    then show ?thesis
      using outside_frameD(2) [OF out] assms(2) few by (cases r) (auto simp: went_on_def outside_frame_def)
  next
    case (AdvanceFailover reason)
    then obtain failed ag1 where "walk_or_finish build kit env round messages failed ag1 = Some (r, ag')"
      "outside_frame ag ag1"
      using assms(1) by (auto simp: on_mid_stream_failure_def Let_def)
    then show ?thesis using walk_from assms(2) by blast
  next
    case (Stop k reason)
    show ?thesis
    proof (cases k)
      case ChainExhausted
      then obtain failed where "walk_or_finish build kit env round messages failed (void_partial text 0 ag) = Some (r, ag')"
        using Stop assms(1) by (auto simp: on_mid_stream_failure_def Let_def)
      then show ?thesis using walk_from [OF _ assms(2), of build kit env round messages failed] by simp
    next
      case ExternalOnly
      with Stop assms(1) same show ?thesis by (auto simp: on_mid_stream_failure_def Let_def)
    qed
  next
    case (Fatal reason)
    with assms(1) same show ?thesis by (auto simp: on_mid_stream_failure_def Let_def)
  next
    case Proceed
    with assms(1) same show ?thesis by (auto simp: on_mid_stream_failure_def Let_def)
  qed
qed

lemma request_failed_facts:
  assumes "request_failed build kit env round messages f ag = Some (r, ag')" and "acquire_ok ag"
  shows "acquire_frame ag ag' \<and> (case r of Inl _ \<Rightarrow> went_on ag ag' | Inr _ \<Rightarrow> True)"
proof (cases "\<exists>failed. walk_or_finish build kit env round messages failed ag = Some (r, ag')")
  case True
  then show ?thesis using walk_went_on assms(2) by blast
next
  case False
  with assms show ?thesis
    by (cases f) (auto simp: request_failed_def Let_def acquire_frame_refl)
qed

text \<open>A walk comes back when the answers cover the conversation; so does every path that may walk.\<close>

definition walk_covered :: "acquire_env \<Rightarrow> 't agent \<Rightarrow> bool" where
  "walk_covered env ag \<longleftrightarrow> acquire_ok ag
     \<and> length (conversation (ag_store ag)) \<le> length (we_passes (ae_walk env))"

lemma covered_outside: "outside_frame ag ag' \<Longrightarrow> walk_covered env ag \<Longrightarrow> walk_covered env ag'"
  using outside_frameD(1) [of ag ag'] same_but_log_views(1) [of "ag_store ag" "ag_store ag'"]
  by (simp add: walk_covered_def conversation_def outside_frame_def)

lemma covered_walk: "walk_covered env ag \<Longrightarrow> walk_or_finish build kit env round messages failed ag \<noteq> None"
  by (simp add: walk_covered_def walk_or_finish_returns del: not_None_eq)

lemma mid_stream_returns:
  assumes "walk_covered env ag"
  shows "on_mid_stream_failure build kit env round messages text e ag \<noteq> None"
proof -
  have walk: "walk_or_finish build kit env round messages failed ag1 \<noteq> None" if "outside_frame ag ag1" for failed ag1
    using covered_walk covered_outside that assms by blast
  show ?thesis
    unfolding on_mid_stream_failure_def Let_def
    by (auto simp del: not_None_eq simp: walk split: decision.split stop_kind.split option.split)
qed

lemma request_failed_returns:
  "walk_covered env ag \<Longrightarrow> request_failed build kit env round messages f ag \<noteq> None"
  using covered_walk [of env ag build kit round messages]
  by (cases f) (simp_all add: request_failed_def Let_def)

lemma stream_charges:
  assumes "stream_with_retry pj rc envs sh = Some (r, sh', rest)"
    and "ep_attempts (sh_episode sh) < max_sends (rc_policy rc)"
  shows "ep_attempts (sh_episode sh) < ep_attempts (sh_episode sh')"
proof (cases envs)
  case Nil
  with assms(1) show ?thesis by simp
next
  case (Cons env envs')
  have after: "ep_attempts (sh_episode sh) < sat_add (ep_attempts (sh_episode sh)) 1"
    using unat_after_attempt [OF assms(2)] by (simp add: word_less_nat_alt)
  from assms(1) Cons have "stream_with_retry pj rc (env # envs') sh = Some (r, sh', rest)" by simp
  then show ?thesis
  proof (cases rule: stream_step)
    case spent
    with assms(2) show ?thesis by simp
  next
    case (opened sh1)
    with after show ?thesis by simp
  next
    case (ended e f sh2)
    with after settle_attempts [OF ended(3)] show ?thesis by simp
  next
    case (again e sh2)
    have "ep_attempts (sh_episode sh2) = sat_add (ep_attempts (sh_episode sh)) 1"
      using settle_attempts [OF again(3)] by simp
    moreover have "ep_attempts (sh_episode sh2) \<le> ep_attempts (sh_episode sh')"
      unfolding word_le_nat_alt using stream_spends [OF again(4) [symmetric]] by linarith
    ultimately show ?thesis using after by simp
  qed
qed

lemma absorb_attempts: "ep_attempts (ag_episode (absorb env sh ag)) = ep_attempts (sh_episode sh)"
  by (simp add: absorb_def flush_retry_records_def push_events_def)

lemma push_events_episode [simp]: "ag_episode (push_events es ag) = ag_episode ag"
  by (simp add: push_events_def)

text \<open>A turn that goes on has moved the chain, or made at least one more send of an unspent episode.\<close>

definition moved_on :: "'t agent \<Rightarrow> 't agent \<Rightarrow> bool" where
  "moved_on ag ag' \<longleftrightarrow>
     (if fo_idx (ag_failover ag') = fo_idx (ag_failover ag)
      then ep_attempts (ag_episode ag) < ep_attempts (ag_episode ag')
        \<and> ep_attempts (ag_episode ag') < max_sends (cf_retry (ag_config ag))
      else ep_attempts (ag_episode ag') = 0)"

lemma went_on_moved:
  "outside_frame ag ag1 \<Longrightarrow> ep_attempts (ag_episode ag) < ep_attempts (ag_episode ag1) \<Longrightarrow>
     went_on ag1 ag' \<Longrightarrow> moved_on ag ag'"
  by (auto simp: went_on_def moved_on_def outside_frame_def)

lemma send_facts:
  assumes "send_and_consume build kit env round messages ag = Some (r, ag')" and "acquire_ok ag"
    and "ep_attempts (ag_episode ag) < max_sends (cf_retry (ag_config ag))"
  shows "acquire_frame ag ag' \<and> (case r of Inl _ \<Rightarrow> moved_on ag ag' | Inr _ \<Rightarrow> True)"
proof (cases "ae_cut env")
  case (Some now)
  with assms(1,2) show ?thesis
    by (auto simp: send_and_consume_def outside_frameD(2) [of ag])
next
  case None
  with assms(1) obtain res sh rest where stream:
    "stream_with_retry (ak_json kit) (call_of round ag) (ae_sends env) (shell_of ag) = Some (res, sh, rest)"
    by (auto simp: send_and_consume_def split: option.splits)
  have charged: "ep_attempts (ag_episode ag) < ep_attempts (sh_episode sh)"
    using stream_charges [OF stream] assms(3) by (simp add: call_of_def shell_of_def)
  have final: "acquire_frame ag ag' \<and> (case r of Inl _ \<Rightarrow> moved_on ag ag' | Inr _ \<Rightarrow> True)"
    if "acquire_frame ag1 ag' \<and> (case r of Inl _ \<Rightarrow> went_on ag1 ag' | Inr _ \<Rightarrow> True)" "outside_frame ag ag1"
      "ep_attempts (ag_episode ag1) = ep_attempts (sh_episode sh)" for ag1
    using that charged outside_frameD(3) [OF that(2)] went_on_moved [OF that(2)] by (cases r) auto
  show ?thesis
  proof (cases res)
    case (Inl f)
    let ?ag1 = "absorb env sh ag"
    have "request_failed build kit env round messages f ?ag1 = Some (r, ag')"
      using assms(1) None stream Inl by (simp add: send_and_consume_def)
    moreover have "acquire_ok ?ag1" using assms(2) outside_frameD(1) [of ag ?ag1] by simp
    ultimately show ?thesis
      using request_failed_facts by (intro final [of ?ag1]) (simp_all add: absorb_attempts)
  next
    case (Inr u)
    obtain out evs where cons: "consume_stream (ae_events env) (ae_close env) = (out, evs)" by fastforce
    let ?ag1 = "push_events evs (absorb env sh ag)"
    have ok: "acquire_ok ?ag1" using assms(2) outside_frameD(1) [of ag ?ag1] by simp
    have res: "Some (r, ag') = (case out of
        Completed co \<Rightarrow> Some (Inr (Consumed co), ?ag1)
      | StreamCancelled \<Rightarrow> Some (Inr (AcqOutcome RoundCancelled), ?ag1)
      | TransientDrop text e \<Rightarrow> on_mid_stream_failure build kit env round messages text e ?ag1)"
      using assms(1) None stream Inr cons by (simp add: send_and_consume_def Let_def)
    have fin: "acquire_frame ?ag1 ag' \<and> (case r of Inl _ \<Rightarrow> went_on ?ag1 ag' | Inr _ \<Rightarrow> True)"
    proof (cases out)
      case (TransientDrop bare e)
      with res have "on_mid_stream_failure build kit env round messages bare e ?ag1 = Some (r, ag')" by simp
      then show ?thesis using ok by (rule mid_stream_facts)
    qed (use res acquire_frame_refl [OF ok] in simp_all)
    show ?thesis by (rule final [OF fin]) (simp_all add: absorb_attempts)
  qed
qed

lemma send_returns:
  assumes "walk_covered env ag" and "unat (max_sends (cf_retry (ag_config ag))) < length (ae_sends env)"
  shows "send_and_consume build kit env round messages ag \<noteq> None"
proof (cases "ae_cut env")
  case (Some now)
  then show ?thesis by (simp add: send_and_consume_def)
next
  case None
  have "stream_with_retry (ak_json kit) (call_of round ag) (ae_sends env) (shell_of ag) \<noteq> None"
    by (rule stream_returns) (use assms(2) in \<open>simp add: call_of_def\<close>)
  then obtain res sh rest where stream:
    "stream_with_retry (ak_json kit) (call_of round ag) (ae_sends env) (shell_of ag) = Some (res, sh, rest)" by auto
  obtain out evs where cons: "consume_stream (ae_events env) (ae_close env) = (out, evs)" by fastforce
  have "walk_covered env (absorb env sh ag)" "walk_covered env (push_events evs (absorb env sh ag))"
    using assms(1) by (rule covered_outside [rotated], simp)+
  then show ?thesis
    using None stream cons request_failed_returns mid_stream_returns
    by (cases res; cases out) (simp_all add: send_and_consume_def Let_def del: not_None_eq)
qed

section \<open>The loop\<close>

lemma enter_facts:
  assumes "enter_attempt build kit env round messages (pre_send Connect origin now rd) ag = Some (m, ag')"
    and "acquire_ok ag"
  shows "case m of
      SendNow \<Rightarrow> ag' = ag \<and> ep_attempts (ag_episode ag) < max_sends (cf_retry (ag_config ag))
    | AgainWith _ \<Rightarrow> acquire_frame ag ag' \<and> fo_idx (ag_failover ag) < fo_idx (ag_failover ag')
        \<and> ep_attempts (ag_episode ag') = 0
    | FinishWith _ \<Rightarrow> acquire_frame ag ag'"
proof -
  have same: "acquire_frame ag ag" using assms(2) by (rule acquire_frame_refl)
  have signal: "acquire_frame ag (emit_fact_signal b x)" if "acquire_frame ag x" for b x
    using that outside_frameD(2) [of x "emit_fact_signal b x"] acquire_frame_trans [of ag x]
    by (simp add: acquire_frame_def [of ag x])
  have walk: "acquire_frame ag x \<and> fo_idx (ag_failover ag) < fo_idx (ag_failover x) \<and> ep_attempts (ag_episode x) = 0"
    if "walk_or_finish build kit env round messages failed ag = Some (Inl ms, x)" for failed ms x
    using walk_or_finish_facts [OF that assms(2)] by simp
  have stop: "acquire_frame ag x"
    if "walk_or_finish build kit env round messages failed ag = Some (Inr res, x)" for failed res x
    using walk_or_finish_facts [OF that assms(2)] by simp
  show ?thesis
  proof (cases "decide (episode_facts (ag_episode ag) (pre_send Connect origin now rd)) (cf_retry (ag_config ag))")
    case Proceed
    then have "ep_attempts (ag_episode ag) < max_sends (cf_retry (ag_config ag))"
      by (auto simp: decide_pre_send split: option.splits if_splits)
    with Proceed assms(1) show ?thesis by (auto simp: enter_attempt_def Let_def)
  next
    case (AdvanceFailover reason)
    with assms(1) walk stop signal show ?thesis
      by (auto simp: enter_attempt_def Let_def split: option.splits sum.splits)
  next
    case (Stop k reason)
    show ?thesis
    proof (cases k)
      case ChainExhausted
      define failed where "failed = \<lparr>fs_trigger = BackendFailed (spent_budget_error kit),
          fs_reason = render_round_error (ak_json kit) (BackendFailed (spent_budget_error kit)),
          fs_exhaustion = ExTransient\<rparr>"
      from ChainExhausted Stop assms(1)
      have "map_option of_walk (walk_or_finish build kit env round messages failed ag) = Some (m, ag')"
        by (simp add: enter_attempt_def Let_def failed_def)
      then obtain r x where w: "walk_or_finish build kit env round messages failed ag = Some (r, x)"
        "of_walk (r, x) = (m, ag')" by auto
      then show ?thesis using walk [of failed] stop [of failed] by (cases r) (auto simp: of_walk_def)
    next
      case ExternalOnly
      with Stop assms(1) same signal show ?thesis
        by (auto simp: enter_attempt_def Let_def split: if_splits)
    qed
  qed (use assms(1) same in \<open>auto simp: enter_attempt_def Let_def\<close>)
qed

lemma enter_returns:
  assumes "walk_covered env ag"
  shows "enter_attempt build kit env round messages at ag \<noteq> None"
proof -
  have walk: "\<exists>r x. walk_or_finish build kit env round messages failed ag = Some (r, x)" for failed
    using covered_walk [OF assms, of build kit round messages failed] by auto
  show ?thesis
  proof (cases "decide (episode_facts (ag_episode ag) at) (cf_retry (ag_config ag))")
    case (AdvanceFailover reason)
    define failed where "failed = \<lparr>fs_trigger = fact_error (at_reading at),
        fs_reason = render_round_error (ak_json kit) (fact_error (at_reading at)),
        fs_exhaustion = (if parks (tr_blocked (at_reading at))
          then ExQuotaBlocked (quota_blocked_payload ag (pf_id (current_profile (ag_failover ag)))
            (ae_payload_now env) (fact_detail (tr_blocked (at_reading at))))
          else ExExternalOnly reason)\<rparr>"
    obtain r x where "walk_or_finish build kit env round messages failed ag = Some (r, x)" using walk by blast
    then show ?thesis
      using AdvanceFailover by (cases r) (simp_all add: enter_attempt_def Let_def failed_def)
  next
    case (Stop k reason)
    then show ?thesis using covered_walk [OF assms, of build kit round messages]
      by (cases k) (auto simp: enter_attempt_def Let_def)
  qed (simp_all add: enter_attempt_def Let_def)
qed

text \<open>The agent as a turn reads it: the origin taken, the window claimed.\<close>

definition entered :: "acquire_env \<Rightarrow> 't agent \<Rightarrow> 't agent" where
  "entered env ag = snd (claim_window_for (pf_id (current_profile (ag_failover ag))) (ae_now env) (ag_origin ag)
     (ag\<lparr>ag_origin := System\<rparr>))"

lemma entered_facts:
  "outside_frame ag (entered env ag)" "ep_attempts (ag_episode (entered env ag)) = ep_attempts (ag_episode ag)"
  using claim_outside_frame [of "ag\<lparr>ag_origin := System\<rparr>" "pf_id (current_profile (ag_failover ag))" "ae_now env" "ag_origin ag"]
    outside_frame_trans [of ag "ag\<lparr>ag_origin := System\<rparr>" "entered env ag"]
  by (simp_all add: entered_def claim_episode)

lemma acquire_once_entered:
  "acquire_once build kit env round messages ag =
     (case enter_attempt build kit env round messages
         (pre_send Connect (ag_origin ag) (ae_now env) (table_reading_of (entered env ag) (ae_now env)))
         (entered env ag) of
        None \<Rightarrow> None
      | Some (AgainWith ms, ag2) \<Rightarrow> Some (Inl ms, ag2)
      | Some (FinishWith r, ag2) \<Rightarrow> Some (Inr r, ag2)
      | Some (SendNow, ag2) \<Rightarrow> send_and_consume build kit env round messages ag2)"
  by (simp add: acquire_once_def entered_def Let_def)

lemma acquire_once_facts:
  assumes "acquire_once build kit env round messages ag = Some (r, ag')" and "acquire_ok ag"
  shows "acquire_frame ag ag' \<and> (case r of Inl _ \<Rightarrow> moved_on ag ag' | Inr _ \<Rightarrow> True)"
proof -
  let ?ag1 = "entered env ag"
  let ?at = "pre_send Connect (ag_origin ag) (ae_now env) (table_reading_of ?ag1 (ae_now env))"
  note out = entered_facts(1) [of ag env]
  have ok: "acquire_ok ?ag1" using assms(2) outside_frameD(1) [OF out] by simp
  have idx: "fo_idx (ag_failover ?ag1) = fo_idx (ag_failover ag)" "ag_config ?ag1 = ag_config ag"
    using out by (simp_all add: outside_frame_def)
  from assms(1) obtain m ag2 where enter: "enter_attempt build kit env round messages ?at ?ag1 = Some (m, ag2)"
    by (auto simp: acquire_once_entered split: option.splits)
  note facts = enter_facts [OF enter ok]
  show ?thesis
  proof (cases m)
    case SendNow
    with facts have same: "ag2 = ?ag1" and few: "ep_attempts (ag_episode ?ag1) < max_sends (cf_retry (ag_config ?ag1))"
      by simp_all
    have "send_and_consume build kit env round messages ?ag1 = Some (r, ag')"
      using assms(1) enter SendNow same by (simp add: acquire_once_entered)
    from send_facts [OF this ok few] show ?thesis
      using outside_frameD(3) [OF out] idx entered_facts(2) [of env ag] by (cases r) (auto simp: moved_on_def)
  next
    case (AgainWith ms)
    with assms(1) enter facts show ?thesis
      using outside_frameD(3) [OF out] idx by (auto simp: acquire_once_entered moved_on_def)
  next
    case (FinishWith res)
    with assms(1) enter facts show ?thesis
      using outside_frameD(3) [OF out] by (auto simp: acquire_once_entered)
  qed
qed

lemma acquire_once_returns:
  assumes "walk_covered env ag" and "unat (max_sends (cf_retry (ag_config ag))) < length (ae_sends env)"
  shows "acquire_once build kit env round messages ag \<noteq> None"
proof -
  let ?ag1 = "entered env ag"
  let ?at = "pre_send Connect (ag_origin ag) (ae_now env) (table_reading_of ?ag1 (ae_now env))"
  have cov: "walk_covered env ?ag1" using covered_outside [OF entered_facts(1) assms(1)] .
  then have ok: "acquire_ok ?ag1" by (simp add: walk_covered_def)
  obtain m ag2 where enter: "enter_attempt build kit env round messages ?at ?ag1 = Some (m, ag2)"
    using enter_returns [OF cov, of build kit round messages ?at] by auto
  have send: "send_and_consume build kit env round messages ?ag1 \<noteq> None"
    using cov by (rule send_returns) (use assms(2) entered_facts(1) [of ag env] in \<open>simp add: outside_frame_def\<close>)
  show ?thesis
    using enter_facts [OF enter ok] send enter by (cases m) (simp_all add: acquire_once_entered del: not_None_eq)
qed

text \<open>How often the loop may still go round: every profile ahead once with all its sends, and the sends
  left on the current one.\<close>

definition turns_left :: "'t agent \<Rightarrow> nat" where
  "turns_left ag =
     (let sends = unat (max_sends (cf_retry (ag_config ag)))
      in (length (fo_profiles (ag_failover ag)) - 1 - fo_idx (ag_failover ag)) * (sends + 1)
         + (sends - unat (ep_attempts (ag_episode ag))))"

lemma spare_turns: "a * c + 1 * c \<le> b * c \<Longrightarrow> x < c \<Longrightarrow> a * c + x < b * c + y" for a b c x y :: nat
  by linarith

lemma turns_left_decreases:
  assumes "acquire_frame ag ag'" and "moved_on ag ag'"
  shows "turns_left ag' < turns_left ag"
proof -
  let ?n = "length (fo_profiles (ag_failover ag))" and ?i = "fo_idx (ag_failover ag)"
  let ?j = "fo_idx (ag_failover ag')" and ?S = "unat (max_sends (cf_retry (ag_config ag)))"
  have same: "fo_profiles (ag_failover ag') = fo_profiles (ag_failover ag)"
    "cf_retry (ag_config ag') = cf_retry (ag_config ag)" "?i \<le> ?j"
    using assms(1) by (simp_all add: acquire_frame_def)
  have j: "?j < ?n"
    using assms(1) same(1) by (simp add: acquire_frame_def acquire_ok_def failover_ok_def)
  show ?thesis
  proof (cases "?j = ?i")
    case True
    with assms(2) have "?S - unat (ep_attempts (ag_episode ag')) < ?S - unat (ep_attempts (ag_episode ag))"
      by (simp add: moved_on_def word_less_nat_alt) linarith
    then show ?thesis unfolding turns_left_def Let_def same(1,2) True by (rule add_strict_left_mono)
  next
    case False
    then have "?n - 1 - ?j + 1 \<le> ?n - 1 - ?i" using same(3) j by simp
    then have "(?n - 1 - ?j + 1) * (?S + 1) \<le> (?n - 1 - ?i) * (?S + 1)" by (rule mult_le_mono1)
    then show ?thesis
      unfolding turns_left_def Let_def same(1,2) add_mult_distrib [of _ 1] by (rule spare_turns) simp
  qed
qed

definition env_covers :: "'t agent \<Rightarrow> acquire_env \<Rightarrow> bool" where
  "env_covers ag env \<longleftrightarrow> length (conversation (ag_store ag)) \<le> length (we_passes (ae_walk env))
     \<and> unat (max_sends (cf_retry (ag_config ag))) < length (ae_sends env)"

lemma env_covers_frame: "acquire_frame ag ag' \<Longrightarrow> env_covers ag env \<Longrightarrow> env_covers ag' env"
  by (auto simp: acquire_frame_def env_covers_def dest: suffix_length_le)

lemma acquire_stream_facts:
  "acquire_ok ag \<Longrightarrow> list_all (env_covers ag) envs \<Longrightarrow> turns_left ag < length envs \<Longrightarrow>
     \<exists>r ag'. acquire_stream build kit envs round messages ag = Some (r, ag') \<and> acquire_frame ag ag'"
proof (induction envs arbitrary: ag messages)
  case Nil
  then show ?case by simp
next
  case (Cons env envs)
  have "walk_covered env ag" "unat (max_sends (cf_retry (ag_config ag))) < length (ae_sends env)"
    using Cons.prems by (simp_all add: walk_covered_def env_covers_def)
  then obtain r ag1 where once: "acquire_once build kit env round messages ag = Some (r, ag1)"
    using acquire_once_returns [of env ag build kit round messages] by auto
  note facts = acquire_once_facts [OF once Cons.prems(1)]
  show ?case
  proof (cases r)
    case (Inr res)
    with once facts show ?thesis by simp
  next
    case (Inl ms)
    have "turns_left ag1 < turns_left ag" using facts Inl by (intro turns_left_decreases) simp_all
    then have left: "turns_left ag1 < length envs" using Cons.prems(3) by simp
    have "acquire_ok ag1" "list_all (env_covers ag1) envs"
      using facts Cons.prems(2) env_covers_frame [of ag ag1] by (auto simp: acquire_frame_def list_all_iff)
    from Cons.IH [OF this left] obtain r' ag' where
      "acquire_stream build kit envs round ms ag1 = Some (r', ag')" "acquire_frame ag1 ag'" by blast
    with once Inl facts show ?thesis by (auto intro: acquire_frame_trans)
  qed
qed

section \<open>Accumulated calls\<close>

abbreviation delta_index :: "tool_call_delta \<Rightarrow> u32" where
  "delta_index d \<equiv> (case td_index d of None \<Rightarrow> 0 | Some i \<Rightarrow> i)"

text \<open>The call the deltas of one index describe: the last id and name, and all argument pieces in order.\<close>

definition call_of_deltas :: "tool_call_delta list \<Rightarrow> tool_call" where
  "call_of_deltas ds =
     \<lparr>tc_id = (case rev (List.map_filter td_id ds) of [] \<Rightarrow> [] | i # _ \<Rightarrow> i),
      tc_name = (case rev (List.map_filter td_name ds) of [] \<Rightarrow> [] | n # _ \<Rightarrow> n),
      tc_arguments = concat (List.map_filter td_arguments ds)\<rparr>"

definition entry_of_deltas :: "tool_call_delta list \<Rightarrow> accumulated_call" where
  "entry_of_deltas ds =
     \<lparr>ac_id = (case rev (List.map_filter td_id ds) of [] \<Rightarrow> None | i # _ \<Rightarrow> Some i),
      ac_name = (case rev (List.map_filter td_name ds) of [] \<Rightarrow> None | n # _ \<Rightarrow> Some n),
      ac_arguments = concat (List.map_filter td_arguments ds)\<rparr>"

lemma insort_below: "(\<forall>y \<in> set xs. x < y) \<Longrightarrow> insort x xs = x # xs" for x :: "'a::linorder"
  by (cases xs) auto

lemma acc_update_map:
  assumes "sorted_wrt (<) xs" and "i \<notin> set xs \<Longrightarrow> g i = \<lparr>ac_id = None, ac_name = None, ac_arguments = []\<rparr>"
  shows "acc_update i f (map (\<lambda>j. (j, g j)) xs)
    = map (\<lambda>j. (j, (g(i := f (g i))) j)) (if i \<in> set xs then xs else insort i xs)"
  using assms
proof (induction xs)
  case Nil
  then show ?case by simp
next
  case (Cons x xs)
  consider "i < x" | "i = x" | "x < i" by fastforce
  then show ?case
  proof cases
    case 1
    then have "i \<notin> set (x # xs)" using Cons.prems(1) by auto
    with 1 Cons.prems(2) show ?thesis by (auto intro!: map_cong)
  next
    case 2
    with Cons.prems(1) show ?thesis by (auto intro!: map_cong)
  next
    case 3
    with Cons show ?thesis by auto
  qed
qed

lemma acc_push_all:
  "fold acc_push ds [] = map (\<lambda>i. (i, entry_of_deltas (filter (\<lambda>d. delta_index d = i) ds)))
     (sorted_list_of_set (delta_index ` set ds))"
proof (induction ds rule: rev_induct)
  case Nil
  then show ?case by simp
next
  case (snoc d ds)
  let ?g = "\<lambda>ds i. entry_of_deltas (filter (\<lambda>d. delta_index d = i) ds)"
  let ?xs = "sorted_list_of_set (delta_index ` set ds)" and ?i = "delta_index d"
  let ?f = "\<lambda>c. \<lparr>ac_id = (case td_id d of None \<Rightarrow> ac_id c | Some i \<Rightarrow> Some i),
              ac_name = (case td_name d of None \<Rightarrow> ac_name c | Some n \<Rightarrow> Some n),
              ac_arguments = ac_arguments c @ (case td_arguments d of None \<Rightarrow> [] | Some a \<Rightarrow> a)\<rparr>"
  have empty: "?g ds ?i = \<lparr>ac_id = None, ac_name = None, ac_arguments = []\<rparr>" if "?i \<notin> set ?xs"
  proof -
    have "delta_index d' \<noteq> ?i" if "d' \<in> set ds" for d'
      using imageI [OF that, of delta_index] \<open>?i \<notin> set ?xs\<close> by (metis finite_imageI finite_set set_sorted_list_of_set)
    then have "filter (\<lambda>d'. delta_index d' = ?i) ds = []" by (simp add: filter_empty_conv)
    then show ?thesis by (simp add: entry_of_deltas_def map_filter_simps)
  qed
  have push: "?f (entry_of_deltas es) = entry_of_deltas (es @ [d])" for es
    by (simp add: entry_of_deltas_def map_filter_def split: option.split)
  have upd: "(?g ds)(?i := ?f (?g ds ?i)) = ?g (ds @ [d])"
    by (rule ext) (simp add: push)
  have ord: "(if ?i \<in> set ?xs then ?xs else insort ?i ?xs) = sorted_list_of_set (delta_index ` set (ds @ [d]))"
    by (simp add: insert_absorb sorted_list_of_set_insert_remove [symmetric] del: sorted_list_of_set_insert_remove)
  have "fold acc_push (ds @ [d]) [] = acc_update ?i ?f (map (\<lambda>j. (j, ?g ds j)) ?xs)"
    by (simp add: snoc.IH acc_push_def)
  also have "\<dots> = map (\<lambda>j. (j, ((?g ds)(?i := ?f (?g ds ?i))) j)) (if ?i \<in> set ?xs then ?xs else insort ?i ?xs)"
    by (rule acc_update_map [of ?xs ?i "?g ds" ?f]) (use empty in simp_all)
  finally show ?case unfolding upd ord .
qed

section \<open>Properties\<close>

text \<open>C14. An acquisition ends. With answers that cover a walk and a retry loop, the loop goes round at most
  once for every send of every profile from the current one on, plus one turn for each profile ahead,
  whatever fails in between: streams that drop, facts other agents write, walks that advance. It keeps
  the store and the chain well formed, never moves the chain back, and only shortens the conversation.\<close>

theorem acquisition_returns:
  assumes "acquire_ok ag" and "list_all (env_covers ag) envs" and "turns_left ag < length envs"
  shows "\<exists>r ag'. acquire_stream build kit envs round messages ag = Some (r, ag') \<and> acquire_frame ag ag'"
  using assms by (rule acquire_stream_facts)

definition demo_acquire_env :: acquire_env where
  "demo_acquire_env = \<lparr>ae_now = 1001, ae_sends = replicate 12 (demo_env (Some demo_lost)), ae_cut = None,
     ae_flush_now = 1001, ae_payload_now = 1001, ae_events = [], ae_close = Closed, ae_failed_now = 1001,
     ae_jitter = 0, ae_fact_now = 1001, ae_record_now = 1001, ae_log_now = 1001, ae_backoff_cancelled = False,
     ae_walk = demo_walk, ae_episode_now = 1001\<rparr>"

theorem acquisition_returns_witness:
  "\<exists>r ag'. acquire_stream (\<lambda>_. True) demo_kit (replicate 36 demo_acquire_env) 0 [] demo_agent = Some (r, ag')
     \<and> fo_profiles (ag_failover ag') = demo_chain"
proof -
  have ok: "acquire_ok demo_agent"
    by (simp add: acquire_ok_def demo_agent_def demo_chain_def failover_new_ok store_ok_new)
  have sends: "unat (max_sends (cf_retry (ag_config demo_agent))) = 11"
    by (simp add: demo_agent_def demo_config_def default_policy_def max_sends_def sat_add_def)
  have "conversation (ag_store demo_agent) = []" by (simp add: demo_agent_def conversation_def store_new_def)
  then have "env_covers demo_agent demo_acquire_env"
    using sends by (simp add: env_covers_def demo_acquire_env_def)
  then have cov: "list_all (env_covers demo_agent) (replicate 36 demo_acquire_env)" by (simp add: list_all_iff)
  have "fo_idx (ag_failover demo_agent) = 0" "fo_profiles (ag_failover demo_agent) = demo_chain"
    "ep_attempts (ag_episode demo_agent) = 0"
    by (simp_all add: demo_agent_def failover_new_def episode_new_def)
  then have "turns_left demo_agent = 35" using sends by (simp add: turns_left_def Let_def demo_chain_def)
  then have "turns_left demo_agent < length (replicate 36 demo_acquire_env)" by simp
  from acquisition_returns [OF ok cov this, of "\<lambda>_. True" demo_kit 0 "[]"]
  show ?thesis by (auto simp: acquire_frame_def demo_agent_def failover_new_def)
qed

text \<open>A fact in the shared table withholds the send. When the reading an attempt takes carries a fact
  against the profile and nobody asked for the round, no request is made: the turn ends the same way
  whatever the endpoint would have answered, and it charges no send.\<close>

theorem blocked_attempt_sends_nothing:
  assumes "ag_origin ag = System"
    and "tr_blocked (table_reading_of (entered env ag) (ae_now env)) = Some bf"
  shows "acquire_once build kit
      (env\<lparr>ae_sends := sends, ae_cut := stop, ae_events := evs, ae_close := cl\<rparr>) round messages ag
    = acquire_once build kit env round messages ag"
proof -
  let ?env = "env\<lparr>ae_sends := sends, ae_cut := stop, ae_events := evs, ae_close := cl\<rparr>"
  have head: "entered ?env ag = entered env ag" "ae_now ?env = ae_now env" by (simp_all add: entered_def)
  let ?at = "pre_send Connect System (ae_now env) (table_reading_of (entered env ag) (ae_now env))"
  have fields: "ae_walk ?env = ae_walk env" "ae_episode_now ?env = ae_episode_now env"
    "ae_payload_now ?env = ae_payload_now env" by simp_all
  have walk: "walk_or_finish build kit ?env = walk_or_finish build kit env"
    by (intro ext) (simp only: walk_or_finish_def fields)
  have enter: "enter_attempt build kit ?env round messages ?at x = enter_attempt build kit env round messages ?at x" for x
    by (simp only: enter_attempt_def walk fields)
  have "decide (episode_facts ep ?at) pol \<noteq> Proceed" for ep pol
    using assms(2) by (simp add: decide_pre_send split: option.split)
  then have enters: "enter_attempt build kit env round messages ?at x \<noteq> Some (SendNow, y)" for x y
    by (cases "decide (episode_facts (ag_episode x) ?at) (cf_retry (ag_config x))")
      (auto simp: enter_attempt_def Let_def of_walk_def split: stop_kind.splits option.splits sum.splits)
  show ?thesis
    using assms(1) enters by (auto simp: acquire_once_entered head enter split: option.split prod.split next_move.split)
qed

theorem blocked_attempt_sends_nothing_witness:
  "acquire_once (\<lambda>_. True) demo_kit
      (demo_acquire_env\<lparr>ae_sends := [], ae_cut := None, ae_events := [], ae_close := CutOff\<rparr>) 0 [] demo_agent
    = acquire_once (\<lambda>_. True) demo_kit demo_acquire_env 0 [] demo_agent"
proof -
  have "current_profile (ag_failover demo_agent) = demo_profile ''p'' 128000"
    by (simp add: demo_agent_def current_profile_def failover_new_def demo_chain_def)
  moreover have ends: "window_end demo_block = 1060"
    by (simp add: demo_block_def window_end_def fact_consts sat_add_def)
  then have "table_claim ''p'' 1001 False [(''p'', demo_block)] = ((Paced 1060, None), [(''p'', demo_block)])"
    by (simp add: table_claim_def claim_window_def)
  moreover have "is_active demo_block 1001" using ends by (simp add: is_active_def)
  ultimately have "tr_blocked (table_reading_of (entered demo_acquire_env demo_agent) (ae_now demo_acquire_env))
      = Some \<lparr>bf_block = demo_block, bf_profile = ''p''\<rparr>"
    by (simp add: demo_agent_def entered_def claim_window_for_def claimed_def
        table_reading_of_def table_paced_for_def demo_acquire_env_def demo_profile_def episode_new_def
        claimed_record_def Let_def)
  then show ?thesis by (intro blocked_attempt_sends_nothing) (simp_all add: demo_agent_def)
qed

text \<open>C31. A tool call split over deltas comes back whole: however the deltas of several calls interleave,
  the calls of the stream are those of the indices that occurred, in index order, each with its last
  id and name and its argument pieces joined in the order they came.\<close>

theorem deltas_reassemble:
  "acc_finish (fold acc_push ds [])
     = map (\<lambda>i. call_of_deltas (filter (\<lambda>d. delta_index d = i) ds)) (sorted_list_of_set (delta_index ` set ds))"
  by (simp add: acc_push_all acc_finish_def call_of_deltas_def entry_of_deltas_def split: list.split)

end
