(* ===== verification/Turn_Frame.thy ===== *)
theory Turn_Frame
  imports Acquisition Tool_Rounds
begin

text \<open>
  What compaction, failover and acquisition leave alone in the work of a round: the turns of the store
  stay paired (every call answered, every result asked for), and nothing they report ends the turn.
\<close>

section \<open>Paired turns\<close>

definition balanced :: "message list \<Rightarrow> bool" where
  "balanced ms \<longleftrightarrow> unanswered_call_ids ms = [] \<and> orphan_result_ids ms = []"

text \<open>A message in parts is a user's or the system's: it carries no calls and answers none.\<close>

definition plain_parts :: "message \<Rightarrow> bool" where
  "plain_parts m \<longleftrightarrow> ms_parts m = None \<or> ms_calls m = [] \<and> ms_tool_call_id m = None"

definition turn_paired :: "turn \<Rightarrow> bool" where
  "turn_paired t \<longleftrightarrow> balanced (tu_messages t) \<and> list_all plain_parts (tu_messages t)"

definition store_paired :: "context_store \<Rightarrow> bool" where
  "store_paired s \<longleftrightarrow> (\<forall>t \<in> set (cs_turns s). turn_paired t)"

lemma balanced_iff:
  "balanced ms \<longleftrightarrow> tc_id ` set (concat (map ms_calls ms)) = set (List.map_filter ms_tool_call_id ms)"
proof -
  have "orphan_result_ids ms = [] \<longleftrightarrow> set (List.map_filter ms_tool_call_id ms) \<subseteq> tc_id ` set (concat (map ms_calls ms))"
    by (auto simp: orphan_result_ids_def Let_def filter_empty_conv)
  moreover have "unanswered_call_ids ms = [] \<longleftrightarrow>
      tc_id ` set (concat (map ms_calls ms)) \<subseteq> set (List.map_filter ms_tool_call_id ms)"
    by (force simp: unanswered_call_ids_def Let_def filter_empty_conv)
  ultimately show ?thesis by (auto simp: balanced_def)
qed

lemma balanced_plain: "\<forall>m \<in> set ms. ms_calls m = [] \<and> ms_tool_call_id m = None \<Longrightarrow> balanced ms"
  unfolding balanced_iff by (induction ms) (auto simp: map_filter_simps)

lemma balanced_user [simp]: "balanced [user_message text]"
  by (rule balanced_plain) (simp add: user_message_def)

lemma plain_user [simp]: "plain_parts (user_message text)"
  by (simp add: plain_parts_def user_message_def)

text \<open>Paired turns make a paired context.\<close>

lemma balanced_append: "balanced xs \<Longrightarrow> balanced ys \<Longrightarrow> balanced (xs @ ys)"
  by (simp add: balanced_iff map_filter_append image_Un)

lemma balanced_concat: "\<forall>ms \<in> set mss. balanced ms \<Longrightarrow> balanced (concat mss)"
  by (induction mss) (simp_all add: balanced_append balanced_plain)

lemma paired_context: "store_paired s \<Longrightarrow> balanced (compose_context s)"
  unfolding compose_context_def by (rule balanced_concat) (auto simp: store_paired_def turn_paired_def)

text \<open>The stripped twin of a message in parts.\<close>

lemma stripped_simps:
  assumes "plain_parts m"
  shows "ms_calls (stripped m) = ms_calls m" "ms_tool_call_id (stripped m) = ms_tool_call_id m"
    "plain_parts (stripped m)"
  using assms
  by (auto simp: stripped_def strip_message_images_def with_parts_def plain_parts_def Let_def split: option.split)

lemma balanced_stripped:
  assumes "list_all plain_parts ms" and "balanced ms"
  shows "balanced (map stripped ms)"
proof -
  have calls: "map ms_calls (map stripped ms) = map ms_calls ms"
    and ids: "map ms_tool_call_id (map stripped ms) = map ms_tool_call_id ms"
    using assms(1) by (induction ms) (simp_all add: stripped_simps)
  have filter: "List.map_filter ms_tool_call_id xs = List.map_filter id (map ms_tool_call_id xs)" for xs
    by (induction xs) (simp_all add: map_filter_simps split: option.split)
  show ?thesis using assms(2) unfolding balanced_iff calls filter ids .
qed

section \<open>Store operations\<close>

lemma paired_turns: "cs_turns s' = cs_turns s \<Longrightarrow> store_paired s' = store_paired s"
  by (simp add: store_paired_def)

lemma paired_subset: "store_paired s \<Longrightarrow> set (cs_turns s') \<subseteq> set (cs_turns s) \<Longrightarrow> store_paired s'"
  by (auto simp: store_paired_def)

lemma paired_updates [simp]:
  "store_paired (record_retries rs since s) = store_paired s"
  "store_paired (reset_context_warnings s) = store_paired s"
  "store_paired (mark_needs_full_estimate s) = store_paired s"
  "store_paired (set_pinned_budget b s) = store_paired s"
  "store_paired (set_eviction_caps c s) = store_paired s"
  "store_paired (accumulate_usage u s) = store_paired s"
  "store_paired (accumulate_usage_no_anchor u s) = store_paired s"
  by (simp_all add: store_paired_def store_updates Let_def)

lemma paired_push:
  "store_paired s \<Longrightarrow> balanced ms \<Longrightarrow> list_all plain_parts ms \<Longrightarrow> store_paired (snd (push_turn est ms s))"
  by (simp add: store_paired_def push_turn_def turn_paired_def Let_def)

lemma paired_evict: "store_paired s \<Longrightarrow> store_paired (snd (evict_turns n s))"
  by (erule paired_subset) (auto simp: evict_turns_def Let_def dest: in_set_takeD in_set_dropD)

lemma paired_replace:
  assumes "replace_pin est refs_of label (user_message text) s = (e, s')" and "store_paired s"
  shows "store_paired s'"
proof -
  have new: "turn_paired (pin_turn i (user_message text) n label refs)" for i n refs
    by (simp add: turn_paired_def pin_turn_def)
  have put: "store_paired (insert_pin t s)" if "turn_paired t" for t
    using assms(2) that by (auto simp: store_paired_def insert_pin_def Let_def intro: in_set_takeD in_set_dropD
        dest: in_set_takeD in_set_dropD)
  have upd: "store_paired (s\<lparr>cs_turns := (cs_turns s)[i := t], cs_needs_full := True\<rparr>)" if "turn_paired t" for i t
    using assms(2) that by (auto simp: store_paired_def dest!: set_update_subset_insert [THEN subsetD])
  show ?thesis
    using assms put [OF new] upd [OF new] by (auto simp: replace_pin_def Let_def split: if_splits option.splits)
qed

lemma paired_strip: "store_paired s \<Longrightarrow> store_paired (strip_turns kit ids s)"
  by (auto simp: store_paired_def strip_turns_def turn_paired_def mark_needs_full_estimate_def Let_def
      balanced_stripped list_all_iff stripped_simps)

lemma paired_warnings:
  "store_paired s \<Longrightarrow> store_paired (snd (check_progressive_warnings est ws pct eff s))"
  "store_paired s \<Longrightarrow> store_paired (snd (check_token_budget_warnings est text ws p s))"
proof -
  assume ok: "store_paired s"
  then have "store_paired (snd (push_turn est [user_message t] (s\<lparr>cs_warned := w\<rparr>)))"
    "store_paired (snd (push_turn est [user_message t] (s\<lparr>cs_budget_warned := w\<rparr>)))" for t w
    by (intro paired_push; simp add: store_paired_def)+
  with ok show "store_paired (snd (check_progressive_warnings est ws pct eff s))"
    "store_paired (snd (check_token_budget_warnings est text ws p s))"
    by (auto simp: check_progressive_warnings_def check_token_budget_warnings_def progressive_message_def
        split: option.split)
qed

section \<open>What a step of the agent may do\<close>

text \<open>The limits of the loops, which no step of a round moves.\<close>

definition loop_limits :: "agent_config \<Rightarrow> usize \<times> u32 \<times> u32" where
  "loop_limits cfg = (cf_max_tool_rounds cfg, cf_max_heartbeat_rounds cfg, cf_max_transient_retries cfg)"

lemma loop_limits_window [simp]: "loop_limits (snd (set_context_window w cfg)) = loop_limits cfg"
  by (simp add: set_context_window_def loop_limits_def split: option.split)

definition turn_frame :: "'t agent \<Rightarrow> 't agent \<Rightarrow> bool" where
  "turn_frame a b \<longleftrightarrow> (if store_paired (ag_store a) then store_paired (ag_store b) else True)
     \<and> (\<exists>es. ag_events b = ag_events a @ es \<and> ongoing es)
     \<and> loop_limits (ag_config b) = loop_limits (ag_config a)"

lemma turn_frame_refl [simp]: "turn_frame a a"
  by (simp add: turn_frame_def)

lemma turn_frame_trans: "turn_frame a b \<Longrightarrow> turn_frame b c \<Longrightarrow> turn_frame a c"
  by (fastforce simp: turn_frame_def split: if_splits)

text \<open>A step that leaves the events and only touches the store in paired ways.\<close>

lemma turn_frame_store:
  assumes "ag_events b = ag_events a" and "store_paired (ag_store a) \<Longrightarrow> store_paired (ag_store b)"
    and "loop_limits (ag_config b) = loop_limits (ag_config a)"
  shows "turn_frame a b"
  using assms by (simp add: turn_frame_def)

lemma turn_frame_updates [simp]:
  "turn_frame a (b\<lparr>ag_episode := x1\<rparr>) = turn_frame a b"
  "turn_frame a (b\<lparr>ag_table := x2\<rparr>) = turn_frame a b"
  "turn_frame a (b\<lparr>ag_origin := x3\<rparr>) = turn_frame a b"
  "turn_frame a (b\<lparr>ag_signals := x4\<rparr>) = turn_frame a b"
  "turn_frame a (b\<lparr>ag_compaction := x5\<rparr>) = turn_frame a b"
  "turn_frame a (b\<lparr>ag_history := x6\<rparr>) = turn_frame a b"
  "turn_frame a (b\<lparr>ag_budget := x7\<rparr>) = turn_frame a b"
  "turn_frame a (b\<lparr>ag_failover := x9\<rparr>) = turn_frame a b"
  "turn_frame a (b\<lparr>ag_client := x10\<rparr>) = turn_frame a b"
  "turn_frame a (b\<lparr>ag_conv_store := x11\<rparr>) = turn_frame a b"
  by (simp_all add: turn_frame_def)

lemma turn_frame_derived [simp]:
  "turn_frame a (log_retries rs now b) = turn_frame a b"
  "turn_frame a (append_history d r b) = turn_frame a b"
  "turn_frame a (charge_summary u b) = turn_frame a b"
  "turn_frame a (clear_ledger now b) = turn_frame a b"
  "turn_frame a (reapply_window b) = turn_frame a b"
  "turn_frame a (emit_gateway_signal pl b) = turn_frame a b"
  "turn_frame a (emit_fact_signal bf b) = turn_frame a b"
  "turn_frame a (release_unspent_window b) = turn_frame a b"
  "turn_frame a (start_episode now b) = turn_frame a b"
  "turn_frame a (flush_retry_records rs now b) = turn_frame a b"
  "turn_frame a (observe_rejection kit env round c e b) = turn_frame a b"
  by (simp_all add: turn_frame_def log_retries_def append_history_def charge_summary_def clear_ledger_def
      reapply_window_def emit_gateway_signal_def emit_fact_signal_def release_unspent_window_def
      start_episode_def flush_retry_records_def observe_rejection_def Let_def split: option.split bool.split)

lemma turn_frame_push_events: "ongoing es \<Longrightarrow> turn_frame a b \<Longrightarrow> turn_frame a (push_events es b)"
  by (auto simp: turn_frame_def push_events_def)

lemma turn_frame_record:
  assumes "turn_frame a b" and "balanced ms" and "list_all plain_parts ms"
  shows "turn_frame a (snd (record_turn_entry kit today ms refs at b))"
proof -
  have "turn_frame b (snd (record_turn_entry kit today ms refs at b))"
    using assms(2,3)
    by (auto simp: record_turn_entry_def split: prod.split intro!: turn_frame_store
        dest: paired_push [where est = "ak_est kit"])
  with assms(1) show ?thesis by (rule turn_frame_trans)
qed

lemma turn_frame_user: "turn_frame a b \<Longrightarrow> turn_frame a (snd (record_turn kit today [user_message text] b))"
  by (simp add: record_turn_def turn_frame_record)

section \<open>Compaction\<close>

lemma turn_frame_claim: "turn_frame ag (snd (claim_window_for pid now origin ag))"
  by (simp add: claim_window_for_def split: option.split prod.split claim.split)

lemma turn_frame_pass:
  assumes "run_pass kit w ex pv ag = (r, ag')"
  shows "turn_frame ag ag'"
proof -
  let ?served = "ag\<lparr>ag_table := note_served (ag_pacing ag)
      (pf_id (current_profile (ag_failover ag))) (ag_table ag)\<rparr>"
  have landed: "turn_frame ag (land_pass sm u pv s ?served)"
    if "replace_pin (ak_est kit) (ak_refs kit) CONTEXT_SUMMARY_LABEL (summary_record t) (ag_store ag) = (None, s)"
    for sm u s t
  proof -
    have "store_paired (ag_store ag) \<Longrightarrow> store_paired s"
      using that by (auto simp: summary_record_def intro: paired_replace)
    then show ?thesis
      unfolding land_pass_def turn_frame_derived by (intro turn_frame_store) (simp_all add: paired_evict)
  qed
  have refused: "turn_frame ag (ag\<lparr>ag_table := t, ag_store := s\<rparr>)"
    if "replace_pin (ak_est kit) (ak_refs kit) l m (ag_store ag) = (Some e, s)" for e s t l m
    using replace_refused_keeps [OF that] by (simp add: turn_frame_def)
  show ?thesis
    using assms landed refused
    by (auto simp: run_pass_def check_charged_def Let_def split: sum.splits option.splits if_splits prod.splits)
qed

lemma turn_frame_loop:
  "summarize_loop kit pvs any ag = Some (r, ag') \<Longrightarrow> turn_frame ag ag'"
proof (induction kit pvs any ag arbitrary: r ag' rule: summarize_loop.induct)
  case (1 kit any ag)
  then show ?case by (simp split: option.splits)
next
  case (2 kit pv pvs any ag)
  show ?case
  proof (cases "compaction_window kit ag")
    case None
    with "2.prems" show ?thesis by simp
  next
    case (Some p)
    obtain w ex where p: "p = (w, ex)" by (cases p)
    obtain e ag1 where run: "run_pass kit w ex pv ag = (e, ag1)" by fastforce
    note step = turn_frame_pass [OF run]
    show ?thesis
    proof (cases e)
      case Landed
      with "2.prems" Some p run have "summarize_loop kit pvs True ag1 = Some (r, ag')" by simp
      with Some p run Landed "2.IH" have "turn_frame ag1 ag'" by metis
      with step show ?thesis by (rule turn_frame_trans)
    qed (use "2.prems" Some p run step in simp_all)
  qed
qed

lemma turn_frame_failure:
  assumes "note_compaction_failure kit fe err round ag = (v, ag')"
  shows "turn_frame ag ag'"
  using assms
  by (auto simp: note_compaction_failure_def stop_compaction_def Let_def split: decision.splits option.splits prod.splits)

lemma turn_frame_summarize: "summarize_and_evict kit pvs ag = Some (r, ag') \<Longrightarrow> turn_frame ag ag'"
  unfolding summarize_and_evict_def by (rule turn_frame_loop)

lemma turn_frame_compaction_window: "turn_frame ag (snd (claim_compaction_window now ag))"
  using turn_frame_claim [of ag "pf_id (current_profile (ag_failover ag))" now System]
  by (auto simp: claim_compaction_window_def split: option.split prod.split)

lemma turn_frame_pre_loop:
  assumes "compact_pre_loop kit ge ag = Some ag'"
  shows "turn_frame ag ag'"
proof -
  define claim where "claim = (if over_budget (total_estimated_tokens (ag_store ag)) (effective_budget (ag_config ag))
    then claim_compaction_window (ge_now ge) ag else (True, ag))"
  obtain may ag1 where c: "claim = (may, ag1)" by fastforce
  have start: "turn_frame ag ag1"
    using c turn_frame_compaction_window [of ag "ge_now ge"] by (auto simp: claim_def split: if_splits)
  have step: "turn_frame ag ag2" if "compact_if_needed kit pvs ag1 = Some (r, ag2)" for pvs r ag2
    using that start turn_frame_summarize [THEN turn_frame_trans [OF start]]
    by (auto simp: compact_if_needed_def split: if_splits)
  show ?thesis
    using assms start
    by (auto simp: compact_pre_loop_def claim_def [symmetric] c Let_def
        split: if_splits option.splits sum.splits compaction_verdict.splits prod.splits
        dest!: step turn_frame_failure intro: turn_frame_trans)
qed

lemma append_history_events [simp]: "ag_events (append_history d r ag) = ag_events ag"
  by (simp add: append_history_def)

lemma turn_frame_injected:
  assumes "note_injected today (w, s) ag = (w', ag')" and "store_paired (ag_store ag) \<Longrightarrow> store_paired s"
  shows "turn_frame ag ag'"
  using assms by (cases w) (auto simp: note_injected_def Let_def intro!: turn_frame_store)

section \<open>Failover\<close>

lemma turn_frame_advance:
  assumes "advance_failover build kit env round prior trigger ag = Some (out, ag')"
  shows "turn_frame ag ag'"
proof -
  have commit: "turn_frame ag (commit_advance k p now ag)" for k p now
    by (simp add: commit_advance_def)
  have compact: "turn_frame a b" if "advance_compact kit env round f t prior a = Some (out, b)" for a b f t
    using that
    by (auto simp: advance_compact_def split: option.splits sum.splits compact_outcome.splits prod.splits
        compaction_verdict.splits dest!: turn_frame_summarize turn_frame_failure intro: turn_frame_trans)
  show ?thesis
    using assms commit turn_frame_trans [OF commit compact]
    by (auto simp: advance_failover_def Let_def split: if_splits option.splits prod.splits)
qed

section \<open>Acquisition\<close>

lemma turn_frame_walk:
  assumes "walk_or_finish build kit env round messages failed ag = Some (r, ag')"
  shows "turn_frame ag ag'"
proof -
  from assms obtain out ag1 where adv: "advance_failover build kit (ae_walk env) round messages
      (fs_trigger failed) ag = Some (out, ag1)"
    by (auto simp: walk_or_finish_def split: option.splits)
  have pushed: "turn_frame ag (push_events [FailoverEvent a b c] ag1)" for a b c
    using turn_frame_advance [OF adv] by (simp add: turn_frame_push_events)
  show ?thesis
    using assms adv turn_frame_advance [OF adv] pushed
    by (cases out) (auto simp: walk_or_finish_def Let_def split: option.splits)
qed

lemma turn_frame_void: "turn_frame a b \<Longrightarrow> turn_frame a (void_partial text delay b)"
  by (simp add: void_partial_def turn_frame_push_events)

lemma turn_frame_mid_stream:
  assumes "on_mid_stream_failure build kit env round messages text e ag = Some (r, ag')"
  shows "turn_frame ag ag'"
proof -
  have void: "turn_frame ag (void_partial text delay ag)" for delay by (simp add: turn_frame_void)
  have walk: "turn_frame ag ag'" if "walk_or_finish build kit env round messages failed ag1 = Some (r, ag')"
    "turn_frame ag ag1" for failed ag1
    using turn_frame_walk [OF that(1)] that(2) by (rule turn_frame_trans [rotated])
  show ?thesis
  proof (cases "decide (episode_facts (ag_episode ag) (attempt_failed MidStream (classify (ak_json kit) e MidStream)
      (shape_key e) (ae_failed_now env) (ae_jitter env))) (cf_retry (ag_config ag))")
    case (Retry wait)
    with assms show ?thesis
      by (auto simp: on_mid_stream_failure_def Let_def turn_frame_void split: option.splits if_splits)
  next
    case (AdvanceFailover reason)
    with assms show ?thesis
      unfolding on_mid_stream_failure_def Let_def by (auto elim!: walk simp: void)
  next
    case (Stop k reason)
    with assms show ?thesis
      by (cases k) (auto simp: on_mid_stream_failure_def Let_def void elim!: walk)
  qed (use assms in \<open>auto simp: on_mid_stream_failure_def Let_def\<close>)
qed

lemma consume_events_ongoing:
  "consume_events es co acc out = (co', acc', out') \<Longrightarrow> ongoing out \<Longrightarrow> ongoing out'"
  by (induction es co acc out rule: consume_events.induct) auto

lemma consume_stream_ongoing: "consume_stream es close = (out, evs) \<Longrightarrow> ongoing evs"
  by (auto simp: consume_stream_def split: prod.splits dest!: consume_events_ongoing)

lemma turn_frame_absorb: "turn_frame a b \<Longrightarrow> turn_frame a (absorb env sh b)"
  by (simp add: absorb_def turn_frame_push_events)

lemma turn_frame_request_failed:
  assumes "request_failed build kit env round messages f ag = Some (r, ag')"
  shows "turn_frame ag ag'"
  using assms by (cases f) (auto simp: request_failed_def Let_def dest: turn_frame_walk)

lemma turn_frame_send:
  assumes "send_and_consume build kit env round messages ag = Some (r, ag')"
  shows "turn_frame ag ag'"
proof (cases "ae_cut env")
  case (Some now)
  with assms show ?thesis by (auto simp: send_and_consume_def turn_frame_absorb)
next
  case None
  with assms obtain res sh rest where stream: "stream_with_retry (ak_json kit) (call_of round ag) (ae_sends env)
      (shell_of ag) = Some (res, sh, rest)"
    by (auto simp: send_and_consume_def split: option.splits)
  have sent: "turn_frame ag (absorb env sh ag)" by (simp add: turn_frame_absorb)
  show ?thesis
  proof (cases res)
    case (Inl f)
    with assms None stream have "request_failed build kit env round messages f (absorb env sh ag) = Some (r, ag')"
      by (simp add: send_and_consume_def)
    from sent turn_frame_request_failed [OF this] show ?thesis by (rule turn_frame_trans)
  next
    case (Inr u)
    obtain out evs where cons: "consume_stream (ae_events env) (ae_close env) = (out, evs)" by fastforce
    have told: "turn_frame ag (push_events evs (absorb env sh ag))"
      using sent consume_stream_ongoing [OF cons] by (simp add: turn_frame_push_events)
    show ?thesis
    proof (cases out)
      case (TransientDrop bare e)
      with assms None stream Inr cons
      have "on_mid_stream_failure build kit env round messages bare e (push_events evs (absorb env sh ag)) = Some (r, ag')"
        by (simp add: send_and_consume_def Let_def)
      from told turn_frame_mid_stream [OF this] show ?thesis by (rule turn_frame_trans)
    qed (use assms None stream Inr cons told in \<open>auto simp: send_and_consume_def Let_def\<close>)
  qed
qed

lemma turn_frame_enter:
  assumes "enter_attempt build kit env round messages at ag = Some (m, ag')"
  shows "turn_frame ag ag'"
proof (cases "decide (episode_facts (ag_episode ag) at) (cf_retry (ag_config ag))")
  case (Stop k reason)
  show ?thesis
  proof (cases k)
    case ChainExhausted
    with assms Stop obtain failed where
      "map_option of_walk (walk_or_finish build kit env round messages failed ag) = Some (m, ag')"
      by (auto simp: enter_attempt_def Let_def)
    then obtain r x where "walk_or_finish build kit env round messages failed ag = Some (r, x)" "of_walk (r, x) = (m, ag')"
      by auto
    then show ?thesis by (cases r) (auto simp: of_walk_def dest: turn_frame_walk)
  next
    case ExternalOnly
    with assms Stop show ?thesis by (auto simp: enter_attempt_def Let_def split: if_splits)
  qed
qed (use assms in \<open>auto simp: enter_attempt_def Let_def split: option.splits sum.splits dest!: turn_frame_walk\<close>)

lemma turn_frame_once:
  assumes "acquire_once build kit env round messages ag = Some (r, ag')"
  shows "turn_frame ag ag'"
proof -
  let ?ag1 = "entered env ag"
  have start: "turn_frame ag ?ag1"
    using turn_frame_claim [of "ag\<lparr>ag_origin := System\<rparr>"]
    by (auto simp: entered_def intro: turn_frame_trans [of ag "ag\<lparr>ag_origin := System\<rparr>"])
  from assms obtain m ag2 where enter: "enter_attempt build kit env round messages
      (pre_send Connect (ag_origin ag) (ae_now env) (table_reading_of ?ag1 (ae_now env))) ?ag1 = Some (m, ag2)"
    by (auto simp: acquire_once_entered split: option.splits)
  have two: "turn_frame ag ag2" using start turn_frame_enter [OF enter] by (rule turn_frame_trans)
  show ?thesis
    using assms enter two turn_frame_trans [OF two turn_frame_send]
    by (cases m) (auto simp: acquire_once_entered)
qed

lemma turn_frame_acquire:
  "acquire_stream build kit envs round messages ag = Some (r, ag') \<Longrightarrow> turn_frame ag ag'"
proof (induction envs arbitrary: ag messages)
  case (Cons env envs)
  from Cons.prems obtain q ag1 where once: "acquire_once build kit env round messages ag = Some (q, ag1)"
    by (auto split: option.splits)
  show ?case
    using Cons.prems once turn_frame_once [OF once] turn_frame_trans [OF turn_frame_once [OF once] Cons.IH]
    by (cases q) auto
qed simp

lemma turn_frame_strip: "turn_frame a b \<Longrightarrow> turn_frame a (b\<lparr>ag_store := strip_turns kit ids (ag_store b)\<rparr>)"
  by (auto simp: turn_frame_def paired_strip split: if_splits)

lemma turn_frame_degrade:
  assumes "degrade_on_image_rejection build kit envs now today err round ag = Some (r, ag')"
  shows "turn_frame ag ag'"
proof -
  have run: "turn_frame ag x" if "acquire_stream build kit envs round ms (start_episode now ag) = Some (q, x)" for ms q x
    using turn_frame_acquire [OF that] by (auto intro: turn_frame_trans [of ag "start_episode now ag"])
  define shown where "shown status = ''[system] image attachments were removed from the request: the provider rejected them (HTTP ''
      @ ak_status_text kit status
      @ ''). the affected turns stay text-only; continue without the image content.''" for status
  show ?thesis
    using assms unfolding degrade_on_image_rejection_def Let_def shown_def [symmetric]
    by (auto split: option.splits if_splits acquire_result.splits
        dest!: run intro!: turn_frame_user turn_frame_strip)
qed

end
