(* ===== verification/Round_Loop.thy ===== *)
theory Round_Loop
  imports Turn_Frame
begin

text \<open>
  The round loop (\<open>crates/kallipai-adk/src/runner.rs\<close>): one round drains the interjections, passes the
  gates of the budgets, acquires a response, and runs the tool calls it asks for. The loop ends with
  an outcome for the task or with an error. What a round reads from outside (prompts, clocks, the answers of
  the backend and the tools) is one \<open>round_input\<close>; a loop that runs out of inputs has no result.
\<close>

section \<open>The cap on an external message\<close>

definition DEFAULT_MESSAGE_FULL_TOKENS :: usize where
  "DEFAULT_MESSAGE_FULL_TOKENS = DEFAULT_TOOL_RESULT_FULL_TOKENS"

definition cut_message :: "(string \<Rightarrow> usize) \<Rightarrow> string \<Rightarrow> string \<Rightarrow> bool \<Rightarrow> string" where
  "cut_message est text path inbox_backed =
     (let full_est = est text; cs = chars_of text;
          parts = converge_under_cap est cs (DEFAULT_TOOL_RESULT_TRUNCATED_TOKENS * length cs div full_est)
            DEFAULT_TOOL_RESULT_TRUNCATED_TOKENS
      in ct_text parts @ [CHR 0x0A] @ ''[... message truncated: kept first '' @ show_nat (ct_head parts)
           @ '' and last '' @ show_nat (ct_tail parts) @ '' of '' @ show_nat (length cs) @ '' chars (~''
           @ show_nat (est (ct_text parts)) @ '' of ~'' @ show_nat full_est
           @ '' estimated tokens). Full original saved at '' @ path
           @ '' (a temporary file '' @ [CHR 0xE2, CHR 0x80, CHR 0x94]
           @ '' archive it yourself if you need it long-term)''
           @ (if inbox_backed then ''; the full text is also in your inbox (kallip inbox read)'' else '''')
           @ ''. If you need the rest, ask the sender to resend the content in smaller parts ...]'')"

text \<open>Where the original was saved comes from outside; a message that could not be saved is kept whole.\<close>

definition cap_external_message ::
  "(string \<Rightarrow> usize) \<Rightarrow> string option \<Rightarrow> bool \<Rightarrow> string \<Rightarrow> string" where
  "cap_external_message est spilled inbox_backed text =
     (if est text \<le> DEFAULT_MESSAGE_FULL_TOKENS then text
      else case spilled of
        Some path \<Rightarrow> cut_message est text path inbox_backed
      | None \<Rightarrow> text)"

definition interjection :: "(string \<Rightarrow> usize) \<Rightarrow> string \<times> string option \<Rightarrow> string" where
  "interjection est p =
     ''[Interjected message]'' @ [CHR 0x0A] @ cap_external_message est (snd p) False (fst p)
       @ [CHR 0x0A] @ ''[/Interjected message]''"

definition drain_interjections ::
  "agent_kit \<Rightarrow> string \<Rightarrow> (string \<times> string option) list \<Rightarrow> 't agent \<Rightarrow> 't agent" where
  "drain_interjections kit today prompts ag =
     (if prompts = [] then ag
      else snd (record_turn kit today
        [user_message (join_str [CHR 0x0A] (map (interjection (ak_est_text kit)) prompts))] ag))"

section \<open>The state and the inputs of a round\<close>

text \<open>The agent, its executor (with the approvals), and what its directory holds of the last persist.\<close>

record 't runner =
  ru_agent :: "'t agent"
  ru_exec :: executor
  ru_has_dir :: bool
  ru_saved_store :: "context_store option"
  ru_saved_approvals :: "approval_store option"
  ru_persist_failures :: u32

text \<open>What a loop takes from outside once: the client build, the tool parameters, and the client's
  renderings behind the token estimate.\<close>

record loop_kit =
  lk_kit :: agent_kit
  lk_build :: "profile \<Rightarrow> bool"
  lk_params :: round_params
  lk_render :: "message list \<Rightarrow> usize"
  lk_full :: "context_store \<Rightarrow> usize"

datatype estimate_end = Estimated | EstimateFailed | EstimateOvertaken

record round_input =
  ri_episode_now :: u64
  ri_prompts :: "(string \<times> string option) list"
  ri_today :: string
  ri_estimate :: estimate_end
  ri_gate :: gate_env
  ri_acquire :: "acquire_env list"
  ri_degrade_now :: u64
  ri_degrade :: "acquire_env list"
  ri_elapsed :: u64
  ri_calls :: "nat \<Rightarrow> round_env"
  ri_store_saved :: bool
  ri_approvals_saved :: bool

datatype round_outcome =
    BreakRound break_until
  | BareAssistant string string turn_attempt
  | ParkRound agent_outcome

text \<open>Each document is tried on its own; only a failed context counts.\<close>

definition persist :: "bool \<Rightarrow> bool \<Rightarrow> 't runner \<Rightarrow> 't runner" where
  "persist store_saved approvals_saved rn =
     (if \<not> ru_has_dir rn then rn
      else rn\<lparr>ru_saved_store := (if store_saved then Some (ag_store (ru_agent rn)) else ru_saved_store rn),
              ru_persist_failures := (if store_saved then 0 else ru_persist_failures rn + 1),
              ru_saved_approvals := (if approvals_saved then Some (ex_approvals (ru_exec rn))
                else ru_saved_approvals rn)\<rparr>)"

definition on_agent :: "('t agent \<Rightarrow> 't agent) \<Rightarrow> 't runner \<Rightarrow> 't runner" where
  "on_agent f rn = rn\<lparr>ru_agent := f (ru_agent rn)\<rparr>"

section \<open>Before the request\<close>

text \<open>A phase lets the round go on, starts the next round, or ends the loop.\<close>

datatype 'a phase = GoOn 'a | NextRound | EndLoop "round_error + round_outcome"

definition inject_notifications :: "agent_kit \<Rightarrow> string \<Rightarrow> 't runner \<Rightarrow> 't runner" where
  "inject_notifications kit today rn =
     (let (ns, q) = drain_notifications (ex_approvals (ru_exec rn));
          rn1 = rn\<lparr>ru_exec := (ru_exec rn)\<lparr>ex_approvals := q\<rparr>\<rparr>
      in if ns = [] then rn1
         else on_agent (snd \<circ> record_turn kit today [user_message (format_approval_notifications ns)]) rn1)"

text \<open>A failed estimate is no estimate: the request goes out.\<close>

definition prompt_estimate :: "loop_kit \<Rightarrow> round_input \<Rightarrow> 't runner \<Rightarrow> usize" where
  "prompt_estimate lk ri rn =
     (case ri_estimate ri of
        Estimated \<Rightarrow> estimate_context_tokens (lk_render lk) (lk_full lk (ag_store (ru_agent rn))) (ag_store (ru_agent rn))
      | _ \<Rightarrow> 0)"

fun gate_phase :: "'a \<Rightarrow> budget_action \<Rightarrow> 'a phase" where
  "gate_phase x Recompose = NextRound"
| "gate_phase x (ReturnOutcome out) = EndLoop (Inr (ParkRound out))"
| "gate_phase x ProceedRound = GoOn x"
| "gate_phase x (FailRound e) = EndLoop (Inl e)"

text \<open>The request, once it may go out, carries the context as it was composed before the gate.\<close>

definition before_request ::
  "loop_kit \<Rightarrow> round_input \<Rightarrow> nat \<Rightarrow> 't runner \<Rightarrow> (message list phase \<times> 't runner) option" where
  "before_request lk ri round rn =
     (let kit = lk_kit lk;
          rn1 = on_agent (drain_interjections kit (ri_today ri) (ri_prompts ri) \<circ> start_episode (ri_episode_now ri)) rn;
          snap = snapshot (ag_budget (ru_agent rn1))
      in if snap_is_exceeded snap
         then Some (EndLoop (Inr (ParkRound (TokenBudgetExceeded (bs_consumed snap) (bs_budget snap)))), rn1)
         else
           let rn2 = inject_notifications kit (ri_today ri) rn1;
               messages = compose_context (ag_store (ru_agent rn2))
           in if ri_estimate ri = EstimateOvertaken
              then Some (EndLoop (Inr (ParkRound agent_outcome.RoundCancelled)), rn2)
              else map_option (\<lambda>(act, ag). (gate_phase messages act, rn2\<lparr>ru_agent := ag\<rparr>))
                (enforce_pre_call_budget kit (ri_gate ri) (prompt_estimate lk ri rn2) round (ru_agent rn2)))"

section \<open>The response\<close>

fun acquired :: "acquire_result \<Rightarrow> consumed phase" where
  "acquired (Consumed co) = GoOn co"
| "acquired (AcqStop message) = EndLoop (Inl (PlainError message))"
| "acquired (AcqOutcome out) = EndLoop (Inr (ParkRound out))"
| "acquired (AcqError e) = EndLoop (Inl e)"

text \<open>An error may be a rejection of the images; a second error is reported as the first.\<close>

fun degraded_result :: "round_error \<Rightarrow> acquire_result option \<Rightarrow> acquire_result" where
  "degraded_result e None = AcqError e"
| "degraded_result e (Some (AcqError _)) = AcqError e"
| "degraded_result e (Some r) = r"

definition acquire_response ::
  "loop_kit \<Rightarrow> round_input \<Rightarrow> nat \<Rightarrow> message list \<Rightarrow> 't agent \<Rightarrow> (consumed phase \<times> 't agent) option" where
  "acquire_response lk ri round messages ag =
     (case acquire_stream (lk_build lk) (lk_kit lk) (ri_acquire ri) round messages ag of
        None \<Rightarrow> None
      | Some (AcqError e, ag1) \<Rightarrow>
          map_option (\<lambda>(r, ag2). (acquired (degraded_result e r), ag2))
            (degrade_on_image_rejection (lk_build lk) (lk_kit lk) (ri_degrade ri) (ri_degrade_now ri) (ri_today ri)
               e round ag1)
      | Some (r, ag1) \<Rightarrow> Some (acquired r, ag1))"

text \<open>The gate after the stream; a warning it injects starts the next round.\<close>

definition settle_response ::
  "loop_kit \<Rightarrow> round_input \<Rightarrow> consumed \<Rightarrow> 't agent \<Rightarrow> consumed phase \<times> 't agent" where
  "settle_response lk ri co ag =
     (case enforce_post_stream_budget (lk_kit lk) (ri_today ri) (co_usage co) ag of
        (act, ag') \<Rightarrow> (gate_phase co act, ag'))"

section \<open>The turn\<close>

definition finish_turn ::
  "loop_kit \<Rightarrow> round_input \<Rightarrow> turn_attempt \<Rightarrow> message list \<Rightarrow> 't runner \<Rightarrow> 't runner" where
  "finish_turn lk ri at ms rn =
     persist (ri_store_saved ri) (ri_approvals_saved ri)
       (on_agent (snd \<circ> record_turn_entry (lk_kit lk) (ri_today ri) ms [] (Some at)) rn)"

definition handle_response ::
  "loop_kit \<Rightarrow> round_input \<Rightarrow> nat \<Rightarrow> consumed \<Rightarrow> 't runner \<Rightarrow> unit phase \<times> 't runner" where
  "handle_response lk ri round co rn =
     (let at = turn_attempt_of round (co_usage co) (ri_elapsed ri) (ru_agent rn)
      in if co_calls co = [] then
           (EndLoop (if co_content co = []
              then Inl (PlainError ''assistant returned neither tool calls nor final content'')
              else Inr (BareAssistant (co_content co) (co_reasoning co) at)), rn)
         else
           case execute_tool_calls (lk_params lk) (ri_calls ri) (co_content co) (co_reasoning co) (co_calls co)
               (ru_exec rn) of
             (res, x, evs) \<Rightarrow>
               (let rn1 = on_agent (push_events evs) (rn\<lparr>ru_exec := x\<rparr>)
                in case res of
                     tool_exec_result.RoundCancelled \<Rightarrow>
                       (EndLoop (Inr (ParkRound agent_outcome.RoundCancelled)), rn1)
                   | Break ms until \<Rightarrow> (EndLoop (Inr (BreakRound until)), finish_turn lk ri at ms rn1)
                   | Messages ms \<Rightarrow> (NextRound, finish_turn lk ri at ms rn1)))"

section \<open>The loop\<close>

definition run_round ::
  "loop_kit \<Rightarrow> round_input \<Rightarrow> nat \<Rightarrow> 't runner \<Rightarrow> ((round_error + round_outcome) option \<times> 't runner) option" where
  "run_round lk ri round rn =
     (case before_request lk ri round rn of
        None \<Rightarrow> None
      | Some (NextRound, rn1) \<Rightarrow> Some (None, rn1)
      | Some (EndLoop r, rn1) \<Rightarrow> Some (Some r, rn1)
      | Some (GoOn messages, rn1) \<Rightarrow>
          (case acquire_response lk ri round messages (ru_agent rn1) of
             None \<Rightarrow> None
           | Some (NextRound, ag) \<Rightarrow> Some (None, rn1\<lparr>ru_agent := ag\<rparr>)
           | Some (EndLoop r, ag) \<Rightarrow> Some (Some r, rn1\<lparr>ru_agent := ag\<rparr>)
           | Some (GoOn co, ag) \<Rightarrow>
               (case settle_response lk ri co ag of
                  (NextRound, ag') \<Rightarrow> Some (None, rn1\<lparr>ru_agent := ag'\<rparr>)
                | (EndLoop r, ag') \<Rightarrow> Some (Some r, rn1\<lparr>ru_agent := ag'\<rparr>)
                | (GoOn co, ag') \<Rightarrow>
                    (case handle_response lk ri round co (rn1\<lparr>ru_agent := ag'\<rparr>) of
                       (EndLoop r, rn2) \<Rightarrow> Some (Some r, rn2)
                     | (_, rn2) \<Rightarrow> Some (None, rn2)))))"

text \<open>The rounds of the range, up to the limit it was made with.\<close>

fun run_rounds ::
  "loop_kit \<Rightarrow> usize \<Rightarrow> round_input list \<Rightarrow> nat \<Rightarrow> 't runner
     \<Rightarrow> ((round_error + round_outcome) \<times> 't runner) option" where
  "run_rounds lk limit [] round rn =
     (if limit \<le> round then Some (Inr (ParkRound MaxRoundsExceeded), rn) else None)"
| "run_rounds lk limit (ri # ris) round rn =
     (if limit \<le> round then Some (Inr (ParkRound MaxRoundsExceeded), rn)
      else case run_round lk ri round rn of
        None \<Rightarrow> None
      | Some (Some r, rn') \<Rightarrow> Some (r, rn')
      | Some (None, rn') \<Rightarrow> run_rounds lk limit ris (Suc round) rn')"

text \<open>Every exit gives an unspent window back.\<close>

definition run_agent_rounds ::
  "loop_kit \<Rightarrow> round_input list \<Rightarrow> 't runner \<Rightarrow> ((round_error + round_outcome) \<times> 't runner) option" where
  "run_agent_rounds lk ris rn =
     map_option (map_prod id (on_agent release_unspent_window)) 
       (run_rounds lk (cf_max_tool_rounds (ag_config (ru_agent rn))) ris 0 rn)"

section \<open>The requests of a loop\<close>

text \<open>The messages of the requests: those each turn of an acquisition holds for its send, those of the resend without
  images, and those of the rounds of a loop.\<close>

fun acquire_requests ::
  "(profile \<Rightarrow> bool) \<Rightarrow> agent_kit \<Rightarrow> acquire_env list \<Rightarrow> nat \<Rightarrow> message list \<Rightarrow> 't agent \<Rightarrow> message list list" where
  "acquire_requests build kit [] round messages ag = []"
| "acquire_requests build kit (env # envs) round messages ag =
     messages # (case acquire_once build kit env round messages ag of
        Some (Inl ms, ag') \<Rightarrow> acquire_requests build kit envs round ms ag'
      | _ \<Rightarrow> [])"

definition degrade_requests :: "loop_kit \<Rightarrow> round_input \<Rightarrow> nat \<Rightarrow> round_error \<Rightarrow> 't agent \<Rightarrow> message list list" where
  "degrade_requests lk ri round e ag =
     (if fatal_provider_status e \<noteq> None \<and> list_ex (\<lambda>t. list_ex message_has_images (tu_messages t)) (cs_turns (ag_store ag))
      then acquire_requests (lk_build lk) (lk_kit lk) (ri_degrade ri) round (map stripped (compose_context (ag_store ag)))
             (start_episode (ri_degrade_now ri) ag)
      else [])"

definition round_requests :: "loop_kit \<Rightarrow> round_input \<Rightarrow> nat \<Rightarrow> 't runner \<Rightarrow> message list list" where
  "round_requests lk ri round rn =
     (case before_request lk ri round rn of
        Some (GoOn messages, rn1) \<Rightarrow>
          acquire_requests (lk_build lk) (lk_kit lk) (ri_acquire ri) round messages (ru_agent rn1)
          @ (case acquire_stream (lk_build lk) (lk_kit lk) (ri_acquire ri) round messages (ru_agent rn1) of
               Some (AcqError e, ag) \<Rightarrow> degrade_requests lk ri round e ag
             | _ \<Rightarrow> [])
      | _ \<Rightarrow> [])"

fun loop_requests :: "loop_kit \<Rightarrow> usize \<Rightarrow> round_input list \<Rightarrow> nat \<Rightarrow> 't runner \<Rightarrow> message list list" where
  "loop_requests lk limit [] round rn = []"
| "loop_requests lk limit (ri # ris) round rn =
     (if limit \<le> round then []
      else round_requests lk ri round rn
        @ (case run_round lk ri round rn of
             Some (None, rn') \<Rightarrow> loop_requests lk limit ris (Suc round) rn'
           | _ \<Rightarrow> []))"

section \<open>The turns stay paired\<close>

lemma run_calls_facts:
  "run_calls rp env n cs skip x evs msgs = (res, x', evs') \<Longrightarrow>
     (ongoing evs \<longrightarrow> ongoing evs')
     \<and> (list_all (\<lambda>m. ms_parts m = None) msgs \<longrightarrow>
         (case recorded_turn res of None \<Rightarrow> True | Some ms \<Rightarrow> list_all (\<lambda>m. ms_parts m = None) ms))"
proof (induction rp env n cs skip x evs msgs arbitrary: res x' evs' rule: run_calls.induct)
  case (1 rp env n skip x evs msgs)
  then show ?case
    by (auto simp: recorded_turn_def synthesize_unanswered_results_def list_all_iff tool_message_def Let_def)
next
  case (2 rp env n c cs skip x evs msgs)
  have cells: "ongoing (fst (drain_cells pa y))" for pa y
    by (auto simp: drain_cells_def Let_def split: option.splits prod.splits)
  have msg: "ms_parts (tool_message t i) = None" for t i by (simp add: tool_message_def)
  consider (stop) "tc_name c = ''break''" | (skipped) p where "tc_name c \<noteq> ''break''" "skip = Some p"
    | (ran) "tc_name c \<noteq> ''break''" "skip = None" by (cases skip) auto
  then show ?case
  proof cases
    case stop
    with "2.prems" show ?thesis
      by (auto simp: recorded_turn_def synthesize_unanswered_results_def list_all_iff tool_message_def Let_def)
  next
    case skipped
    obtain prior reason where p: "p = (prior, reason)" by (cases p)
    show ?thesis
      using "2.prems" skipped p "2.IH"(2) [OF skipped(1,2) p [symmetric] refl] msg by (simp add: Let_def)
  next
    case ran
    obtain out x1 where run: "run_tool_bounded (rp_parsers rp) (rp_timeout_secs rp) (env n) (tc_name c)
        (tc_arguments c) x = (out, x1)" by fastforce
    show ?thesis
    proof (cases out)
      case None
      with "2.prems" ran run show ?thesis by (auto simp: recorded_turn_def Let_def)
    next
      case (Some outcome)
      obtain ces x2 where d: "drain_cells (rp_parsers rp) x1 = (ces, x2)" by fastforce
      from "2.prems" ran run Some d show ?thesis
        using "2.IH"(1) [OF ran refl run [symmetric] Some refl d [symmetric] refl] cells [of "rp_parsers rp" x1] msg
        by (auto simp: Let_def)
    qed
  qed
qed

lemma executed_facts:
  assumes "execute_tool_calls rp env content reasoning calls x = (res, x', evs)"
  shows "ongoing evs"
    and "recorded_turn res = Some ms \<Longrightarrow> balanced ms \<and> list_all plain_parts ms"
proof -
  note facts = run_calls_facts [OF assms [unfolded execute_tool_calls_def]]
  then show "ongoing evs" by simp
  assume turn: "recorded_turn res = Some ms"
  with facts have "list_all (\<lambda>m. ms_parts m = None) ms" by (simp add: assistant_message_def)
  then have "list_all plain_parts ms" by (auto simp: list_all_iff plain_parts_def)
  moreover have "balanced ms"
    using recorded_turn_complete [of rp env content reasoning calls x ms] assms turn by (simp add: balanced_def)
  ultimately show "balanced ms \<and> list_all plain_parts ms" by simp
qed

abbreviation runner_frame :: "'t runner \<Rightarrow> 't runner \<Rightarrow> bool" where
  "runner_frame a b \<equiv> turn_frame (ru_agent a) (ru_agent b)"

lemma persist_simps [simp]:
  "ru_agent (persist a b rn) = ru_agent rn" "ru_exec (persist a b rn) = ru_exec rn"
  by (simp_all add: persist_def)

lemma on_agent_simps [simp]:
  "ru_agent (on_agent f rn) = f (ru_agent rn)" "ru_exec (on_agent f rn) = ru_exec rn"
  by (simp_all add: on_agent_def)

lemma turn_frame_interjections: "turn_frame a b \<Longrightarrow> turn_frame a (drain_interjections kit today prompts b)"
  by (simp add: drain_interjections_def turn_frame_user)

lemma notifications_frame: "runner_frame a b \<Longrightarrow> runner_frame a (inject_notifications kit today b)"
  by (simp add: inject_notifications_def drain_notifications_def turn_frame_user Let_def)

lemma turn_frame_pre_call:
  assumes "enforce_pre_call_budget kit ge tokens round ag = Some (act, ag')"
  shows "turn_frame ag ag'"
proof (cases "tokens = 0")
  case True
  with assms show ?thesis by (simp add: enforce_pre_call_budget_def)
next
  case False
  let ?w = "check_progressive_warnings (ak_est kit) (warning_thresholds (ag_config ag))
      (tokens * 100 div effective_budget (ag_config ag)) (effective_budget (ag_config ag)) (ag_store ag)"
  obtain w ag1 where inj: "note_injected (ge_today ge) ?w ag = (w, ag1)" by fastforce
  have one: "turn_frame ag ag1"
    using inj paired_warnings(1) [of "ag_store ag" "ak_est kit" "warning_thresholds (ag_config ag)"
        "tokens * 100 div effective_budget (ag_config ag)" "effective_budget (ag_config ag)"]
    by (cases ?w) (auto elim!: turn_frame_injected)
  have window: "turn_frame ag ag2" if "claim_compaction_window now ag1 = (b, ag2)" for now b ag2
    using one turn_frame_compaction_window [of ag1 now] that by (auto intro: turn_frame_trans)
  show ?thesis
    using assms False inj one
    by (auto simp: enforce_pre_call_budget_def take_pending_stop_def Let_def
        split: if_splits option.splits prod.splits bool.splits sum.splits compact_outcome.splits compaction_verdict.splits
        dest!: window turn_frame_summarize turn_frame_failure intro: turn_frame_trans)
qed

lemma turn_frame_post_stream:
  "turn_frame ag (snd (enforce_post_stream_budget kit today u ag))"
proof -
  define ag1 where "ag1 = (case u of None \<Rightarrow> ag
    | Some u \<Rightarrow> ag\<lparr>ag_store := accumulate_usage u (ag_store ag),
        ag_budget := record_usage (ucast (us_prompt u)) (ucast (us_completion u)) (ag_budget ag)\<rparr>)"
  have one: "turn_frame ag ag1" by (simp add: ag1_def turn_frame_def split: option.split)
  have inj: "turn_frame ag ag2"
    if "note_injected today (check_token_budget_warnings est t ws p (ag_store ag1)) ag1 = (w, ag2)"
    for est t ws p w ag2
    using that one paired_warnings(2) [of "ag_store ag1" est t ws p]
    by (cases "check_token_budget_warnings est t ws p (ag_store ag1)")
      (auto elim!: turn_frame_injected [THEN turn_frame_trans [OF one]])
  show ?thesis
    by (auto simp: enforce_post_stream_budget_def ag1_def [symmetric] Let_def split: prod.split dest!: inj)
qed

lemma turn_frame_response:
  assumes "acquire_response lk ri round messages ag = Some (ph, ag')"
  shows "turn_frame ag ag'"
  using assms
  by (auto simp: acquire_response_def split: option.splits acquire_result.splits
      dest!: turn_frame_acquire turn_frame_degrade intro: turn_frame_trans)

lemma response_frame: "runner_frame rn (snd (handle_response lk ri round co rn))"
proof -
  obtain res x evs where run: "execute_tool_calls (lk_params lk) (ri_calls ri) (co_content co) (co_reasoning co)
      (co_calls co) (ru_exec rn) = (res, x, evs)" by (metis prod_cases3)
  have evs: "turn_frame (ru_agent rn) (push_events evs (ru_agent rn))"
    using executed_facts(1) [OF run] by (simp add: turn_frame_push_events)
  have turn: "turn_frame (ru_agent rn) (snd (record_turn_entry kit today ms refs at (push_events evs (ru_agent rn))))"
    if "recorded_turn res = Some ms" for kit today ms refs at
    using evs executed_facts(2) [OF run that] by (simp add: turn_frame_record)
  show ?thesis
    using turn evs
    by (auto simp: handle_response_def run finish_turn_def recorded_turn_def Let_def split: tool_exec_result.split)
qed

lemma before_request_frame:
  assumes "before_request lk ri round rn = Some (ph, rn')"
  shows "runner_frame rn rn'"
proof -
  let ?rn1 = "on_agent (drain_interjections (lk_kit lk) (ri_today ri) (ri_prompts ri)
      \<circ> start_episode (ri_episode_now ri)) rn"
  let ?rn2 = "inject_notifications (lk_kit lk) (ri_today ri) ?rn1"
  have one: "runner_frame rn ?rn1" by (simp add: turn_frame_interjections)
  have two: "runner_frame rn ?rn2" using notifications_frame [OF one] .
  show ?thesis
    using assms one two
    by (auto simp: before_request_def Let_def split: if_splits dest!: turn_frame_pre_call intro: turn_frame_trans)
qed

lemma run_round_frame:
  assumes "run_round lk ri round rn = Some (r, rn')"
  shows "runner_frame rn rn'"
proof -
  from assms obtain ph rn1 where before: "before_request lk ri round rn = Some (ph, rn1)"
    by (auto simp: run_round_def split: option.splits)
  note one = before_request_frame [OF before]
  show ?thesis
  proof (cases ph)
    case (GoOn messages)
    with assms before obtain ph2 ag where resp: "acquire_response lk ri round messages (ru_agent rn1) = Some (ph2, ag)"
      by (auto simp: run_round_def split: option.splits)
    have two: "turn_frame (ru_agent rn) ag" using one turn_frame_response [OF resp] by (rule turn_frame_trans)
    show ?thesis
    proof (cases ph2)
      case (GoOn co)
      obtain ph3 ag3 where settle: "settle_response lk ri co ag = (ph3, ag3)" by fastforce
      have three: "turn_frame (ru_agent rn) ag3"
        using two turn_frame_post_stream [of ag "lk_kit lk" "ri_today ri" "co_usage co"] settle
        by (auto simp: settle_response_def split: prod.splits intro: turn_frame_trans)
      have four: "turn_frame (ru_agent rn) (ru_agent (snd (handle_response lk ri round c (rn1\<lparr>ru_agent := ag3\<rparr>))))" for c
        using three response_frame [of "rn1\<lparr>ru_agent := ag3\<rparr>" lk ri round c] by (auto intro: turn_frame_trans)
      from assms before resp settle three four \<open>ph = GoOn messages\<close> GoOn show ?thesis
        by (cases ph3) (auto simp: run_round_def split: prod.splits phase.splits, (metis snd_conv)+)
    qed (use assms before resp two \<open>ph = GoOn messages\<close> in \<open>auto simp: run_round_def\<close>)
  qed (use assms before one in \<open>auto simp: run_round_def\<close>)
qed

lemma run_rounds_frame: "run_rounds lk limit ris round rn = Some (r, rn') \<Longrightarrow> runner_frame rn rn'"
proof (induction ris arbitrary: round rn)
  case Nil
  then show ?case by (simp split: if_splits)
next
  case (Cons ri ris)
  then show ?case
    by (auto split: if_splits option.splits prod.splits dest!: run_round_frame intro: turn_frame_trans)
qed

section \<open>Every request is paired\<close>

text \<open>An acquisition that goes on keeps its messages or composes them anew.\<close>

definition kept_or_composed :: "message list \<Rightarrow> message list \<Rightarrow> 't agent \<Rightarrow> bool" where
  "kept_or_composed messages ms ag \<longleftrightarrow> ms = messages \<or> ms = compose_context (ag_store ag)"

lemma kept_simps [simp]:
  "kept_or_composed ms ms ag"
  "kept_or_composed messages ms (push_events es ag) = kept_or_composed messages ms ag"
  "kept_or_composed messages ms (start_episode now ag) = kept_or_composed messages ms ag"
proof -
  have "ag_store (start_episode now ag) = ag_store ag"
    by (simp add: start_episode_def release_unspent_window_def split: option.split)
  then show "kept_or_composed messages ms (start_episode now ag) = kept_or_composed messages ms ag"
    by (simp add: kept_or_composed_def)
qed (simp_all add: kept_or_composed_def push_events_def)

lemma of_walk_again: "of_walk r = (AgainWith ms, ag) \<longleftrightarrow> r = (Inl ms, ag)"
  by (auto simp: of_walk_def split: prod.splits sum.splits)

lemma advance_messages:
  "advance_failover build kit env round prior trigger ag = Some (Advanced a b ms, ag') \<Longrightarrow> kept_or_composed prior ms ag'"
  by (auto simp: kept_or_composed_def advance_failover_def advance_compact_def Let_def
      split: if_splits option.splits prod.splits sum.splits compact_outcome.splits compaction_verdict.splits)

lemma walk_messages:
  "walk_or_finish build kit env round messages failed ag = Some (Inl ms, ag') \<Longrightarrow> kept_or_composed messages ms ag'"
  by (auto simp: walk_or_finish_def Let_def split: option.splits failover_outcome.splits prod.splits dest: advance_messages)

lemma enter_messages:
  "enter_attempt build kit env round messages at ag = Some (AgainWith ms, ag') \<Longrightarrow> kept_or_composed messages ms ag'"
  by (auto simp: enter_attempt_def of_walk_again Let_def
      split: decision.splits stop_kind.splits option.splits sum.splits if_splits dest!: walk_messages)

lemma mid_stream_messages:
  "on_mid_stream_failure build kit env round messages text e ag = Some (Inl ms, ag') \<Longrightarrow> kept_or_composed messages ms ag'"
  by (auto simp: on_mid_stream_failure_def Let_def
      split: decision.splits stop_kind.splits option.splits if_splits dest!: walk_messages)

lemma once_messages:
  assumes "acquire_once build kit env round messages ag = Some (Inl ms, ag')"
  shows "kept_or_composed messages ms ag'"
proof -
  have failed: "request_failed build kit env round messages f a = Some (Inl ms, ag') \<Longrightarrow> kept_or_composed messages ms ag'" for f a
    by (cases f) (auto simp: request_failed_def Let_def dest!: walk_messages)
  have sent: "send_and_consume build kit env round messages a = Some (Inl ms, ag') \<Longrightarrow> kept_or_composed messages ms ag'" for a
    by (auto simp: send_and_consume_def Let_def split: option.splits prod.splits sum.splits stream_outcome.splits
        dest!: failed mid_stream_messages)
  show ?thesis
    using assms by (auto simp: acquire_once_def Let_def split: option.splits next_move.splits dest!: enter_messages sent)
qed

lemma acquire_requests_paired:
  "balanced messages \<Longrightarrow> store_paired (ag_store ag) \<Longrightarrow>
     list_all balanced (acquire_requests build kit envs round messages ag)"
proof (induction envs arbitrary: messages ag)
  case (Cons env envs)
  have "list_all balanced (acquire_requests build kit envs round ms ag')"
    if once: "acquire_once build kit env round messages ag = Some (Inl ms, ag')" for ms ag'
  proof (rule Cons.IH)
    show paired: "store_paired (ag_store ag')"
      using turn_frame_once [OF once] Cons.prems(2) by (simp add: turn_frame_def)
    show "balanced ms"
      using once_messages [OF once] Cons.prems(1) paired_context [OF paired] by (auto simp: kept_or_composed_def)
  qed
  then show ?case using Cons.prems(1) by (auto split: option.split sum.split)
qed simp

lemma plain_context: "store_paired s \<Longrightarrow> list_all plain_parts (compose_context s)"
  by (auto simp: store_paired_def turn_paired_def compose_context_def list_all_iff)

lemma before_request_messages:
  assumes "before_request lk ri round rn = Some (GoOn messages, rn1)" and "store_paired (ag_store (ru_agent rn))"
  shows "balanced messages"
proof -
  let ?rn1 = "on_agent (drain_interjections (lk_kit lk) (ri_today ri) (ri_prompts ri)
      \<circ> start_episode (ri_episode_now ri)) rn"
  let ?rn2 = "inject_notifications (lk_kit lk) (ri_today ri) ?rn1"
  have "runner_frame rn ?rn2" by (rule notifications_frame) (simp add: turn_frame_interjections)
  then have "store_paired (ag_store (ru_agent ?rn2))" using assms(2) by (simp add: turn_frame_def)
  moreover have "messages = compose_context (ag_store (ru_agent ?rn2))"
  proof -
    have "gate_phase m act = GoOn messages \<Longrightarrow> messages = m" for m act by (cases act) auto
    then show ?thesis using assms(1) by (auto simp: before_request_def Let_def split: if_splits)
  qed
  ultimately show ?thesis by (simp add: paired_context)
qed

lemma degrade_requests_paired:
  "store_paired (ag_store ag) \<Longrightarrow> list_all balanced (degrade_requests lk ri round e ag)"
  unfolding degrade_requests_def
  by (auto intro!: acquire_requests_paired balanced_stripped plain_context paired_context
      simp: start_episode_def release_unspent_window_def split: option.split)

lemma round_requests_paired:
  assumes "store_paired (ag_store (ru_agent rn))"
  shows "list_all balanced (round_requests lk ri round rn)"
proof -
  have "list_all balanced (acquire_requests (lk_build lk) (lk_kit lk) (ri_acquire ri) round messages (ru_agent rn1))
    \<and> (\<forall>e ag. acquire_stream (lk_build lk) (lk_kit lk) (ri_acquire ri) round messages (ru_agent rn1) = Some (AcqError e, ag)
         \<longrightarrow> list_all balanced (degrade_requests lk ri round e ag))"
    if b: "before_request lk ri round rn = Some (GoOn messages, rn1)" for messages rn1
  proof -
    have paired: "store_paired (ag_store (ru_agent rn1))"
      using before_request_frame [OF b] assms by (simp add: turn_frame_def)
    moreover have "store_paired (ag_store ag)"
      if "acquire_stream (lk_build lk) (lk_kit lk) (ri_acquire ri) round messages (ru_agent rn1) = Some (r, ag)" for r ag
      using turn_frame_acquire [OF that] paired by (simp add: turn_frame_def)
    ultimately show ?thesis
      using acquire_requests_paired [OF before_request_messages [OF b assms] paired] degrade_requests_paired by blast
  qed
  then show ?thesis
    by (auto simp: round_requests_def split: option.split phase.split acquire_result.split)
qed

lemma loop_requests_paired:
  "store_paired (ag_store (ru_agent rn)) \<Longrightarrow> list_all balanced (loop_requests lk limit ris round rn)"
proof (induction ris arbitrary: round rn)
  case (Cons ri ris)
  have "list_all balanced (loop_requests lk limit ris (Suc round) rn')"
    if "run_round lk ri round rn = Some (None, rn')" for rn'
    using Cons.IH run_round_frame [OF that] Cons.prems by (simp add: turn_frame_def)
  then show ?case using round_requests_paired [OF Cons.prems] by (auto split: option.split)
qed simp

section \<open>What a round adds to the conversation\<close>

definition grows :: "nat \<Rightarrow> 't agent \<Rightarrow> 't agent \<Rightarrow> bool" where
  "grows k a b \<longleftrightarrow>
     (if acquire_ok a
      then acquire_ok b \<and> fo_profiles (ag_failover b) = fo_profiles (ag_failover a)
        \<and> cf_retry (ag_config b) = cf_retry (ag_config a)
        \<and> length (conversation (ag_store b)) \<le> length (conversation (ag_store a)) + k
      else True)"

lemma grows_refl [simp]: "grows k a a"
  by (simp add: grows_def)

lemma grows_trans: "grows j a b \<Longrightarrow> grows k b c \<Longrightarrow> j + k \<le> n \<Longrightarrow> grows n a c"
  by (auto simp: grows_def split: if_splits)

lemma grows_frame: "(acquire_ok a \<Longrightarrow> acquire_frame a b) \<Longrightarrow> grows k a b"
  by (auto simp: grows_def acquire_frame_def dest!: suffix_length_le)

lemma grows_ledger [simp]: "grows k a (b\<lparr>ag_compaction := l\<rparr>) = grows k a b"
proof -
  have "acquire_ok (b\<lparr>ag_compaction := l\<rparr>) = acquire_ok b" by (simp add: acquire_ok_def)
  then show ?thesis by (simp add: grows_def)
qed

lemma grows_outside: "outside_frame a b \<Longrightarrow> grows k a b"
  using outside_frameD(2) [of a b] by (auto intro: grows_frame)

lemma grows_record: "grows (Suc 0) a (snd (record_turn_entry kit today ms refs at a))"
  by (auto simp: grows_def record_turn_entry_def acquire_ok_def conversation_def push_turn_def Let_def
      split: prod.split dest: store_ok_push [where est = "ak_est kit" and ms = ms])

lemma grows_store:
  assumes "agent_frame a b" and "compacts_to (ag_store a) (ag_store b)"
  shows "grows k a b"
  using assms by (auto simp: grows_def agent_frame_def compacts_to_def acquire_ok_def dest: suffix_length_le)

lemma grows_failure: "note_compaction_failure kit fe err round a = (v, b) \<Longrightarrow> grows k a b"
  by (cases rule: note_failure_cases, assumption)
    (auto simp: grows_def agent_frame_def acquire_ok_def same_but_log_views conversation_def)

lemma grows_compaction: "summarize_and_evict kit pvs a = Some (r, b) \<Longrightarrow> grows k a b"
  using grows_store [of a b k] summarize_loop_spec [of kit pvs False a r b]
  by (auto simp: summarize_and_evict_def grows_def acquire_ok_def)

lemma grows_window: "grows k a (snd (claim_compaction_window now a))"
proof -
  have "grows k a (snd (claim_window_for p now System a))" for p
    by (rule grows_outside, rule claim_outside_frame)
  then show ?thesis
    by (auto simp: claim_compaction_window_def split: option.split prod.split) (metis snd_conv)+
qed

lemma grows_injected:
  assumes "note_injected today (w, s) a = (w', b)" and "store_ok (ag_store a) \<Longrightarrow> store_ok s"
    and "length (conversation s) \<le> length (conversation (ag_store a)) + 1"
  shows "grows (Suc 0) a b"
  using assms note_injected_facts [OF assms(1)] by (simp add: grows_def acquire_ok_def agent_frame_def)

lemma warned_conversation:
  "length (conversation (snd (check_progressive_warnings est ws pct eff s))) \<le> length (conversation s) + 1"
  "length (conversation (snd (check_token_budget_warnings est t ws p s))) \<le> length (conversation s) + 1"
  by (simp_all add: check_progressive_warnings_def check_token_budget_warnings_def push_turn_def
      reset_context_warnings_def conversation_def Let_def split: option.split)

lemma clear_ledger_outside [simp]: "grows k a (clear_ledger now b) = grows k a b"
  by (simp add: clear_ledger_def)

lemma grows_pre_call:
  assumes "enforce_pre_call_budget kit ge tokens round ag = Some (act, ag')"
  shows "grows (Suc 0) ag ag'"
proof (cases "tokens = 0")
  case True
  with assms show ?thesis by (simp add: enforce_pre_call_budget_def)
next
  case False
  let ?ws = "warning_thresholds (ag_config ag)" and ?eff = "effective_budget (ag_config ag)"
  let ?w = "check_progressive_warnings (ak_est kit) ?ws (tokens * 100 div ?eff) ?eff (ag_store ag)"
  obtain w ag1 where inj: "note_injected (ge_today ge) ?w ag = (w, ag1)" by fastforce
  have one: "grows (Suc 0) ag ag1"
    using inj warned_conversation(1) [of "ak_est kit" ?ws "tokens * 100 div ?eff" ?eff "ag_store ag"]
      store_ok_warnings(1) [of "ag_store ag" "ak_est kit" ?ws "tokens * 100 div ?eff" ?eff]
    by (cases ?w) (auto elim!: grows_injected)
  have window: "grows (Suc 0) ag ag2" if "claim_compaction_window now ag1 = (b, ag2)" for now b ag2
    using one grows_window [of 0 ag1 now] that by (auto intro: grows_trans)
  have compacted: "grows (Suc 0) ag ag3" if "summarize_and_evict kit (ge_passes ge) ag2 = Some (r, ag3)" "grows (Suc 0) ag ag2"
    for ag2 ag3 r
    using grows_trans [OF that(2) grows_compaction [OF that(1), of 0]] by simp
  have failed: "grows (Suc 0) ag ag4" if "note_compaction_failure kit (ge_failure ge) err round ag3 = (v, ag4)" "grows (Suc 0) ag ag3"
    for ag3 ag4 err v
    using grows_trans [OF that(2) grows_failure [OF that(1), of 0]] by simp
  show ?thesis
    using assms False inj one
    by (auto simp: enforce_pre_call_budget_def take_pending_stop_def Let_def
        split: if_splits option.splits prod.splits bool.splits sum.splits compact_outcome.splits compaction_verdict.splits
        dest!: window intro: compacted failed)
qed

lemma grows_post_stream: "grows (Suc 0) ag (snd (enforce_post_stream_budget kit today u ag))"
proof -
  define ag1 where "ag1 = (case u of None \<Rightarrow> ag
    | Some u \<Rightarrow> ag\<lparr>ag_store := accumulate_usage u (ag_store ag),
        ag_budget := record_usage (ucast (us_prompt u)) (ucast (us_completion u)) (ag_budget ag)\<rparr>)"
  have one: "grows 0 ag ag1"
    by (simp add: ag1_def grows_def acquire_ok_def accumulate_usage_def conversation_def store_ok_def split: option.split)
  have inj: "grows (Suc 0) ag ag2"
    if "note_injected today (check_token_budget_warnings est t ws p (ag_store ag1)) ag1 = (w, ag2)"
    for est t ws p w ag2
    using that warned_conversation(2) [of est t ws p "ag_store ag1"] store_ok_warnings(2) [of "ag_store ag1" est t ws p]
    by (cases "check_token_budget_warnings est t ws p (ag_store ag1)")
      (auto elim!: grows_injected [THEN grows_trans [OF one]])
  show ?thesis
    by (auto simp: enforce_post_stream_budget_def ag1_def [symmetric] Let_def split: prod.split dest!: inj)
qed

text \<open>Enough answers for a round on a conversation of at most \<open>c\<close> turns: a summary per turn, and for every
  profile of the chain more turns of the acquisition than its sends.\<close>

definition acquire_covers :: "nat \<Rightarrow> 't agent \<Rightarrow> acquire_env list \<Rightarrow> bool" where
  "acquire_covers c ag envs \<longleftrightarrow>
     length (fo_profiles (ag_failover ag)) * (unat (max_sends (cf_retry (ag_config ag))) + 1) \<le> length envs
     \<and> (\<forall>env \<in> set envs. c \<le> length (we_passes (ae_walk env))
          \<and> unat (max_sends (cf_retry (ag_config ag))) < length (ae_sends env))"

definition input_covers :: "nat \<Rightarrow> 't agent \<Rightarrow> round_input \<Rightarrow> bool" where
  "input_covers c ag ri \<longleftrightarrow> c \<le> length (ge_passes (ri_gate ri))
     \<and> acquire_covers c ag (ri_acquire ri) \<and> acquire_covers c ag (ri_degrade ri)"

lemma turns_left_bound:
  assumes "acquire_ok ag"
  shows "turns_left ag < length (fo_profiles (ag_failover ag)) * (unat (max_sends (cf_retry (ag_config ag))) + 1)"
proof -
  let ?n = "length (fo_profiles (ag_failover ag))" and ?i = "fo_idx (ag_failover ag)"
  let ?S = "unat (max_sends (cf_retry (ag_config ag)))"
  have "?i < ?n" using assms by (simp add: acquire_ok_def failover_ok_def)
  then have "(?n - 1 - ?i) + 1 \<le> ?n" by simp
  then have "((?n - 1 - ?i) + 1) * (?S + 1) \<le> ?n * (?S + 1)" by (rule mult_le_mono1)
  then show ?thesis
    unfolding turns_left_def Let_def add_mult_distrib [of _ 1] by simp
qed

lemma acquire_returns:
  assumes "acquire_ok ag" and "acquire_covers c ag envs" and "length (conversation (ag_store ag)) \<le> c"
  shows "\<exists>r ag'. acquire_stream build kit envs round messages ag = Some (r, ag') \<and> acquire_frame ag ag'"
proof (rule acquire_stream_facts [OF assms(1)])
  show "list_all (env_covers ag) envs"
    using assms(2,3) by (auto simp: acquire_covers_def env_covers_def list_all_iff)
  show "turns_left ag < length envs"
    using turns_left_bound [OF assms(1)] assms(2) by (simp add: acquire_covers_def)
qed

lemma acquire_covers_grows:
  "grows k a b \<Longrightarrow> acquire_ok a \<Longrightarrow> acquire_covers c a envs \<Longrightarrow> acquire_covers c b envs"
  by (simp add: grows_def acquire_covers_def)

lemma pre_call_returns:
  assumes "acquire_ok ag" and "length (conversation (ag_store ag)) + 1 \<le> length (ge_passes ge)"
  shows "enforce_pre_call_budget kit ge tokens round ag \<noteq> None"
proof (cases "tokens = 0")
  case True
  then show ?thesis by (simp add: enforce_pre_call_budget_def)
next
  case False
  let ?ws = "warning_thresholds (ag_config ag)" and ?eff = "effective_budget (ag_config ag)"
  let ?w = "check_progressive_warnings (ak_est kit) ?ws (tokens * 100 div ?eff) ?eff (ag_store ag)"
  obtain w ag1 where inj: "note_injected (ge_today ge) ?w ag = (w, ag1)" by fastforce
  have one: "grows (Suc 0) ag ag1"
    using inj warned_conversation(1) [of "ak_est kit" ?ws "tokens * 100 div ?eff" ?eff "ag_store ag"]
      store_ok_warnings(1) [of "ag_store ag" "ak_est kit" ?ws "tokens * 100 div ?eff" ?eff]
    by (cases ?w) (auto elim!: grows_injected)
  have sum: "summarize_and_evict kit (ge_passes ge) ag2 \<noteq> None"
    if "claim_compaction_window now ag1 = (b, ag2)" for now b ag2
  proof -
    have "grows (Suc 0) ag ag2"
      using grows_window [of 0 ag1 now] one that by (auto intro: grows_trans)
    then have "store_ok (ag_store ag2)" "length (conversation (ag_store ag2)) \<le> length (ge_passes ge)"
      using assms by (auto simp: grows_def acquire_ok_def)
    then show ?thesis
      using summarize_loop_returns [of ag2 "ge_passes ge" kit False] by (auto simp: summarize_and_evict_def)
  qed
  show ?thesis
    using False inj
    by (auto simp: enforce_pre_call_budget_def Let_def split: option.split prod.split bool.split sum.split
        compact_outcome.split compaction_verdict.split dest!: sum)
qed

lemma grows_interjections: "grows (Suc 0) ag (drain_interjections kit today prompts (start_episode now ag))"
proof -
  have start: "grows k ag (start_episode now ag)" for k by (rule grows_outside) simp
  then show ?thesis
    by (auto simp: drain_interjections_def record_turn_def intro!: grows_trans [OF start [of 0] grows_record])
qed

lemma notifications_grow: "grows (Suc 0) (ru_agent rn) (ru_agent (inject_notifications kit today rn))"
  by (simp add: inject_notifications_def drain_notifications_def record_turn_def grows_record Let_def)

lemma before_request_returns:
  assumes "acquire_ok (ru_agent rn)" and "length (conversation (ag_store (ru_agent rn))) + 3 \<le> length (ge_passes (ri_gate ri))"
  shows "\<exists>ph rn'. before_request lk ri round rn = Some (ph, rn') \<and> grows 3 (ru_agent rn) (ru_agent rn')"
proof -
  let ?rn1 = "on_agent (drain_interjections (lk_kit lk) (ri_today ri) (ri_prompts ri)
      \<circ> start_episode (ri_episode_now ri)) rn"
  let ?rn2 = "inject_notifications (lk_kit lk) (ri_today ri) ?rn1"
  have one: "grows (Suc 0) (ru_agent rn) (ru_agent ?rn1)" by (simp add: grows_interjections)
  have two: "grows 2 (ru_agent rn) (ru_agent ?rn2)"
    by (rule grows_trans [OF one notifications_grow]) simp
  then have "acquire_ok (ru_agent ?rn2)"
    "length (conversation (ag_store (ru_agent ?rn2))) + 1 \<le> length (ge_passes (ri_gate ri))"
    using assms by (auto simp: grows_def)
  then obtain act ag where gate: "enforce_pre_call_budget (lk_kit lk) (ri_gate ri) (prompt_estimate lk ri ?rn2) round
      (ru_agent ?rn2) = Some (act, ag)"
    using pre_call_returns by fastforce
  have three: "grows 3 (ru_agent rn) ag"
    by (rule grows_trans [OF two grows_pre_call [OF gate]]) simp
  have small: "grows 3 (ru_agent rn) (ru_agent ?rn1)" "grows 3 (ru_agent rn) (ru_agent ?rn2)"
    using one two by (auto simp: grows_def)
  show ?thesis
    using gate small three
    by (auto simp: before_request_def Let_def)
qed

lemma store_ok_strip: "store_ok s \<Longrightarrow> store_ok (strip_turns kit ids s)"
  by (rule store_ok_keys)
    (auto simp: strip_turns_def mark_needs_full_estimate_def store_ok_def turn_key_def label_of_def is_pinned_def Let_def)

lemma conversation_strip: "length (conversation (strip_turns kit ids s)) = length (conversation s)"
proof -
  have same: "is_pinned (t\<lparr>tu_messages := ms, tu_tokens := n\<rparr>) = is_pinned t" for t ms n
    by (simp add: is_pinned_def)
  have "(P \<longrightarrow> \<not> Q) \<and> (\<not> P \<longrightarrow> \<not> Q) \<longleftrightarrow> \<not> Q" for P Q by blast
  with same show ?thesis
    by (simp add: conversation_def strip_turns_def mark_needs_full_estimate_def filter_map comp_def Let_def)
qed

lemma acquire_response_returns:
  assumes "acquire_ok ag" and "input_covers c ag ri" and "length (conversation (ag_store ag)) \<le> c"
  shows "\<exists>ph ag'. acquire_response lk ri round messages ag = Some (ph, ag') \<and> grows (Suc 0) ag ag'"
proof -
  obtain r ag1 where first: "acquire_stream (lk_build lk) (lk_kit lk) (ri_acquire ri) round messages ag = Some (r, ag1)"
    "acquire_frame ag ag1"
    using acquire_returns [of ag c "ri_acquire ri" "lk_build lk" "lk_kit lk" round messages] assms
    by (auto simp: input_covers_def)
  have one: "grows k ag ag1" for k using first(2) by (rule grows_frame)
  show ?thesis
  proof (cases r)
    case (AcqError e)
    let ?kit = "lk_kit lk" and ?ag2 = "start_episode (ri_degrade_now ri) ag1"
    have two: "grows k ag ?ag2" for k
      by (rule grows_trans [OF one [of 0] grows_outside [of ag1 ?ag2 0]]) simp_all
    then have start: "acquire_ok ?ag2" "length (conversation (ag_store ?ag2)) \<le> c"
      using two [of 0] assms(1,3) by (auto simp: grows_def)
    have cover: "acquire_covers c ?ag2 (ri_degrade ri)"
      using acquire_covers_grows [OF two [of 0] assms(1)] assms(2) by (simp add: input_covers_def)
    obtain q ag3 where again: "acquire_stream (lk_build lk) ?kit (ri_degrade ri) round
        (map stripped (compose_context (ag_store ag1))) ?ag2 = Some (q, ag3)" "acquire_frame ?ag2 ag3"
      using acquire_returns [OF start(1) cover start(2)] by blast
    have three: "grows k ag ag3" for k
      by (rule grows_trans [OF two [of 0] grows_frame [of ?ag2 ag3 0]]) (simp_all add: again(2))
    define ids where "ids = map (\<lambda>t. id_num (tu_id t))
      (filter (\<lambda>t. list_ex message_has_images (tu_messages t)) (cs_turns (ag_store ag1)))"
    have strip: "grows (Suc 0) ag (snd (record_turn ?kit (ri_today ri) ms (ag3\<lparr>ag_store := strip_turns ?kit ids (ag_store ag3)\<rparr>)))" for ms
    proof -
      have "grows 0 ag3 (ag3\<lparr>ag_store := strip_turns ?kit ids (ag_store ag3)\<rparr>)"
        using store_ok_strip [of "ag_store ag3"] by (simp add: grows_def acquire_ok_def conversation_strip)
      then show ?thesis
        unfolding record_turn_def by (rule grows_trans [OF grows_trans [OF three [of 0]] grows_record]) simp_all
    qed
    obtain out x where deg: "degrade_on_image_rejection (lk_build lk) ?kit (ri_degrade ri) (ri_degrade_now ri)
        (ri_today ri) e round ag1 = Some (out, x)" "grows (Suc 0) ag x"
      using again(1) one [of 1] three [of 1] strip
      unfolding degrade_on_image_rejection_def Let_def ids_def [symmetric]
      by (cases "fatal_provider_status e"; cases "ids = []"; cases q) auto
    then show ?thesis using first(1) AcqError by (simp add: acquire_response_def)
  qed (use first(1) one in \<open>auto simp: acquire_response_def\<close>)
qed

lemma push_events_grows: "grows k a (push_events es b) = grows k a b"
proof -
  have "acquire_ok (push_events es b) = acquire_ok b" by (simp add: push_events_def acquire_ok_def)
  then show ?thesis by (simp add: grows_def push_events_def)
qed

lemma response_grows: "grows (Suc 0) (ru_agent rn) (ru_agent (snd (handle_response lk ri round co rn)))"
proof -
  obtain res x evs where run: "execute_tool_calls (lk_params lk) (ri_calls ri) (co_content co) (co_reasoning co)
      (co_calls co) (ru_exec rn) = (res, x, evs)" by (metis prod_cases3)
  let ?told = "push_events evs (ru_agent rn)"
  have told: "grows k (ru_agent rn) ?told" for k by (simp add: push_events_grows)
  have "grows (Suc 0) (ru_agent rn) (snd (record_turn_entry kit today ms refs at ?told))" for kit today ms refs at
    by (rule grows_trans [OF told [of 0] grows_record]) simp
  then show ?thesis
    using told by (auto simp: handle_response_def run finish_turn_def Let_def split: tool_exec_result.split)
qed

lemma run_round_returns:
  assumes "acquire_ok (ru_agent rn)" and "length (conversation (ag_store (ru_agent rn))) + 3 \<le> c"
    and "input_covers c (ru_agent rn) ri"
  shows "\<exists>r rn'. run_round lk ri round rn = Some (r, rn') \<and> grows 6 (ru_agent rn) (ru_agent rn')"
proof -
  obtain ph rn1 where before: "before_request lk ri round rn = Some (ph, rn1)" "grows 3 (ru_agent rn) (ru_agent rn1)"
    using before_request_returns [OF assms(1), of ri lk round] assms(2,3) by (fastforce simp: input_covers_def)
  have one: "grows 6 (ru_agent rn) (ru_agent rn1)" by (rule grows_trans [OF before(2) grows_refl [of 0]]) simp
  show ?thesis
  proof (cases ph)
    case (GoOn messages)
    have ok: "acquire_ok (ru_agent rn1)" "length (conversation (ag_store (ru_agent rn1))) \<le> c"
      "input_covers c (ru_agent rn1) ri"
      using before(2) assms acquire_covers_grows [OF before(2) assms(1)] by (auto simp: grows_def input_covers_def)
    obtain ph2 ag where resp: "acquire_response lk ri round messages (ru_agent rn1) = Some (ph2, ag)"
      "grows (Suc 0) (ru_agent rn1) ag"
      using acquire_response_returns [OF ok(1,3,2), of lk round messages] by blast
    have two: "grows 4 (ru_agent rn) ag" by (rule grows_trans [OF before(2) resp(2)]) simp
    have two': "grows 6 (ru_agent rn) ag" by (rule grows_trans [OF two grows_refl [of 0]]) simp
    show ?thesis
    proof (cases ph2)
      case (GoOn co)
      obtain ph3 ag3 where settle: "settle_response lk ri co ag = (ph3, ag3)" by fastforce
      have three: "grows 5 (ru_agent rn) ag3"
        using grows_trans [OF two grows_post_stream [of ag "lk_kit lk" "ri_today ri" "co_usage co"], of 5] settle
        by (auto simp: settle_response_def split: prod.splits)
      have three': "grows 6 (ru_agent rn) ag3" by (rule grows_trans [OF three grows_refl [of 0]]) simp
      have four: "grows 6 (ru_agent rn) (ru_agent (snd (handle_response lk ri round d (rn1\<lparr>ru_agent := ag3\<rparr>))))" for d
        using grows_trans [OF three, of "Suc 0" _ 6] response_grows [of "rn1\<lparr>ru_agent := ag3\<rparr>" lk ri round d] by simp
      show ?thesis
      proof (cases ph3)
        case (GoOn d)
        obtain ph4 rn4 where handled: "handle_response lk ri round d (rn1\<lparr>ru_agent := ag3\<rparr>) = (ph4, rn4)" by fastforce
        with four [of d] have "grows 6 (ru_agent rn) (ru_agent rn4)" by simp
        with before(1) resp(1) settle handled GoOn \<open>ph = GoOn messages\<close> \<open>ph2 = GoOn co\<close> show ?thesis
          by (cases ph4) (simp_all add: run_round_def)
      qed (use before(1) resp(1) settle three' \<open>ph = GoOn messages\<close> \<open>ph2 = GoOn co\<close> in
          \<open>simp_all add: run_round_def\<close>)
    qed (use before(1) resp(1) two' \<open>ph = GoOn messages\<close> in \<open>simp_all add: run_round_def\<close>)
  qed (use before(1) one in \<open>simp_all add: run_round_def\<close>)
qed

lemma input_covers_grows: "grows k a b \<Longrightarrow> acquire_ok a \<Longrightarrow> input_covers c a ri \<Longrightarrow> input_covers c b ri"
  by (auto simp: input_covers_def intro: acquire_covers_grows)

lemma run_rounds_returns:
  "acquire_ok (ru_agent rn) \<Longrightarrow> limit \<le> round + length ris \<Longrightarrow>
     (\<forall>i < length ris. round + i < limit \<longrightarrow>
        input_covers (length (conversation (ag_store (ru_agent rn))) + 6 * i + 3) (ru_agent rn) (ris ! i)) \<Longrightarrow>
     \<exists>r rn'. run_rounds lk limit ris round rn = Some (r, rn')
       \<and> grows (6 * (limit - round)) (ru_agent rn) (ru_agent rn')"
proof (induction ris arbitrary: round rn)
  case Nil
  then show ?case by simp
next
  case (Cons ri ris)
  let ?conv = "\<lambda>rn. length (conversation (ag_store (ru_agent rn)))"
  show ?case
  proof (cases "limit \<le> round")
    case False
    then have "input_covers (?conv rn + 3) (ru_agent rn) ri" using Cons.prems(3) by force
    from run_round_returns [OF Cons.prems(1) _ this, of lk round] obtain r rn1 where
      round: "run_round lk ri round rn = Some (r, rn1)" and grow: "grows 6 (ru_agent rn) (ru_agent rn1)" by auto
    have ok: "acquire_ok (ru_agent rn1)" "?conv rn1 \<le> ?conv rn + 6"
      using grow Cons.prems(1) by (auto simp: grows_def)
    have cover: "\<forall>i < length ris. Suc round + i < limit \<longrightarrow>
        input_covers (?conv rn1 + 6 * i + 3) (ru_agent rn1) (ris ! i)"
    proof (intro allI impI)
      fix i assume "i < length ris" "Suc round + i < limit"
      then have "input_covers (?conv rn + 6 * Suc i + 3) (ru_agent rn) ((ri # ris) ! Suc i)"
        using Cons.prems(3) by auto
      then have "input_covers (?conv rn + 6 * Suc i + 3) (ru_agent rn1) (ris ! i)"
        using input_covers_grows [OF grow Cons.prems(1)] by simp
      then show "input_covers (?conv rn1 + 6 * i + 3) (ru_agent rn1) (ris ! i)"
        using ok(2) by (auto simp: input_covers_def acquire_covers_def)
    qed
    from False have left: "6 + 6 * (limit - Suc round) \<le> 6 * (limit - round)" by simp
    show ?thesis
    proof (cases r)
      case None
      have "limit \<le> Suc round + length ris" using Cons.prems(2) by simp
      from Cons.IH [OF ok(1) this cover] obtain q rn' where
        rest: "run_rounds lk limit ris (Suc round) rn1 = Some (q, rn')"
        and more: "grows (6 * (limit - Suc round)) (ru_agent rn1) (ru_agent rn')" by blast
      with None round False grows_trans [OF grow more left] show ?thesis by simp
    next
      case (Some q)
      with round False grows_trans [OF grow grows_refl [of 0]] left show ?thesis by simp
    qed
  qed simp
qed

lemma agent_rounds_return:
  assumes "acquire_ok (ru_agent rn)" and "cf_max_tool_rounds (ag_config (ru_agent rn)) \<le> length ris"
    and "\<forall>i < length ris. i < cf_max_tool_rounds (ag_config (ru_agent rn)) \<longrightarrow>
      input_covers (length (conversation (ag_store (ru_agent rn))) + 6 * i + 3) (ru_agent rn) (ris ! i)"
  shows "\<exists>r rn'. run_agent_rounds lk ris rn = Some (r, rn')
    \<and> grows (6 * cf_max_tool_rounds (ag_config (ru_agent rn))) (ru_agent rn) (ru_agent rn')"
proof -
  obtain r rn' where run: "run_rounds lk (cf_max_tool_rounds (ag_config (ru_agent rn))) ris 0 rn = Some (r, rn')"
    and grow: "grows (6 * cf_max_tool_rounds (ag_config (ru_agent rn))) (ru_agent rn) (ru_agent rn')"
    using run_rounds_returns [OF assms(1), of "cf_max_tool_rounds (ag_config (ru_agent rn))" 0 ris lk] assms(2,3) by auto
  have "grows 0 (ru_agent rn') (release_unspent_window (ru_agent rn'))" by (rule grows_outside) simp
  from grows_trans [OF grow this] run show ?thesis by (simp add: run_agent_rounds_def)
qed

section \<open>Properties\<close>

text \<open>C10. The round loop keeps the context valid for the provider: if in every stored turn each tool
  call is answered and each result answers a call, this holds of the messages of every request for a response that the
  loop makes, in whatever round: the first send and its repeats, what is sent again after a dropped stream or, rebuilt,
  on the next profile of the chain, and the resend without images. It still holds of the store when the loop ends,
  however it ends, and nothing the loop reports ends the turn. (The request of a summary is one text, not a context.)\<close>

theorem rounds_keep_context_paired:
  assumes "store_paired (ag_store (ru_agent rn))"
  shows "list_all balanced (loop_requests lk (cf_max_tool_rounds (ag_config (ru_agent rn))) ris 0 rn)
     \<and> (case run_agent_rounds lk ris rn of
       None \<Rightarrow> True
     | Some (r, rn') \<Rightarrow> store_paired (ag_store (ru_agent rn')) \<and> balanced (compose_context (ag_store (ru_agent rn')))
         \<and> (\<exists>es. ag_events (ru_agent rn') = ag_events (ru_agent rn) @ es \<and> ongoing es))"
proof -
  have frame: "runner_frame rn rn'" if "run_agent_rounds lk ris rn = Some (r, rn')" for r rn'
    using that by (auto simp: run_agent_rounds_def dest!: run_rounds_frame)
  show ?thesis
    using frame loop_requests_paired [OF assms] assms
    by (auto simp: turn_frame_def paired_context split: option.split prod.split)
qed

text \<open>C11. The round loop always comes back: on a well-formed agent, with an input for each round of its
  limit that answers for the chain and for the conversation as it may have grown, the loop ends, whatever the
  prompts, the failures of the backend and the answers of the tools.\<close>

theorem round_loop_returns:
  assumes "acquire_ok (ru_agent rn)" and "cf_max_tool_rounds (ag_config (ru_agent rn)) \<le> length ris"
    and "\<forall>i < length ris. input_covers (length (conversation (ag_store (ru_agent rn))) + 6 * i + 3) (ru_agent rn) (ris ! i)"
  shows "\<exists>r rn'. run_agent_rounds lk ris rn = Some (r, rn')"
  using agent_rounds_return [OF assms(1,2), of lk] assms(3) by blast

definition demo_runner :: "pacing_table runner" where
  "demo_runner = \<lparr>ru_agent = demo_agent\<lparr>ag_config := demo_config\<lparr>cf_max_tool_rounds := 1\<rparr>\<rparr>,
     ru_exec = demo_executor, ru_has_dir = False, ru_saved_store = None, ru_saved_approvals = None,
     ru_persist_failures = 0\<rparr>"

definition demo_loop :: loop_kit where
  "demo_loop = \<lparr>lk_kit = demo_kit, lk_build = (\<lambda>_. True),
     lk_params = \<lparr>rp_parsers = demo_parsers, rp_render = (\<lambda>_. ''reply''), rp_estimate = length, rp_timeout_secs = 60\<rparr>,
     lk_render = length, lk_full = (\<lambda>_. 1000)\<rparr>"

definition demo_pass :: pass_env where
  "demo_pass = \<lparr>pv_reply = Answered (Some ''so far'') None, pv_elapsed = 1, pv_today = ''d''\<rparr>"

definition demo_input :: round_input where
  "demo_input =
     (let envs = replicate 36 (demo_acquire_env\<lparr>ae_walk := demo_walk\<lparr>we_passes := replicate 3 demo_pass\<rparr>\<rparr>)
      in \<lparr>ri_episode_now = 1001, ri_prompts = [(''hello'', None)], ri_today = ''d'', ri_estimate = Estimated,
          ri_gate = \<lparr>ge_now = 1001, ge_passes = replicate 3 demo_pass, ge_clear_now = 1001,
            ge_failure = \<lparr>fe_now = 1001, fe_jitter = 0, fe_log_now = 1001, fe_wait_jitter = 0, fe_today = ''d''\<rparr>,
            ge_today = ''d'', ge_cancelled = False\<rparr>,
          ri_acquire = envs, ri_degrade_now = 1001, ri_degrade = envs, ri_elapsed = 5,
          ri_calls = (\<lambda>_. \<lparr>rn_id = ''i'', rn_now = 1001, rn_answer = Inl ''down'', rn_interruption = InTime\<rparr>),
          ri_store_saved = True, ri_approvals_saved = True\<rparr>)"

lemma demo_loop_covered:
  "acquire_ok (ru_agent demo_runner)" "cf_max_tool_rounds (ag_config (ru_agent demo_runner)) \<le> length [demo_input]"
  "\<forall>i < length [demo_input]. input_covers (length (conversation (ag_store (ru_agent demo_runner))) + 6 * i + 3)
     (ru_agent demo_runner) ([demo_input] ! i)"
proof -
  have "acquire_ok demo_agent"
    by (simp add: acquire_ok_def demo_agent_def demo_chain_def failover_new_ok store_ok_new)
  then show "acquire_ok (ru_agent demo_runner)" by (simp add: demo_runner_def acquire_ok_def)
  show "cf_max_tool_rounds (ag_config (ru_agent demo_runner)) \<le> length [demo_input]"
    by (simp add: demo_runner_def)
  have sends: "unat (max_sends (cf_retry (ag_config (ru_agent demo_runner)))) = 11"
    by (simp add: demo_runner_def demo_config_def default_policy_def max_sends_def sat_add_def)
  have chain: "length (fo_profiles (ag_failover (ru_agent demo_runner))) = 3"
    by (simp add: demo_runner_def demo_agent_def failover_new_def demo_chain_def)
  have empty: "conversation (ag_store (ru_agent demo_runner)) = []"
    by (simp add: demo_runner_def demo_agent_def conversation_def store_new_def)
  have "input_covers 3 (ru_agent demo_runner) demo_input"
    using sends chain by (simp add: input_covers_def acquire_covers_def demo_input_def demo_acquire_env_def Let_def)
  then show "\<forall>i < length [demo_input]. input_covers (length (conversation (ag_store (ru_agent demo_runner))) + 6 * i + 3)
      (ru_agent demo_runner) ([demo_input] ! i)"
    using empty by simp
qed

theorem round_loop_returns_witness:
  "\<exists>r rn'. run_agent_rounds demo_loop [demo_input] demo_runner = Some (r, rn')"
  by (rule round_loop_returns) (fact demo_loop_covered)+

theorem rounds_keep_context_paired_witness:
  "\<exists>r rn'. run_agent_rounds demo_loop [demo_input] demo_runner = Some (r, rn')
     \<and> balanced (compose_context (ag_store (ru_agent rn')))
     \<and> list_all balanced (loop_requests demo_loop 1 [demo_input] 0 demo_runner)"
proof -
  obtain r rn' where run: "run_agent_rounds demo_loop [demo_input] demo_runner = Some (r, rn')"
    using agent_rounds_return [OF demo_loop_covered(1,2), of demo_loop] demo_loop_covered(3) by blast
  have limit: "cf_max_tool_rounds (ag_config (ru_agent demo_runner)) = 1" by (simp add: demo_runner_def)
  have "store_paired (ag_store (ru_agent demo_runner))"
    by (simp add: demo_runner_def demo_agent_def store_new_def store_paired_def)
  from rounds_keep_context_paired [OF this, of demo_loop "[demo_input]"] run show ?thesis by (simp add: limit)
qed

lemma spent_budget_ends:
  assumes "is_exceeded (ag_budget (ru_agent rn))" and "0 < cf_max_tool_rounds (ag_config (ru_agent rn))"
  shows "\<exists>rn'. run_agent_rounds lk (ri # ris) rn = Some (Inr (ParkRound (TokenBudgetExceeded
        (bs_consumed (snapshot (ag_budget (ru_agent rn)))) (bs_budget (snapshot (ag_budget (ru_agent rn)))))), rn')
     \<and> ru_exec rn' = ru_exec rn \<and> ag_events (ru_agent rn') = ag_events (ru_agent rn)
     \<and> ag_budget (ru_agent rn') = ag_budget (ru_agent rn)
     \<and> map tu_messages (cs_turns (ag_store (ru_agent rn'))) = map tu_messages (cs_turns (ag_store (ru_agent rn)))
         @ (if ri_prompts ri = [] then []
            else [[user_message (join_str [CHR 0x0A]
              (map (interjection (ak_est_text (lk_kit lk))) (ri_prompts ri)))]])"
proof -
  let ?start = "drain_interjections (lk_kit lk) (ri_today ri) (ri_prompts ri) (start_episode (ri_episode_now ri) (ru_agent rn))"
  have start: "ag_budget ?start = ag_budget (ru_agent rn)" "ag_events ?start = ag_events (ru_agent rn)"
    "map tu_messages (cs_turns (ag_store ?start)) = map tu_messages (cs_turns (ag_store (ru_agent rn)))
       @ (if ri_prompts ri = [] then []
          else [[user_message (join_str [CHR 0x0A]
            (map (interjection (ak_est_text (lk_kit lk))) (ri_prompts ri)))]])"
    by (simp_all add: drain_interjections_def record_turn_def record_turn_entry_def push_turn_def start_episode_def
        release_unspent_window_def Let_def split: option.split)
  have release: "ag_budget (release_unspent_window a) = ag_budget a" "ag_events (release_unspent_window a) = ag_events a"
    "ag_store (release_unspent_window a) = ag_store a" for a :: "'a agent"
    by (simp_all add: release_unspent_window_def split: option.split)
  show ?thesis
    using assms start release
    by (simp add: run_agent_rounds_def run_round_def before_request_def is_exceeded_def Let_def)
qed

text \<open>C16. A token budget that is spent stops the loop before anything is sent: it ends with that outcome,
  no event is reported, no approval decision is taken from the queue, no tool runs, no token is charged,
  and only the interjections that were waiting are recorded.\<close>

theorem spent_budget_stops_loop:
  assumes "is_exceeded (ag_budget (ru_agent rn))" and "0 < cf_max_tool_rounds (ag_config (ru_agent rn))"
  shows "\<exists>rn'. run_agent_rounds lk (ri # ris) rn = Some (Inr (ParkRound (TokenBudgetExceeded
        (bs_consumed (snapshot (ag_budget (ru_agent rn)))) (bs_budget (snapshot (ag_budget (ru_agent rn)))))), rn')
     \<and> ru_exec rn' = ru_exec rn \<and> ag_events (ru_agent rn') = ag_events (ru_agent rn)
     \<and> ag_budget (ru_agent rn') = ag_budget (ru_agent rn)
     \<and> map tu_messages (cs_turns (ag_store (ru_agent rn'))) = map tu_messages (cs_turns (ag_store (ru_agent rn)))
         @ (if ri_prompts ri = [] then []
            else [[user_message (join_str [CHR 0x0A]
              (map (interjection (ak_est_text (lk_kit lk))) (ri_prompts ri)))]])"
  using assms by (rule spent_budget_ends)

theorem spent_budget_stops_loop_witness:
  "\<exists>rn'. run_agent_rounds demo_loop [demo_input] (on_agent (ag_budget_update (\<lambda>_. budget_new 10 20)) demo_runner)
       = Some (Inr (ParkRound (TokenBudgetExceeded 20 10)), rn')
     \<and> map tu_messages (cs_turns (ag_store (ru_agent rn'))) = [[user_message (interjection length (''hello'', None))]]"
proof -
  let ?rn = "on_agent (ag_budget_update (\<lambda>_. budget_new 10 20)) demo_runner"
  have spent: "is_exceeded (ag_budget (ru_agent ?rn))" by (simp add: budget_defs budget_new_def)
  have limit: "0 < cf_max_tool_rounds (ag_config (ru_agent ?rn))" by (simp add: demo_runner_def)
  have facts: "ri_prompts demo_input = [(''hello'', None)]" "ak_est_text (lk_kit demo_loop) = length"
    "cs_turns (ag_store (ru_agent ?rn)) = []"
    by (simp_all add: demo_input_def demo_loop_def demo_kit_def demo_runner_def demo_agent_def store_new_def Let_def)
  have snap: "bs_consumed (snapshot (budget_new 10 20)) = 20" "bs_budget (snapshot (budget_new 10 20)) = 10"
    by (simp_all add: budget_new_def)
  from spent_budget_stops_loop [OF spent limit, of demo_loop demo_input "[]"] show ?thesis
    using facts snap by auto
qed

text \<open>C32. A response that carries the agent over a warning of its token budget is paid for and dropped: the
  loop goes on to the next round with the tokens charged, but the store gains the warning alone, no
  tool call of the response runs, and neither its text nor its calls are recorded.\<close>

theorem warned_response_is_dropped:
  "case before_request lk ri round rn of
     Some (GoOn messages, rn1) \<Rightarrow>
       (case acquire_response lk ri round messages (ru_agent rn1) of
          Some (GoOn co, ag) \<Rightarrow>
            (case settle_response lk ri co ag of
               (NextRound, ag') \<Rightarrow>
                 run_round lk ri round rn = Some (None, rn1\<lparr>ru_agent := ag'\<rparr>)
                 \<and> ag_budget ag' = (case co_usage co of None \<Rightarrow> ag_budget ag
                      | Some u \<Rightarrow> record_usage (ucast (us_prompt u)) (ucast (us_completion u)) (ag_budget ag))
                 \<and> (\<exists>warning. map tu_messages (cs_turns (ag_store ag'))
                      = map tu_messages (cs_turns (ag_store ag)) @ [[user_message warning]])
             | _ \<Rightarrow> True)
        | _ \<Rightarrow> True)
   | _ \<Rightarrow> True"
proof -
  have settled: "ag_budget ag' = (case co_usage co of None \<Rightarrow> ag_budget ag
       | Some u \<Rightarrow> record_usage (ucast (us_prompt u)) (ucast (us_completion u)) (ag_budget ag))
     \<and> (\<exists>warning. map tu_messages (cs_turns (ag_store ag'))
          = map tu_messages (cs_turns (ag_store ag)) @ [[user_message warning]])"
    if "settle_response lk ri co ag = (NextRound, ag')" for co and ag ag' :: "'a agent"
  proof -
    define ag1 where "ag1 = (case co_usage co of None \<Rightarrow> ag
      | Some u \<Rightarrow> ag\<lparr>ag_store := accumulate_usage u (ag_store ag),
          ag_budget := record_usage (ucast (us_prompt u)) (ucast (us_completion u)) (ag_budget ag)\<rparr>)"
    let ?w = "check_token_budget_warnings (ak_est (lk_kit lk)) (ak_budget_text (lk_kit lk) (snapshot (ag_budget ag1)))
      (cf_budget_warnings (ag_config ag1)) (snap_usage_pct (snapshot (ag_budget ag1))) (ag_store ag1)"
    obtain w ag2 where inj: "note_injected (ri_today ri) ?w ag1 = (w, ag2)" by fastforce
    have phase: "w \<and> ag2 = ag'"
      using that inj
      by (auto simp: settle_response_def enforce_post_stream_budget_def ag1_def [symmetric] Let_def split: if_splits)
    have "ag_budget ag' = ag_budget ag1 \<and> ag_store ag' = snd ?w" "fst ?w"
      using note_injected_facts [OF inj] phase by auto
    moreover from this(2) have "\<exists>warning. map tu_messages (cs_turns (snd ?w))
        = map tu_messages (cs_turns (ag_store ag1)) @ [[user_message warning]]"
      by (auto simp: check_token_budget_warnings_def push_turn_def Let_def split: if_splits option.splits)
    moreover have "cs_turns (ag_store ag1) = cs_turns (ag_store ag)"
      "ag_budget ag1 = (case co_usage co of None \<Rightarrow> ag_budget ag
        | Some u \<Rightarrow> record_usage (ucast (us_prompt u)) (ucast (us_completion u)) (ag_budget ag))"
      by (simp_all add: ag1_def accumulate_usage_def split: option.split)
    ultimately show ?thesis by simp
  qed
  show ?thesis
    using settled by (auto simp: run_round_def split: option.split phase.split prod.split)
qed

end
