(* ===== verification/Lifecycle.thy ===== *)
theory Lifecycle
  imports Round_Loop
begin

text \<open>
  The lifecycle of an agent task (\<open>crates/kallipai-adk/src/lifecycle.rs\<close>): its states with the table of
  legal edges, and the modality gate of a wake (\<open>crates/kallipai-adk/src/profile/model.rs\<close>,
  \<open>profile/registry.rs\<close>). An instant of the monotonic clock is its nanoseconds.
\<close>

section \<open>States and edges\<close>

type_synonym instant = nat

datatype parked_reason =
    ParkedChainExhausted exhaustion_reason string
  | ParkedFatal string
  | ParkedBudget u64 u64
  | ParkedMaxRounds
  | ParkedRetriesExhausted
  | ParkedQuota quota_blocked_info

datatype lifecycle_state =
    LifeRunning
  | LifeWaiting instant
  | LifeIdle
  | LifeParked parked_reason instant
  | LifeRetrying u32 u32 instant

text \<open>The assertion of \<open>transition\<close>; a release build makes the move without it.\<close>

fun legal_move :: "lifecycle_state \<Rightarrow> lifecycle_state \<Rightarrow> bool" where
  "legal_move LifeIdle s' = (s' = LifeRunning)"
| "legal_move LifeRunning s' = (s' \<noteq> LifeRunning)"
| "legal_move (LifeWaiting _) s' =
     (case s' of LifeRunning \<Rightarrow> True | LifeWaiting _ \<Rightarrow> True | LifeIdle \<Rightarrow> True | _ \<Rightarrow> False)"
| "legal_move (LifeParked _ _) s' = (s' = LifeRunning \<or> s' = LifeIdle)"
| "legal_move (LifeRetrying _ _ _) s' =
     (case s' of LifeRunning \<Rightarrow> True | LifeRetrying _ _ _ \<Rightarrow> True | LifeIdle \<Rightarrow> True | _ \<Rightarrow> False)"

section \<open>Modalities\<close>

text \<open>The intersection of the declarations of a set; its members may not be empty.\<close>

definition effective_modalities :: "profile list \<Rightarrow> modality list" where
  "effective_modalities ps =
     (case ps of
        [] \<Rightarrow> []
      | p # rest \<Rightarrow> filter (\<lambda>m. list_all (\<lambda>q. m \<in> set (pf_modalities q)) rest) (pf_modalities p))"

definition required_modalities :: "context_store \<Rightarrow> modality list" where
  "required_modalities s =
     (if list_ex (\<lambda>t. list_ex message_has_images (tu_messages t)) (cs_turns s) then [ModImage] else [])"

definition supports :: "profile list \<Rightarrow> modality list \<Rightarrow> bool" where
  "supports ps required \<longleftrightarrow> list_all (\<lambda>m. m \<in> set (effective_modalities ps)) required"

fun modality_str :: "modality \<Rightarrow> string" where
  "modality_str ModText = ''text''"
| "modality_str ModImage = ''image''"
| "modality_str ModAudio = ''audio''"
| "modality_str ModVideo = ''video''"

text \<open>In the canonical order, whatever the order of the declarations.\<close>

definition fmt_modalities :: "modality list \<Rightarrow> string" where
  "fmt_modalities ms =
     join_str '', '' (map modality_str (filter (\<lambda>m. m \<in> set ms) [ModText, ModImage, ModAudio, ModVideo]))"

definition modality_blocked :: "modality list \<Rightarrow> modality list \<Rightarrow> string" where
  "modality_blocked required served =
     ''bound profile set cannot serve the restored context; context requires {'' @ fmt_modalities required
       @ ''}, bound set serves {'' @ fmt_modalities served
       @ ''}; rebind the agent to a set whose modalities cover the context''"

definition ensure_supports :: "profile list \<Rightarrow> modality list \<Rightarrow> string option" where
  "ensure_supports ps required =
     (if supports ps required then None else Some (modality_blocked required (effective_modalities ps)))"

text \<open>Within a set the active profile may change; what the set serves holds for each of them.\<close>

lemma supports_member:
  assumes "supports ps required" and "p \<in> set ps"
  shows "set required \<subseteq> set (pf_modalities p)"
  using assms by (cases ps) (auto simp: supports_def effective_modalities_def list_all_iff)

end
