(* ===== verification/Agent_Task.thy ===== *)
theory Agent_Task
  imports Lifecycle
begin

text \<open>
  The agent task (\<open>crates/kallipai-adk/src/agent_task.rs\<close>): what one wake runs and reports, the parks it
  arms, and the loop over the wakes. An expired timer, a prompt, a notification are steps of the loop with
  what they read from outside; an instant past the clock's range is a panic of the task, as in the
  standard library.
\<close>

section \<open>The state of a task\<close>

text \<open>A reset brings its own registry, here the profiles it can build a client for.\<close>

record profile_reset =
  rs_set :: string
  rs_profiles :: "profile list"
  rs_build :: "profile \<Rightarrow> bool"

record 't task =
  tk_runner :: "'t runner"
  tk_build :: "profile \<Rightarrow> bool"
  tk_life :: lifecycle_state
  tk_moves :: "(lifecycle_state \<times> lifecycle_state) list"
  tk_transient_fails :: u32
  tk_retry_at :: "instant option"
  tk_wait_until :: "instant option"
  tk_wait_armed_secs :: u64
  tk_pacing_wake_at :: "instant option"
  tk_park_epoch :: u64
  tk_park_cancel :: "u64 option"
  tk_pending_reset :: "profile_reset option"
  tk_notified :: bool

abbreviation task_agent :: "'t task \<Rightarrow> 't agent" where
  "task_agent tk \<equiv> ru_agent (tk_runner tk)"

definition with_agent :: "('t agent \<Rightarrow> 't agent) \<Rightarrow> 't task \<Rightarrow> 't task" where
  "with_agent f tk = tk\<lparr>tk_runner := on_agent f (tk_runner tk)\<rparr>"

definition emit :: "agent_event \<Rightarrow> 't task \<Rightarrow> 't task" where
  "emit e = with_agent (push_events [e])"

text \<open>A settled move is logged with both its states.\<close>

definition settle :: "lifecycle_state \<Rightarrow> 't task \<Rightarrow> 't task" where
  "settle s tk = tk\<lparr>tk_life := s, tk_moves := tk_moves tk @ [(tk_life tk, s)]\<rparr>"

section \<open>Timers and parks\<close>

text \<open>The seconds of an instant are a signed 64-bit number; adding past it panics.\<close>

definition instant_add :: "instant \<Rightarrow> duration \<Rightarrow> instant option" where
  "instant_add t d = (if (t + d) div nanos_per_sec < 2 ^ 63 then Some (t + d) else None)"

definition due :: "instant option \<Rightarrow> instant \<Rightarrow> bool" where
  "due at now \<longleftrightarrow> (case at of Some t \<Rightarrow> t \<le> now | None \<Rightarrow> False)"

definition clear_transient_retry :: "'t task \<Rightarrow> 't task" where
  "clear_transient_retry tk = tk\<lparr>tk_retry_at := None\<rparr>"

definition clear_wait_timer :: "'t task \<Rightarrow> 't task" where
  "clear_wait_timer tk = tk\<lparr>tk_wait_until := None\<rparr>"

definition clear_pacing_wake :: "'t task \<Rightarrow> 't task" where
  "clear_pacing_wake tk = tk\<lparr>tk_pacing_wake_at := None\<rparr>"

definition clear_fuses :: "'t task \<Rightarrow> 't task" where
  "clear_fuses tk = clear_pacing_wake (clear_wait_timer (clear_transient_retry tk))"

text \<open>What arming and settling read from outside.\<close>

record park_env =
  pk_now :: instant
  pk_jitter :: duration
  pk_epoch_now :: u64

definition schedule_transient_retry :: "park_env \<Rightarrow> 't task \<Rightarrow> (instant \<times> duration \<times> 't task) option" where
  "schedule_transient_retry pk tk =
     (let delay = backoff_schedule (cf_retry (ag_config (task_agent tk))) (sat_sub (tk_transient_fails tk) 1) (pk_jitter pk)
      in map_option (\<lambda>t. (t, delay, tk\<lparr>tk_retry_at := Some t\<rparr>)) (instant_add (pk_now pk) delay))"

definition arm_wait_timer :: "park_env \<Rightarrow> u64 \<Rightarrow> 't task \<Rightarrow> (instant \<times> 't task) option" where
  "arm_wait_timer pk secs tk =
     map_option (\<lambda>t. (t, tk\<lparr>tk_wait_until := Some t, tk_wait_armed_secs := secs\<rparr>))
       (instant_add (pk_now pk) (dur_of_secs secs))"

datatype park_arm = ArmWait u64 | ArmRetry

text \<open>An armed park: the state to mirror, and the backoff a retry announces. The generation is counted
  with the fuse, wrapping at its width.\<close>

definition arm_park ::
  "park_env \<Rightarrow> park_arm \<Rightarrow> 't task \<Rightarrow> (lifecycle_state \<times> duration option \<times> 't task) option" where
  "arm_park pk arm tk =
     (let publish = (\<lambda>tk. tk\<lparr>tk_park_epoch := tk_park_epoch tk + 1\<rparr>)
      in case arm of
           ArmWait secs \<Rightarrow>
             map_option (\<lambda>(t, tk'). (LifeWaiting t, None, publish tk')) (arm_wait_timer pk secs tk)
         | ArmRetry \<Rightarrow>
             map_option (\<lambda>(t, delay, tk').
                 (LifeRetrying (tk_transient_fails tk') (cf_max_transient_retries (ag_config (task_agent tk'))) t,
                  Some delay, publish tk'))
               (schedule_transient_retry pk tk))"

definition end_cancelled_park :: "'t task \<Rightarrow> 't task" where
  "end_cancelled_park tk =
     settle LifeIdle ((clear_pacing_wake (clear_transient_retry (clear_wait_timer tk)))\<lparr>tk_transient_fails := 0\<rparr>)"

text \<open>The stamp names the park the caller saw; the loop is woken after it is in place.\<close>

definition request_park_cancel :: "'t task \<Rightarrow> 't task" where
  "request_park_cancel tk = tk\<lparr>tk_park_cancel := Some (tk_park_epoch tk), tk_notified := True\<rparr>"

definition pacing_wake_epoch :: "'t agent \<Rightarrow> string \<Rightarrow> u64 \<Rightarrow> u64" where
  "pacing_wake_epoch ag profile now =
     (let fallback = sat_add now MIN_RETRY_INTERVAL_SECS
      in case ag_pacing ag of
           None \<Rightarrow> fallback
         | Some ops \<Rightarrow>
             (let ahead = drop (fo_idx (ag_failover ag) + 1) (fo_profiles (ag_failover ag));
                  ends = List.map_filter (\<lambda>p. map_option (\<lambda>bf. window_end (bf_block bf))
                    (pp_paced_for ops p now (ag_table ag))) (profile # map pf_id ahead)
              in case ends of [] \<Rightarrow> fallback | e # es \<Rightarrow> fold min es e))"

definition arm_pacing_wake :: "park_env \<Rightarrow> string \<Rightarrow> 't task \<Rightarrow> 't task option" where
  "arm_pacing_wake pk profile tk =
     (let now = pk_epoch_now pk;
          wait = dur_of_secs (sat_sub (pacing_wake_epoch (task_agent tk) profile now) now)
      in Option.bind (instant_add (pk_now pk) wait) (\<lambda>t.
         map_option (\<lambda>t. tk\<lparr>tk_pacing_wake_at := Some t\<rparr>) (instant_add t (pk_jitter pk))))"

section \<open>One wake\<close>

datatype wake_disposition = Awake | Held | Terminated

text \<open>The cell is emptied first, so a reset that cannot be built is not tried again.\<close>

definition apply_pending_profile_reset :: "u64 \<Rightarrow> 't task \<Rightarrow> 't task" where
  "apply_pending_profile_reset now tk =
     (case tk_pending_reset tk of
        None \<Rightarrow> tk
      | Some rs \<Rightarrow>
          let tk1 = tk\<lparr>tk_pending_reset := None\<rparr>; ag = task_agent tk
          in case reset_and_rebuild (rs_build rs) (rs_set rs) (rs_profiles rs) (ag_failover ag) of
               (None, _) \<Rightarrow> tk1
             | (Some client, fo) \<Rightarrow>
                 let cfg = snd (set_context_window (pf_window client) (ag_config ag))
                 in with_agent (\<lambda>_. clear_ledger now (ag\<lparr>ag_failover := fo, ag_client := client,
                        ag_conv_store := or_default (pf_store client) True, ag_config := cfg,
                        ag_store := set_eviction_caps (config_eviction_caps cfg)
                          (set_pinned_budget (pinned_budget cfg) (ag_store ag))\<rparr>))
                      (tk1\<lparr>tk_build := rs_build rs\<rparr>))"

text \<open>What one run of the rounds reads, and what one wake reads.\<close>

record report_env =
  re_rounds :: "round_input list"
  re_park :: park_env
  re_lifecycle_cancelled :: bool
  re_today :: string
  re_store_saved :: bool
  re_approvals_saved :: bool

record wake_env =
  wv_reset :: "profile_reset option"
  wv_restart_now :: u64
  wv_reset_now :: u64
  wv_gate_now :: instant
  wv_reports :: "report_env list"

definition request_reset :: "profile_reset option \<Rightarrow> 't task \<Rightarrow> 't task" where
  "request_reset rs tk = (case rs of None \<Rightarrow> tk | Some r \<Rightarrow> tk\<lparr>tk_pending_reset := Some r\<rparr>)"

definition enter_wake :: "wake_env \<Rightarrow> attempt_origin \<Rightarrow> 't task \<Rightarrow> 't task" where
  "enter_wake we origin tk =
     (let tk1 = with_agent (\<lambda>ag. ag\<lparr>ag_origin := origin, ag_compaction :=
            (if origin = External then ledger_restart (wv_restart_now we) (ag_compaction ag) else ag_compaction ag)\<rparr>) tk
      in settle LifeRunning (apply_pending_profile_reset (wv_reset_now we) (request_reset (wv_reset we) tk1)))"

text \<open>A prose turn that names no end is answered with this turn.\<close>

definition HEARTBEAT_TEXT :: string where
  "HEARTBEAT_TEXT =
     ''[system] You produced a response with no tool action and did not call `break`. If you are done, call `break` with `{''
       @ [CHR 0x22] @ ''until'' @ [CHR 0x22] @ '':'' @ [CHR 0x22] @ ''idle'' @ [CHR 0x22]
       @ ''}`; if you are blocked waiting on something, call `break` (the default parks you with a wake timer). Otherwise continue your work.''"

definition no_fails :: "'t task \<Rightarrow> 't task" where
  "no_fails tk = tk\<lparr>tk_transient_fails := 0\<rparr>"

definition terminate_cancelled :: "bool \<Rightarrow> bool \<Rightarrow> 't task \<Rightarrow> 't task" where
  "terminate_cancelled store_saved approvals_saved tk =
     emit CancelledEvent (tk\<lparr>tk_runner := persist store_saved approvals_saved (tk_runner tk)\<rparr>)"

definition heartbeat :: "agent_kit \<Rightarrow> string \<Rightarrow> string \<Rightarrow> string \<Rightarrow> turn_attempt \<Rightarrow> 't task \<Rightarrow> 't task" where
  "heartbeat kit today content reasoning at =
     with_agent (\<lambda>ag. snd (record_turn kit today [user_message HEARTBEAT_TEXT]
       (snd (record_turn_entry kit today [assistant_message (Some content) [] reasoning] [] (Some at) ag))))"

text \<open>A wake ends with a disposition, or with a panic.\<close>

datatype 't wake_end = Ended wake_disposition "'t task" | Panicked

datatype 't report = RunAgain "'t task" | Over "'t wake_end"

fun report_outcome ::
  "agent_kit \<Rightarrow> report_env \<Rightarrow> u32 \<Rightarrow> round_error + round_outcome \<Rightarrow> 't task \<Rightarrow> 't report" where
  "report_outcome kit re no_progress (Inr (BreakRound Idle)) tk =
     Over (Ended Awake (emit IdleEvent (settle LifeIdle (no_fails tk))))"
| "report_outcome kit re no_progress (Inr (BreakRound (Wait secs))) tk =
     (case arm_park (re_park re) (ArmWait secs) (no_fails tk) of
        None \<Rightarrow> Over Panicked
      | Some (next, _, tk') \<Rightarrow> Over (Ended Awake (emit (WaitingEvent secs) (settle next tk'))))"
| "report_outcome kit re no_progress (Inr (BareAssistant content reasoning at)) tk =
     (if cf_max_heartbeat_rounds (ag_config (task_agent tk)) < no_progress + 1
      then Over (Ended Awake (emit IdleEvent (settle LifeIdle (no_fails tk))))
      else RunAgain (heartbeat kit (re_today re) content reasoning at (no_fails tk)))"
| "report_outcome kit re no_progress (Inr (ParkRound agent_outcome.RoundCancelled)) tk =
     (if re_lifecycle_cancelled re
      then Over (Ended Terminated (terminate_cancelled (re_store_saved re) (re_approvals_saved re) (no_fails tk)))
      else Over (Ended Awake (settle LifeIdle (emit InterruptedEvent (no_fails tk)))))"
| "report_outcome kit re no_progress (Inr (ParkRound (FailoverChainExhausted reason detail))) tk =
     (let tk1 = tk\<lparr>tk_transient_fails := sat_add (tk_transient_fails tk) 1\<rparr>;
          most = cf_max_transient_retries (ag_config (task_agent tk1))
      in if tk_transient_fails tk1 \<le> most
         then case arm_park (re_park re) ArmRetry tk1 of
                None \<Rightarrow> Over Panicked
              | Some (next, delay, tk2) \<Rightarrow>
                  Over (Ended Held (settle next (emit (ChainExhaustedEvent reason detail
                    (map_option (\<lambda>d. \<lparr>ti_attempt = tk_transient_fails tk2, ti_max_attempts = most, ti_delay = d\<rparr>) delay))
                    tk2)))
         else Over (Ended Held (settle (LifeParked ParkedRetriesExhausted (pk_now (re_park re)))
                (emit (ChainExhaustedEvent reason detail None) tk1))))"
| "report_outcome kit re no_progress (Inr (ParkRound (RoundQuotaBlocked info))) tk =
     (case arm_pacing_wake (re_park re) (qb_profile info) (emit (QuotaBlockedEvent info) tk) of
        None \<Rightarrow> Over Panicked
      | Some tk1 \<Rightarrow> Over (Ended Held (settle (LifeParked (ParkedQuota info) (pk_now (re_park re))) tk1)))"
| "report_outcome kit re no_progress (Inr (ParkRound (TokenBudgetExceeded consumed budget))) tk =
     (case arm_park (re_park re) (ArmWait DEFAULT_BREAK_TIMEOUT_SECS) (no_fails tk) of
        None \<Rightarrow> Over Panicked
      | Some (next, _, tk') \<Rightarrow> Over (Ended Held (emit (BudgetExceededEvent consumed budget) (settle next tk'))))"
| "report_outcome kit re no_progress (Inr (ParkRound MaxRoundsExceeded)) tk =
     Over (Ended Held (emit MaxRoundsEvent (settle (LifeParked ParkedMaxRounds (pk_now (re_park re))) (no_fails tk))))"
| "report_outcome kit re no_progress (Inr (ParkRound RoundIdle)) tk =
     Over (Ended Awake (emit IdleEvent (settle LifeIdle (no_fails tk))))"
| "report_outcome kit re no_progress (Inl e) tk =
     (let rendered = render_round_error (ak_json kit) e
      in Over (Ended Held (emit (ErrorEvent rendered)
           (settle (LifeParked (ParkedFatal rendered) (pk_now (re_park re))) (no_fails tk)))))"

fun run_reports :: "loop_kit \<Rightarrow> report_env list \<Rightarrow> u32 \<Rightarrow> 't task \<Rightarrow> 't wake_end option" where
  "run_reports lk [] no_progress tk = None"
| "run_reports lk (re # res) no_progress tk =
     (let tk1 = emit BusyEvent tk
      in case run_agent_rounds (lk\<lparr>lk_build := tk_build tk1\<rparr>) (re_rounds re) (tk_runner tk1) of
           None \<Rightarrow> None
         | Some (r, rn) \<Rightarrow>
             (case report_outcome (lk_kit lk) re no_progress r (tk1\<lparr>tk_runner := rn\<rparr>) of
                RunAgain tk2 \<Rightarrow> run_reports lk res (no_progress + 1) tk2
              | Over e \<Rightarrow> Some e))"

definition run_and_report ::
  "loop_kit \<Rightarrow> wake_env \<Rightarrow> attempt_origin \<Rightarrow> 't task \<Rightarrow> 't wake_end option" where
  "run_and_report lk we origin tk =
     (let tk1 = enter_wake we origin tk; ag = task_agent tk1
      in case ensure_supports (fo_profiles (ag_failover ag)) (required_modalities (ag_store ag)) of
           Some blocked \<Rightarrow>
             Some (Ended Held (settle (LifeParked (ParkedFatal blocked) (wv_gate_now we)) (emit (ErrorEvent blocked) tk1)))
         | None \<Rightarrow> run_reports lk (wv_reports we) 0 tk1)"

section \<open>A wake and what the inbox held\<close>

definition record_message_turn :: "agent_kit \<Rightarrow> string \<Rightarrow> string \<times> string option \<Rightarrow> 't task \<Rightarrow> 't task" where
  "record_message_turn kit today m =
     with_agent (snd \<circ> record_turn kit today [user_message (cap_external_message (ak_est_text kit) (snd m) True (fst m))])"

record drain_env =
  dr_first :: wake_env
  dr_pulled :: "(string \<times> string option) option"
  dr_today :: string
  dr_second :: wake_env

definition wake_and_drain ::
  "loop_kit \<Rightarrow> drain_env \<Rightarrow> attempt_origin \<Rightarrow> 't task \<Rightarrow> 't wake_end option" where
  "wake_and_drain lk de origin tk =
     (case run_and_report lk (dr_first de) origin tk of
        Some (Ended Awake tk1) \<Rightarrow>
          (case dr_pulled de of
             None \<Rightarrow> Some (Ended Awake tk1)
           | Some m \<Rightarrow> run_and_report lk (dr_second de) External (record_message_turn (lk_kit lk) (dr_today de) m tk1))
      | r \<Rightarrow> r)"

section \<open>The task\<close>

definition wait_elapsed_text :: "u64 \<Rightarrow> string" where
  "wait_elapsed_text secs =
     ''[system] wait timer elapsed (armed '' @ show_nat (unat secs) @ ''s). Continue waiting with break({''
       @ [CHR 0x22] @ ''until'' @ [CHR 0x22] @ '':'' @ [CHR 0x22] @ ''wait'' @ [CHR 0x22]
       @ ''}), finish with break({'' @ [CHR 0x22] @ ''until'' @ [CHR 0x22] @ '':'' @ [CHR 0x22] @ ''idle'' @ [CHR 0x22]
       @ ''}), or work.''"

text \<open>What happens to a task: the arms of its loop, and the requests other tasks leave for it.\<close>

datatype task_input =
    PromptInput string "string \<times> string option" drain_env
  | PromptsClosed
  | LifecycleCancel bool bool
  | NotifyInput u64 string "(string \<times> string option) option" drain_env
  | RetryInput instant drain_env
  | WaitInput instant string drain_env
  | PacingInput instant drain_env
  | RequestParkCancel
  | RequestReset profile_reset
  | RequestNotify

datatype 't task_status = Serving "'t task" | Finished "'t task" | Crashed

fun after_wake :: "'t wake_end \<Rightarrow> 't task_status" where
  "after_wake (Ended Terminated tk) = Finished tk"
| "after_wake (Ended _ tk) = Serving tk"
| "after_wake Panicked = Crashed"

definition wake_task :: "loop_kit \<Rightarrow> drain_env \<Rightarrow> attempt_origin \<Rightarrow> 't task \<Rightarrow> 't task_status option" where
  "wake_task lk de origin tk = map_option after_wake (wake_and_drain lk de origin tk)"

fun is_wake_park :: "lifecycle_state \<Rightarrow> bool" where
  "is_wake_park (LifeWaiting _) = True"
| "is_wake_park (LifeRetrying _ _ _) = True"
| "is_wake_park _ = False"

fun is_parked :: "lifecycle_state \<Rightarrow> bool" where
  "is_parked (LifeParked _ _) = True"
| "is_parked _ = False"

definition cancel_applies :: "'t task \<Rightarrow> bool" where
  "cancel_applies tk \<longleftrightarrow> tk_park_cancel tk = Some (tk_park_epoch tk) \<and> is_wake_park (tk_life tk)"

text \<open>The notify arm: the reset first, then the park cancel, then the work.\<close>

definition notify_arm ::
  "loop_kit \<Rightarrow> u64 \<Rightarrow> string \<Rightarrow> (string \<times> string option) option \<Rightarrow> drain_env \<Rightarrow> 't task \<Rightarrow> 't task_status option" where
  "notify_arm lk now today pulled de tk =
     (let tk1 = apply_pending_profile_reset now (tk\<lparr>tk_notified := False\<rparr>);
          tk2 = tk1\<lparr>tk_park_cancel := None\<rparr>
      in if cancel_applies tk1
         then Some (Serving ((emit WaitCancelledEvent (end_cancelled_park tk2))\<lparr>tk_notified := True\<rparr>))
         else if is_parked (tk_life tk2) then Some (Serving tk2)
         else
           let tk3 = (case pulled of None \<Rightarrow> tk2 | Some m \<Rightarrow> record_message_turn (lk_kit lk) today m tk2)
           in if pulled \<noteq> None \<or> has_notifications (ex_approvals (ru_exec (tk_runner tk3)))
              then wake_task lk de External (clear_fuses tk3)
              else Some (Serving tk3))"

fun task_step :: "loop_kit \<Rightarrow> task_input \<Rightarrow> 't task \<Rightarrow> 't task_status option" where
  "task_step lk (PromptInput today m de) tk =
     wake_task lk de External (record_message_turn (lk_kit lk) today m (clear_fuses tk))"
| "task_step lk PromptsClosed tk = Some (Finished tk)"
| "task_step lk (LifecycleCancel store_saved approvals_saved) tk =
     Some (Finished (terminate_cancelled store_saved approvals_saved tk))"
| "task_step lk (NotifyInput now today pulled de) tk =
     (if tk_notified tk then notify_arm lk now today pulled de tk else Some (Serving tk))"
| "task_step lk (RetryInput now de) tk =
     (if due (tk_retry_at tk) now then wake_task lk de System (clear_transient_retry tk) else Some (Serving tk))"
| "task_step lk (WaitInput now today de) tk =
     (if due (tk_wait_until tk) now
      then let secs = tk_wait_armed_secs tk; tk1 = clear_wait_timer tk
           in wake_task lk de System
                (if is_exceeded (ag_budget (task_agent tk1)) then tk1
                 else with_agent (snd \<circ> record_turn (lk_kit lk) today [user_message (wait_elapsed_text secs)]) tk1)
      else Some (Serving tk))"
| "task_step lk (PacingInput now de) tk =
     (if due (tk_pacing_wake_at tk) now then wake_task lk de System (clear_pacing_wake tk) else Some (Serving tk))"
| "task_step lk RequestParkCancel tk = Some (Serving (request_park_cancel tk))"
| "task_step lk (RequestReset rs) tk = Some (Serving ((request_reset (Some rs) tk)\<lparr>tk_notified := True\<rparr>))"
| "task_step lk RequestNotify tk = Some (Serving (tk\<lparr>tk_notified := True\<rparr>))"

text \<open>The loop over what happens; a task that has come to the end of it is still serving.\<close>

fun task_loop :: "loop_kit \<Rightarrow> task_input list \<Rightarrow> 't task \<Rightarrow> 't task_status option" where
  "task_loop lk [] tk = Some (Serving tk)"
| "task_loop lk (inp # inps) tk =
     (case task_step lk inp tk of
        Some (Serving tk') \<Rightarrow> task_loop lk inps tk'
      | r \<Rightarrow> r)"

definition agent_task ::
  "loop_kit \<Rightarrow> gate_env \<Rightarrow> (string \<times> string \<times> drain_env) option \<Rightarrow> task_input list \<Rightarrow> 't task \<Rightarrow> 't task_status option" where
  "agent_task lk ge prompt inps tk =
     (case compact_pre_loop (lk_kit lk) ge (task_agent tk) of
        None \<Rightarrow> None
      | Some ag \<Rightarrow>
          let tk1 = with_agent (\<lambda>_. ag) tk
          in case prompt of
               None \<Rightarrow> task_loop lk inps tk1
             | Some (today, p, de) \<Rightarrow>
                 if p = [] then Some (Finished tk1)
                 else case wake_task lk de External
                     (with_agent (snd \<circ> record_turn (lk_kit lk) today [user_message p]) tk1) of
                   Some (Serving tk2) \<Rightarrow> task_loop lk inps tk2
                 | r \<Rightarrow> r)"

end
