(* ===== verification/Task_Props.thy ===== *)
theory Task_Props
  imports Agent_Task
begin

text \<open>
  What the agent task keeps over everything that can happen to it: the edges of its lifecycle, the
  fuse behind each state it rests in, one terminal event per wake, and the park a cancel may end.
\<close>

section \<open>Elementary facts\<close>

lemma with_agent_simps [simp]:
  "task_agent (with_agent f tk) = f (task_agent tk)" "tk_life (with_agent f tk) = tk_life tk"
  "tk_moves (with_agent f tk) = tk_moves tk" "tk_transient_fails (with_agent f tk) = tk_transient_fails tk"
  "tk_retry_at (with_agent f tk) = tk_retry_at tk" "tk_wait_until (with_agent f tk) = tk_wait_until tk"
  "tk_wait_armed_secs (with_agent f tk) = tk_wait_armed_secs tk"
  "tk_pacing_wake_at (with_agent f tk) = tk_pacing_wake_at tk" "tk_park_epoch (with_agent f tk) = tk_park_epoch tk"
  "tk_park_cancel (with_agent f tk) = tk_park_cancel tk" "tk_pending_reset (with_agent f tk) = tk_pending_reset tk"
  "tk_notified (with_agent f tk) = tk_notified tk" "ru_exec (tk_runner (with_agent f tk)) = ru_exec (tk_runner tk)"
  by (simp_all add: with_agent_def)

lemma settle_simps [simp]:
  "task_agent (settle s tk) = task_agent tk" "tk_life (settle s tk) = s"
  "tk_moves (settle s tk) = tk_moves tk @ [(tk_life tk, s)]" "tk_transient_fails (settle s tk) = tk_transient_fails tk"
  "tk_retry_at (settle s tk) = tk_retry_at tk" "tk_wait_until (settle s tk) = tk_wait_until tk"
  "tk_pacing_wake_at (settle s tk) = tk_pacing_wake_at tk" "tk_park_epoch (settle s tk) = tk_park_epoch tk"
  "tk_park_cancel (settle s tk) = tk_park_cancel tk" "tk_pending_reset (settle s tk) = tk_pending_reset tk"
  "tk_notified (settle s tk) = tk_notified tk" "tk_runner (settle s tk) = tk_runner tk"
  by (simp_all add: settle_def)

lemma emit_simps [simp]:
  "task_agent (emit e tk) = push_events [e] (task_agent tk)" "tk_life (emit e tk) = tk_life tk"
  "tk_moves (emit e tk) = tk_moves tk" "tk_transient_fails (emit e tk) = tk_transient_fails tk"
  "tk_retry_at (emit e tk) = tk_retry_at tk" "tk_wait_until (emit e tk) = tk_wait_until tk"
  "tk_pacing_wake_at (emit e tk) = tk_pacing_wake_at tk" "tk_park_epoch (emit e tk) = tk_park_epoch tk"
  "tk_park_cancel (emit e tk) = tk_park_cancel tk" "tk_pending_reset (emit e tk) = tk_pending_reset tk"
  by (simp_all add: emit_def)

lemma push_events_simps [simp]:
  "ag_events (push_events es ag) = ag_events ag @ es" "ag_store (push_events es ag) = ag_store ag"
  "ag_config (push_events es ag) = ag_config ag" "ag_failover (push_events es ag) = ag_failover ag"
  by (simp_all add: push_events_def)

lemma request_reset_simps [simp]:
  "tk_runner (request_reset rs tk) = tk_runner tk" "tk_life (request_reset rs tk) = tk_life tk"
  "tk_moves (request_reset rs tk) = tk_moves tk" "tk_transient_fails (request_reset rs tk) = tk_transient_fails tk"
  "tk_retry_at (request_reset rs tk) = tk_retry_at tk" "tk_wait_until (request_reset rs tk) = tk_wait_until tk"
  "tk_pacing_wake_at (request_reset rs tk) = tk_pacing_wake_at tk" "tk_park_epoch (request_reset rs tk) = tk_park_epoch tk"
  "tk_park_cancel (request_reset rs tk) = tk_park_cancel tk"
  by (simp_all add: request_reset_def split: option.split)

lemma reset_simps [simp]:
  "tk_life (apply_pending_profile_reset now tk) = tk_life tk"
  "tk_moves (apply_pending_profile_reset now tk) = tk_moves tk"
  "tk_transient_fails (apply_pending_profile_reset now tk) = tk_transient_fails tk"
  "tk_retry_at (apply_pending_profile_reset now tk) = tk_retry_at tk"
  "tk_wait_until (apply_pending_profile_reset now tk) = tk_wait_until tk"
  "tk_pacing_wake_at (apply_pending_profile_reset now tk) = tk_pacing_wake_at tk"
  "tk_park_epoch (apply_pending_profile_reset now tk) = tk_park_epoch tk"
  "tk_park_cancel (apply_pending_profile_reset now tk) = tk_park_cancel tk"
  "tk_notified (apply_pending_profile_reset now tk) = tk_notified tk"
  "ag_events (task_agent (apply_pending_profile_reset now tk)) = ag_events (task_agent tk)"
  "cs_turns (ag_store (task_agent (apply_pending_profile_reset now tk))) = cs_turns (ag_store (task_agent tk))"
  by (simp_all add: apply_pending_profile_reset_def clear_ledger_def set_eviction_caps_def set_pinned_budget_def
      Let_def split: option.split prod.split)

lemma clear_simps [simp]:
  "tk_runner (clear_wait_timer tk) = tk_runner tk" "tk_runner (clear_transient_retry tk) = tk_runner tk"
  "tk_runner (clear_pacing_wake tk) = tk_runner tk" "tk_life (clear_wait_timer tk) = tk_life tk"
  "tk_life (clear_transient_retry tk) = tk_life tk" "tk_life (clear_pacing_wake tk) = tk_life tk"
  "tk_moves (clear_wait_timer tk) = tk_moves tk" "tk_moves (clear_transient_retry tk) = tk_moves tk"
  "tk_moves (clear_pacing_wake tk) = tk_moves tk" "tk_park_epoch (clear_wait_timer tk) = tk_park_epoch tk"
  "tk_park_epoch (clear_transient_retry tk) = tk_park_epoch tk" "tk_park_epoch (clear_pacing_wake tk) = tk_park_epoch tk"
  "tk_park_cancel (clear_wait_timer tk) = tk_park_cancel tk"
  "tk_park_cancel (clear_transient_retry tk) = tk_park_cancel tk" "tk_park_cancel (clear_pacing_wake tk) = tk_park_cancel tk"
  by (simp_all add: clear_wait_timer_def clear_transient_retry_def clear_pacing_wake_def)

lemma no_fails_simps [simp]:
  "tk_runner (no_fails tk) = tk_runner tk" "tk_life (no_fails tk) = tk_life tk" "tk_moves (no_fails tk) = tk_moves tk"
  "tk_transient_fails (no_fails tk) = 0" "tk_retry_at (no_fails tk) = tk_retry_at tk"
  "tk_wait_until (no_fails tk) = tk_wait_until tk" "tk_pacing_wake_at (no_fails tk) = tk_pacing_wake_at tk"
  "tk_park_epoch (no_fails tk) = tk_park_epoch tk" "tk_park_cancel (no_fails tk) = tk_park_cancel tk"
  by (simp_all add: no_fails_def)

section \<open>Arming\<close>

lemma arm_wait_facts:
  assumes "arm_park pk (ArmWait secs) tk = Some (next, delay, tk')"
  obtains t where "next = LifeWaiting t" "delay = None" "tk_wait_until tk' = Some t" "tk_wait_armed_secs tk' = secs"
    "tk_runner tk' = tk_runner tk" "tk_life tk' = tk_life tk" "tk_moves tk' = tk_moves tk"
    "tk_park_epoch tk' = tk_park_epoch tk + 1" "tk_park_cancel tk' = tk_park_cancel tk"
  using assms by (auto simp: arm_park_def arm_wait_timer_def Let_def)

lemma arm_retry_facts:
  assumes "arm_park pk ArmRetry tk = Some (next, delay, tk')"
  obtains t d where
    "next = LifeRetrying (tk_transient_fails tk) (cf_max_transient_retries (ag_config (task_agent tk))) t"
    "delay = Some d" "tk_retry_at tk' = Some t" "tk_wait_until tk' = tk_wait_until tk"
    "tk_runner tk' = tk_runner tk" "tk_life tk' = tk_life tk" "tk_moves tk' = tk_moves tk"
    "tk_park_epoch tk' = tk_park_epoch tk + 1" "tk_park_cancel tk' = tk_park_cancel tk"
    "tk_transient_fails tk' = tk_transient_fails tk"
  using assms by (auto simp: arm_park_def schedule_transient_retry_def Let_def)

lemma arm_pacing_facts:
  assumes "arm_pacing_wake pk profile tk = Some tk'"
  obtains t where "tk' = tk\<lparr>tk_pacing_wake_at := Some t\<rparr>" "pk_now pk \<le> t"
  using assms by (auto simp: arm_pacing_wake_def instant_add_def Let_def split: if_splits)

section \<open>The end of a run\<close>

text \<open>What the last event of a run says of the state the task is left in.\<close>

fun tells :: "agent_event \<Rightarrow> lifecycle_state \<Rightarrow> bool" where
  "tells IdleEvent s = (s = LifeIdle)"
| "tells InterruptedEvent s = (s = LifeIdle)"
| "tells WaitCancelledEvent s = (s = LifeIdle)"
| "tells (WaitingEvent _) s = (case s of LifeWaiting _ \<Rightarrow> True | _ \<Rightarrow> False)"
| "tells (BudgetExceededEvent _ _) s = (case s of LifeWaiting _ \<Rightarrow> True | _ \<Rightarrow> False)"
| "tells MaxRoundsEvent s = (case s of LifeParked r _ \<Rightarrow> r = ParkedMaxRounds | _ \<Rightarrow> False)"
| "tells (ErrorEvent m) s = (case s of LifeParked r _ \<Rightarrow> r = ParkedFatal m | _ \<Rightarrow> False)"
| "tells (QuotaBlockedEvent info) s = (case s of LifeParked r _ \<Rightarrow> r = ParkedQuota info | _ \<Rightarrow> False)"
| "tells (ChainExhaustedEvent _ _ None) s =
     (case s of LifeParked r _ \<Rightarrow> r = ParkedRetriesExhausted | _ \<Rightarrow> False)"
| "tells (ChainExhaustedEvent _ _ (Some ti)) s =
     (case s of LifeRetrying a m _ \<Rightarrow> a = ti_attempt ti \<and> m = ti_max_attempts ti | _ \<Rightarrow> False)"
| "tells CancelledEvent s = (s = LifeRunning)"
| "tells _ s = False"

text \<open>The fuse behind a state: a wait and a retry name the armed deadline, a retry counts within its limit, and a
  quota park has its wake.\<close>

fun fused :: "lifecycle_state \<Rightarrow> 't task \<Rightarrow> bool" where
  "fused (LifeWaiting t) tk = (tk_wait_until tk = Some t)"
| "fused (LifeRetrying a m t) tk = (tk_retry_at tk = Some t \<and> tk_transient_fails tk = a \<and> 1 \<le> a \<and> a \<le> m)"
| "fused (LifeParked r at) tk =
     (case r of ParkedQuota _ \<Rightarrow> (case tk_pacing_wake_at tk of Some t \<Rightarrow> at \<le> t | None \<Rightarrow> False) | _ \<Rightarrow> True)"
| "fused _ tk = True"

fun is_waiting :: "lifecycle_state \<Rightarrow> bool" where
  "is_waiting (LifeWaiting _) = True"
| "is_waiting _ = False"

text \<open>One terminal event ends what was reported, and it tells the state; the turns stay paired.\<close>

definition reported :: "wake_disposition \<Rightarrow> lifecycle_state \<Rightarrow> 't agent \<Rightarrow> 't agent \<Rightarrow> bool" where
  "reported d s a b \<longleftrightarrow>
     (\<exists>es t. ag_events b = ag_events a @ es @ [t] \<and> ongoing es \<and> is_terminal t \<and> tells t s
        \<and> (t = CancelledEvent) = (d = Terminated))
     \<and> (if store_paired (ag_store a) then store_paired (ag_store b) else True)"

lemma reported_single:
  "ag_events b = ag_events a @ [t] \<Longrightarrow> is_terminal t \<Longrightarrow> tells t s \<Longrightarrow> (t = CancelledEvent) = (d = Terminated)
     \<Longrightarrow> ag_store b = ag_store a \<Longrightarrow> reported d s a b"
  by (simp add: reported_def)

lemma frame_reported:
  assumes "turn_frame a b" and "reported d s b c"
  shows "reported d s a c"
proof -
  from assms(1) obtain es where es: "ag_events b = ag_events a @ es" "ongoing es"
    by (auto simp: turn_frame_def)
  from assms(2) obtain fs t where t: "ag_events c = ag_events b @ fs @ [t]" "ongoing fs"
    "is_terminal t" "tells t s" "(t = CancelledEvent) = (d = Terminated)"
    by (auto simp: reported_def)
  have "ag_events c = ag_events a @ (es @ fs) @ [t]" "ongoing (es @ fs)" using es t by auto
  with t(3-5) have "\<exists>es t. ag_events c = ag_events a @ es @ [t] \<and> ongoing es
      \<and> is_terminal t \<and> tells t s \<and> (t = CancelledEvent) = (d = Terminated)" by blast
  then show ?thesis using assms by (simp add: reported_def turn_frame_def split: if_splits)
qed

text \<open>What one report leaves, in terms of the task it began with.\<close>

definition concluded :: "wake_disposition \<Rightarrow> 't task \<Rightarrow> 't task \<Rightarrow> bool" where
  "concluded d tk tk' \<longleftrightarrow>
     reported d (tk_life tk') (task_agent tk) (task_agent tk')
     \<and> tk_moves tk' = tk_moves tk @ (if d = Terminated then [] else [(tk_life tk, tk_life tk')])
     \<and> fused (tk_life tk') tk'
     \<and> tk_park_cancel tk' = tk_park_cancel tk
     \<and> tk_park_epoch tk' = (if is_wake_park (tk_life tk') then tk_park_epoch tk + 1 else tk_park_epoch tk)
     \<and> (if is_waiting (tk_life tk') then True else tk_wait_until tk' = tk_wait_until tk)"

text \<open>What a run does before its last report.\<close>

definition runs_on :: "'t task \<Rightarrow> 't task \<Rightarrow> bool" where
  "runs_on tk tk' \<longleftrightarrow> turn_frame (task_agent tk) (task_agent tk')
     \<and> tk_life tk' = tk_life tk \<and> tk_moves tk' = tk_moves tk \<and> tk_park_cancel tk' = tk_park_cancel tk
     \<and> tk_park_epoch tk' = tk_park_epoch tk \<and> tk_wait_until tk' = tk_wait_until tk"

lemma runs_on_trans: "runs_on a b \<Longrightarrow> runs_on b c \<Longrightarrow> runs_on a c"
  by (auto simp: runs_on_def intro: turn_frame_trans)

lemma runs_on_concluded: "runs_on a b \<Longrightarrow> concluded d b c \<Longrightarrow> concluded d a c"
  by (auto simp: runs_on_def concluded_def intro: frame_reported)

lemma one_le_sat_add: "(1 :: u32) \<le> sat_add x 1"
  by (rule sat_add_ge)

lemma report_concluded:
  assumes "report_outcome kit re no_progress r tk = Over (Ended d tk')" and "tk_life tk = LifeRunning"
  shows "concluded d tk tk'"
proof (cases r)
  case (Inl e)
  with assms show ?thesis by (auto simp: concluded_def reported_def Let_def)
next
  case (Inr out)
  show ?thesis
  proof (cases out)
    case (BreakRound until)
    with Inr assms show ?thesis
      by (cases until) (auto simp: concluded_def reported_def split: option.splits elim!: arm_wait_facts)
  next
    case (BareAssistant content reasoning at)
    with Inr assms show ?thesis by (auto simp: concluded_def reported_def split: if_splits)
  next
    case (ParkRound park)
    show ?thesis
    proof (cases park)
      case (FailoverChainExhausted reason detail)
      with Inr ParkRound assms show ?thesis
        by (auto simp: concluded_def reported_def Let_def one_le_sat_add split: if_splits option.splits elim!: arm_retry_facts)
    next
      case (RoundQuotaBlocked info)
      with Inr ParkRound assms show ?thesis
        by (auto simp: concluded_def reported_def split: option.splits elim!: arm_pacing_facts)
    next
      case (TokenBudgetExceeded consumed budget)
      with Inr ParkRound assms show ?thesis
        by (auto simp: concluded_def reported_def split: option.splits elim!: arm_wait_facts)
    qed (use Inr ParkRound assms in \<open>auto simp: concluded_def reported_def terminate_cancelled_def split: if_splits\<close>)
  qed
qed

lemma plain_assistant [simp]: "balanced [assistant_message c [] r]" "plain_parts (assistant_message c [] r)"
  by (simp_all add: assistant_message_def balanced_plain plain_parts_def)

lemma heartbeat_frame: "turn_frame (task_agent tk) (task_agent (heartbeat kit today content reasoning at tk))"
  by (simp add: heartbeat_def turn_frame_user turn_frame_record)

lemma report_again:
  assumes "report_outcome kit re no_progress r tk = RunAgain tk'"
  shows "\<exists>content reasoning at. tk' = heartbeat kit (re_today re) content reasoning at (no_fails tk)
    \<and> no_progress + 1 \<le> cf_max_heartbeat_rounds (ag_config (task_agent tk))"
  using assms
  by (cases "(kit, re, no_progress, r, tk)" rule: report_outcome.cases)
    (auto split: option.splits if_splits simp: Let_def not_less)

lemma again_runs_on:
  assumes "report_outcome kit re no_progress r tk = RunAgain tk'"
  shows "runs_on tk tk'"
proof -
  obtain content reasoning at where tk': "tk' = heartbeat kit (re_today re) content reasoning at (no_fails tk)"
    using report_again [OF assms] by blast
  show ?thesis
    using heartbeat_frame [of "no_fails tk" kit "re_today re" content reasoning at]
    by (simp add: tk' runs_on_def) (simp add: heartbeat_def)
qed

lemma rounds_run_on:
  assumes "run_agent_rounds lk ris (tk_runner tk) = Some (r, rn)"
  shows "runs_on tk (tk\<lparr>tk_runner := rn\<rparr>)"
  using assms by (auto simp: runs_on_def run_agent_rounds_def dest!: run_rounds_frame)

lemma busy_runs_on: "runs_on tk (emit BusyEvent tk)"
  by (simp add: runs_on_def turn_frame_push_events)

lemma run_reports_concluded:
  "run_reports lk res no_progress tk = Some (Ended d tk') \<Longrightarrow> tk_life tk = LifeRunning \<Longrightarrow> concluded d tk tk'"
proof (induction lk res no_progress tk rule: run_reports.induct)
  case (2 lk re res no_progress tk)
  let ?tk1 = "emit BusyEvent tk"
  from "2.prems"(1) obtain r rn where rounds:
    "run_agent_rounds (lk\<lparr>lk_build := tk_build ?tk1\<rparr>) (re_rounds re) (tk_runner ?tk1) = Some (r, rn)"
    by (auto simp: Let_def split: option.splits)
  have on: "runs_on tk (?tk1\<lparr>tk_runner := rn\<rparr>)"
    using busy_runs_on rounds_run_on [OF rounds] by (rule runs_on_trans)
  have running: "tk_life (?tk1\<lparr>tk_runner := rn\<rparr>) = LifeRunning" using "2.prems"(2) by simp
  show ?case
  proof (cases "report_outcome (lk_kit lk) re no_progress r (?tk1\<lparr>tk_runner := rn\<rparr>)")
    case (RunAgain tk2)
    have life: "tk_life tk2 = LifeRunning" using again_runs_on [OF RunAgain] running by (simp add: runs_on_def)
    have rest: "run_reports lk res (no_progress + 1) tk2 = Some (Ended d tk')"
      using "2.prems"(1) rounds RunAgain by (simp add: Let_def)
    have "concluded d tk2 tk'"
      using "2.IH" [OF refl rounds refl RunAgain rest life] by simp
    with runs_on_trans [OF on again_runs_on [OF RunAgain]] show ?thesis by (rule runs_on_concluded)
  next
    case (Over e)
    with "2.prems"(1) rounds have "e = Ended d tk'" by (simp add: Let_def)
    with Over have "concluded d (?tk1\<lparr>tk_runner := rn\<rparr>) tk'" using running by (intro report_concluded) simp_all
    with on show ?thesis by (rule runs_on_concluded)
  qed
qed simp

section \<open>One wake\<close>

lemma reset_frame:
  "turn_frame (task_agent tk) (task_agent (apply_pending_profile_reset now (request_reset rs tk)))"
proof -
  have "turn_frame (task_agent tk) (task_agent (apply_pending_profile_reset now tk))" for tk :: "'a task"
    by (auto simp: apply_pending_profile_reset_def Let_def set_eviction_caps_def set_pinned_budget_def store_paired_def
        intro!: turn_frame_store split: option.split prod.split)
  from this [of "request_reset rs tk"] show ?thesis by simp
qed

lemma enter_wake_facts:
  "tk_life (enter_wake we origin tk) = LifeRunning" "tk_moves (enter_wake we origin tk) = tk_moves tk @ [(tk_life tk, LifeRunning)]"
  "tk_park_cancel (enter_wake we origin tk) = tk_park_cancel tk" "tk_park_epoch (enter_wake we origin tk) = tk_park_epoch tk"
  "tk_wait_until (enter_wake we origin tk) = tk_wait_until tk"
  "turn_frame (task_agent tk) (task_agent (enter_wake we origin tk))"
proof -
  show "turn_frame (task_agent tk) (task_agent (enter_wake we origin tk))"
    using turn_frame_trans [OF _ reset_frame [of "with_agent (\<lambda>ag. ag\<lparr>ag_origin := origin, ag_compaction :=
      (if origin = External then ledger_restart (wv_restart_now we) (ag_compaction ag) else ag_compaction ag)\<rparr>) tk"
      "wv_reset_now we" "wv_reset we"], of "task_agent tk"]
    by (simp add: enter_wake_def Let_def)
qed (simp_all add: enter_wake_def Let_def)

text \<open>What a whole wake leaves.\<close>

definition woken :: "wake_disposition \<Rightarrow> 't task \<Rightarrow> 't task \<Rightarrow> bool" where
  "woken d tk tk' \<longleftrightarrow>
     reported d (tk_life tk') (task_agent tk) (task_agent tk')
     \<and> tk_moves tk' = tk_moves tk @ (tk_life tk, LifeRunning)
         # (if d = Terminated then [] else [(LifeRunning, tk_life tk')])
     \<and> fused (tk_life tk') tk'
     \<and> tk_park_cancel tk' = tk_park_cancel tk
     \<and> tk_park_epoch tk' = (if is_wake_park (tk_life tk') then tk_park_epoch tk + 1 else tk_park_epoch tk)
     \<and> (if is_waiting (tk_life tk') then True else tk_wait_until tk' = tk_wait_until tk)"

lemma concluded_woken: "concluded d (enter_wake we origin tk) tk' \<Longrightarrow> woken d tk tk'"
  by (auto simp: enter_wake_facts(1-5) concluded_def woken_def intro: frame_reported [OF enter_wake_facts(6)])

lemma run_woken:
  assumes "run_and_report lk we origin tk = Some (Ended d tk')"
  shows "woken d tk tk'"
proof (cases "ensure_supports (fo_profiles (ag_failover (task_agent (enter_wake we origin tk))))
    (required_modalities (ag_store (task_agent (enter_wake we origin tk))))")
  case None
  with assms have "run_reports lk (wv_reports we) 0 (enter_wake we origin tk) = Some (Ended d tk')"
    by (simp add: run_and_report_def Let_def)
  then have "concluded d (enter_wake we origin tk) tk'" by (rule run_reports_concluded) (simp add: enter_wake_facts)
  then show ?thesis by (rule concluded_woken)
next
  case (Some blocked)
  let ?tk1 = "enter_wake we origin tk"
  from assms Some have d: "d = Held"
    "tk' = settle (LifeParked (ParkedFatal blocked) (wv_gate_now we)) (emit (ErrorEvent blocked) ?tk1)"
    by (simp_all add: run_and_report_def Let_def)
  have "concluded d ?tk1 tk'" by (simp add: d concluded_def reported_single enter_wake_facts(1-5))
  then show ?thesis by (rule concluded_woken)
qed

section \<open>Rest\<close>

definition legal_moves :: "'t task \<Rightarrow> bool" where
  "legal_moves tk \<longleftrightarrow> list_all (\<lambda>(a, b). legal_move a b) (tk_moves tk)"

text \<open>A task at rest: every move so far was an edge of the table, no wake is running, the fuse behind the state
  is armed, and the turns of the context are paired.\<close>

definition rested :: "'t task \<Rightarrow> bool" where
  "rested tk \<longleftrightarrow> legal_moves tk \<and> tk_life tk \<noteq> LifeRunning \<and> fused (tk_life tk) tk
     \<and> store_paired (ag_store (task_agent tk))"

lemma to_running: "s \<noteq> LifeRunning \<Longrightarrow> legal_move s LifeRunning"
  by (cases s) auto

lemma told_rest: "is_terminal t \<Longrightarrow> tells t s \<Longrightarrow> t \<noteq> CancelledEvent \<Longrightarrow> s \<noteq> LifeRunning"
  by (cases t) (auto split: option.splits elim: tells.elims)

text \<open>What a step may leave: a task at rest, or an ended task whose moves were legal.\<close>

fun status_ok :: "'t task_status \<Rightarrow> bool" where
  "status_ok (Serving tk) = rested tk"
| "status_ok (Finished tk) = (legal_moves tk \<and> store_paired (ag_store (task_agent tk)))"
| "status_ok Crashed = True"

definition may_wake :: "'t task \<Rightarrow> bool" where
  "may_wake tk \<longleftrightarrow> legal_moves tk \<and> tk_life tk \<noteq> LifeRunning \<and> store_paired (ag_store (task_agent tk))"

lemma woken_ok:
  assumes "woken d tk tk'" and "may_wake tk"
  shows "status_ok (after_wake (Ended d tk'))"
proof -
  from assms obtain t where t: "is_terminal t" "tells t (tk_life tk')" "(t = CancelledEvent) = (d = Terminated)"
    by (auto simp: woken_def reported_def)
  have rest: "tk_life tk' \<noteq> LifeRunning" if "d \<noteq> Terminated" using t that by (intro told_rest) auto
  have legal: "legal_moves tk'"
    using assms rest to_running by (auto simp: woken_def legal_moves_def may_wake_def)
  have paired: "store_paired (ag_store (task_agent tk'))" using assms by (simp add: woken_def reported_def may_wake_def)
  show ?thesis
    using rest legal paired assms(1) by (cases d) (auto simp: rested_def woken_def)
qed

lemma rested_may_wake: "rested tk \<Longrightarrow> may_wake tk"
  by (simp add: rested_def may_wake_def)

lemma record_paired:
  "store_paired (ag_store (task_agent tk)) \<Longrightarrow>
     store_paired (ag_store (task_agent (with_agent (snd \<circ> record_turn kit today [user_message m]) tk)))"
  using turn_frame_user [OF turn_frame_refl, of "task_agent tk" kit today m] by (simp add: turn_frame_def)

lemma may_wake_steps [simp]:
  "may_wake (clear_transient_retry tk) = may_wake tk" "may_wake (clear_wait_timer tk) = may_wake tk"
  "may_wake (clear_pacing_wake tk) = may_wake tk" "may_wake (clear_fuses tk) = may_wake tk"
  by (simp_all add: may_wake_def legal_moves_def clear_fuses_def)

lemma may_wake_record: "may_wake tk \<Longrightarrow> may_wake (with_agent (snd \<circ> record_turn kit today [user_message m]) tk)"
  using record_paired [of tk kit today m] by (simp add: may_wake_def legal_moves_def)

lemma drain_cases:
  assumes "wake_and_drain lk de origin tk = Some (Ended d tk')"
  obtains (once) "run_and_report lk (dr_first de) origin tk = Some (Ended d tk')"
  | (twice) tk1 m where "run_and_report lk (dr_first de) origin tk = Some (Ended Awake tk1)" "dr_pulled de = Some m"
      "run_and_report lk (dr_second de) External (record_message_turn (lk_kit lk) (dr_today de) m tk1)
         = Some (Ended d tk')"
  using assms by (auto simp: wake_and_drain_def split: option.splits wake_end.splits wake_disposition.splits)

lemma wake_task_ok:
  assumes "wake_task lk de origin tk = Some st" and "may_wake tk"
  shows "status_ok st"
proof -
  from assms(1) obtain e where e: "wake_and_drain lk de origin tk = Some e" "st = after_wake e"
    by (auto simp: wake_task_def)
  show ?thesis
  proof (cases e)
    case (Ended d tk')
    from e(1) [unfolded Ended] have "status_ok (after_wake (Ended d tk'))"
    proof (cases rule: drain_cases)
      case once
      with assms(2) show ?thesis by (intro woken_ok run_woken)
    next
      case (twice tk1 m)
      have "rested tk1" using woken_ok [OF run_woken [OF twice(1)] assms(2)] by simp
      then have "may_wake (record_message_turn (lk_kit lk) (dr_today de) m tk1)"
        unfolding record_message_turn_def by (intro may_wake_record rested_may_wake)
      with twice(3) show ?thesis by (intro woken_ok run_woken)
    qed
    with e(2) Ended show ?thesis by simp
  qed (use e in simp)
qed

section \<open>The arms of the loop\<close>

lemma fused_cong:
  "tk_wait_until b = tk_wait_until a \<Longrightarrow> tk_retry_at b = tk_retry_at a \<Longrightarrow> tk_transient_fails b = tk_transient_fails a
     \<Longrightarrow> tk_pacing_wake_at b = tk_pacing_wake_at a \<Longrightarrow> fused s b = fused s a"
  by (cases s) (auto split: parked_reason.split option.split)

lemma rested_keep:
  assumes "rested a" and "tk_life b = tk_life a" and "tk_moves b = tk_moves a" and "tk_wait_until b = tk_wait_until a"
    and "tk_retry_at b = tk_retry_at a" and "tk_transient_fails b = tk_transient_fails a"
    and "tk_pacing_wake_at b = tk_pacing_wake_at a" and "cs_turns (ag_store (task_agent b)) = cs_turns (ag_store (task_agent a))"
  shows "rested b"
  using assms fused_cong [OF assms(4-7), of "tk_life a"] by (simp add: rested_def legal_moves_def store_paired_def)

lemma park_cancel_rested:
  assumes "rested tk" and "is_wake_park (tk_life tk)"
  shows "rested ((emit WaitCancelledEvent (end_cancelled_park tk))\<lparr>tk_notified := n\<rparr>)"
  using assms
  by (cases "tk_life tk")
    (auto simp: rested_def legal_moves_def end_cancelled_park_def clear_wait_timer_def clear_transient_retry_def
      clear_pacing_wake_def)

lemma notify_ok:
  assumes "notify_arm lk now today pulled de tk = Some st" and "rested tk"
  shows "status_ok st"
proof -
  let ?tk1 = "apply_pending_profile_reset now (tk\<lparr>tk_notified := False\<rparr>)"
  let ?tk2 = "?tk1\<lparr>tk_park_cancel := None\<rparr>"
  let ?tk3 = "case pulled of None \<Rightarrow> ?tk2 | Some m \<Rightarrow> record_message_turn (lk_kit lk) today m ?tk2"
  have two: "rested ?tk2" using assms(2) by (rule rested_keep) simp_all
  have three: "rested ?tk3"
  proof (cases pulled)
    case (Some m)
    have "fused (tk_life ?tk2) (record_message_turn (lk_kit lk) today m ?tk2) = fused (tk_life ?tk2) ?tk2"
      by (rule fused_cong) (simp_all add: record_message_turn_def)
    then show ?thesis
      using Some two record_paired [of ?tk2 "lk_kit lk" today]
      by (simp add: rested_def legal_moves_def record_message_turn_def)
  qed (use two in simp)
  show ?thesis
  proof (cases "cancel_applies ?tk1")
    case True
    then have "is_wake_park (tk_life ?tk2)" by (simp add: cancel_applies_def)
    from park_cancel_rested [OF two this, of True] True assms(1) show ?thesis
      by (auto simp: notify_arm_def Let_def)
  next
    case False
    with assms(1) two three wake_task_ok [of lk de External "clear_fuses ?tk3" st] rested_may_wake [OF three]
    show ?thesis
      by (auto simp: notify_arm_def Let_def split: if_splits)
  qed
qed

lemma step_ok:
  assumes "task_step lk inp tk = Some st" and "rested tk"
  shows "status_ok st"
proof -
  note wake = wake_task_ok rested_may_wake [OF assms(2)]
  note keep = rested_keep [OF assms(2)]
  have msg: "may_wake (record_message_turn (lk_kit lk) today m (clear_fuses tk))" for today m
    unfolding record_message_turn_def using wake(2) by (intro may_wake_record) simp
  have elapsed: "may_wake (with_agent (snd \<circ> record_turn (lk_kit lk) today [user_message x]) (clear_wait_timer tk))"
    for today x
    using wake(2) by (intro may_wake_record) simp
  show ?thesis
  proof (cases inp)
    case (PromptInput today m de)
    with assms(1) have "wake_task lk de External (record_message_turn (lk_kit lk) today m (clear_fuses tk)) = Some st"
      by simp
    then show ?thesis by (rule wake(1)) (rule msg)
  next
    case (NotifyInput now today pulled de)
    with assms show ?thesis by (auto intro: notify_ok split: if_splits)
  next
    case (RetryInput now de)
    with assms wake(2) show ?thesis by (auto intro: wake(1) split: if_splits)
  next
    case (WaitInput now today de)
    with assms wake(2) elapsed show ?thesis by (auto simp: Let_def intro: wake(1) split: if_splits)
  next
    case (PacingInput now de)
    with assms wake(2) show ?thesis by (auto intro: wake(1) split: if_splits)
  next
    case (LifecycleCancel a b)
    with assms show ?thesis by (auto simp: terminate_cancelled_def rested_def legal_moves_def)
  next
    case PromptsClosed
    with assms show ?thesis by (auto simp: rested_def)
  next
    case RequestParkCancel
    have "rested (request_park_cancel tk)" by (rule keep) (simp_all add: request_park_cancel_def)
    with assms(1) RequestParkCancel show ?thesis by auto
  next
    case (RequestReset rs)
    have "rested ((request_reset (Some rs) tk)\<lparr>tk_notified := True\<rparr>)" by (rule keep) simp_all
    with assms(1) RequestReset show ?thesis by auto
  next
    case RequestNotify
    have "rested (tk\<lparr>tk_notified := True\<rparr>)" by (rule keep) simp_all
    with assms(1) RequestNotify show ?thesis by auto
  qed
qed

lemma loop_ok: "task_loop lk inps tk = Some st \<Longrightarrow> rested tk \<Longrightarrow> status_ok st"
proof (induction lk inps tk rule: task_loop.induct)
  case (2 lk inp inps tk)
  from "2.prems"(1) obtain st1 where step: "task_step lk inp tk = Some st1" by (auto split: option.splits)
  from step_ok [OF step "2.prems"(2)] "2.prems" "2.IH" step show ?case by (cases st1) auto
qed auto

section \<open>Properties\<close>

text \<open>C1. Over everything that can happen to it, a task makes only legal moves, rests only in a state whose fuse is
  armed (a wait and a retry name the armed deadline, a retry is within its limit, a quota park has a wake that is not
  before the park), is never left running between two wakes, and keeps every stored turn paired.\<close>

theorem task_keeps_its_state_sound:
  assumes "tk_life tk = LifeIdle" and "tk_moves tk = []" and "store_paired (ag_store (task_agent tk))"
  shows "case agent_task lk ge prompt inps tk of
       None \<Rightarrow> True
     | Some Crashed \<Rightarrow> True
     | Some (Serving tk') \<Rightarrow> list_all (\<lambda>(a, b). legal_move a b) (tk_moves tk') \<and> tk_life tk' \<noteq> LifeRunning
         \<and> fused (tk_life tk') tk' \<and> store_paired (ag_store (task_agent tk'))
     | Some (Finished tk') \<Rightarrow> list_all (\<lambda>(a, b). legal_move a b) (tk_moves tk')
         \<and> store_paired (ag_store (task_agent tk'))"
proof -
  have ok: "status_ok st" if "agent_task lk ge prompt inps tk = Some st" for st
  proof -
    from that obtain ag where pre: "compact_pre_loop (lk_kit lk) ge (task_agent tk) = Some ag"
      by (auto simp: agent_task_def split: option.splits)
    let ?tk1 = "with_agent (\<lambda>_. ag) tk"
    have start: "rested ?tk1"
      using assms turn_frame_pre_loop [OF pre] by (simp add: rested_def legal_moves_def turn_frame_def)
    show ?thesis
    proof (cases prompt)
      case None
      with that pre start show ?thesis by (auto simp: agent_task_def Let_def intro: loop_ok)
    next
      case (Some q)
      obtain today p de where q: "q = (today, p, de)" by (cases q)
      let ?tk2 = "with_agent (snd \<circ> record_turn (lk_kit lk) today [user_message p]) ?tk1"
      show ?thesis
      proof (cases "p = []")
        case True
        with that pre Some q start show ?thesis by (auto simp: agent_task_def Let_def rested_def)
      next
        case False
        with that pre Some q obtain st1 where wake: "wake_task lk de External ?tk2 = Some st1"
          by (auto simp: agent_task_def Let_def split: option.splits)
        have "may_wake ?tk2" using start by (intro may_wake_record rested_may_wake)
        from wake_task_ok [OF wake this] have "status_ok st1" .
        with that pre Some q False wake show ?thesis
          by (cases st1) (auto simp: agent_task_def Let_def intro: loop_ok)
      qed
    qed
  qed
  show ?thesis
    using ok by (auto simp: rested_def legal_moves_def split: option.split task_status.split)
qed

section \<open>A wake comes to rest\<close>

lemma input_covers_le: "input_covers c ag ri \<Longrightarrow> c' \<le> c \<Longrightarrow> input_covers c' ag ri"
  by (auto simp: input_covers_def acquire_covers_def)

text \<open>Enough inputs for one run, on a conversation that may have grown to \<open>c\<close> turns.\<close>

definition report_covers :: "nat \<Rightarrow> 't agent \<Rightarrow> report_env \<Rightarrow> bool" where
  "report_covers c ag re \<longleftrightarrow> cf_max_tool_rounds (ag_config ag) \<le> length (re_rounds re)
     \<and> (\<forall>ri \<in> set (re_rounds re). input_covers c ag ri)"

lemma grows_heartbeat: "grows 2 (task_agent tk) (task_agent (heartbeat kit today content reasoning at tk))"
  unfolding heartbeat_def record_turn_def with_agent_simps
  by (rule grows_trans [OF grows_record grows_record]) simp

lemma run_reports_return:
  "acquire_ok (task_agent tk) \<Longrightarrow>
     cf_max_heartbeat_rounds (ag_config (task_agent tk)) < - 1 \<Longrightarrow>
     no_progress \<le> cf_max_heartbeat_rounds (ag_config (task_agent tk)) \<Longrightarrow>
     unat (cf_max_heartbeat_rounds (ag_config (task_agent tk))) < unat no_progress + length res \<Longrightarrow>
     \<forall>re \<in> set res. report_covers (length (conversation (ag_store (task_agent tk)))
       + (6 * cf_max_tool_rounds (ag_config (task_agent tk)) + 2) * length res + 3) (task_agent tk) re \<Longrightarrow>
     \<exists>e. run_reports lk res no_progress tk = Some e"
proof (induction res arbitrary: no_progress tk)
  case Nil
  then show ?case by (simp add: word_le_nat_alt)
next
  case (Cons re res)
  let ?tk1 = "emit BusyEvent tk" and ?conv = "\<lambda>tk. length (conversation (ag_store (task_agent tk)))"
  let ?lk = "lk\<lparr>lk_build := tk_build ?tk1\<rparr>" and ?L = "cf_max_tool_rounds (ag_config (task_agent tk))"
  let ?hb = "cf_max_heartbeat_rounds (ag_config (task_agent tk))"
  have busy: "grows 0 (task_agent tk) (task_agent ?tk1)" by (simp add: push_events_grows)
  have covers: "report_covers (?conv tk + (6 * ?L + 2) * length (re # res) + 3) (task_agent tk) re'"
    if "re' \<in> set (re # res)" for re'
    using Cons.prems(5) that by blast
  have rounds: "\<exists>r rn. run_agent_rounds ?lk (re_rounds re) (tk_runner ?tk1) = Some (r, rn)
      \<and> grows (6 * ?L) (task_agent ?tk1) (ru_agent rn)"
  proof -
    have ok: "acquire_ok (task_agent ?tk1)" using busy Cons.prems(1) by (simp add: grows_def)
    have limit: "cf_max_tool_rounds (ag_config (task_agent ?tk1)) = ?L" by simp
    have "input_covers (?conv ?tk1 + 6 * i + 3) (task_agent ?tk1) (re_rounds re ! i)"
      if "i < length (re_rounds re)" "i < ?L" for i
    proof -
      have "input_covers (?conv tk + (6 * ?L + 2) * length (re # res) + 3) (task_agent tk) (re_rounds re ! i)"
        using covers [of re] that(1) by (simp add: report_covers_def)
      then have "input_covers (?conv tk + 6 * i + 3) (task_agent tk) (re_rounds re ! i)"
        by (rule input_covers_le) (use that(2) in \<open>simp add: algebra_simps\<close>)
      then show ?thesis using input_covers_grows [OF busy Cons.prems(1)] by simp
    qed
    then have "\<forall>i < length (re_rounds re). i < cf_max_tool_rounds (ag_config (task_agent ?tk1)) \<longrightarrow>
        input_covers (?conv ?tk1 + 6 * i + 3) (task_agent ?tk1) (re_rounds re ! i)" by simp
    from agent_rounds_return [OF ok _ this, of ?lk] covers [of re] show ?thesis
      by (simp add: report_covers_def)
  qed
  then obtain r rn where run: "run_agent_rounds ?lk (re_rounds re) (tk_runner ?tk1) = Some (r, rn)"
    and grow: "grows (6 * ?L) (task_agent ?tk1) (ru_agent rn)" by blast
  show ?case
  proof (cases "report_outcome (lk_kit lk) re no_progress r (?tk1\<lparr>tk_runner := rn\<rparr>)")
    case (Over e)
    with run show ?thesis by (simp add: Let_def)
  next
    case (RunAgain tk2)
    obtain content reasoning at where
      tk2: "tk2 = heartbeat (lk_kit lk) (re_today re) content reasoning at (no_fails (?tk1\<lparr>tk_runner := rn\<rparr>))"
      and below: "no_progress + 1 \<le> cf_max_heartbeat_rounds (ag_config (ru_agent rn))"
      using report_again [OF RunAgain] by auto
    have "turn_frame (task_agent ?tk1) (ru_agent rn)"
      using rounds_run_on [OF run] by (simp add: runs_on_def)
    then have same: "loop_limits (ag_config (ru_agent rn)) = loop_limits (ag_config (task_agent tk))"
      by (simp add: turn_frame_def)
    have "turn_frame (ru_agent rn) (task_agent tk2)"
      using again_runs_on [OF RunAgain] by (simp add: runs_on_def)
    with same have limits: "cf_max_tool_rounds (ag_config (task_agent tk2)) = ?L"
      "cf_max_heartbeat_rounds (ag_config (task_agent tk2)) = ?hb"
      by (simp_all add: turn_frame_def loop_limits_def)
    have beat: "grows 2 (ru_agent rn) (task_agent tk2)"
      using grows_heartbeat [of "no_fails (?tk1\<lparr>tk_runner := rn\<rparr>)"] by (simp add: tk2)
    have total: "grows (6 * ?L + 2) (task_agent tk) (task_agent tk2)"
      by (rule grows_trans [OF busy grows_trans [OF grow beat order_refl]]) simp
    then have ok: "acquire_ok (task_agent tk2)" and conv: "?conv tk2 \<le> ?conv tk + (6 * ?L + 2)"
      using Cons.prems(1) by (simp_all add: grows_def)
    have "no_progress + 1 \<le> ?hb" using below same by (simp add: loop_limits_def)
    moreover have "unat (no_progress + 1) = unat no_progress + 1"
    proof -
      have "unat no_progress \<le> unat ?hb" "unat ?hb < unat (- 1 :: u32)"
        using Cons.prems(2,3) by (simp_all add: word_le_nat_alt word_less_nat_alt)
      then show ?thesis by (simp add: unat_minus_one_max unat_word_ariths)
    qed
    moreover have "report_covers (?conv tk2 + (6 * ?L + 2) * length res + 3) (task_agent tk2) re'" if "re' \<in> set res" for re'
    proof -
      have far: "?conv tk2 + (6 * ?L + 2) * length res + 3 \<le> ?conv tk + (6 * ?L + 2) * length (re # res) + 3"
        using conv by (simp add: algebra_simps)
      have "input_covers (?conv tk2 + (6 * ?L + 2) * length res + 3) (task_agent tk2) ri"
        if "ri \<in> set (re_rounds re')" for ri
      proof -
        have "input_covers (?conv tk + (6 * ?L + 2) * length (re # res) + 3) (task_agent tk) ri"
          using covers [of re'] that \<open>re' \<in> set res\<close> by (simp add: report_covers_def)
        from input_covers_le [OF this far] show ?thesis by (rule input_covers_grows [OF total Cons.prems(1)])
      qed
      then show ?thesis using covers [of re'] that limits(1) by (simp add: report_covers_def)
    qed
    ultimately have "\<exists>e. run_reports lk res (no_progress + 1) tk2 = Some e"
      using Cons.prems(2,4) by (intro Cons.IH [OF ok]) (simp_all add: limits)
    with run RunAgain show ?thesis by (simp add: Let_def)
  qed
qed

text \<open>C2. A wake always comes to an end: on a well-formed agent, with inputs for one run of the rounds more than its
  heartbeat limit, each long enough for the conversation as it may have grown, the wake ends with a
  disposition or with the panic of an instant out of range; a model that only ever answers in prose is
  stopped by the limit. The limit itself may not be the largest count its width has.\<close>

theorem wake_comes_to_an_end:
  fixes tk :: "'t task"
  assumes "acquire_ok (task_agent (enter_wake we origin tk))"
    and "cf_max_heartbeat_rounds (ag_config (task_agent (enter_wake we origin tk))) < - 1"
    and "unat (cf_max_heartbeat_rounds (ag_config (task_agent (enter_wake we origin tk)))) < length (wv_reports we)"
    and "\<forall>re \<in> set (wv_reports we). report_covers
      (length (conversation (ag_store (task_agent (enter_wake we origin tk))))
        + (6 * cf_max_tool_rounds (ag_config (task_agent (enter_wake we origin tk))) + 2) * length (wv_reports we) + 3)
      (task_agent (enter_wake we origin tk)) re"
  shows "\<exists>e. run_and_report lk we origin tk = Some e"
  using run_reports_return [OF assms(1,2) _ _ assms(4), of 0 lk] assms(3)
  by (simp add: run_and_report_def Let_def split: option.split)

section \<open>A wake on a spent budget\<close>

lemma enter_wake_plain:
  assumes "tk_pending_reset tk = None" and "wv_reset we = None"
  shows "enter_wake we origin tk = settle LifeRunning (with_agent (\<lambda>ag. ag\<lparr>ag_origin := origin, ag_compaction :=
    (if origin = External then ledger_restart (wv_restart_now we) (ag_compaction ag) else ag_compaction ag)\<rparr>) tk)"
  using assms by (simp add: enter_wake_def apply_pending_profile_reset_def request_reset_def Let_def)

lemma probe_wake:
  assumes "is_exceeded (ag_budget (task_agent tk))" and "0 < cf_max_tool_rounds (ag_config (task_agent tk))"
    and "tk_pending_reset tk = None" and "wv_reset we = None" and "required_modalities (ag_store (task_agent tk)) = []"
    and "wv_reports we = re # res" and "re_rounds re = ri # ris"
    and "instant_add (pk_now (re_park re)) (dur_of_secs DEFAULT_BREAK_TIMEOUT_SECS) = Some t"
  shows "\<exists>tk'. run_and_report lk we origin tk = Some (Ended Held tk') \<and> tk_life tk' = LifeWaiting t
    \<and> tk_wait_until tk' = Some t
    \<and> ag_events (task_agent tk') = ag_events (task_agent tk) @ [BusyEvent,
        BudgetExceededEvent (bs_consumed (snapshot (ag_budget (task_agent tk)))) (bs_budget (snapshot (ag_budget (task_agent tk))))]"
proof -
  let ?tk1 = "enter_wake we origin tk"
  let ?tk2 = "emit BusyEvent ?tk1"
  note plain = enter_wake_plain [OF assms(3,4), of origin]
  have rn: "ag_budget (ru_agent (tk_runner ?tk2)) = ag_budget (task_agent tk)"
    "ag_config (ru_agent (tk_runner ?tk2)) = ag_config (task_agent tk)"
    "ag_events (ru_agent (tk_runner ?tk2)) = ag_events (task_agent tk) @ [BusyEvent]"
    "required_modalities (ag_store (task_agent ?tk1)) = []"
    by (simp_all add: plain push_events_def assms(5))
  obtain rn' where rounds: "run_agent_rounds (lk\<lparr>lk_build := tk_build ?tk2\<rparr>) (re_rounds re) (tk_runner ?tk2)
      = Some (Inr (ParkRound (TokenBudgetExceeded (bs_consumed (snapshot (ag_budget (task_agent tk))))
          (bs_budget (snapshot (ag_budget (task_agent tk)))))), rn')"
    and told: "ag_events (ru_agent rn') = ag_events (task_agent tk) @ [BusyEvent]"
    using spent_budget_ends [of "tk_runner ?tk2" "lk\<lparr>lk_build := tk_build ?tk2\<rparr>" ri ris] assms(1,2,7) rn by auto
  have arm: "arm_park (re_park re) (ArmWait DEFAULT_BREAK_TIMEOUT_SECS) k
      = Some (LifeWaiting t, None, k\<lparr>tk_wait_until := Some t, tk_wait_armed_secs := DEFAULT_BREAK_TIMEOUT_SECS,
          tk_park_epoch := tk_park_epoch k + 1\<rparr>)" for k :: "'a task"
    using assms(8) by (simp add: arm_park_def arm_wait_timer_def Let_def)
  have "ensure_supports ps [] = None" for ps by (simp add: ensure_supports_def supports_def)
  then show ?thesis
    using rounds told arm rn(4) assms(6)
    by (simp add: run_and_report_def Let_def)
qed

definition demo_report :: report_env where
  "demo_report = \<lparr>re_rounds = [demo_input], re_park = \<lparr>pk_now = 5, pk_jitter = 0, pk_epoch_now = 1001\<rparr>,
     re_lifecycle_cancelled = False, re_today = ''d'', re_store_saved = True, re_approvals_saved = True\<rparr>"

definition demo_wake :: wake_env where
  "demo_wake = \<lparr>wv_reset = None, wv_restart_now = 1001, wv_reset_now = 1001, wv_gate_now = 5,
     wv_reports = [demo_report]\<rparr>"

definition demo_task :: "pacing_table task" where
  "demo_task = \<lparr>tk_runner = on_agent (ag_budget_update (\<lambda>_. budget_new 10 20)) demo_runner, tk_build = (\<lambda>_. True),
     tk_life = LifeIdle, tk_moves = [], tk_transient_fails = 0, tk_retry_at = None, tk_wait_until = None,
     tk_wait_armed_secs = 0, tk_pacing_wake_at = None, tk_park_epoch = 0, tk_park_cancel = None,
     tk_pending_reset = None, tk_notified = False\<rparr>"

lemma demo_probe:
  "\<exists>tk'. run_and_report lk demo_wake origin demo_task = Some (Ended Held tk')
     \<and> tk_life tk' = LifeWaiting (5 + 600 * nanos_per_sec) \<and> tk_wait_until tk' = Some (5 + 600 * nanos_per_sec)
     \<and> ag_events (task_agent tk') = [BusyEvent, BudgetExceededEvent 20 10]"
proof -
  have instant: "instant_add (pk_now (re_park demo_report)) (dur_of_secs DEFAULT_BREAK_TIMEOUT_SECS)
      = Some (5 + 600 * nanos_per_sec)"
    by (simp add: instant_add_def demo_report_def dur_of_secs_def DEFAULT_BREAK_TIMEOUT_SECS_def nanos_per_sec_def)
  have "is_exceeded (ag_budget (task_agent demo_task))" by (simp add: demo_task_def budget_defs budget_new_def)
  moreover have "0 < cf_max_tool_rounds (ag_config (task_agent demo_task))" by (simp add: demo_task_def demo_runner_def)
  moreover have "required_modalities (ag_store (task_agent demo_task)) = []"
    by (simp add: demo_task_def demo_runner_def demo_agent_def store_new_def required_modalities_def)
  moreover have "bs_consumed (snapshot (ag_budget (task_agent demo_task))) = 20"
    "bs_budget (snapshot (ag_budget (task_agent demo_task))) = 10"
    "ag_events (task_agent demo_task) = []"
    by (simp_all add: demo_task_def budget_new_def demo_runner_def demo_agent_def)
  ultimately show ?thesis
    using probe_wake [of demo_task demo_wake demo_report "[]" demo_input "[]" "5 + 600 * nanos_per_sec" lk origin] instant
    by (simp add: demo_wake_def demo_task_def demo_report_def)
qed

section \<open>More properties\<close>

text \<open>C3. Every wake that does not panic reports exactly one event that ends it, as its last event, and that event tells
  the state the task is left in: what mirrors the task from its events alone is never wrong about it. The task ends
  with a wake only when that event is the one of a lifecycle cancel.\<close>

theorem wake_reports_its_end:
  assumes "run_and_report lk we origin tk = Some (Ended d tk')"
  shows "\<exists>es t. ag_events (task_agent tk') = ag_events (task_agent tk) @ es @ [t] \<and> filter is_terminal es = []
    \<and> is_terminal t \<and> tells t (tk_life tk') \<and> (t = CancelledEvent) = (d = Terminated)"
  using run_woken [OF assms] by (auto simp: woken_def reported_def filter_empty_conv)

theorem wake_reports_its_end_witness:
  "\<exists>tk' es t. run_and_report demo_loop demo_wake External demo_task = Some (Ended Held tk')
     \<and> ag_events (task_agent tk') = es @ [t] \<and> is_terminal t \<and> tells t (tk_life tk')"
proof -
  obtain tk' where run: "run_and_report demo_loop demo_wake External demo_task = Some (Ended Held tk')"
    using demo_probe by blast
  have "ag_events (task_agent demo_task) = []" by (simp add: demo_task_def demo_runner_def demo_agent_def)
  with wake_reports_its_end [OF run] run show ?thesis by auto
qed

lemma drain_stale_cancel:
  assumes "wake_and_drain lk de origin tk = Some (Ended d tk')" and "tk_park_cancel tk = Some (tk_park_epoch tk)"
  shows "\<not> cancel_applies tk'"
proof -
  have step: "tk_park_cancel b = tk_park_cancel a
      \<and> tk_park_epoch b = (if is_wake_park (tk_life b) then tk_park_epoch a + 1 else tk_park_epoch a)"
    if "run_and_report lk we origin a = Some (Ended d b)" for we origin d and a b :: "'a task"
    using run_woken [OF that] by (simp add: woken_def)
  from assms(1) show ?thesis
  proof (cases rule: drain_cases)
    case once
    with step [OF once] assms(2) show ?thesis by (simp add: cancel_applies_def)
  next
    case (twice tk1 m)
    have two: "x \<noteq> x + 2" for x :: u64
    proof
      assume "x = x + 2"
      then have "(2 :: u64) = 0" by (metis add_cancel_right_right)
      then show False by simp
    qed
    have mid: "tk_park_epoch (record_message_turn (lk_kit lk) (dr_today de) m tk1) = tk_park_epoch tk1"
      "tk_park_cancel (record_message_turn (lk_kit lk) (dr_today de) m tk1) = tk_park_cancel tk1"
      by (simp_all add: record_message_turn_def)
    show ?thesis
      using step [OF twice(1)] step [OF twice(3)] assms(2) mid two
      by (auto simp: cancel_applies_def add.assoc split: if_splits)
  qed
qed

text \<open>C12. A park cancel reaches only the park it names: once any wake has run since the request was stamped, the
  request no longer applies, also when the wake ended in another park of the same kind (the count of parks wraps at its
  width, but not within one wake).\<close>

theorem stale_cancel_spares_later_park:
  assumes "tk_park_cancel tk = Some (tk_park_epoch tk)"
  shows "case wake_task lk de origin tk of
       Some (Serving tk') \<Rightarrow> \<not> cancel_applies tk'
     | _ \<Rightarrow> True"
proof -
  have "\<not> cancel_applies tk'" if "wake_task lk de origin tk = Some (Serving tk')" for tk'
  proof -
    from that obtain e where e: "wake_and_drain lk de origin tk = Some e" "after_wake e = Serving tk'"
      by (auto simp: wake_task_def)
    from e(2) obtain d where "e = Ended d tk'" by (cases e rule: after_wake.cases) auto
    with e(1) drain_stale_cancel assms show ?thesis by blast
  qed
  then show ?thesis by (auto split: option.split task_status.split)
qed

definition demo_drain :: drain_env where
  "demo_drain = \<lparr>dr_first = demo_wake, dr_pulled = None, dr_today = ''d'', dr_second = demo_wake\<rparr>"

lemma demo_serves:
  assumes "is_exceeded (ag_budget (task_agent tk))" and "0 < cf_max_tool_rounds (ag_config (task_agent tk))"
    and "tk_pending_reset tk = None" and "required_modalities (ag_store (task_agent tk)) = []"
  shows "\<exists>tk'. wake_task lk demo_drain origin tk = Some (Serving tk') \<and> tk_life tk' = LifeWaiting (5 + 600 * nanos_per_sec)"
proof -
  have "instant_add (pk_now (re_park demo_report)) (dur_of_secs DEFAULT_BREAK_TIMEOUT_SECS) = Some (5 + 600 * nanos_per_sec)"
    by (simp add: instant_add_def demo_report_def dur_of_secs_def DEFAULT_BREAK_TIMEOUT_SECS_def nanos_per_sec_def)
  from probe_wake [OF assms(1-3) _ assms(4) _ _ this, of demo_wake "[]" demo_input "[]" lk origin] show ?thesis
    by (auto simp: demo_wake_def demo_report_def wake_task_def wake_and_drain_def demo_drain_def)
qed

lemma demo_task_facts:
  "is_exceeded (ag_budget (task_agent demo_task))" "0 < cf_max_tool_rounds (ag_config (task_agent demo_task))"
  "tk_pending_reset demo_task = None" "ag_store (task_agent demo_task) = store_new"
  "tk_life demo_task = LifeIdle" "tk_moves demo_task = []"
  by (simp_all add: demo_task_def demo_runner_def demo_agent_def budget_defs budget_new_def)

theorem stale_cancel_spares_later_park_witness:
  "\<exists>tk'. wake_task demo_loop demo_drain System (demo_task\<lparr>tk_park_cancel := Some 0\<rparr>) = Some (Serving tk')
     \<and> is_wake_park (tk_life tk') \<and> \<not> cancel_applies tk'"
proof -
  let ?tk = "demo_task\<lparr>tk_park_cancel := Some 0\<rparr>"
  have ready: "is_exceeded (ag_budget (task_agent ?tk))" "0 < cf_max_tool_rounds (ag_config (task_agent ?tk))"
    "tk_pending_reset ?tk = None" "required_modalities (ag_store (task_agent ?tk)) = []"
    using demo_task_facts by (simp_all add: required_modalities_def store_new_def)
  obtain tk' where run: "wake_task demo_loop demo_drain System ?tk = Some (Serving tk')"
    "tk_life tk' = LifeWaiting (5 + 600 * nanos_per_sec)"
    using demo_serves [OF ready] by blast
  have "tk_park_cancel ?tk = Some (tk_park_epoch ?tk)" by (simp add: demo_task_def)
  from stale_cancel_spares_later_park [OF this, of demo_loop demo_drain System] run show ?thesis by auto
qed

theorem task_keeps_its_state_sound_witness:
  "\<exists>tk'. agent_task demo_loop (ri_gate demo_input) (Some (''d'', ''go'', demo_drain)) [] demo_task = Some (Serving tk')
     \<and> list_all (\<lambda>(a, b). legal_move a b) (tk_moves tk') \<and> tk_life tk' = LifeWaiting (5 + 600 * nanos_per_sec)"
proof -
  let ?ag = "clear_ledger (ge_clear_now (ri_gate demo_input)) (task_agent demo_task)"
  have "\<not> over_budget (total_estimated_tokens (ag_store (task_agent demo_task))) b" for b
    by (simp add: demo_task_facts over_budget_def total_estimated_tokens_def store_new_def)
  then have pre: "compact_pre_loop (lk_kit demo_loop) (ri_gate demo_input) (task_agent demo_task) = Some ?ag"
    by (simp add: compact_pre_loop_def compact_if_needed_def)
  let ?tk = "with_agent (snd \<circ> record_turn (lk_kit demo_loop) ''d'' [user_message ''go'']) (with_agent (\<lambda>_. ?ag) demo_task)"
  have ready: "is_exceeded (ag_budget (task_agent ?tk))" "0 < cf_max_tool_rounds (ag_config (task_agent ?tk))"
    "tk_pending_reset ?tk = None" "required_modalities (ag_store (task_agent ?tk)) = []"
    using demo_task_facts
    by (simp_all add: record_turn_def record_turn_entry_def clear_ledger_def push_turn_def required_modalities_def
        store_new_def user_message_def message_has_images_def Let_def)
  obtain tk' where run: "wake_task demo_loop demo_drain External ?tk = Some (Serving tk')"
    "tk_life tk' = LifeWaiting (5 + 600 * nanos_per_sec)"
    using demo_serves [OF ready] by blast
  have task: "agent_task demo_loop (ri_gate demo_input) (Some (''d'', ''go'', demo_drain)) [] demo_task = Some (Serving tk')"
    using pre run by (simp add: agent_task_def Let_def)
  have "store_paired (ag_store (task_agent demo_task))" by (simp add: demo_task_facts store_new_def store_paired_def)
  from task_keeps_its_state_sound [OF demo_task_facts(5,6) this, of demo_loop "ri_gate demo_input"
      "Some (''d'', ''go'', demo_drain)" "[]"] task run show ?thesis by simp
qed

text \<open>C13. A notify wake and a park cancel: a request that names the armed wait or retry ends it (every fuse cleared, the
  failure count at zero, the agent idle, the event told, the context and its approvals untouched, no round run) and
  leaves a permit for the work that came with it; any other request is dropped, and the wake is what it is
  without it. A parked agent runs no round on a notify.\<close>

theorem park_cancel_effect:
  "if tk_pending_reset tk = None \<and> cancel_applies tk
   then \<exists>tk'. notify_arm lk now today pulled de tk = Some (Serving tk')
     \<and> tk_life tk' = LifeIdle \<and> tk_moves tk' = tk_moves tk @ [(tk_life tk, LifeIdle)]
     \<and> tk_wait_until tk' = None \<and> tk_retry_at tk' = None \<and> tk_pacing_wake_at tk' = None
     \<and> tk_transient_fails tk' = 0 \<and> tk_park_cancel tk' = None \<and> tk_notified tk'
     \<and> ag_store (task_agent tk') = ag_store (task_agent tk) \<and> ru_exec (tk_runner tk') = ru_exec (tk_runner tk)
     \<and> ag_events (task_agent tk') = ag_events (task_agent tk) @ [WaitCancelledEvent]
   else if cancel_applies tk then True
   else notify_arm lk now today pulled de tk = notify_arm lk now today pulled de (tk\<lparr>tk_park_cancel := None\<rparr>)
     \<and> (if is_parked (tk_life tk)
        then notify_arm lk now today pulled de tk = Some (Serving ((apply_pending_profile_reset now
          (tk\<lparr>tk_notified := False\<rparr>))\<lparr>tk_park_cancel := None\<rparr>))
        else True)"
proof -
  have reset: "cancel_applies (apply_pending_profile_reset now (tk\<lparr>tk_notified := False, tk_park_cancel := c\<rparr>))
      = cancel_applies (tk\<lparr>tk_park_cancel := c\<rparr>)" for c
    by (simp add: cancel_applies_def)
  have cell: "(apply_pending_profile_reset now (tk\<lparr>tk_notified := False, tk_park_cancel := c\<rparr>))\<lparr>tk_park_cancel := None\<rparr>
      = (apply_pending_profile_reset now (tk\<lparr>tk_notified := False\<rparr>))\<lparr>tk_park_cancel := None\<rparr>" for c
    by (simp add: apply_pending_profile_reset_def with_agent_def on_agent_def Let_def split: option.split prod.split)
  have swap: "tk\<lparr>tk_park_cancel := None, tk_notified := False\<rparr> = tk\<lparr>tk_notified := False, tk_park_cancel := None\<rparr>" by simp
  have self: "tk\<lparr>tk_notified := False\<rparr> = tk\<lparr>tk_notified := False, tk_park_cancel := tk_park_cancel tk\<rparr>" by simp
  have applies: "cancel_applies (apply_pending_profile_reset now (tk\<lparr>tk_notified := False\<rparr>)) = cancel_applies tk"
    by (simp add: cancel_applies_def)
  have none: "\<not> cancel_applies (apply_pending_profile_reset now (tk\<lparr>tk_notified := False, tk_park_cancel := None\<rparr>))"
    by (simp add: cancel_applies_def)
  show ?thesis
  proof (cases "cancel_applies tk")
    case True
    have "apply_pending_profile_reset now (tk\<lparr>tk_notified := False\<rparr>) = tk\<lparr>tk_notified := False\<rparr>"
      if "tk_pending_reset tk = None"
      using that by (simp add: apply_pending_profile_reset_def)
    then have arm: "notify_arm lk now today pulled de tk = Some (Serving ((emit WaitCancelledEvent
        (end_cancelled_park (tk\<lparr>tk_notified := False, tk_park_cancel := None\<rparr>)))\<lparr>tk_notified := True\<rparr>))"
      if "tk_pending_reset tk = None"
      using that True applies by (simp add: notify_arm_def Let_def)
    show ?thesis
    proof (cases "tk_pending_reset tk")
      case None
      show ?thesis
        using True arm [OF None]
        by (simp add: None end_cancelled_park_def clear_wait_timer_def clear_transient_retry_def clear_pacing_wake_def
            emit_def with_agent_def settle_def)
    qed (use True in simp)
  next
    case False
    then show ?thesis
      using applies none by (cases pulled) (simp_all add: notify_arm_def Let_def cell swap)
  qed
qed

lemma wake_result_cases:
  obtains (none) "r = None" | (panic) "r = Some Panicked" | (awake) tk where "r = Some (Ended Awake tk)"
  | (held) tk where "r = Some (Ended Held tk)" | (terminated) tk where "r = Some (Ended Terminated tk)"
proof (cases r)
  case (Some e)
  with that show ?thesis
  proof (cases e)
    case (Ended d tk)
    with Some that show ?thesis by (cases d) simp_all
  qed simp_all
qed (use that in simp)

lemma drained_cases:
  fixes p :: "lifecycle_state \<times> 'm option \<times> 't wake_end option"
  obtains (both) t m d tk where "p = (LifeWaiting t, Some m, Some (Ended d tk))"
  | (other) "\<And>f. (case p of (LifeWaiting t, Some m, Some (Ended d tk)) \<Rightarrow> f t m d tk | _ \<Rightarrow> True) = True"
proof -
  obtain s m r where p: "p = (s, m, r)" by (cases p)
  show ?thesis
  proof (cases "\<exists>t q d tk. s = LifeWaiting t \<and> m = Some q \<and> r = Some (Ended d tk)")
    case True
    with p that(1) show ?thesis by auto
  next
    case False
    have "(case p of (LifeWaiting t, Some m, Some (Ended d tk)) \<Rightarrow> f t m d tk | _ \<Rightarrow> True) = True" for f
      using False by (auto simp: p split: lifecycle_state.split option.split wake_end.split)
    with that(2) show ?thesis by blast
  qed
qed

text \<open>C33. A message pulled after a wait leaves the fuse of the wait armed: when the first run of a wake ended in a
  chosen wait and the run of the pulled message ends idle, the state is idle but the fuse still stands, and when it
  comes due the idle agent is woken with the text that a wait timer elapsed (unless its budget is
  spent).\<close>

theorem drained_message_keeps_wait_fuse:
  "case run_and_report lk (dr_first de) origin tk of
     Some (Ended Awake tk1) \<Rightarrow>
       (case (tk_life tk1, dr_pulled de, wake_and_drain lk de origin tk) of
          (LifeWaiting t, Some m, Some (Ended d tk2)) \<Rightarrow>
            if tk_life tk2 \<noteq> LifeIdle then True
            else tk_wait_until tk2 = Some t
              \<and> task_step lk (WaitInput t today de') tk2 = wake_task lk de' System
                  (let tk3 = clear_wait_timer tk2
                   in if is_exceeded (ag_budget (task_agent tk3)) then tk3
                      else with_agent (snd \<circ> record_turn (lk_kit lk) today
                        [user_message (wait_elapsed_text (tk_wait_armed_secs tk2))]) tk3)
        | _ \<Rightarrow> True)
   | _ \<Rightarrow> True"
proof -
  have fuse: "tk_wait_until tk2 = Some t"
    if first: "run_and_report lk (dr_first de) origin tk = Some (Ended Awake tk1)" and life: "tk_life tk1 = LifeWaiting t"
      and pulled: "dr_pulled de = Some m" and both: "wake_and_drain lk de origin tk = Some (Ended d tk2)"
      and idle: "tk_life tk2 = LifeIdle" for tk1 t m d tk2
  proof -
    have "fused (tk_life tk1) tk1" using run_woken [OF first] by (simp add: woken_def)
    then have one: "tk_wait_until tk1 = Some t" using life by simp
    have "run_and_report lk (dr_second de) External (record_message_turn (lk_kit lk) (dr_today de) m tk1) = Some (Ended d tk2)"
      using both first pulled by (simp add: wake_and_drain_def)
    from run_woken [OF this] idle one show ?thesis by (simp add: woken_def record_message_turn_def)
  qed
  show ?thesis
  proof (cases "run_and_report lk (dr_first de) origin tk" rule: wake_result_cases)
    case (awake tk1)
    show ?thesis
    proof (cases "(tk_life tk1, dr_pulled de, wake_and_drain lk de origin tk)" rule: drained_cases)
      case (both t m d tk2)
      show ?thesis
      proof (cases "tk_life tk2 = LifeIdle")
        case True
        have "tk_wait_until tk2 = Some t" using fuse [OF awake] both True by blast
        then show ?thesis using awake both True by (simp add: due_def Let_def)
      qed (use awake both in simp)
    qed (use awake in simp)
  qed simp_all
qed

text \<open>C34. A profile reset that arrived is taken once. When its head can be built, the chain starts over at the head with a
  fresh ledger, and the budgets of the store follow the window; the estimate of the next prompt, though, stays
  anchored on the count of the endpoint the agent left. When it cannot be built, nothing else changes.\<close>

theorem profile_reset_effect:
  "case tk_pending_reset tk of
     None \<Rightarrow> apply_pending_profile_reset now tk = tk
   | Some rs \<Rightarrow>
       (let tk' = apply_pending_profile_reset now tk; ag = task_agent tk; ag' = task_agent tk'
        in tk_pending_reset tk' = None
           \<and> (if rs_build rs (hd (rs_profiles rs))
              then fo_profiles (ag_failover ag') = rs_profiles rs \<and> fo_idx (ag_failover ag') = 0
                \<and> ag_client ag' = hd (rs_profiles rs) \<and> ag_compaction ag' = ledger_new now
                \<and> cs_pinned_budget (ag_store ag') = pinned_budget (ag_config ag')
                \<and> cs_caps (ag_store ag') = config_eviction_caps (ag_config ag')
                \<and> cs_turns (ag_store ag') = cs_turns (ag_store ag)
                \<and> estimate_context_tokens render full (ag_store ag') = estimate_context_tokens render full (ag_store ag)
              else tk' = tk\<lparr>tk_pending_reset := None\<rparr>))"
proof -
  have store: "cs_pinned_budget (set_eviction_caps c (set_pinned_budget b s)) = b"
    "cs_caps (set_eviction_caps c (set_pinned_budget b s)) = c" "cs_turns (set_eviction_caps c (set_pinned_budget b s)) = cs_turns s"
    for b c s
    by (simp_all add: set_eviction_caps_def set_pinned_budget_def)
  have estimate: "estimate_context_tokens render full (set_eviction_caps c (set_pinned_budget b s))
      = estimate_context_tokens render full s" for b c s
  proof -
    have "delta_messages (set_eviction_caps c (set_pinned_budget b s)) = delta_messages s"
      by (simp add: delta_messages_def set_eviction_caps_def set_pinned_budget_def)
    then show ?thesis
      by (simp only: estimate_context_tokens_def) (simp add: set_eviction_caps_def set_pinned_budget_def)
  qed
  show ?thesis
    by (simp add: apply_pending_profile_reset_def reset_and_rebuild_def failover_new_def clear_ledger_def
        ledger_clear_def store estimate Let_def split: option.split)
qed

section \<open>A concrete wake with enough inputs\<close>

definition patient_input :: round_input where
  "patient_input =
     (let envs = replicate 36 (demo_acquire_env\<lparr>ae_walk := demo_walk\<lparr>we_passes := replicate 19 demo_pass\<rparr>\<rparr>)
      in demo_input\<lparr>ri_gate := (ri_gate demo_input)\<lparr>ge_passes := replicate 19 demo_pass\<rparr>,
           ri_acquire := envs, ri_degrade := envs\<rparr>)"

definition patient_wake :: wake_env where
  "patient_wake = demo_wake\<lparr>wv_reports := replicate 2 (demo_report\<lparr>re_rounds := [patient_input]\<rparr>)\<rparr>"

definition patient_task :: "pacing_table task" where
  "patient_task = demo_task\<lparr>tk_runner :=
     on_agent (\<lambda>ag. ag\<lparr>ag_config := (ag_config ag)\<lparr>cf_max_heartbeat_rounds := 1\<rparr>\<rparr>) demo_runner\<rparr>"

theorem wake_comes_to_an_end_witness:
  "\<exists>e. run_and_report demo_loop patient_wake External patient_task = Some e"
proof (rule wake_comes_to_an_end)
  let ?ag = "task_agent (enter_wake patient_wake External patient_task)"
  have plain: "tk_pending_reset patient_task = None" "wv_reset patient_wake = None"
    by (simp_all add: patient_task_def demo_task_def patient_wake_def demo_wake_def)
  have ag: "ag_failover ?ag = ag_failover (ru_agent demo_runner)" "ag_store ?ag = ag_store (ru_agent demo_runner)"
    "ag_config ?ag = (ag_config (ru_agent demo_runner))\<lparr>cf_max_heartbeat_rounds := 1\<rparr>"
    by (simp_all add: enter_wake_plain [OF plain]) (simp_all add: patient_task_def)
  have facts: "cf_max_heartbeat_rounds (ag_config ?ag) = 1" "cf_max_tool_rounds (ag_config ?ag) = 1"
    "cf_retry (ag_config ?ag) = cf_retry (ag_config (ru_agent demo_runner))" "conversation (ag_store ?ag) = []"
    "length (wv_reports patient_wake) = 2"
    unfolding ag by (simp_all add: demo_runner_def demo_agent_def conversation_def store_new_def) (simp add: patient_wake_def)
  show "acquire_ok ?ag" using demo_loop_covered(1) ag by (simp add: acquire_ok_def)
  show "cf_max_heartbeat_rounds (ag_config ?ag) < - 1"
    unfolding facts by (simp add: word_less_nat_alt unat_minus_one_max)
  show "unat (cf_max_heartbeat_rounds (ag_config ?ag)) < length (wv_reports patient_wake)" by (simp add: facts)
  have sends: "unat (max_sends (cf_retry (ag_config (ru_agent demo_runner)))) = 11"
    by (simp add: demo_runner_def demo_config_def default_policy_def max_sends_def sat_add_def)
  have chain: "length (fo_profiles (ag_failover (ru_agent demo_runner))) = 3"
    by (simp add: demo_runner_def demo_agent_def failover_new_def demo_chain_def)
  have "input_covers 19 ?ag patient_input"
    using sends chain
    by (simp add: input_covers_def acquire_covers_def patient_input_def demo_acquire_env_def ag facts Let_def)
  moreover have "wv_reports patient_wake = replicate 2 (demo_report\<lparr>re_rounds := [patient_input]\<rparr>)"
    by (simp add: patient_wake_def)
  ultimately show "\<forall>re \<in> set (wv_reports patient_wake). report_covers
      (length (conversation (ag_store ?ag)) + (6 * cf_max_tool_rounds (ag_config ?ag) + 2) * length (wv_reports patient_wake) + 3)
      ?ag re"
    unfolding facts(2,4,5) by (simp add: report_covers_def facts(2))
qed

end
