(* ===== verification/Work_Spec.thy ===== *)
theory Work_Spec
  imports Text
begin

text \<open>
  The work schedule of a tagma and its evaluator (\<open>crates/kallipai-tagma/src/work_schedule/spec.rs\<close>,
  \<open>eval.rs\<close>). An instant (\<open>OffsetDateTime\<close> in UTC) is its nanoseconds since the epoch, a date its day since
  the epoch; the calendar of the \<open>time\<close> library (which weekday and which day of the month a date is, the
  range of dates) is a parameter. Instants are not bounded here: adding to one past the library's last
  year is a panic in the code.
\<close>

section \<open>The schedule\<close>

type_synonym utc = int

definition ns_per_min :: int where
  "ns_per_min = 60 * 1000000000"

definition ns_per_hour :: int where
  "ns_per_hour = 60 * ns_per_min"

definition ns_per_day :: int where
  "ns_per_day = 24 * ns_per_hour"

definition DAY_MINUTES :: nat where
  "DAY_MINUTES = 24 * 60"

definition MAX_WINDOWS :: nat where
  "MAX_WINDOWS = 10"

definition MAX_LENGTH_MINUTES :: nat where
  "MAX_LENGTH_MINUTES = 7 * 24 * 60"

record duty_window =
  wn_start :: u16
  wn_end :: u16

datatype work_spec =
    Weekly u8 "duty_window list"
  | Monthly u32 "duty_window list"
  | Interval u16 u16 utc
  | Always

section \<open>Validation\<close>

definition validate_window :: "duty_window \<Rightarrow> string + unit" where
  "validate_window w =
     (if DAY_MINUTES \<le> unat (wn_start w) then Inl (''start_minute must be < '' @ show_nat DAY_MINUTES)
      else if wn_end w = 0 \<or> DAY_MINUTES < unat (wn_end w)
        then Inl (''end_minute must be in 1..='' @ show_nat DAY_MINUTES)
      else if wn_end w = wn_start w then Inl ''end_minute == start_minute yields an empty window''
      else Inr ())"

fun first_invalid :: "duty_window list \<Rightarrow> string + unit" where
  "first_invalid [] = Inr ()"
| "first_invalid (w # ws) = (case validate_window w of Inl e \<Rightarrow> Inl e | Inr _ \<Rightarrow> first_invalid ws)"

text \<open>The minutes a window spans from the midnight of its day; one that ends at or before its start crosses midnight.\<close>

definition window_minutes :: "duty_window \<Rightarrow> int \<times> int" where
  "window_minutes w =
     (let s = uint (wn_start w); e = uint (wn_end w)
      in (s, if e \<le> s then e + int DAY_MINUTES else e))"

definition overlaps_at :: "int \<times> int \<Rightarrow> int \<times> int \<Rightarrow> int \<Rightarrow> bool" where
  "overlaps_at p q off \<longleftrightarrow> fst p < snd q - off \<and> fst q - off < snd p"

fun some_overlap :: "(int \<times> int) list \<Rightarrow> bool" where
  "some_overlap [] = False"
| "some_overlap (p # ps) =
     (list_ex (\<lambda>q. overlaps_at p q 0 \<or> overlaps_at p q (- 1440) \<or> overlaps_at p q 1440) ps \<or> some_overlap ps)"

definition validate_windows :: "duty_window list \<Rightarrow> string + unit" where
  "validate_windows ws =
     (if ws = [] then Inl ''schedule needs at least one window''
      else if MAX_WINDOWS < length ws then Inl (''at most '' @ show_nat MAX_WINDOWS @ '' windows are allowed'')
      else case first_invalid ws of
             Inl e \<Rightarrow> Inl e
           | Inr _ \<Rightarrow> if some_overlap (map window_minutes ws) then Inl ''windows overlap when laid on selected days''
               else Inr ())"

fun validate :: "work_spec \<Rightarrow> string + unit" where
  "validate (Weekly days ws) =
     (if days = 0 then Inl ''weekly spec needs at least one day''
      else if 0x7F < days then Inl ''weekly days bitmask uses bits 0-6 only''
      else validate_windows ws)"
| "validate (Monthly days ws) =
     (if days = 0 then Inl ''monthly spec needs at least one day''
      else if push_bit 31 1 - 1 < days then Inl ''monthly days bitmask uses bits 0-30 only''
      else validate_windows ws)"
| "validate (Interval every_hours length_min anchor) =
     (if every_hours = 0 then Inl ''every_hours must be >= 1''
      else if length_min = 0 then Inl ''length_min must be >= 1''
      else if MAX_LENGTH_MINUTES < unat length_min
        then Inl (''length_min must be <= '' @ show_nat MAX_LENGTH_MINUTES @ '' (7 days)'')
      else if anchor mod ns_per_min \<noteq> 0 then Inl ''anchor must be minute-aligned''
      else Inr ())"
| "validate Always = Inr ()"

section \<open>Evaluation\<close>

record calendar =
  week_day :: "int \<Rightarrow> nat"
  month_day :: "int \<Rightarrow> nat"
  first_date :: int
  last_date :: int

definition date_add :: "calendar \<Rightarrow> int \<Rightarrow> int \<Rightarrow> int option" where
  "date_add cal d n = (if first_date cal \<le> d + n \<and> d + n \<le> last_date cal then Some (d + n) else None)"

record window_facts =
  wf_inside :: bool
  wf_next_start :: utc
  wf_next_end :: utc

text \<open>An evaluation gives the facts, no answer, or a panic: a rotation of period zero is divided by.\<close>

datatype 'a evaluated = Facts 'a | NoFacts | EvalPanic

definition eval_interval :: "u16 \<Rightarrow> u16 \<Rightarrow> utc \<Rightarrow> utc \<Rightarrow> window_facts evaluated" where
  "eval_interval every_hours length_min anchor now =
     (let period = uint every_hours * ns_per_hour; len = uint length_min * ns_per_min
      in if now < anchor
         then Facts \<lparr>wf_inside = False, wf_next_start = anchor, wf_next_end = anchor + len\<rparr>
         else if every_hours = 0 then EvalPanic
         else
           let elapsed_secs = (now - anchor) div 1000000000;
               k = elapsed_secs div (uint every_hours * 3600);
               window_start = anchor + k * period;
               window_end = window_start + len
           in if window_start \<le> now \<and> now < window_end
              then Facts \<lparr>wf_inside = True, wf_next_start = window_start + period, wf_next_end = window_end\<rparr>
              else Facts \<lparr>wf_inside = False, wf_next_start = window_start + period,
                          wf_next_end = window_start + period + len\<rparr>)"

definition fires :: "calendar \<Rightarrow> u8 option \<Rightarrow> u32 option \<Rightarrow> int \<Rightarrow> bool" where
  "fires cal week_days month_days d =
     (case week_days of
        Some days \<Rightarrow> and days (push_bit (week_day cal d - 1) 1) \<noteq> 0
      | None \<Rightarrow> (case month_days of
          Some days \<Rightarrow> and days (push_bit (month_day cal d - 1) 1) \<noteq> 0
        | None \<Rightarrow> False))"

text \<open>A minute of the day as a time; the hour is cast to a byte.\<close>

definition time_of :: "int \<Rightarrow> int option" where
  "time_of m = (let h = (m div 60) mod 256 in if h < 24 then Some (h * 60 + m mod 60) else None)"

definition span_on ::
  "calendar \<Rightarrow> u8 option \<Rightarrow> u32 option \<Rightarrow> int \<Rightarrow> duty_window \<Rightarrow> (utc \<times> utc) option" where
  "span_on cal week_days month_days d w =
     (if \<not> fires cal week_days month_days d then None
      else let (s, e) = window_minutes w
           in Option.bind (time_of s) (\<lambda>ts.
              Option.bind (date_add cal d (e div int DAY_MINUTES)) (\<lambda>d'.
              Option.bind (time_of (e mod int DAY_MINUTES)) (\<lambda>te.
                Some (d * ns_per_day + ts * ns_per_min, d' * ns_per_day + te * ns_per_min)))))"

record window_scan =
  sc_start :: "utc option"
  sc_end :: "utc option"
  sc_cover :: "utc option"

definition lower_to :: "utc \<Rightarrow> utc option \<Rightarrow> utc option" where
  "lower_to x o' = (case o' of None \<Rightarrow> Some x | Some y \<Rightarrow> if x < y then Some x else Some y)"

definition scan_span :: "utc \<Rightarrow> utc \<times> utc \<Rightarrow> window_scan \<Rightarrow> window_scan" where
  "scan_span now sp sc =
     (let (ws, we) = sp
      in if ws \<le> now \<and> now < we
         then sc\<lparr>sc_cover := Some (case sc_cover sc of Some e \<Rightarrow> if we \<le> e then e else we | None \<Rightarrow> we)\<rparr>
         else if now < ws then sc\<lparr>sc_start := lower_to ws (sc_start sc), sc_end := lower_to we (sc_end sc)\<rparr>
         else sc)"

text \<open>The days of the scan; a date out of range ends the evaluation.\<close>

fun scan_days ::
  "calendar \<Rightarrow> u8 option \<Rightarrow> u32 option \<Rightarrow> duty_window list \<Rightarrow> utc \<Rightarrow> int \<Rightarrow> int list \<Rightarrow> window_scan \<Rightarrow> window_scan option" where
  "scan_days cal wd md ws now today [] sc = Some sc"
| "scan_days cal wd md ws now today (k # ks) sc =
     (case date_add cal today k of
        None \<Rightarrow> None
      | Some d \<Rightarrow> scan_days cal wd md ws now today ks
          (fold (\<lambda>w sc. case span_on cal wd md d w of None \<Rightarrow> sc | Some sp \<Rightarrow> scan_span now sp sc) ws sc))"

definition eval_calendar ::
  "calendar \<Rightarrow> u8 option \<Rightarrow> u32 option \<Rightarrow> duty_window list \<Rightarrow> utc \<Rightarrow> window_facts evaluated" where
  "eval_calendar cal wd md ws now =
     (case scan_days cal wd md ws now (now div ns_per_day) [-1..70] \<lparr>sc_start = None, sc_end = None, sc_cover = None\<rparr> of
        None \<Rightarrow> NoFacts
      | Some sc \<Rightarrow>
          (case (sc_cover sc, sc_start sc, sc_end sc) of
             (Some e, Some s, _) \<Rightarrow> Facts \<lparr>wf_inside = True, wf_next_start = s, wf_next_end = e\<rparr>
           | (None, Some s, Some e) \<Rightarrow> Facts \<lparr>wf_inside = False, wf_next_start = s, wf_next_end = e\<rparr>
           | _ \<Rightarrow> NoFacts))"

fun window_status :: "calendar \<Rightarrow> work_spec \<Rightarrow> utc \<Rightarrow> window_facts evaluated" where
  "window_status cal (Interval every_hours length_min anchor) now = eval_interval every_hours length_min anchor now"
| "window_status cal (Weekly days ws) now = eval_calendar cal (Some days) None ws now"
| "window_status cal (Monthly days ws) now = eval_calendar cal None (Some days) ws now"
| "window_status cal Always now =
     Facts \<lparr>wf_inside = True, wf_next_start = now + 30 * ns_per_day, wf_next_end = now + 30 * ns_per_day\<rparr>"

section \<open>What a schedule says\<close>

text \<open>The windows of a calendar schedule, with no bound on the days, and the reference for being on duty.\<close>

definition laid :: "calendar \<Rightarrow> u8 option \<Rightarrow> u32 option \<Rightarrow> duty_window list \<Rightarrow> utc \<Rightarrow> utc \<Rightarrow> bool" where
  "laid cal wd md ws a b \<longleftrightarrow>
     (\<exists>d. \<exists>w \<in> set ws. fires cal wd md d \<and> first_date cal \<le> d + snd (window_minutes w) div 1440
        \<and> d + snd (window_minutes w) div 1440 \<le> last_date cal
        \<and> a = d * ns_per_day + fst (window_minutes w) * ns_per_min
        \<and> b = d * ns_per_day + snd (window_minutes w) * ns_per_min)"

fun on_duty :: "calendar \<Rightarrow> work_spec \<Rightarrow> utc \<Rightarrow> bool" where
  "on_duty cal (Interval every_hours length_min anchor) t =
     (\<exists>k \<ge> 0. anchor + k * (uint every_hours * ns_per_hour) \<le> t
        \<and> t < anchor + k * (uint every_hours * ns_per_hour) + uint length_min * ns_per_min)"
| "on_duty cal (Weekly days ws) t = (\<exists>a b. laid cal (Some days) None ws a b \<and> a \<le> t \<and> t < b)"
| "on_duty cal (Monthly days ws) t = (\<exists>a b. laid cal None (Some days) ws a b \<and> a \<le> t \<and> t < b)"
| "on_duty cal Always t = True"

end
