(* ===== verification/Work_Props.thy ===== *)
theory Work_Props
  imports Work_Spec
begin

text \<open>
  What the evaluator of the work schedule says of a schedule it was given: its answer is the truth about
  the instant, and stays so until the boundary it names. The windows of a schedule that validates never
  share an instant.
\<close>

section \<open>Windows\<close>

lemmas ns_defs = ns_per_min_def ns_per_hour_def ns_per_day_def DAY_MINUTES_def

lemma first_invalid_ok: "first_invalid ws = Inr () \<longleftrightarrow> (\<forall>w \<in> set ws. validate_window w = Inr ())"
proof (induction ws)
  case (Cons w ws)
  then show ?case by (cases "validate_window w") simp_all
qed simp

lemma validate_windows_ok:
  assumes "validate_windows ws = Inr ()"
  shows "ws \<noteq> []" "length ws \<le> 10" "\<And>w. w \<in> set ws \<Longrightarrow> validate_window w = Inr ()"
    "\<not> some_overlap (map window_minutes ws)"
proof -
  have *: "ws \<noteq> [] \<and> \<not> MAX_WINDOWS < length ws \<and> first_invalid ws = Inr () \<and> \<not> some_overlap (map window_minutes ws)"
  proof (cases "first_invalid ws")
    case (Inl e)
    then show ?thesis using assms by (simp add: validate_windows_def split: if_splits)
  next
    case (Inr u)
    then show ?thesis using assms by (simp add: validate_windows_def split: if_splits)
  qed
  then show "ws \<noteq> []" "length ws \<le> 10" "\<not> some_overlap (map window_minutes ws)" by (simp_all add: MAX_WINDOWS_def)
  show "\<And>w. w \<in> set ws \<Longrightarrow> validate_window w = Inr ()" using * first_invalid_ok by blast
qed

lemma valid_minutes:
  assumes "validate_window w = Inr ()" and "window_minutes w = (s, e)"
  shows "0 \<le> s" "s < 1440" "s < e" "e \<le> s + 1440" "e < 2880"
proof -
  have *: "unat (wn_start w) < 1440" "wn_end w \<noteq> 0" "unat (wn_end w) \<le> 1440" "wn_end w \<noteq> wn_start w"
    using assms(1) by (auto simp: validate_window_def DAY_MINUTES_def split: if_splits)
  have "int (unat (wn_start w)) < int 1440" "int (unat (wn_end w)) \<le> int 1440"
    using * by (simp_all only: of_nat_less_iff of_nat_le_iff)
  then have i: "uint (wn_start w) < 1440" "uint (wn_end w) \<le> 1440" "0 \<le> uint (wn_start w)" by simp_all
  moreover have "0 < uint (wn_end w)" "0 \<le> uint (wn_start w)"
    using *(2) by (simp_all add: word_neq_0_conv word_less_def)
  moreover have "uint (wn_end w) \<noteq> uint (wn_start w)" using *(4) by (simp add: word_uint_eq_iff)
  ultimately show "0 \<le> s" "s < 1440" "s < e" "e \<le> s + 1440" "e < 2880"
    using assms(2) i by (auto simp: window_minutes_def DAY_MINUTES_def Let_def split: if_splits)
qed

lemma some_overlap_iff:
  "some_overlap ps \<longleftrightarrow> (\<exists>i j. i < j \<and> j < length ps
     \<and> (overlaps_at (ps ! i) (ps ! j) 0 \<or> overlaps_at (ps ! i) (ps ! j) (- 1440) \<or> overlaps_at (ps ! i) (ps ! j) 1440))"
proof (induction ps)
  case (Cons p ps)
  let ?o = "\<lambda>p q. overlaps_at p q 0 \<or> overlaps_at p q (- 1440) \<or> overlaps_at p q 1440"
  have head: "list_ex (?o p) ps \<longleftrightarrow> (\<exists>j < length ps. ?o p (ps ! j))"
    by (simp only: list_ex_length)
  have split: "(\<exists>i j. i < j \<and> j < length (p # ps) \<and> ?o ((p # ps) ! i) ((p # ps) ! j)) \<longleftrightarrow>
      (\<exists>j < length ps. ?o p (ps ! j)) \<or> (\<exists>i j. i < j \<and> j < length ps \<and> ?o (ps ! i) (ps ! j))" (is "?l \<longleftrightarrow> ?r")
  proof
    assume ?l
    then obtain i j where ij: "i < j" "j < length (p # ps)" "?o ((p # ps) ! i) ((p # ps) ! j)" by blast
    then show ?r by (cases i; cases j) auto
  next
    assume ?r
    then show ?l
    proof
      assume "\<exists>j < length ps. ?o p (ps ! j)"
      then obtain j where "j < length ps" "?o p (ps ! j)" by blast
      then show ?l by (intro exI [of _ 0] exI [of _ "Suc j"]) simp
    next
      assume "\<exists>i j. i < j \<and> j < length ps \<and> ?o (ps ! i) (ps ! j)"
      then obtain i j where "i < j" "j < length ps" "?o (ps ! i) (ps ! j)" by blast
      then show ?l by (intro exI [of _ "Suc i"] exI [of _ "Suc j"]) simp
    qed
  qed
  show ?case using Cons.IH head split by simp
qed simp

section \<open>Spans\<close>

lemma time_of_minutes: "0 \<le> m \<Longrightarrow> m < 1440 \<Longrightarrow> time_of m = Some m"
proof -
  assume m: "0 \<le> m" "m < 1440"
  have "m div 60 < 24" using m(2) by linarith
  moreover have "0 \<le> m div 60" using m(1) by (simp add: pos_imp_zdiv_nonneg_iff)
  ultimately show ?thesis by (simp add: time_of_def)
qed

lemma span_on_valid:
  assumes "validate_window w = Inr ()" and "window_minutes w = (s, e)"
  shows "span_on cal wd md d w =
    (if fires cal wd md d \<and> first_date cal \<le> d + e div 1440 \<and> d + e div 1440 \<le> last_date cal
     then Some (d * ns_per_day + s * ns_per_min, d * ns_per_day + e * ns_per_min) else None)"
proof -
  note m = valid_minutes [OF assms]
  have e: "(d + e div 1440) * ns_per_day + (e mod 1440) * ns_per_min = d * ns_per_day + e * ns_per_min" for d
  proof -
    have "ns_per_day = 1440 * ns_per_min" by (simp add: ns_defs)
    moreover have "(e div 1440) * (1440 * ns_per_min) + (e mod 1440) * ns_per_min = e * ns_per_min"
      using div_mult_mod_eq [of e 1440] by (metis distrib_right mult.assoc)
    ultimately show ?thesis by (simp add: distrib_right)
  qed
  have "time_of (e mod 1440) = Some (e mod 1440)" by (rule time_of_minutes) simp_all
  then show ?thesis
    using time_of_minutes [OF m(1,2)] e [of d]
    by (simp add: span_on_def assms(2) date_add_def DAY_MINUTES_def)
qed

definition spans :: "calendar \<Rightarrow> u8 option \<Rightarrow> u32 option \<Rightarrow> duty_window list \<Rightarrow> int list \<Rightarrow> (utc \<times> utc) list" where
  "spans cal wd md ws days = concat (map (\<lambda>d. List.map_filter (span_on cal wd md d) ws) days)"

lemma fold_map_filter:
  "fold (\<lambda>x. case f x of None \<Rightarrow> id | Some y \<Rightarrow> g y) xs = fold g (List.map_filter f xs)"
  by (induction xs) (auto simp: List.map_filter_simps split: option.split)

lemma scan_days_spans:
  assumes "scan_days cal wd md ws now today ks sc = Some r"
  shows "r = fold (scan_span now) (spans cal wd md ws (map ((+) today) ks)) sc
    \<and> (\<forall>k \<in> set ks. first_date cal \<le> today + k \<and> today + k \<le> last_date cal)"
  using assms
proof (induction ks arbitrary: sc)
  case (Cons k ks)
  have eq: "(\<lambda>w sc. case span_on cal wd md d w of None \<Rightarrow> sc | Some sp \<Rightarrow> scan_span now sp sc)
      = (\<lambda>w. case span_on cal wd md d w of None \<Rightarrow> id | Some sp \<Rightarrow> scan_span now sp)" for d
    by (rule ext, rule ext) (simp split: option.split)
  show ?case
    using Cons by (auto simp: date_add_def eq fold_map_filter spans_def split: if_splits)
qed (simp add: spans_def)

text \<open>What a scan has collected of the spans it saw.\<close>

definition lowest :: "int option \<Rightarrow> int set \<Rightarrow> bool" where
  "lowest m A \<longleftrightarrow> (case m of None \<Rightarrow> A = {} | Some x \<Rightarrow> x \<in> A \<and> (\<forall>y \<in> A. x \<le> y))"

definition highest :: "int option \<Rightarrow> int set \<Rightarrow> bool" where
  "highest m A \<longleftrightarrow> (case m of None \<Rightarrow> A = {} | Some x \<Rightarrow> x \<in> A \<and> (\<forall>y \<in> A. y \<le> x))"

definition scanned :: "utc \<Rightarrow> (utc \<times> utc) set \<Rightarrow> window_scan \<Rightarrow> bool" where
  "scanned now S sc \<longleftrightarrow>
     lowest (sc_start sc) {a. \<exists>b. (a, b) \<in> S \<and> now < a}
     \<and> lowest (sc_end sc) {b. \<exists>a. (a, b) \<in> S \<and> now < a}
     \<and> highest (sc_cover sc) {b. \<exists>a. (a, b) \<in> S \<and> a \<le> now \<and> now < b}"

lemma lowest_insert: "lowest m A \<Longrightarrow> lowest (lower_to x m) (insert x A)"
  by (auto simp: lowest_def lower_to_def split: option.splits)

lemma highest_insert:
  "highest m A \<Longrightarrow> highest (Some (case m of Some e \<Rightarrow> if x \<le> e then e else x | None \<Rightarrow> x)) (insert x A)"
  by (auto simp: highest_def split: option.splits)

lemma scanned_step:
  assumes "scanned now S sc"
  shows "scanned now (insert (a, b) S) (scan_span now (a, b) sc)"
proof -
  have start: "{x. \<exists>y. (x, y) \<in> insert (a, b) S \<and> now < x} =
      (if now < a then insert a {x. \<exists>y. (x, y) \<in> S \<and> now < x} else {x. \<exists>y. (x, y) \<in> S \<and> now < x})" by auto
  have stop: "{y. \<exists>x. (x, y) \<in> insert (a, b) S \<and> now < x} =
      (if now < a then insert b {y. \<exists>x. (x, y) \<in> S \<and> now < x} else {y. \<exists>x. (x, y) \<in> S \<and> now < x})" by auto
  have cover: "{y. \<exists>x. (x, y) \<in> insert (a, b) S \<and> x \<le> now \<and> now < y} =
      (if a \<le> now \<and> now < b then insert b {y. \<exists>x. (x, y) \<in> S \<and> x \<le> now \<and> now < y}
       else {y. \<exists>x. (x, y) \<in> S \<and> x \<le> now \<and> now < y})" by auto
  from assms show ?thesis
    unfolding scanned_def start stop cover
    by (auto simp: scan_span_def lowest_insert highest_insert)
qed

lemma fold_scanned: "scanned now (set sps) (fold (scan_span now) sps \<lparr>sc_start = None, sc_end = None, sc_cover = None\<rparr>)"
proof (induction sps rule: rev_induct)
  case (snoc sp sps)
  then show ?case using scanned_step by (cases sp) (simp add: insert_commute)
qed (simp add: scanned_def lowest_def highest_def)

section \<open>The answer\<close>

definition sound_facts :: "calendar \<Rightarrow> work_spec \<Rightarrow> utc \<Rightarrow> window_facts \<Rightarrow> bool" where
  "sound_facts cal spec now f \<longleftrightarrow>
     wf_inside f = on_duty cal spec now \<and> now < wf_next_start f \<and> now < wf_next_end f
     \<and> (if wf_inside f then \<forall>t \<in> {now..<wf_next_end f}. on_duty cal spec t
        else on_duty cal spec (wf_next_start f) \<and> (\<forall>t \<in> {now..<wf_next_start f}. \<not> on_duty cal spec t))"

lemma in_spans:
  "sp \<in> set (spans cal wd md ws days) \<longleftrightarrow> (\<exists>d \<in> set days. \<exists>w \<in> set ws. span_on cal wd md d w = Some sp)"
proof -
  have "y \<in> set (List.map_filter f xs) \<longleftrightarrow> (\<exists>x \<in> set xs. f x = Some y)" for y :: "utc \<times> utc" and f and xs :: "duty_window list"
    by (induction xs) (auto simp: List.map_filter_simps split: option.split)
  then show ?thesis by (simp add: spans_def)
qed

lemma scanned_days: "set (map ((+) today) [-1..70]) = {today - 1..today + 70}" for today :: int
proof -
  have "d \<in> (+) today ` {-1..70}" if "d \<in> {today - 1..today + 70}" for d
    using that by (intro image_eqI [of _ _ "d - today"]) auto
  then show ?thesis by auto
qed

text \<open>A laid window that could matter now is one the scan looks at.\<close>

lemma spans_laid:
  assumes valid: "\<And>w. w \<in> set ws \<Longrightarrow> validate_window w = Inr ()" and range: "first_date cal \<le> today - 1"
  shows "(a, b) \<in> set (spans cal wd md ws (map ((+) today) [-1..70])) \<longleftrightarrow>
    laid cal wd md ws a b \<and> (today - 1) * ns_per_day \<le> a \<and> a < (today + 71) * ns_per_day" (is "?l \<longleftrightarrow> ?r")
proof
  assume ?l
  then obtain d w where d: "d \<in> {today - 1..today + 70}" and w: "w \<in> set ws" and sp: "span_on cal wd md d w = Some (a, b)"
    unfolding in_spans scanned_days by blast
  obtain s e where m: "window_minutes w = (s, e)" by (cases "window_minutes w")
  note v = valid_minutes [OF valid [OF w] m]
  have ab: "fires cal wd md d" "first_date cal \<le> d + e div 1440" "d + e div 1440 \<le> last_date cal"
    "a = d * ns_per_day + s * ns_per_min" "b = d * ns_per_day + e * ns_per_min"
    using sp by (auto simp: span_on_valid [OF valid [OF w] m] split: if_splits)
  then have "laid cal wd md ws a b" using w m unfolding laid_def by (intro exI [of _ d] bexI [of _ w]) auto
  moreover have "(today - 1) * ns_per_day \<le> a" "a < (today + 71) * ns_per_day"
    using d v ab by (auto simp: ns_defs)
  ultimately show ?r by blast
next
  assume r: ?r
  then obtain d w where w: "w \<in> set ws" and f: "fires cal wd md d" and "first_date cal \<le> d + snd (window_minutes w) div 1440"
    "d + snd (window_minutes w) div 1440 \<le> last_date cal"
    "a = d * ns_per_day + fst (window_minutes w) * ns_per_min" "b = d * ns_per_day + snd (window_minutes w) * ns_per_min"
    unfolding laid_def by blast
  moreover obtain s e where m: "window_minutes w = (s, e)" by (cases "window_minutes w")
  ultimately have ab: "first_date cal \<le> d + e div 1440" "d + e div 1440 \<le> last_date cal"
    "a = d * ns_per_day + s * ns_per_min" "b = d * ns_per_day + e * ns_per_min" by simp_all
  note v = valid_minutes [OF valid [OF w] m]
  have "today - 1 \<le> d" "d \<le> today + 70" using r ab v by (auto simp: ns_defs)
  moreover have "span_on cal wd md d w = Some (a, b)"
    using f ab by (simp add: span_on_valid [OF valid [OF w] m])
  ultimately show ?l unfolding in_spans scanned_days using w by auto
qed

lemma laid_span:
  assumes valid: "\<And>w. w \<in> set ws \<Longrightarrow> validate_window w = Inr ()" and "laid cal wd md ws a b"
  shows "a < b" "\<exists>d. d * ns_per_day \<le> a \<and> a < (d + 1) * ns_per_day \<and> b \<le> (d + 2) * ns_per_day"
proof -
  obtain d w where w: "w \<in> set ws" and "a = d * ns_per_day + fst (window_minutes w) * ns_per_min"
    "b = d * ns_per_day + snd (window_minutes w) * ns_per_min"
    using assms(2) unfolding laid_def by blast
  moreover obtain s e where m: "window_minutes w = (s, e)" by (cases "window_minutes w")
  ultimately have ab: "a = d * ns_per_day + s * ns_per_min" "b = d * ns_per_day + e * ns_per_min" by simp_all
  note v = valid_minutes [OF valid [OF w] m]
  show "a < b" using ab v by (simp add: ns_defs)
  show "\<exists>d. d * ns_per_day \<le> a \<and> a < (d + 1) * ns_per_day \<and> b \<le> (d + 2) * ns_per_day"
    using ab v by (intro exI [of _ d]) (auto simp: ns_defs)
qed

lemma calendar_sound:
  fixes cal wd md ws now
  defines "on \<equiv> \<lambda>t. \<exists>a b. laid cal wd md ws a b \<and> a \<le> t \<and> t < b"
  assumes valid: "\<And>w. w \<in> set ws \<Longrightarrow> validate_window w = Inr ()" and eval: "eval_calendar cal wd md ws now = Facts f"
  shows "(wf_inside f = on now \<and> now < wf_next_start f \<and> now < wf_next_end f
     \<and> (if wf_inside f then \<forall>t \<in> {now..<wf_next_end f}. on t
        else on (wf_next_start f) \<and> (\<forall>t \<in> {now..<wf_next_start f}. \<not> on t)))
     \<and> (wf_inside f \<longrightarrow> (\<exists>a. laid cal wd md ws a (wf_next_end f) \<and> a \<le> now))"
proof -
  let ?today = "now div ns_per_day" and ?S = "set (spans cal wd md ws (map ((+) (now div ns_per_day)) [-1..70]))"
  obtain sc where scan: "scan_days cal wd md ws now ?today [-1..70] \<lparr>sc_start = None, sc_end = None, sc_cover = None\<rparr> = Some sc"
    and facts: "(case (sc_cover sc, sc_start sc, sc_end sc) of
             (Some e, Some s, _) \<Rightarrow> Facts \<lparr>wf_inside = True, wf_next_start = s, wf_next_end = e\<rparr>
           | (None, Some s, Some e) \<Rightarrow> Facts \<lparr>wf_inside = False, wf_next_start = s, wf_next_end = e\<rparr>
           | _ \<Rightarrow> NoFacts) = Facts f"
    using eval unfolding eval_calendar_def by (cases "scan_days cal wd md ws now ?today [-1..70] \<lparr>sc_start = None, sc_end = None, sc_cover = None\<rparr>") auto
  from scan_days_spans [OF scan] have sc: "scanned now ?S sc"
    and all: "\<forall>k \<in> set [-1..70]. first_date cal \<le> ?today + k \<and> ?today + k \<le> last_date cal"
    using fold_scanned by blast+
  have "-1 \<in> set [-1..70::int]" by simp
  from bspec [OF all this] have range: "first_date cal \<le> ?today - 1" by simp
  have today: "?today * ns_per_day \<le> now" "now < (?today + 1) * ns_per_day"
    using div_mult_mod_eq [of now ns_per_day] pos_mod_bound [of ns_per_day now] pos_mod_sign [of ns_per_day now]
    by (simp_all add: ns_defs algebra_simps)
  note S = spans_laid [of ws cal ?today, OF valid range]
  have near: "(?today - 1) * ns_per_day \<le> a" if ab: "laid cal wd md ws a b" "now < b" for a b
  proof -
    obtain d where d: "d * ns_per_day \<le> a" "b \<le> (d + 2) * ns_per_day" using laid_span(2) [of ws, OF valid ab(1)] by blast
    have "?today * ns_per_day < (d + 2) * ns_per_day" using d(2) ab(2) today(1) by linarith
    then have "?today - 1 \<le> d" by (simp add: ns_defs)
    then have "(?today - 1) * ns_per_day \<le> d * ns_per_day" by (simp add: ns_defs)
    with d(1) show ?thesis by linarith
  qed
  have covered: "on now \<longleftrightarrow> (\<exists>a b. (a, b) \<in> ?S \<and> a \<le> now \<and> now < b)"
  proof -
    have "(a, b) \<in> ?S" if "laid cal wd md ws a b" "a \<le> now" "now < b" for a b
    proof -
      have "(?today + 1) * ns_per_day \<le> (?today + 71) * ns_per_day" by (simp add: ns_defs)
      then show ?thesis using that near [OF that(1,3)] today(2) S by auto
    qed
    then show ?thesis unfolding on_def using S by blast
  qed
  have quiet: "\<not> on t" if out: "\<not> on now" and s: "sc_start sc = Some s" and t: "now \<le> t" "t < s" for s t
  proof
    assume "on t"
    then obtain a b where ab: "laid cal wd md ws a b" "a \<le> t" "t < b" unfolding on_def by blast
    have "now < b" using ab(3) t(1) ab(2) by simp
    have "now < a"
    proof (rule ccontr)
      assume "\<not> now < a"
      then have "a \<le> now" by simp
      with ab(1) \<open>now < b\<close> out show False unfolding on_def by blast
    qed
    from sc s obtain b' where sS: "(s, b') \<in> ?S" and least: "\<And>a b. (a, b) \<in> ?S \<Longrightarrow> now < a \<Longrightarrow> s \<le> a"
      by (auto simp: scanned_def lowest_def)
    have "a < (?today + 71) * ns_per_day" using sS S ab(2) t(2) by force
    then have "(a, b) \<in> ?S" using S ab(1) near [OF ab(1) \<open>now < b\<close>] by blast
    from least [OF this \<open>now < a\<close>] ab(2) t(2) show False by simp
  qed
  have start: "now < s \<and> on s" if "sc_start sc = Some s" for s
  proof -
    from sc that obtain b where "(s, b) \<in> ?S" "now < s" by (auto simp: scanned_def lowest_def)
    then have "laid cal wd md ws s b" using S by blast
    with laid_span(1) [of ws, OF valid this] have "on s" unfolding on_def by blast
    with \<open>now < s\<close> show ?thesis by blast
  qed
  show ?thesis
  proof (cases "sc_cover sc")
    case (Some e)
    then obtain s where s: "sc_start sc = Some s" and f: "f = \<lparr>wf_inside = True, wf_next_start = s, wf_next_end = e\<rparr>"
      using facts by (auto split: option.splits)
    from sc Some obtain a where a: "(a, e) \<in> ?S" "a \<le> now" "now < e" by (auto simp: scanned_def highest_def)
    then have ae: "laid cal wd md ws a e" using S by blast
    then have "on t" if "now \<le> t" "t < e" for t unfolding on_def using that a by force
    then show ?thesis using a(2,3) ae start [OF s] by (auto simp: f)
  next
    case None
    then obtain s e where s: "sc_start sc = Some s" "sc_end sc = Some e"
      and f: "f = \<lparr>wf_inside = False, wf_next_start = s, wf_next_end = e\<rparr>"
      using facts by (auto split: option.splits)
    have out: "\<not> on now" using sc None covered by (auto simp: scanned_def highest_def)
    from sc s obtain a where a: "(a, e) \<in> ?S" "now < a" by (auto simp: scanned_def lowest_def)
    then have "a < e" using S laid_span(1) [of ws, OF valid] by blast
    then show ?thesis using a(2) out start [OF s(1)] quiet [OF out s(1)] by (simp add: f)
  qed
qed

lemma interval_sound:
  assumes valid: "validate (Interval h len anchor) = Inr ()" and eval: "eval_interval h len anchor now = Facts f"
  shows "sound_facts cal (Interval h len anchor) now f"
proof -
  let ?P = "uint h * ns_per_hour" and ?L = "uint len * ns_per_min"
  have "h \<noteq> 0" "len \<noteq> 0" using valid by (auto split: if_splits)
  then have "0 < uint h" "0 < uint len" by (simp_all add: word_neq_0_conv word_less_def)
  then have pos: "0 < ?P" "0 < ?L" by (simp_all add: ns_defs)
  let ?k = "(now - anchor) div ?P"
  have k: "(now - anchor) div 1000000000 div (uint h * 3600) = ?k"
  proof -
    have P: "?P = 1000000000 * (uint h * 3600)" by (simp add: ns_defs)
    show ?thesis unfolding P by (subst zdiv_zmult2_eq) simp_all
  qed
  have slot: "anchor + ?k * ?P \<le> now" "now < anchor + ?k * ?P + ?P"
    using div_mult_mod_eq [of "now - anchor" ?P] pos_mod_bound [OF pos(1), of "now - anchor"]
      pos_mod_sign [OF pos(1), of "now - anchor"] by linarith+
  have before: "\<not> on_duty cal (Interval h len anchor) t" if "t < anchor" for t
  proof -
    have "anchor \<le> anchor + j * ?P" if "0 \<le> j" for j using that pos(1) by simp
    then show ?thesis using that by force
  qed
  have within: "on_duty cal (Interval h len anchor) t \<longleftrightarrow> t < anchor + ?k * ?P + ?L"
    if "anchor \<le> now" "now \<le> t" "t < anchor + ?k * ?P + ?P" for t
  proof
    assume "on_duty cal (Interval h len anchor) t"
    then obtain j where j: "0 \<le> j" "anchor + j * ?P \<le> t" "t < anchor + j * ?P + ?L" by auto
    have "j * ?P < (?k + 1) * ?P" using j(2) that(3) by (simp add: distrib_right)
    then have "j \<le> ?k" using pos(1) by (simp add: mult_less_cancel_right)
    then have "j * ?P \<le> ?k * ?P" using pos(1) by (simp add: mult_right_mono)
    with j(3) show "t < anchor + ?k * ?P + ?L" by simp
  next
    assume "t < anchor + ?k * ?P + ?L"
    moreover have "0 \<le> ?k" using that(1) pos(1) by (simp add: pos_imp_zdiv_nonneg_iff)
    ultimately show "on_duty cal (Interval h len anchor) t" using slot(1) that(2) by auto
  qed
  have stays: "on_duty cal (Interval h len anchor) t" if "anchor \<le> now" "now \<le> t" "t < anchor + ?k * ?P + ?L" for t
  proof -
    have "0 \<le> ?k" using that(1) pos(1) by (simp add: pos_imp_zdiv_nonneg_iff)
    then show ?thesis using slot(1) that by auto
  qed
  have next_on: "on_duty cal (Interval h len anchor) (anchor + j * ?P)" if "0 \<le> j" for j
    using that pos(2) by (auto intro!: exI [of _ j])
  show ?thesis
  proof (cases "now < anchor")
    case True
    then have "f = \<lparr>wf_inside = False, wf_next_start = anchor, wf_next_end = anchor + ?L\<rparr>"
      using eval by (simp add: eval_interval_def Let_def)
    then show ?thesis using True before next_on [of 0] pos(2) unfolding sound_facts_def by (simp del: on_duty.simps)
  next
    case False
    have nonneg: "0 \<le> ?k" using False pos(1) by (simp add: pos_imp_zdiv_nonneg_iff)
    then have later: "on_duty cal (Interval h len anchor) (anchor + ?k * ?P + ?P)"
      using next_on [of "?k + 1"] by (simp add: distrib_right add.assoc del: on_duty.simps)
    show ?thesis
    proof (cases "now < anchor + ?k * ?P + ?L")
      case True
      then have "f = \<lparr>wf_inside = True, wf_next_start = anchor + ?k * ?P + ?P, wf_next_end = anchor + ?k * ?P + ?L\<rparr>"
        using eval False \<open>h \<noteq> 0\<close> slot(1) by (simp add: eval_interval_def Let_def k)
      then show ?thesis using True False slot stays unfolding sound_facts_def by (simp del: on_duty.simps)
    next
      case out: False
      then have "f = \<lparr>wf_inside = False, wf_next_start = anchor + ?k * ?P + ?P, wf_next_end = anchor + ?k * ?P + ?P + ?L\<rparr>"
        using eval False \<open>h \<noteq> 0\<close> by (simp add: eval_interval_def Let_def k)
      then show ?thesis using out False slot later within pos by (simp only: sound_facts_def window_facts.simps) auto
    qed
  qed
qed

lemma validate_calendar:
  "validate (Weekly days ws) = Inr () \<Longrightarrow> validate_windows ws = Inr ()"
  "validate (Monthly days' ws) = Inr () \<Longrightarrow> validate_windows ws = Inr ()"
  by (simp_all split: if_splits)

lemma status_sound:
  assumes "validate spec = Inr ()" and "window_status cal spec now = Facts f"
  shows "sound_facts cal spec now f"
proof (cases spec)
  case (Weekly days ws)
  then have "validate_windows ws = Inr ()" using assms(1) validate_calendar(1) by simp
  from validate_windows_ok(3) [OF this] have ok: "\<And>w. w \<in> set ws \<Longrightarrow> validate_window w = Inr ()" .
  have "eval_calendar cal (Some days) None ws now = Facts f" using assms(2) Weekly by simp
  from conjunct1 [OF calendar_sound [of ws, OF ok this]] show ?thesis unfolding sound_facts_def Weekly on_duty.simps .
next
  case (Monthly days ws)
  then have "validate_windows ws = Inr ()" using assms(1) validate_calendar(2) by simp
  from validate_windows_ok(3) [OF this] have ok: "\<And>w. w \<in> set ws \<Longrightarrow> validate_window w = Inr ()" .
  have "eval_calendar cal None (Some days) ws now = Facts f" using assms(2) Monthly by simp
  from conjunct1 [OF calendar_sound [of ws, OF ok this]] show ?thesis unfolding sound_facts_def Monthly on_duty.simps .
next
  case (Interval h len anchor)
  then show ?thesis using assms interval_sound by simp
next
  case Always
  then show ?thesis using assms(2) by (auto simp: sound_facts_def ns_defs)
qed

section \<open>The contract of the evaluator\<close>

text \<open>What the engine relies on: an answer is right, and stays right until the boundary it names.\<close>

locale duty_evaluator =
  fixes status :: "'s \<Rightarrow> utc \<Rightarrow> window_facts evaluated"
    and on :: "'s \<Rightarrow> utc \<Rightarrow> bool"
    and valid :: "'s \<Rightarrow> bool"
  assumes inside_iff: "valid s \<Longrightarrow> status s now = Facts f \<Longrightarrow> wf_inside f = on s now"
    and start_ahead: "valid s \<Longrightarrow> status s now = Facts f \<Longrightarrow> now < wf_next_start f"
    and inside_until: "valid s \<Longrightarrow> status s now = Facts f \<Longrightarrow> wf_inside f \<Longrightarrow> now \<le> t \<Longrightarrow> t < wf_next_end f \<Longrightarrow> on s t"
    and outside_until: "valid s \<Longrightarrow> status s now = Facts f \<Longrightarrow> \<not> wf_inside f \<Longrightarrow> now \<le> t \<Longrightarrow> t < wf_next_start f \<Longrightarrow> \<not> on s t"
    and starts: "valid s \<Longrightarrow> status s now = Facts f \<Longrightarrow> \<not> wf_inside f \<Longrightarrow> on s (wf_next_start f)"
begin

text \<open>Asked again before the announced start, it announces the same one.\<close>

lemma same_start:
  assumes "valid s" "status s now = Facts f" "\<not> wf_inside f" and "now \<le> t" "t < wf_next_start f" and "status s t = Facts g"
  shows "\<not> wf_inside g \<and> wf_next_start g = wf_next_start f"
proof -
  have out: "\<not> wf_inside g"
    using outside_until [OF assms(1-5)] inside_iff [OF assms(1,6)] by simp
  have "t < wf_next_start g" by (rule start_ahead [OF assms(1,6)])
  have "wf_next_start g \<le> wf_next_start f"
  proof (rule ccontr)
    assume "\<not> wf_next_start g \<le> wf_next_start f"
    then have "\<not> on s (wf_next_start f)" using assms(5) by (intro outside_until [OF assms(1,6) out]) simp_all
    then show False using starts [OF assms(1-3)] by simp
  qed
  moreover have "wf_next_start f \<le> wf_next_start g"
  proof (rule ccontr)
    assume "\<not> wf_next_start f \<le> wf_next_start g"
    then have "\<not> on s (wf_next_start g)"
      using assms(4) \<open>t < wf_next_start g\<close> by (intro outside_until [OF assms(1-3)]) simp_all
    then show False using starts [OF assms(1,6) out] by simp
  qed
  ultimately show ?thesis using out by simp
qed

lemma inside_at_start:
  "valid s \<Longrightarrow> status s now = Facts f \<Longrightarrow> \<not> wf_inside f \<Longrightarrow> status s (wf_next_start f) = Facts g \<Longrightarrow> wf_inside g"
  using starts inside_iff by metis

end

interpretation evaluator: duty_evaluator "window_status cal" "on_duty cal" "\<lambda>s. validate s = Inr ()" for cal
proof unfold_locales
  fix s now f t
  assume valid: "validate s = Inr ()" and f: "window_status cal s now = Facts f"
  note sound = status_sound [OF valid f, unfolded sound_facts_def]
  show "wf_inside f = on_duty cal s now" "now < wf_next_start f" using sound by blast+
  show "on_duty cal s t" if "wf_inside f" "now \<le> t" "t < wf_next_end f" using sound that by auto
  show "\<not> on_duty cal s t" if "\<not> wf_inside f" "now \<le> t" "t < wf_next_start f" using sound that by auto
  show "on_duty cal s (wf_next_start f)" if "\<not> wf_inside f" using sound that by auto
qed

section \<open>What the schedule promises\<close>

text \<open>C6. The evaluator tells the truth, and until when: for a schedule that validates, an answer says the agent is on duty
  exactly when some window of the schedule (of any day, of any turn of the rotation) holds the instant, both
  boundaries are ahead, inside a window the agent is on duty up to the announced end, and outside one it is off duty
  up to the announced start and on duty at it.\<close>

theorem window_status_tells_the_truth:
  assumes "validate spec = Inr ()" and "window_status cal spec now = Facts f"
  shows "wf_inside f = on_duty cal spec now \<and> now < wf_next_start f \<and> now < wf_next_end f
     \<and> (if wf_inside f then \<forall>t \<in> {now..<wf_next_end f}. on_duty cal spec t
        else on_duty cal spec (wf_next_start f) \<and> (\<forall>t \<in> {now..<wf_next_start f}. \<not> on_duty cal spec t))"
  using status_sound [OF assms] unfolding sound_facts_def .

text \<open>Two windows of a list that validates, on any two days.\<close>

lemma windows_disjoint:
  assumes "validate_windows ws = Inr ()" and "i < j" "j < length ws"
    and "window_minutes (ws ! i) = (s1, e1)" "window_minutes (ws ! j) = (s2, e2)"
  shows "\<not> (d1 * 1440 + s1 < d2 * 1440 + e2 \<and> d2 * 1440 + s2 < d1 * 1440 + e1)"
proof -
  have v1: "validate_window (ws ! i) = Inr ()" and v2: "validate_window (ws ! j) = Inr ()"
    using assms(2,3) by (auto intro: validate_windows_ok(3) [OF assms(1)])
  note m = valid_minutes [OF v1 assms(4)] valid_minutes [OF v2 assms(5)]
  have "i < j \<and> j < length (map window_minutes ws)" using assms(2,3) by simp
  with validate_windows_ok(4) [OF assms(1)] have "\<not> (overlaps_at (map window_minutes ws ! i) (map window_minutes ws ! j) 0
      \<or> overlaps_at (map window_minutes ws ! i) (map window_minutes ws ! j) (- 1440)
      \<or> overlaps_at (map window_minutes ws ! i) (map window_minutes ws ! j) 1440)"
    unfolding some_overlap_iff by blast
  then have "\<not> overlaps_at (s1, e1) (s2, e2) off" if "off \<in> {0, - 1440, 1440}" for off
    using assms(2-5) that by auto
  then have "\<not> (s1 < e2 - off \<and> s2 - off < e1)" if "off \<in> {0, - 1440, 1440}" for off
    using that by (simp add: overlaps_at_def)
  from this [of 0] this [of "- 1440"] this [of 1440]
  have o: "\<not> (s1 < e2 \<and> s2 < e1)" "\<not> (s1 < e2 + 1440 \<and> s2 + 1440 < e1)" "\<not> (s1 < e2 - 1440 \<and> s2 - 1440 < e1)" by simp_all
  consider "d2 \<le> d1 - 2" | "d2 = d1 - 1" | "d2 = d1" | "d2 = d1 + 1" | "d1 + 2 \<le> d2" by linarith
  then show ?thesis
  proof cases
    case 1
    then have "d2 * 1440 + 2880 \<le> d1 * 1440" by linarith
    then show ?thesis using m by linarith
  next
    case 5
    then have "d1 * 1440 + 2880 \<le> d2 * 1440" by linarith
    then show ?thesis using m by linarith
  qed (use o in auto)
qed

lemma same_window_disjoint:
  assumes "validate_window w = Inr ()" and "window_minutes w = (s, e)" and "d1 < d2"
  shows "d1 * 1440 + e \<le> d2 * 1440 + s"
proof -
  have "d1 * 1440 + 1440 \<le> d2 * 1440" using assms(3) by linarith
  then show ?thesis using valid_minutes [OF assms(1,2)] by linarith
qed

text \<open>An instant belongs to at most one window of one day.\<close>

lemma laid_unique:
  assumes valid: "validate_windows ws = Inr ()" and a: "laid cal wd md ws a b" "a \<le> t" "t < b" and a': "laid cal wd md ws a' b'" "a' \<le> t" "t < b'"
  shows "a = a' \<and> b = b'"
proof -
  have laidD: "\<exists>i d s e. i < length ws \<and> window_minutes (ws ! i) = (s, e) \<and> validate_window (ws ! i) = Inr ()
      \<and> a = (d * 1440 + s) * ns_per_min \<and> b = (d * 1440 + e) * ns_per_min" if ab: "laid cal wd md ws a b" for a b
  proof -
    obtain d w where w: "w \<in> set ws" "a = d * ns_per_day + fst (window_minutes w) * ns_per_min"
      "b = d * ns_per_day + snd (window_minutes w) * ns_per_min" using ab unfolding laid_def by blast
    obtain i where "i < length ws" "ws ! i = w" using w(1) by (auto simp: in_set_conv_nth)
    then show ?thesis
      using w validate_windows_ok(3) [OF valid w(1)]
      by (intro exI [of _ i] exI [of _ d] exI [of _ "fst (window_minutes w)"] exI [of _ "snd (window_minutes w)"])
        (simp add: ns_defs algebra_simps)
  qed
  obtain i d s e where i: "i < length ws" "window_minutes (ws ! i) = (s, e)" "validate_window (ws ! i) = Inr ()"
    "a = (d * 1440 + s) * ns_per_min" "b = (d * 1440 + e) * ns_per_min" using laidD [OF a(1)] by blast
  obtain i' d' s' e' where i': "i' < length ws" "window_minutes (ws ! i') = (s', e')" "validate_window (ws ! i') = Inr ()"
    "a' = (d' * 1440 + s') * ns_per_min" "b' = (d' * 1440 + e') * ns_per_min" using laidD [OF a'(1)] by blast
  have "a < b'" "a' < b" using a a' by simp_all
  then have meet: "d * 1440 + s < d' * 1440 + e'" "d' * 1440 + s' < d * 1440 + e"
    using i i' by (simp_all add: ns_per_min_def)
  have "i = i'"
  proof (rule ccontr)
    assume "i \<noteq> i'"
    then consider "i < i'" | "i' < i" by linarith
    then show False
      by cases (use windows_disjoint [OF valid _ i'(1) i(2) i'(2), of d d'] windows_disjoint [OF valid _ i(1) i'(2) i(2), of d' d] meet in auto)
  qed
  with i i' have se: "s' = s" "e' = e" by auto
  have "d = d'"
    using same_window_disjoint [OF i(3,2), of d d'] same_window_disjoint [OF i(3,2), of d' d] meet se by linarith
  then show ?thesis using i i' se by simp
qed

text \<open>C37. The windows of a calendar list (the weekly and the monthly schedules) that validates never
  share an instant, whichever days they are laid on; so inside a window the announced end is the end
  of that one window, even where the next begins at that instant. (The validator says of windows that
  touch that the evaluator merges them into one span; it does not join them. The shifts of an interval
  schedule are not windows of a list: they overlap where a shift is longer than the period, and C6
  says what is answered there.)\<close>

theorem announced_end_is_of_one_window:
  assumes "validate_windows ws = Inr ()" and "eval_calendar cal wd md ws now = Facts f"
    and "laid cal wd md ws a b" "a \<le> now" "now < b"
  shows "wf_inside f \<and> wf_next_end f = b
    \<and> (\<forall>a' b'. laid cal wd md ws a' b' \<and> a' < b \<and> a < b' \<longrightarrow> a' = a \<and> b' = b)"
proof -
  note ok = validate_windows_ok(3) [OF assms(1)]
  have on: "\<exists>a b. laid cal wd md ws a b \<and> a \<le> now \<and> now < b" using assms(3-5) by blast
  with calendar_sound [of ws, OF ok assms(2)] have inside: "wf_inside f"
    and "\<exists>a. laid cal wd md ws a (wf_next_end f) \<and> a \<le> now" and "now < wf_next_end f" by blast+
  have alone: "a' = a \<and> b' = b" if ab: "laid cal wd md ws a' b'" "a' < b" "a < b'" for a' b'
  proof (cases "a' \<le> a")
    case True
    have "a < b" using laid_span(1) [of ws, OF ok assms(3)] .
    then show ?thesis using laid_unique [OF assms(1) ab(1) True ab(3) assms(3)] by simp
  next
    case False
    have "a' < b'" using laid_span(1) [of ws, OF ok ab(1)] .
    then show ?thesis using laid_unique [OF assms(1) ab(1) _ _ assms(3), of a'] False ab(2) by simp
  qed
  have "wf_next_end f = b"
    using \<open>\<exists>a. laid cal wd md ws a (wf_next_end f) \<and> a \<le> now\<close> \<open>now < wf_next_end f\<close>
      laid_unique [OF assms(1) _ _ _ assms(3-5)] by blast
  then show ?thesis using inside alone by blast
qed

section \<open>There is an answer\<close>

text \<open>What the calendar of the library is relied on for: the weekdays follow each other, and a month has its days.\<close>

definition calendar_laws :: "calendar \<Rightarrow> bool" where
  "calendar_laws cal \<longleftrightarrow>
     (\<forall>d. \<forall>n \<in> {1..7}. \<exists>k \<in> {1..7}. week_day cal (d + k) = n)
     \<and> (\<forall>d. \<forall>n \<in> {1..31}. \<exists>k \<in> {1..62}. month_day cal (d + k) = n)"

lemma bit_of_nonzero:
  fixes days :: "'a::len word"
  assumes "days \<noteq> 0" "unat days < 2 ^ m"
  shows "\<exists>n < m. bit days n"
proof (rule ccontr)
  assume none: "\<not> (\<exists>n < m. bit days n)"
  have "\<not> bit days n" for n
  proof (cases "n < m")
    case False
    then have "unat days < 2 ^ n" using assms(2) by (meson less_le_trans not_less one_le_numeral power_increasing)
    then have "\<not> bit (unat days) n" by (simp add: bit_iff_odd)
    then show ?thesis by (simp add: bit_unsigned_iff)
  qed (use none in simp)
  then have "days = 0" by (intro bit_word_eqI) simp
  with assms(1) show False by simp
qed

lemma scan_complete:
  assumes "\<forall>k \<in> set ks. first_date cal \<le> today + k \<and> today + k \<le> last_date cal"
  shows "scan_days cal wd md ws now today ks sc \<noteq> None"
  using assms by (induction ks arbitrary: sc) (auto simp: date_add_def)

text \<open>A day of the scan that the mask selects, after today, makes the evaluator answer.\<close>

lemma calendar_answers:
  assumes valid: "validate_windows ws = Inr ()" and range: "first_date cal < now div ns_per_day" "now div ns_per_day + 72 \<le> last_date cal"
    and fires: "fires cal wd md (now div ns_per_day + k)" "1 \<le> k" "k \<le> 70"
  shows "\<exists>f. eval_calendar cal wd md ws now = Facts f"
proof -
  let ?today = "now div ns_per_day"
  note ok = validate_windows_ok(3) [OF valid]
  obtain sc where sc: "scan_days cal wd md ws now ?today [-1..70] \<lparr>sc_start = None, sc_end = None, sc_cover = None\<rparr> = Some sc"
    using scan_complete [of "[-1..70]" cal ?today] range by fastforce
  from scan_days_spans [OF sc] have seen: "scanned now (set (spans cal wd md ws (map ((+) ?today) [-1..70]))) sc"
    using fold_scanned by blast
  obtain w where w: "w \<in> set ws" using validate_windows_ok(1) [OF valid] by (cases ws) auto
  obtain s e where m: "window_minutes w = (s, e)" by (cases "window_minutes w")
  note v = valid_minutes [OF ok [OF w] m]
  let ?a = "(?today + k) * ns_per_day + s * ns_per_min" and ?b = "(?today + k) * ns_per_day + e * ns_per_min"
  have "0 \<le> e div 1440" "e div 1440 \<le> 1" using v by (simp_all add: pos_imp_zdiv_nonneg_iff)
  then have "span_on cal wd md (?today + k) w = Some (?a, ?b)"
    using fires range unfolding span_on_valid [OF ok [OF w] m] by simp
  moreover have "?today + k \<in> set (map ((+) ?today) [-1..70])" using fires(2,3) unfolding scanned_days by simp
  ultimately have "(?a, ?b) \<in> set (spans cal wd md ws (map ((+) ?today) [-1..70]))" using w in_spans by blast
  moreover have "now < ?a"
  proof -
    have "now < (?today + 1) * ns_per_day"
      using div_mult_mod_eq [of now ns_per_day] pos_mod_bound [of ns_per_day now] by (simp add: ns_defs algebra_simps)
    also have "\<dots> \<le> (?today + k) * ns_per_day" using fires(2) by (simp add: ns_defs)
    also have "\<dots> \<le> ?a" using v by (simp add: ns_defs)
    finally show ?thesis .
  qed
  ultimately have "sc_start sc \<noteq> None \<and> sc_end sc \<noteq> None"
    using seen unfolding scanned_def lowest_def by (auto split: option.splits)
  then show ?thesis using sc by (auto simp: eval_calendar_def split: option.split)
qed

text \<open>A schedule that validates always has an answer while the calendar lasts: seventy days of scan are enough
  for every weekday and for every day of the month.\<close>

theorem valid_schedule_has_answer:
  assumes "validate spec = Inr ()" and "calendar_laws cal"
    and "first_date cal < now div ns_per_day" "now div ns_per_day + 72 \<le> last_date cal"
  shows "\<exists>f. window_status cal spec now = Facts f"
proof (cases spec)
  case (Weekly days ws)
  then have "days \<noteq> 0" "days \<le> 0x7F" and ws: "validate_windows ws = Inr ()"
    using assms(1) by (auto simp: not_less split: if_splits)
  then have "unat days < 2 ^ 7" by (simp add: word_le_nat_alt)
  with bit_of_nonzero [OF \<open>days \<noteq> 0\<close>] obtain n where n: "n < 7" "bit days n" by blast
  then obtain k where k: "k \<in> {1..7}" "week_day cal (now div ns_per_day + k) = n + 1"
    using assms(2) unfolding calendar_laws_def by (metis Suc_eq_plus1 Suc_leI atLeastAtMost_iff le_add2)
  have "fires cal (Some days) None (now div ns_per_day + k)"
    using k n(2) unfolding bit_iff_and_push_bit_not_eq_0 by (simp add: fires_def del: push_bit_of_1)
  from calendar_answers [OF ws assms(3,4) this] k Weekly show ?thesis by auto
next
  case (Monthly days ws)
  then have "days \<noteq> 0" "days \<le> push_bit 31 1 - 1" and ws: "validate_windows ws = Inr ()"
    using assms(1) by (auto simp: not_less simp del: push_bit_of_1 split: if_splits)
  then have "unat days < 2 ^ 31" by (simp add: word_le_nat_alt)
  with bit_of_nonzero [OF \<open>days \<noteq> 0\<close>] obtain n where n: "n < 31" "bit days n" by blast
  then obtain k where k: "k \<in> {1..62}" "month_day cal (now div ns_per_day + k) = n + 1"
    using assms(2) unfolding calendar_laws_def by (metis Suc_eq_plus1 Suc_leI atLeastAtMost_iff le_add2)
  have "fires cal None (Some days) (now div ns_per_day + k)"
    using k n(2) unfolding bit_iff_and_push_bit_not_eq_0 by (simp add: fires_def del: push_bit_of_1)
  from calendar_answers [OF ws assms(3,4) this] k Monthly show ?thesis by auto
next
  case (Interval h len anchor)
  then show ?thesis using assms(1) by (auto simp: eval_interval_def Let_def split: if_splits)
qed simp

section \<open>A concrete calendar\<close>

definition demo_calendar :: calendar where
  "demo_calendar = \<lparr>week_day = (\<lambda>d. nat ((d + 3) mod 7) + 1), month_day = (\<lambda>d. nat (d mod 31) + 1),
     first_date = - 100000, last_date = 100000\<rparr>"

text \<open>Two windows that touch at noon, every day.\<close>

definition demo_windows :: "duty_window list" where
  "demo_windows = [\<lparr>wn_start = 540, wn_end = 720\<rparr>, \<lparr>wn_start = 720, wn_end = 1020\<rparr>]"

lemma demo_windows_valid: "validate_windows demo_windows = Inr ()" "validate (Weekly 127 demo_windows) = Inr ()"
  by (simp_all add: demo_windows_def validate_windows_def validate_window_def window_minutes_def overlaps_at_def
      MAX_WINDOWS_def DAY_MINUTES_def)

lemma demo_calendar_laws: "calendar_laws demo_calendar"
proof -
  have mod: "\<exists>k \<in> {1..m}. nat ((d + k) mod m) + 1 = n" if "0 < m" "n \<in> {1..nat m}" for d m :: int and n
  proof -
    let ?k = "(int n - 1 - d - 1) mod m + 1"
    have "(d + ?k) mod m = (int n - 1) mod m"
      by (metis (no_types, opaque_lifting) add.commute add_diff_cancel_left' diff_add_cancel mod_add_right_eq)
    also have "\<dots> = int n - 1" using that by (intro mod_pos_pos_trivial) auto
    finally have "nat ((d + ?k) mod m) + 1 = nat (int n - 1) + 1" by simp
    also have "\<dots> = n" using that(2) by (simp add: nat_diff_distrib)
    finally have "nat ((d + ?k) mod m) + 1 = n" .
    moreover have "?k \<in> {1..m}" using pos_mod_bound [OF that(1)] pos_mod_sign [OF that(1)] by (simp add: add1_zle_eq)
    ultimately show ?thesis by blast
  qed
  have week: "\<exists>k \<in> {1..7}. week_day demo_calendar (d + k) = n" if "n \<in> {1..7}" for d n
    using mod [of 7 n "d + 3"] that by (simp add: demo_calendar_def algebra_simps)
  have month: "\<exists>k \<in> {1..62}. month_day demo_calendar (d + k) = n" if "n \<in> {1..31}" for d n
    using mod [of 31 n d] that by (force simp: demo_calendar_def)
  show ?thesis using week month unfolding calendar_laws_def by blast
qed

theorem valid_schedule_has_answer_witness:
  "\<exists>f. window_status demo_calendar (Weekly 127 demo_windows) (10 * ns_per_hour) = Facts f"
  by (rule valid_schedule_has_answer [OF demo_windows_valid(2) demo_calendar_laws])
    (simp_all add: demo_calendar_def ns_defs)

lemma demo_answer: "\<exists>f. eval_calendar demo_calendar (Some 127) None demo_windows (10 * ns_per_hour) = Facts f"
proof -
  have "week_day demo_calendar (0 + 1) = 5" by (simp add: demo_calendar_def)
  then have "fires demo_calendar (Some 127) None (10 * ns_per_hour div ns_per_day + 1)"
    by (simp add: fires_def ns_defs)
  from calendar_answers [OF demo_windows_valid(1) _ _ this] show ?thesis
    by (simp add: demo_calendar_def ns_defs)
qed

theorem window_status_tells_the_truth_witness:
  "\<exists>f. window_status demo_calendar (Weekly 127 demo_windows) (10 * ns_per_hour) = Facts f
    \<and> wf_inside f = on_duty demo_calendar (Weekly 127 demo_windows) (10 * ns_per_hour)"
proof -
  obtain f where f: "window_status demo_calendar (Weekly 127 demo_windows) (10 * ns_per_hour) = Facts f"
    using demo_answer by auto
  then show ?thesis using window_status_tells_the_truth [OF demo_windows_valid(2) f] by blast
qed

theorem announced_end_is_of_one_window_witness:
  "\<exists>f. eval_calendar demo_calendar (Some 127) None demo_windows (10 * ns_per_hour) = Facts f
    \<and> wf_inside f \<and> wf_next_end f = 12 * ns_per_hour"
proof -
  obtain f where f: "eval_calendar demo_calendar (Some 127) None demo_windows (10 * ns_per_hour) = Facts f"
    using demo_answer by blast
  have "week_day demo_calendar 0 = 4" by (simp add: demo_calendar_def)
  then have "fires demo_calendar (Some 127) None 0" by (simp add: fires_def)
  then have "laid demo_calendar (Some 127) None demo_windows (9 * ns_per_hour) (12 * ns_per_hour)"
    unfolding laid_def
    by (intro exI [of _ 0] bexI [of _ "\<lparr>wn_start = 540, wn_end = 720\<rparr>"])
      (simp_all add: demo_windows_def window_minutes_def DAY_MINUTES_def demo_calendar_def ns_defs)
  from announced_end_is_of_one_window [OF demo_windows_valid(1) f this] f show ?thesis by (simp add: ns_defs)
qed

end
