(* ===== verification/Duty_Engine.thy ===== *)
theory Duty_Engine
  imports Work_Props
begin

text \<open>
  The work schedule engine of a tagma (\<open>crates/kallipai-tagma/src/engine.rs\<close>) over the duty status of its
  agents (\<open>duty.rs\<close>): the phases of a shift, the transitions that are due, what each of them does, and the
  passes that mutations of the schedule and a coarse tick start. A panic of a pass is \<open>None\<close>.
\<close>

section \<open>Duty\<close>

datatype duty_status = OnDuty | OffDuty

text \<open>A flip sends an invalidation, which wakes the snapshots of the state; the generation counts the sends (a send that
  finds no receiver is counted here, though it leaves the value of the channel).\<close>

record duty_store =
  du_map :: "(string \<times> duty_status) list"
  du_generation :: u64

definition duty_get :: "string \<Rightarrow> duty_store \<Rightarrow> duty_status" where
  "duty_get a du = (case map_of (du_map du) a of Some d \<Rightarrow> d | None \<Rightarrow> OnDuty)"

definition is_off_duty :: "string \<Rightarrow> duty_store \<Rightarrow> bool" where
  "is_off_duty a du \<longleftrightarrow> duty_get a du = OffDuty"

definition duty_set :: "string \<Rightarrow> duty_status \<Rightarrow> duty_store \<Rightarrow> duty_store" where
  "duty_set a d du = \<lparr>du_map = AList.update a d (du_map du), du_generation = du_generation du + 1\<rparr>"

definition duty_remove :: "string \<Rightarrow> duty_store \<Rightarrow> duty_store" where
  "duty_remove a du = \<lparr>du_map = AList.delete a (du_map du), du_generation = du_generation du + 1\<rparr>"

section \<open>The schedule and its cycle\<close>

datatype schedule_status = ScheduleActive | SchedulePaused

record work_schedule =
  ws_id :: string
  ws_spec :: work_spec
  ws_pre_warn :: u32
  ws_final_warn :: u32
  ws_final_prompt :: "string option"
  ws_wake_prompt :: string
  ws_status :: schedule_status
  ws_created :: utc

datatype schedule_phase = PhaseOff | PhaseWorking | PhasePreWarned | PhaseFinalWarned

record cycle_state =
  cy_spec :: work_spec
  cy_pre_warn :: int
  cy_final_warn :: int
  cy_final_prompt :: "string option"
  cy_agent :: string
  cy_wake_prompt :: string
  cy_phase :: schedule_phase
  cy_end :: utc
  cy_next_start :: utc

datatype transition = ShiftStart | ShiftPreWarn | ShiftFinalWarn | ShiftEnd

definition init_cycle :: "calendar \<Rightarrow> work_schedule \<Rightarrow> string \<Rightarrow> utc \<Rightarrow> cycle_state evaluated" where
  "init_cycle cal s root now =
     (case window_status cal (ws_spec s) now of
        EvalPanic \<Rightarrow> EvalPanic
      | NoFacts \<Rightarrow> NoFacts
      | Facts f \<Rightarrow>
          let pre = uint (ws_pre_warn s); fin = uint (ws_final_warn s);
              phase =
                (if wf_inside f
                 then if ws_spec s = Always then PhaseWorking
                      else if wf_next_end f - fin * ns_per_min \<le> now then PhaseFinalWarned
                      else if wf_next_end f - pre * ns_per_min \<le> now then PhasePreWarned
                      else PhaseWorking
                 else PhaseOff)
          in Facts \<lparr>cy_spec = ws_spec s, cy_pre_warn = pre, cy_final_warn = fin, cy_final_prompt = ws_final_prompt s,
               cy_agent = root, cy_wake_prompt = ws_wake_prompt s, cy_phase = phase, cy_end = wf_next_end f,
               cy_next_start = wf_next_start f\<rparr>)"

definition pre_warn_time :: "cycle_state \<Rightarrow> utc" where
  "pre_warn_time cs = cy_end cs - cy_pre_warn cs * ns_per_min"

definition final_warn_time :: "cycle_state \<Rightarrow> utc" where
  "final_warn_time cs = cy_end cs - cy_final_warn cs * ns_per_min"

definition compute_transition :: "cycle_state \<Rightarrow> utc \<Rightarrow> transition option" where
  "compute_transition cs now =
     (case cy_phase cs of
        PhaseOff \<Rightarrow> if cy_next_start cs \<le> now then Some ShiftStart else None
      | PhaseWorking \<Rightarrow> if pre_warn_time cs \<le> now \<and> cy_spec cs \<noteq> Always then Some ShiftPreWarn else None
      | PhasePreWarned \<Rightarrow> if final_warn_time cs \<le> now then Some ShiftFinalWarn else None
      | PhaseFinalWarned \<Rightarrow> if cy_end cs \<le> now then Some ShiftEnd else None)"

definition end_covered_by_next :: "calendar \<Rightarrow> work_spec \<Rightarrow> utc \<Rightarrow> utc evaluated" where
  "end_covered_by_next cal spec now =
     (case window_status cal spec now of
        EvalPanic \<Rightarrow> EvalPanic
      | NoFacts \<Rightarrow> NoFacts
      | Facts f \<Rightarrow> if wf_inside f then Facts (wf_next_end f) else NoFacts)"

definition recompute_start_after_end :: "calendar \<Rightarrow> utc \<Rightarrow> cycle_state \<Rightarrow> cycle_state option" where
  "recompute_start_after_end cal now cs =
     (case window_status cal (cy_spec cs) now of
        EvalPanic \<Rightarrow> None
      | NoFacts \<Rightarrow> Some (cs\<lparr>cy_next_start := now + ns_per_hour\<rparr>)
      | Facts f \<Rightarrow> Some (cs\<lparr>cy_next_start := wf_next_start f\<rparr>))"

section \<open>What a transition does\<close>

datatype duty_effect =
    PushInbox string string
  | NotifyAgent string
  | EnqueuePrompt string string
  | InterruptRound string

record duty_world =
  dw_duty :: duty_store
  dw_effects :: "duty_effect list"

text \<open>What the executor finds: whether an inbox store is installed, and which agents are live.\<close>

record duty_env =
  de_inbox :: bool
  de_live :: "string \<Rightarrow> bool"

definition push_effect :: "duty_effect \<Rightarrow> duty_world \<Rightarrow> duty_world" where
  "push_effect e w = w\<lparr>dw_effects := dw_effects w @ [e]\<rparr>"

definition set_duty :: "string \<Rightarrow> duty_status \<Rightarrow> duty_world \<Rightarrow> duty_world" where
  "set_duty a d w = w\<lparr>dw_duty := duty_set a d (dw_duty w)\<rparr>"

definition alarm_clock :: string where
  "alarm_clock = [CHR 0xE2, CHR 0x8F, CHR 0xB0]"

definition DEFAULT_WAKE_PROMPT :: string where
  "DEFAULT_WAKE_PROMPT =
     ''You are on duty '' @ em_dash
       @ '' check your inbox for messages received while you were off duty, and resume any work left unfinished at the end of your last shift.''"

definition execute_start :: "duty_env \<Rightarrow> cycle_state \<Rightarrow> duty_world \<Rightarrow> duty_world" where
  "execute_start env cs w =
     (let w1 = set_duty (cy_agent cs) OnDuty w;
          custom = str_trim (cy_wake_prompt cs);
          body = (if custom = [] then DEFAULT_WAKE_PROMPT else DEFAULT_WAKE_PROMPT @ [CHR 0x0A] @ custom)
      in if \<not> de_inbox env then w1
         else let w2 = push_effect (PushInbox (cy_agent cs) body) w1
              in if de_live env (cy_agent cs) then push_effect (NotifyAgent (cy_agent cs)) w2 else w2)"

definition execute_pre_warn :: "cycle_state \<Rightarrow> duty_world \<Rightarrow> duty_world" where
  "execute_pre_warn cs =
     push_effect (EnqueuePrompt (cy_agent cs)
       (alarm_clock @ '' Your shift ends in '' @ show_nat (nat (cy_pre_warn cs)) @ '' minutes. Start wrapping up.''))"

text \<open>Replacing each occurrence of a pattern, left to right.\<close>

function replace_str :: "string \<Rightarrow> string \<Rightarrow> string \<Rightarrow> string" where
  "replace_str pat by' [] = []"
| "replace_str pat by' (c # cs) =
     (if pat \<noteq> [] \<and> prefix pat (c # cs) then by' @ replace_str pat by' (drop (length pat) (c # cs))
      else c # replace_str pat by' cs)"
  by pat_completeness auto
termination by (relation "measure (\<lambda>(pat, by', s). length s)") (auto simp: Suc_le_eq)

definition execute_final_warn :: "cycle_state \<Rightarrow> duty_world \<Rightarrow> duty_world" where
  "execute_final_warn cs =
     (let minutes = show_nat (nat (cy_final_warn cs));
          default = alarm_clock @ '' '' @ minutes @ '' minutes until end of shift. Save your work now.'';
          msg = (case map_option str_trim (cy_final_prompt cs) of
                   Some custom \<Rightarrow> if custom \<noteq> [] then default @ [CHR 0x0A] @ replace_str ''{N}'' minutes custom else default
                 | None \<Rightarrow> default)
      in push_effect (EnqueuePrompt (cy_agent cs) msg))"

definition interrupt_round :: "duty_env \<Rightarrow> string \<Rightarrow> duty_world \<Rightarrow> duty_world" where
  "interrupt_round env a w = (if de_live env a then push_effect (InterruptRound a) w else w)"

definition execute_end :: "duty_env \<Rightarrow> cycle_state \<Rightarrow> duty_world \<Rightarrow> duty_world" where
  "execute_end env cs w = interrupt_round env (cy_agent cs) (set_duty (cy_agent cs) OffDuty w)"

section \<open>One pass\<close>

fun fire :: "duty_env \<Rightarrow> calendar \<Rightarrow> utc \<Rightarrow> transition \<Rightarrow> cycle_state \<times> duty_world \<Rightarrow> (cycle_state \<times> duty_world) option" where
  "fire env cal now ShiftStart (cs, w) =
     (case window_status cal (cy_spec cs) (cy_next_start cs) of
        EvalPanic \<Rightarrow> None
      | NoFacts \<Rightarrow> Some (cs\<lparr>cy_phase := PhaseWorking\<rparr>, execute_start env cs w)
      | Facts f \<Rightarrow>
          if wf_next_end f \<le> now
          then map_option (\<lambda>cs'. (cs', set_duty (cy_agent cs) OffDuty w))
                 (recompute_start_after_end cal now (cs\<lparr>cy_phase := PhaseOff\<rparr>))
          else let cs1 = cs\<lparr>cy_end := wf_next_end f\<rparr>
               in Some (cs1\<lparr>cy_phase := PhaseWorking\<rparr>, execute_start env cs1 w))"
| "fire env cal now ShiftPreWarn (cs, w) =
     Some (cs\<lparr>cy_phase := PhasePreWarned\<rparr>, if now < cy_end cs then execute_pre_warn cs w else w)"
| "fire env cal now ShiftFinalWarn (cs, w) =
     Some (cs\<lparr>cy_phase := PhaseFinalWarned\<rparr>, if now < cy_end cs then execute_final_warn cs w else w)"
| "fire env cal now ShiftEnd (cs, w) =
     (case end_covered_by_next cal (cy_spec cs) now of
        EvalPanic \<Rightarrow> None
      | Facts e \<Rightarrow> Some (cs\<lparr>cy_end := e, cy_phase := PhaseWorking\<rparr>, w)
      | NoFacts \<Rightarrow>
          map_option (\<lambda>cs'. (cs', execute_end env cs w)) (recompute_start_after_end cal now (cs\<lparr>cy_phase := PhaseOff\<rparr>)))"

text \<open>The measure of the loop: a fired transition leaves fewer, since every boundary the evaluator names is ahead.\<close>

definition phase_rank :: "utc \<Rightarrow> cycle_state \<Rightarrow> nat" where
  "phase_rank now cs =
     (let past = (if cy_end cs \<le> now then 4 else 0)
      in case cy_phase cs of
           PhaseOff \<Rightarrow> if cy_next_start cs \<le> now then 8 else 0
         | PhaseWorking \<Rightarrow> past + 3
         | PhasePreWarned \<Rightarrow> past + 2
         | PhaseFinalWarned \<Rightarrow> past + 1)"

lemma status_ahead:
  assumes "window_status cal spec now = Facts f"
  shows "now < wf_next_start f" "wf_inside f \<Longrightarrow> now < wf_next_end f"
proof -
  have interval: "now < wf_next_start f \<and> (wf_inside f \<longrightarrow> now < wf_next_end f)"
    if e: "eval_interval h len anchor now = Facts f" for h len anchor
  proof (cases "now < anchor \<or> h = 0")
    case True
    then show ?thesis using e by (auto simp: eval_interval_def Let_def split: if_splits)
  next
    case False
    then have "0 < uint h" by (simp add: word_neq_0_conv word_less_def)
    then have pos: "0 < uint h * ns_per_hour" by (simp add: ns_defs)
    have P: "uint h * ns_per_hour = 1000000000 * (uint h * 3600)" by (simp add: ns_defs)
    have "(now - anchor) div 1000000000 div (uint h * 3600) = (now - anchor) div (uint h * ns_per_hour)"
      unfolding P by (subst zdiv_zmult2_eq) simp_all
    moreover have "now < anchor + (now - anchor) div (uint h * ns_per_hour) * (uint h * ns_per_hour) + uint h * ns_per_hour"
      using div_mult_mod_eq [of "now - anchor" "uint h * ns_per_hour"] pos_mod_bound [OF pos, of "now - anchor"] by linarith
    ultimately show ?thesis using e False by (auto simp: eval_interval_def Let_def split: if_splits)
  qed
  have calendar: "now < wf_next_start f \<and> (wf_inside f \<longrightarrow> now < wf_next_end f)"
    if e: "eval_calendar cal wd md ws now = Facts f" for wd md ws
  proof -
    obtain sc where "scan_days cal wd md ws now (now div ns_per_day) [-1..70]
        \<lparr>sc_start = None, sc_end = None, sc_cover = None\<rparr> = Some sc"
      and facts: "(case (sc_cover sc, sc_start sc, sc_end sc) of
             (Some e, Some s, _) \<Rightarrow> Facts \<lparr>wf_inside = True, wf_next_start = s, wf_next_end = e\<rparr>
           | (None, Some s, Some e) \<Rightarrow> Facts \<lparr>wf_inside = False, wf_next_start = s, wf_next_end = e\<rparr>
           | _ \<Rightarrow> NoFacts) = Facts f"
      using e unfolding eval_calendar_def
      by (cases "scan_days cal wd md ws now (now div ns_per_day) [-1..70] \<lparr>sc_start = None, sc_end = None, sc_cover = None\<rparr>") auto
    from scan_days_spans [OF this(1)] fold_scanned obtain S where "scanned now S sc" by blast
    then have "sc_start sc = Some s \<Longrightarrow> now < s" "sc_cover sc = Some e \<Longrightarrow> now < e" for s e
      by (auto simp: scanned_def lowest_def highest_def)
    then show ?thesis using facts by (auto split: option.splits)
  qed
  have "now < wf_next_start f \<and> (wf_inside f \<longrightarrow> now < wf_next_end f)"
    using assms interval calendar by (cases spec) (auto simp: ns_defs)
  then show "now < wf_next_start f" "wf_inside f \<Longrightarrow> now < wf_next_end f" by auto
qed

lemma recompute_start_ahead:
  "recompute_start_after_end cal now cs = Some cs' \<Longrightarrow> \<exists>s > now. cs' = cs\<lparr>cy_next_start := s\<rparr>"
proof (cases "window_status cal (cy_spec cs) now")
  case NoFacts
  assume "recompute_start_after_end cal now cs = Some cs'"
  then show ?thesis
    using NoFacts by (intro exI [of _ "now + ns_per_hour"]) (auto simp: recompute_start_after_end_def ns_defs)
qed (auto simp: recompute_start_after_end_def dest: status_ahead(1))

lemma fire_rank:
  assumes "compute_transition cs now = Some t" and "fire env cal now t (cs, w) = Some (cs', w')"
  shows "phase_rank now cs' < phase_rank now cs"
proof (cases t)
  case ShiftStart
  then have "cy_phase cs = PhaseOff" "cy_next_start cs \<le> now"
    using assms(1) by (auto simp: compute_transition_def split: schedule_phase.splits if_splits)
  then show ?thesis using assms(2) ShiftStart
    by (auto simp: phase_rank_def Let_def split: evaluated.splits if_splits dest!: recompute_start_ahead)
next
  case ShiftPreWarn
  then have "cy_phase cs = PhaseWorking"
    using assms(1) by (auto simp: compute_transition_def split: schedule_phase.splits if_splits)
  then show ?thesis using assms(2) ShiftPreWarn by (auto simp: phase_rank_def Let_def)
next
  case ShiftFinalWarn
  then have "cy_phase cs = PhasePreWarned"
    using assms(1) by (auto simp: compute_transition_def split: schedule_phase.splits if_splits)
  then show ?thesis using assms(2) ShiftFinalWarn by (auto simp: phase_rank_def Let_def)
next
  case ShiftEnd
  then have "cy_phase cs = PhaseFinalWarned" "cy_end cs \<le> now"
    using assms(1) by (auto simp: compute_transition_def split: schedule_phase.splits if_splits)
  then show ?thesis using assms(2) ShiftEnd
    by (auto simp: phase_rank_def Let_def end_covered_by_next_def split: evaluated.splits if_splits
        dest!: recompute_start_ahead dest: status_ahead(2))
qed

text \<open>The loop over the transitions that are due.\<close>

function fire_due :: "duty_env \<Rightarrow> calendar \<Rightarrow> utc \<Rightarrow> cycle_state \<times> duty_world \<Rightarrow> (cycle_state \<times> duty_world) option" where
  "fire_due env cal now cw =
     (case compute_transition (fst cw) now of
        None \<Rightarrow> Some cw
      | Some t \<Rightarrow> (case fire env cal now t cw of None \<Rightarrow> None | Some cw' \<Rightarrow> fire_due env cal now cw'))"
  by pat_completeness auto
termination
  by (relation "measure (\<lambda>(env, cal, now, cw). phase_rank now (fst cw))") (auto dest: fire_rank)

declare fire_due.simps [simp del]

definition compute_next_deadline :: "(string \<times> cycle_state) list \<Rightarrow> utc option" where
  "compute_next_deadline cycles =
     (case map (\<lambda>(_, cs). case cy_phase cs of
          PhaseOff \<Rightarrow> cy_next_start cs
        | PhaseWorking \<Rightarrow> pre_warn_time cs
        | PhasePreWarned \<Rightarrow> final_warn_time cs
        | PhaseFinalWarned \<Rightarrow> cy_end cs) cycles of
        [] \<Rightarrow> None
      | d # ds \<Rightarrow> Some (fold min ds d))"

definition edited :: "cycle_state \<Rightarrow> work_schedule \<Rightarrow> bool" where
  "edited cs s \<longleftrightarrow> cy_spec cs \<noteq> ws_spec s \<or> cy_pre_warn cs \<noteq> uint (ws_pre_warn s)
     \<or> cy_final_warn cs \<noteq> uint (ws_final_warn s) \<or> cy_final_prompt cs \<noteq> ws_final_prompt s
     \<or> cy_wake_prompt cs \<noteq> ws_wake_prompt s"

text \<open>A cycle the engine does not have yet: the recovery of a restart.\<close>

definition enter_cycle ::
  "duty_env \<Rightarrow> calendar \<Rightarrow> utc \<Rightarrow> string \<Rightarrow> work_schedule \<Rightarrow> duty_world \<Rightarrow> (cycle_state \<times> duty_world) evaluated" where
  "enter_cycle env cal now root s w =
     (case init_cycle cal s root now of
        EvalPanic \<Rightarrow> EvalPanic
      | NoFacts \<Rightarrow> NoFacts
      | Facts c \<Rightarrow> Facts (c, if cy_phase c = PhaseOff then set_duty (cy_agent c) OffDuty w else execute_start env c w))"

text \<open>A cycle whose schedule was edited; an edit that cannot be evaluated keeps the old one.\<close>

definition apply_edit ::
  "duty_env \<Rightarrow> calendar \<Rightarrow> utc \<Rightarrow> string \<Rightarrow> work_schedule \<Rightarrow> cycle_state \<times> duty_world \<Rightarrow> (cycle_state \<times> duty_world) option" where
  "apply_edit env cal now root s cw =
     (let (cs, w) = cw
      in if \<not> edited cs s then Some (cs, w)
         else case init_cycle cal s root now of
                EvalPanic \<Rightarrow> None
              | NoFacts \<Rightarrow> Some (cs, w)
              | Facts c \<Rightarrow>
                  Some (c, if cy_phase cs = PhaseOff \<and> cy_phase c \<noteq> PhaseOff then execute_start env c w
                           else set_duty (cy_agent c) (if cy_phase c = PhaseOff then OffDuty else OnDuty) w))"

definition process_schedule ::
  "duty_env \<Rightarrow> calendar \<Rightarrow> utc \<Rightarrow> string \<Rightarrow> work_schedule \<Rightarrow> (string \<times> cycle_state) list \<times> duty_world
     \<Rightarrow> ((string \<times> cycle_state) list \<times> duty_world) option" where
  "process_schedule env cal now root s st =
     (let (cycles, w) = st;
          run = (\<lambda>cw. map_option (\<lambda>(cs, w). (AList.update (ws_id s) cs cycles, w))
                   (Option.bind (apply_edit env cal now root s cw) (fire_due env cal now)))
      in case map_of cycles (ws_id s) of
           Some cs \<Rightarrow> run (cs, w)
         | None \<Rightarrow>
             (case enter_cycle env cal now root s w of
                EvalPanic \<Rightarrow> None
              | NoFacts \<Rightarrow> Some (cycles, w)
              | Facts cw \<Rightarrow> run cw))"

fun process_all ::
  "duty_env \<Rightarrow> calendar \<Rightarrow> utc \<Rightarrow> string \<Rightarrow> work_schedule list \<Rightarrow> (string \<times> cycle_state) list \<times> duty_world
     \<Rightarrow> ((string \<times> cycle_state) list \<times> duty_world) option" where
  "process_all env cal now root [] st = Some st"
| "process_all env cal now root (s # ss) st =
     Option.bind (process_schedule env cal now root s st) (process_all env cal now root ss)"

text \<open>What one pass reads: the clock, the root agent, and the row of the schedule (or an error of the store).\<close>

record duty_pass =
  pe_duty :: duty_env
  pe_installed :: bool
  pe_now :: utc
  pe_root :: "string option"
  pe_row :: "work_schedule option option"
  pe_retry_now :: utc

record duty_engine =
  eg_cycles :: "(string \<times> cycle_state) list"
  eg_deadline :: "utc option"
  eg_world :: duty_world

text \<open>A pass: the deadline it asks for, or an error of the store; or a panic.\<close>

definition recompute :: "calendar \<Rightarrow> duty_pass \<Rightarrow> duty_engine \<Rightarrow> ((unit + utc option) \<times> duty_engine) option" where
  "recompute cal pe eg =
     (if \<not> pe_installed pe then Some (Inr None, eg)
      else case pe_row pe of
             None \<Rightarrow> Some (Inl (), eg)
           | Some row \<Rightarrow>
               let active = (case row of Some s \<Rightarrow> if ws_status s = ScheduleActive then [s] else [] | None \<Rightarrow> [])
               in case pe_root pe of
                    None \<Rightarrow> Some (Inr None, eg\<lparr>eg_cycles := []\<rparr>)
                  | Some root \<Rightarrow>
                      let kept = filter (\<lambda>(id, _). id \<in> set (map ws_id active)) (eg_cycles eg)
                      in map_option (\<lambda>(cycles, w). (Inr (compute_next_deadline cycles), eg\<lparr>eg_cycles := cycles, eg_world := w\<rparr>))
                           (process_all (pe_duty pe) cal (pe_now pe) root active (kept, eg_world eg)))"

definition RETRY_BACKOFF_SECS :: int where
  "RETRY_BACKOFF_SECS = 10"

definition retry_anchor :: "utc \<Rightarrow> utc" where
  "retry_anchor now = now + RETRY_BACKOFF_SECS * 1000000000"

definition run_recompute :: "calendar \<Rightarrow> duty_pass \<Rightarrow> duty_engine \<Rightarrow> duty_engine option" where
  "run_recompute cal pe eg =
     map_option (\<lambda>(r, eg'). eg'\<lparr>eg_deadline := (case r of Inr d \<Rightarrow> d | Inl _ \<Rightarrow> Some (retry_anchor (pe_retry_now pe)))\<rparr>)
       (recompute cal pe eg)"

definition deadline_due :: "utc \<Rightarrow> utc \<Rightarrow> bool" where
  "deadline_due deadline now \<longleftrightarrow> deadline \<le> now"

text \<open>The arms of the engine's loop.\<close>

datatype engine_input = EngineShutdown | ScheduleChanged duty_pass | EngineTick utc duty_pass

datatype engine_status = EngineRuns duty_engine | EngineStopped | EngineCrashed

definition pass_status :: "duty_engine option \<Rightarrow> engine_status" where
  "pass_status r = (case r of Some eg \<Rightarrow> EngineRuns eg | None \<Rightarrow> EngineCrashed)"

fun engine_step :: "calendar \<Rightarrow> engine_input \<Rightarrow> duty_engine \<Rightarrow> engine_status" where
  "engine_step cal EngineShutdown eg = EngineStopped"
| "engine_step cal (ScheduleChanged pe) eg = pass_status (run_recompute cal pe eg)"
| "engine_step cal (EngineTick now pe) eg =
     (case eg_deadline eg of
        Some d \<Rightarrow> if deadline_due d now then pass_status (run_recompute cal pe eg) else EngineRuns eg
      | None \<Rightarrow> EngineRuns eg)"

fun engine_loop :: "calendar \<Rightarrow> engine_input list \<Rightarrow> duty_engine \<Rightarrow> engine_status" where
  "engine_loop cal [] eg = EngineRuns eg"
| "engine_loop cal (i # is) eg =
     (case engine_step cal i eg of EngineRuns eg' \<Rightarrow> engine_loop cal is eg' | r \<Rightarrow> r)"

text \<open>The engine starts with a pass of its own.\<close>

definition start_engine :: "calendar \<Rightarrow> duty_pass \<Rightarrow> engine_input list \<Rightarrow> duty_store \<Rightarrow> engine_status" where
  "start_engine cal pe is du =
     (case run_recompute cal pe \<lparr>eg_cycles = [], eg_deadline = None, eg_world = \<lparr>dw_duty = du, dw_effects = []\<rparr>\<rparr> of
        None \<Rightarrow> EngineCrashed
      | Some eg \<Rightarrow> engine_loop cal is eg)"

end
