(* ===== verification/Duty_Props.thy ===== *)
theory Duty_Props
  imports Duty_Engine
begin

text \<open>
  What the work schedule engine keeps: after a pass the duty of the root agent is what the schedule says,
  and the deadline it sleeps to is ahead; with the places where it is not so.
\<close>

section \<open>Duty\<close>

lemma duty_get_set [simp]: "duty_get a (duty_set b d du) = (if a = b then d else duty_get a du)"
  by (simp add: duty_get_def duty_set_def update_conv')

lemma duty_world_simps [simp]:
  "dw_duty (push_effect e w) = dw_duty w" "dw_duty (set_duty a d w) = duty_set a d (dw_duty w)"
  "dw_effects (push_effect e w) = dw_effects w @ [e]" "dw_effects (set_duty a d w) = dw_effects w"
  by (simp_all add: push_effect_def set_duty_def)

lemma execute_duty [simp]:
  "dw_duty (execute_start env cs w) = duty_set (cy_agent cs) OnDuty (dw_duty w)"
  "dw_duty (execute_end env cs w) = duty_set (cy_agent cs) OffDuty (dw_duty w)"
  "dw_duty (execute_pre_warn cs w) = dw_duty w" "dw_duty (execute_final_warn cs w) = dw_duty w"
  by (simp_all add: execute_start_def execute_end_def interrupt_round_def execute_pre_warn_def
      execute_final_warn_def Let_def split: option.split)

section \<open>A cycle that follows its schedule\<close>












lemma always_inside: "window_status cal Always now = Facts f \<Longrightarrow> wf_inside f"
  by auto







section \<open>A pass\<close>


lemma recompute_active:
  assumes "pe_installed pe" "pe_row pe = Some (Some s)" "ws_status s = ScheduleActive" "pe_root pe = Some root"
  shows "run_recompute cal pe eg = map_option (\<lambda>(cycles, w).
      eg\<lparr>eg_cycles := cycles, eg_world := w, eg_deadline := compute_next_deadline cycles\<rparr>)
    (process_schedule (pe_duty pe) cal (pe_now pe) root s (filter (\<lambda>(id, _). id = ws_id s) (eg_cycles eg), eg_world eg))"
  using assms
  by (cases "process_schedule (pe_duty pe) cal (pe_now pe) root s (filter (\<lambda>(id, _). id = ws_id s) (eg_cycles eg), eg_world eg)")
    (auto simp: run_recompute_def recompute_def)







text \<open>C39. The engine that slept past a whole shift into a later one leaves the agent off for the rest of it: when the start
  that came due belongs to a shift that has already ended, and the instant of the pass is inside another
  one, the agent is off duty, nothing is sent, and no transition is due before the start after that.\<close>

theorem stalled_start_misses_shift:
  assumes "cy_phase cs = PhaseOff" "cy_next_start cs \<le> now"
    and "window_status cal (cy_spec cs) (cy_next_start cs) = Facts f" "wf_next_end f \<le> now"
    and "window_status cal (cy_spec cs) now = Facts g" "wf_inside g"
  shows "\<exists>cs' w'. fire_due env cal now (cs, w) = Some (cs', w') \<and> duty_get (cy_agent cs) (dw_duty w') = OffDuty
    \<and> dw_effects w' = dw_effects w \<and> cy_phase cs' = PhaseOff \<and> cy_next_start cs' = wf_next_start g
    \<and> (\<forall>t \<in> {now..<wf_next_start g}. compute_transition cs' t = None)"
proof -
  let ?cs = "cs\<lparr>cy_phase := PhaseOff, cy_next_start := wf_next_start g\<rparr>"
  have "now < wf_next_start g" using status_ahead(1) assms(5) by blast
  then have none: "compute_transition ?cs t = None" if "t \<in> {now..<wf_next_start g}" for t
    using that by (simp add: compute_transition_def)
  have fire: "fire env cal now ShiftStart (cs, w) = Some (?cs, set_duty (cy_agent cs) OffDuty w)"
    using assms by (simp add: recompute_start_after_end_def)
  have due: "compute_transition cs now = Some ShiftStart" using assms(1,2) by (simp add: compute_transition_def)
  have "compute_transition ?cs now = None" using none \<open>now < wf_next_start g\<close> by simp
  then have "fire_due env cal now (?cs, set_duty (cy_agent cs) OffDuty w) = Some (?cs, set_duty (cy_agent cs) OffDuty w)"
    by (simp add: fire_due.simps)
  then have "fire_due env cal now (cs, w) = Some (?cs, set_duty (cy_agent cs) OffDuty w)"
    by (subst fire_due.simps) (simp add: due fire del: fire.simps)
  then show ?thesis using none by simp
qed

text \<open>C40. The schedule without shifts never gets a new horizon: once its cycle runs, a pass changes nothing and asks
  for the same deadline, however long it has been overdue, so that from then on each tick reads the store again.\<close>

theorem always_horizon_never_renewed:
  assumes "pe_installed pe" "pe_row pe = Some (Some s)" "ws_status s = ScheduleActive" "pe_root pe = Some root"
    and "ws_spec s = Always" and "init_cycle cal s root t0 = Facts cs" and "eg_cycles eg = [(ws_id s, cs)]"
    and "eg_deadline eg = Some (t0 + 30 * ns_per_day - uint (ws_pre_warn s) * ns_per_min)"
  shows "run_recompute cal pe eg = Some eg
    \<and> (if t0 + 30 * ns_per_day - uint (ws_pre_warn s) * ns_per_min \<le> now
       then engine_step cal (EngineTick now pe) eg = pass_status (run_recompute cal pe eg)
       else True)"
proof -
  have cs: "cs = \<lparr>cy_spec = Always, cy_pre_warn = uint (ws_pre_warn s), cy_final_warn = uint (ws_final_warn s),
      cy_final_prompt = ws_final_prompt s, cy_agent = root, cy_wake_prompt = ws_wake_prompt s, cy_phase = PhaseWorking,
      cy_end = t0 + 30 * ns_per_day, cy_next_start = t0 + 30 * ns_per_day\<rparr>"
    using assms(5,6) by (simp add: init_cycle_def Let_def)
  have settled: "fire_due env cal now (cs, w) = Some (cs, w)" for env now w
    by (simp add: fire_due.simps compute_transition_def cs)
  have "\<not> edited cs s" using assms(5) by (simp add: edited_def cs)
  then have "process_schedule (pe_duty pe) cal (pe_now pe) root s ([(ws_id s, cs)], eg_world eg) = Some ([(ws_id s, cs)], eg_world eg)"
    by (simp add: process_schedule_def apply_edit_def settled)
  then have "run_recompute cal pe eg = Some eg"
    using recompute_active [OF assms(1-4)] assms(7,8)
    by (simp add: compute_next_deadline_def pre_warn_time_def cs)
  then show ?thesis using assms(8) by (simp add: deadline_due_def)
qed

section \<open>A concrete schedule\<close>

text \<open>Eight hours from midnight, every day; the engine comes back in the second hour of a shift, or of the one after.\<close>

definition demo_schedule :: work_schedule where
  "demo_schedule = \<lparr>ws_id = ''w'', ws_spec = Interval 24 480 0, ws_pre_warn = 10, ws_final_warn = 5,
     ws_final_prompt = None, ws_wake_prompt = [], ws_status = ScheduleActive, ws_created = 0\<rparr>"

definition demo_cycle :: cycle_state where
  "demo_cycle = \<lparr>cy_spec = Interval 24 480 0, cy_pre_warn = 10, cy_final_warn = 5, cy_final_prompt = None,
     cy_agent = ''root'', cy_wake_prompt = [], cy_phase = PhaseOff, cy_end = 0, cy_next_start = 24 * ns_per_hour\<rparr>"

definition demo_engine :: duty_engine where
  "demo_engine = \<lparr>eg_cycles = [(''w'', demo_cycle)], eg_deadline = Some (24 * ns_per_hour),
     eg_world = \<lparr>dw_duty = duty_set ''root'' OffDuty \<lparr>du_map = [], du_generation = 0\<rparr>, dw_effects = []\<rparr>\<rparr>"

definition demo_duty_pass :: "utc \<Rightarrow> duty_pass" where
  "demo_duty_pass now = \<lparr>pe_duty = \<lparr>de_inbox = True, de_live = (\<lambda>_. True)\<rparr>, pe_installed = True, pe_now = now,
     pe_root = Some ''root'', pe_row = Some (Some demo_schedule), pe_retry_now = now\<rparr>"

lemma demo_status:
  "window_status cal (Interval 24 480 0) (24 * ns_per_hour) =
     Facts \<lparr>wf_inside = True, wf_next_start = 48 * ns_per_hour, wf_next_end = 32 * ns_per_hour\<rparr>"
  "window_status cal (Interval 24 480 0) (25 * ns_per_hour) =
     Facts \<lparr>wf_inside = True, wf_next_start = 48 * ns_per_hour, wf_next_end = 32 * ns_per_hour\<rparr>"
  "window_status cal (Interval 24 480 0) (49 * ns_per_hour) =
     Facts \<lparr>wf_inside = True, wf_next_start = 72 * ns_per_hour, wf_next_end = 56 * ns_per_hour\<rparr>"
  "window_status cal (Interval 24 480 0) (10 * ns_per_hour) =
     Facts \<lparr>wf_inside = False, wf_next_start = 24 * ns_per_hour, wf_next_end = 32 * ns_per_hour\<rparr>"
  by (simp_all add: eval_interval_def ns_defs)




theorem stalled_start_misses_shift_witness:
  "\<exists>cs' w'. fire_due (pe_duty (demo_duty_pass 0)) demo_calendar (49 * ns_per_hour) (demo_cycle, eg_world demo_engine) = Some (cs', w')
    \<and> duty_get ''root'' (dw_duty w') = OffDuty \<and> cy_next_start cs' = 72 * ns_per_hour"
proof -
  let ?f = "\<lparr>wf_inside = True, wf_next_start = 48 * ns_per_hour, wf_next_end = 32 * ns_per_hour\<rparr>"
  let ?g = "\<lparr>wf_inside = True, wf_next_start = 72 * ns_per_hour, wf_next_end = 56 * ns_per_hour\<rparr>"
  have off: "cy_phase demo_cycle = PhaseOff" "cy_next_start demo_cycle \<le> 49 * ns_per_hour" "cy_agent demo_cycle = ''root''"
    by (simp_all add: demo_cycle_def ns_defs)
  have f: "window_status demo_calendar (cy_spec demo_cycle) (cy_next_start demo_cycle) = Facts ?f"
    using demo_status(1) by (simp add: demo_cycle_def del: window_status.simps)
  have over: "wf_next_end ?f \<le> 49 * ns_per_hour" by (simp add: ns_defs)
  have g: "window_status demo_calendar (cy_spec demo_cycle) (49 * ns_per_hour) = Facts ?g"
    using demo_status(3) by (simp add: demo_cycle_def del: window_status.simps)
  have "wf_inside ?g" by simp
  from stalled_start_misses_shift [OF off(1,2) f over g this, of "pe_duty (demo_duty_pass 0)" "eg_world demo_engine"]
  obtain cs' w' where "fire_due (pe_duty (demo_duty_pass 0)) demo_calendar (49 * ns_per_hour) (demo_cycle, eg_world demo_engine) = Some (cs', w')"
    "duty_get ''root'' (dw_duty w') = OffDuty" "cy_next_start cs' = 72 * ns_per_hour"
    unfolding off(3) by auto
  then show ?thesis by blast
qed

theorem always_horizon_never_renewed_witness:
  "\<exists>s cs eg. ws_spec s = Always \<and> init_cycle demo_calendar s ''root'' 0 = Facts cs \<and> eg_cycles eg = [(ws_id s, cs)]
    \<and> run_recompute demo_calendar ((demo_duty_pass (40 * ns_per_day))\<lparr>pe_row := Some (Some s)\<rparr>) eg = Some eg"
proof -
  let ?s = "demo_schedule\<lparr>ws_spec := Always\<rparr>"
  obtain cs where cs: "init_cycle demo_calendar ?s ''root'' 0 = Facts cs" by (simp add: init_cycle_def Let_def)
  let ?eg = "\<lparr>eg_cycles = [(ws_id ?s, cs)], eg_deadline = Some (30 * ns_per_day - uint (ws_pre_warn ?s) * ns_per_min),
    eg_world = eg_world demo_engine\<rparr>"
  have "run_recompute demo_calendar ((demo_duty_pass (40 * ns_per_day))\<lparr>pe_row := Some (Some ?s)\<rparr>) ?eg = Some ?eg"
    using always_horizon_never_renewed [of "(demo_duty_pass (40 * ns_per_day))\<lparr>pe_row := Some (Some ?s)\<rparr>" ?s "''root''"
        demo_calendar 0 cs ?eg] cs
    by (simp add: demo_duty_pass_def demo_schedule_def)
  then show ?thesis using cs by (intro exI [of _ ?s] exI [of _ cs] exI [of _ ?eg]) simp
qed

end
