(* ===== verification/Schedule_Routes.thy ===== *)
theory Schedule_Routes
  imports Duty_Engine
begin

text \<open>
  The store of the work schedule (\<open>crates/kallipai-tagma/src/work_schedule/store.rs\<close>) and the routes that read and
  replace it (\<open>work_schedule.rs\<close>). The rows are the table of the database; the JSON text of a spec (derived
  by serde), its type and its codec are parameters. A read or a write of the database may fail.
\<close>

section \<open>The store\<close>

record 'j spec_codec =
  sp_write :: "work_spec \<Rightarrow> 'j"
  sp_read :: "'j \<Rightarrow> work_spec option"

record 'j schedule_row =
  rw_id :: string
  rw_spec :: "'j option"
  rw_pre_warn :: i64
  rw_final_warn :: i64
  rw_final_prompt :: string
  rw_wake_prompt :: string
  rw_status :: string
  rw_created :: int

fun schedule_status_str :: "schedule_status \<Rightarrow> string" where
  "schedule_status_str ScheduleActive = ''active''"
| "schedule_status_str SchedulePaused = ''paused''"

definition parse_status :: "string \<Rightarrow> string + schedule_status" where
  "parse_status s =
     (if s = ''active'' then Inr ScheduleActive else if s = ''paused'' then Inr SchedulePaused
      else Inl (''invalid status: '' @ s))"

definition to_unix :: "utc \<Rightarrow> int" where
  "to_unix t = t div 1000000000"

text \<open>A timestamp outside the calendar is the epoch.\<close>

definition from_unix :: "calendar \<Rightarrow> int \<Rightarrow> utc" where
  "from_unix cal secs =
     (if first_date cal \<le> secs div 86400 \<and> secs div 86400 \<le> last_date cal then secs * 1000000000 else 0)"

definition encode_row :: "'j spec_codec \<Rightarrow> work_schedule \<Rightarrow> 'j schedule_row" where
  "encode_row cd s = \<lparr>rw_id = ws_id s, rw_spec = Some (sp_write cd (ws_spec s)), rw_pre_warn = ucast (ws_pre_warn s),
     rw_final_warn = ucast (ws_final_warn s), rw_final_prompt = (case ws_final_prompt s of Some p \<Rightarrow> p | None \<Rightarrow> []),
     rw_wake_prompt = ws_wake_prompt s, rw_status = schedule_status_str (ws_status s), rw_created = to_unix (ws_created s)\<rparr>"

definition decode_row :: "calendar \<Rightarrow> 'j spec_codec \<Rightarrow> 'j schedule_row \<Rightarrow> work_schedule" where
  "decode_row cal cd m = \<lparr>ws_id = rw_id m,
     ws_spec = (case Option.bind (rw_spec m) (sp_read cd) of Some spec \<Rightarrow> spec | None \<Rightarrow> Always),
     ws_pre_warn = ucast (rw_pre_warn m), ws_final_warn = ucast (rw_final_warn m),
     ws_final_prompt = (if rw_final_prompt m = [] then None else Some (rw_final_prompt m)),
     ws_wake_prompt = rw_wake_prompt m,
     ws_status = (case parse_status (rw_status m) of Inr st \<Rightarrow> st | Inl _ \<Rightarrow> ScheduleActive),
     ws_created = from_unix cal (rw_created m)\<rparr>"

text \<open>The store: its rows, and the permit that wakes the engine.\<close>

record 'j schedule_store =
  st_rows :: "'j schedule_row list"
  st_notified :: bool

definition store_create :: "'j spec_codec \<Rightarrow> work_schedule \<Rightarrow> 'j schedule_store \<Rightarrow> 'j schedule_store" where
  "store_create cd s st = st\<lparr>st_rows := st_rows st @ [encode_row cd s], st_notified := True\<rparr>"

definition get_singleton :: "calendar \<Rightarrow> 'j spec_codec \<Rightarrow> 'j schedule_store \<Rightarrow> work_schedule option" where
  "get_singleton cal cd st =
     (case sort_key rw_created (st_rows st) of [] \<Rightarrow> None | m # _ \<Rightarrow> Some (decode_row cal cd m))"

text \<open>An update writes every column but the id and the creation; it tells whether a row had the id.\<close>

definition update_row :: "'j spec_codec \<Rightarrow> work_schedule \<Rightarrow> 'j schedule_row \<Rightarrow> 'j schedule_row" where
  "update_row cd s m = (if rw_id m = ws_id s then (encode_row cd s)\<lparr>rw_created := rw_created m\<rparr> else m)"

definition store_update :: "'j spec_codec \<Rightarrow> work_schedule \<Rightarrow> 'j schedule_store \<Rightarrow> bool \<times> 'j schedule_store" where
  "store_update cd s st =
     (let updated = list_ex (\<lambda>m. rw_id m = ws_id s) (st_rows st)
      in (updated, st\<lparr>st_rows := map (update_row cd s) (st_rows st), st_notified := st_notified st \<or> updated\<rparr>))"

section \<open>The routes\<close>

record api_error =
  ae_status :: nat
  ae_message :: string

definition bad_request :: "string \<Rightarrow> api_error" where
  "bad_request m = \<lparr>ae_status = 400, ae_message = m\<rparr>"

definition forbidden :: "string \<Rightarrow> api_error" where
  "forbidden m = \<lparr>ae_status = 403, ae_message = m\<rparr>"

definition internal_error :: api_error where
  "internal_error = \<lparr>ae_status = 500, ae_message = ''internal error''\<rparr>"

definition unavailable :: "string \<Rightarrow> api_error" where
  "unavailable m = \<lparr>ae_status = 503, ae_message = m\<rparr>"

datatype identity = Operator | AgentIdentity string

fun require_operator :: "identity \<Rightarrow> api_error + unit" where
  "require_operator Operator = Inr ()"
| "require_operator (AgentIdentity _) = Inl (forbidden ''operator access required'')"

definition normalize_prompt :: "string \<Rightarrow> string option" where
  "normalize_prompt t = (let t = str_trim t in if t = [] then None else Some t)"

record put_request =
  pr_spec :: work_spec
  pr_pre_warn :: u32
  pr_final_warn :: u32
  pr_wake_prompt :: "string option"
  pr_final_prompt :: "string option"
  pr_status :: schedule_status

text \<open>What a request finds: its caller, the root agent, the store or none, which accesses fail, the clock and a fresh id.\<close>

record route_env =
  rt_identity :: identity
  rt_root :: "string option"
  rt_read_ok :: bool
  rt_write_ok :: bool
  rt_anchor_now :: utc
  rt_created_now :: utc
  rt_fresh_id :: string

record 'j schedule_state =
  ss_store :: "'j schedule_store option"
  ss_duty :: duty_store
  ss_generation :: u64

definition get_work_schedule ::
  "calendar \<Rightarrow> 'j spec_codec \<Rightarrow> route_env \<Rightarrow> 'j schedule_state \<Rightarrow> api_error + work_schedule" where
  "get_work_schedule cal cd rt ss =
     (case require_operator (rt_identity rt) of
        Inl e \<Rightarrow> Inl e
      | Inr _ \<Rightarrow>
          (case ss_store ss of
             None \<Rightarrow> Inl (unavailable ''work schedules not configured'')
           | Some st \<Rightarrow>
               if \<not> rt_read_ok rt then Inl internal_error
               else case get_singleton cal cd st of None \<Rightarrow> Inl internal_error | Some s \<Rightarrow> Inr s))"

text \<open>An interval starts over now, at the minute asked for, unless the request echoes the stored one. The minute is that of
  an anchor in UTC, as the times of a spec are documented to be (or in an offset of whole hours).\<close>

definition reanchor :: "utc \<Rightarrow> work_schedule option \<Rightarrow> work_spec \<Rightarrow> work_spec" where
  "reanchor now existing spec =
     (case spec of
        Interval h len anchor \<Rightarrow>
          let unchanged = (case map_option ws_spec existing of
                Some (Interval h' len' anchor') \<Rightarrow> h' = h \<and> len' = len \<and> anchor' = anchor | _ \<Rightarrow> False)
          in if unchanged then spec
             else Interval h len (now - now mod ns_per_hour + (anchor mod ns_per_hour) div ns_per_min * ns_per_min)
      | _ \<Rightarrow> spec)"

definition merge_request :: "route_env \<Rightarrow> put_request \<Rightarrow> work_spec \<Rightarrow> work_schedule option \<Rightarrow> work_schedule" where
  "merge_request rt req spec existing =
     (case existing of
        Some s \<Rightarrow> s\<lparr>ws_spec := spec, ws_pre_warn := pr_pre_warn req, ws_final_warn := pr_final_warn req,
          ws_wake_prompt := (case pr_wake_prompt req of
             Some t \<Rightarrow> (case normalize_prompt t of Some p \<Rightarrow> p | None \<Rightarrow> []) | None \<Rightarrow> ws_wake_prompt s),
          ws_final_prompt := (case pr_final_prompt req of Some t \<Rightarrow> normalize_prompt t | None \<Rightarrow> ws_final_prompt s),
          ws_status := pr_status req\<rparr>
      | None \<Rightarrow> \<lparr>ws_id = rt_fresh_id rt, ws_spec = spec, ws_pre_warn = pr_pre_warn req, ws_final_warn = pr_final_warn req,
          ws_final_prompt = Option.bind (pr_final_prompt req) normalize_prompt,
          ws_wake_prompt = (case Option.bind (pr_wake_prompt req) normalize_prompt of Some p \<Rightarrow> p | None \<Rightarrow> []),
          ws_status = pr_status req, ws_created = rt_created_now rt\<rparr>)"

definition put_work_schedule ::
  "calendar \<Rightarrow> 'j spec_codec \<Rightarrow> route_env \<Rightarrow> put_request \<Rightarrow> 'j schedule_state \<Rightarrow> (api_error + work_schedule) \<times> 'j schedule_state" where
  "put_work_schedule cal cd rt req ss =
     (case require_operator (rt_identity rt) of
        Inl e \<Rightarrow> (Inl e, ss)
      | Inr _ \<Rightarrow>
     (case rt_root rt of
        None \<Rightarrow> (Inl (bad_request ''the tagma has no root agent to carry the schedule''), ss)
      | Some root \<Rightarrow>
     (case validate (pr_spec req) of
        Inl e \<Rightarrow> (Inl (bad_request (''invalid spec: '' @ e)), ss)
      | Inr _ \<Rightarrow>
     if pr_pre_warn req < pr_final_warn req
     then (Inl (bad_request ''pre_warn_minutes must be >= final_warn_minutes''), ss)
     else
     (case ss_store ss of
        None \<Rightarrow> (Inl (unavailable ''work schedules not configured''), ss)
      | Some st \<Rightarrow>
     if \<not> rt_read_ok rt then (Inl internal_error, ss)
     else
       let existing = get_singleton cal cd st;
           spec = reanchor (rt_anchor_now rt) existing (pr_spec req);
           was_active = (case existing of Some s \<Rightarrow> ws_status s = ScheduleActive | None \<Rightarrow> False);
           now_paused = (was_active \<and> pr_status req = SchedulePaused);
           s = merge_request rt req spec existing
       in if \<not> rt_write_ok rt then (Inl internal_error, ss)
          else let (written, st') = (case existing of Some _ \<Rightarrow> store_update cd s st | None \<Rightarrow> (True, store_create cd s st))
               in if \<not> written then (Inl internal_error, ss\<lparr>ss_store := Some st'\<rparr>)
                  else (Inr s, ss\<lparr>ss_store := Some st', ss_generation := ss_generation ss + 1,
                     ss_duty := (if now_paused then duty_set root OnDuty (ss_duty ss) else ss_duty ss)\<rparr>)))))"

section \<open>What is saved\<close>

lemma status_roundtrip [simp]: "parse_status (schedule_status_str st) = Inr st"
  by (cases st) (simp_all add: parse_status_def)

lemma reanchor_valid:
  assumes "validate spec = Inr ()"
  shows "validate (reanchor now existing spec) = Inr ()"
proof (cases spec)
  case (Interval h len anchor)
  have "(now - now mod ns_per_hour + (anchor mod ns_per_hour) div ns_per_min * ns_per_min) mod ns_per_min = 0"
  proof -
    have "now - now mod ns_per_hour = now div ns_per_hour * 60 * ns_per_min"
      using div_mult_mod_eq [of now ns_per_hour] by (simp add: ns_per_hour_def minus_mod_eq_mult_div)
    then show ?thesis by (simp add: mod_add_eq [symmetric])
  qed
  with assms Interval show ?thesis
    by (simp add: reanchor_def Let_def split: if_splits)
qed (use assms in \<open>simp_all add: reanchor_def\<close>)

lemma sort_map:
  assumes "\<And>x. f (g x) = f x"
  shows "sort_key f (map g xs) = map g (sort_key f xs)"
proof -
  have "insort_key f (g x) (map g ys) = map g (insort_key f x ys)" for x ys
    by (induction ys) (simp_all add: assms)
  then show ?thesis by (induction xs) simp_all
qed

lemma update_row_created: "rw_created (update_row cd s m) = rw_created m"
  by (simp add: update_row_def encode_row_def)

lemma singleton_updated:
  assumes "get_singleton cal cd st = Some s0" and "ws_id s = ws_id s0"
  shows "\<exists>m. s0 = decode_row cal cd m \<and> rw_id m = ws_id s
    \<and> get_singleton cal cd (snd (store_update cd s st)) = Some (decode_row cal cd ((encode_row cd s)\<lparr>rw_created := rw_created m\<rparr>))
    \<and> fst (store_update cd s st)"
proof -
  obtain m ms where m: "sort_key rw_created (st_rows st) = m # ms" "s0 = decode_row cal cd m"
    using assms(1) by (auto simp: get_singleton_def split: list.splits)
  have "set (sort_key rw_created (st_rows st)) = set (st_rows st)" by simp
  then have "m \<in> set (st_rows st)" using m(1) by auto
  moreover have id: "rw_id m = ws_id s" using m(2) assms(2) by (simp add: decode_row_def)
  ultimately have "list_ex (\<lambda>m. rw_id m = ws_id s) (st_rows st)" by (auto simp: list_ex_iff)
  then show ?thesis
    using m id by (intro exI [of _ m])
      (simp add: store_update_def get_singleton_def sort_map update_row_created Let_def, simp add: update_row_def)
qed

lemma unix_again: "from_unix cal (to_unix (from_unix cal secs)) = from_unix cal secs"
  by (simp add: from_unix_def to_unix_def)

text \<open>What the store keeps of a schedule: all but the fraction of the second it was made in.\<close>

definition kept_schedule :: "calendar \<Rightarrow> work_schedule \<Rightarrow> work_schedule" where
  "kept_schedule cal s = s\<lparr>ws_created := from_unix cal (to_unix (ws_created s))\<rparr>"

lemma decode_encode:
  assumes "\<And>spec. sp_read cd (sp_write cd spec) = Some spec" and "ws_final_prompt s \<noteq> Some []"
  shows "decode_row cal cd ((encode_row cd s)\<lparr>rw_created := t\<rparr>) = s\<lparr>ws_created := from_unix cal t\<rparr>"
proof -
  have "ucast (ucast w :: i64) = w" for w :: u32
    by (simp add: ucast_down_ucast_id is_down)
  then have "decode_row cal cd ((encode_row cd s)\<lparr>rw_created := t\<rparr>) = \<lparr>ws_id = ws_id s, ws_spec = ws_spec s,
      ws_pre_warn = ws_pre_warn s, ws_final_warn = ws_final_warn s, ws_final_prompt = ws_final_prompt s,
      ws_wake_prompt = ws_wake_prompt s, ws_status = ws_status s, ws_created = from_unix cal t\<rparr>"
    using assms by (cases "ws_final_prompt s") (auto simp: decode_row_def encode_row_def)
  then show ?thesis by (cases s) simp
qed

text \<open>C35. A schedule that was saved is one the engine can follow and reads back: the spec (with the anchor an interval was
  given) validates, the warnings are in order, the engine is woken, and the store answers with what was
  saved, up to the fraction of a second of its creation. A refused request changes nothing.\<close>

theorem saved_schedule_reads_back:
  assumes "\<And>spec. sp_read cd (sp_write cd spec) = Some spec"
  shows "case put_work_schedule cal cd rt req ss of
      (Inr s, ss') \<Rightarrow> validate (ws_spec s) = Inr () \<and> ws_final_warn s \<le> ws_pre_warn s
        \<and> (case ss_store ss' of Some st \<Rightarrow> get_singleton cal cd st = Some (kept_schedule cal s) \<and> st_notified st | None \<Rightarrow> False)
    | (Inl _, ss') \<Rightarrow> ss' = ss"
proof (cases "put_work_schedule cal cd rt req ss")
  case (Pair r ss')
  have trims: "normalize_prompt t \<noteq> Some []" for t by (simp add: normalize_prompt_def Let_def)
  show ?thesis
  proof (cases "\<exists>root st. require_operator (rt_identity rt) = Inr () \<and> rt_root rt = Some root \<and> validate (pr_spec req) = Inr ()
      \<and> pr_final_warn req \<le> pr_pre_warn req \<and> ss_store ss = Some st \<and> rt_read_ok rt \<and> rt_write_ok rt")
    case False
    then have "\<exists>e. r = Inl e \<and> ss' = ss"
      using Pair by (auto simp: put_work_schedule_def Let_def not_less split: sum.splits option.splits if_splits)
    then show ?thesis using Pair by auto
  next
    case True
    then obtain root st where ok: "require_operator (rt_identity rt) = Inr ()" "rt_root rt = Some root" "validate (pr_spec req) = Inr ()"
      "pr_final_warn req \<le> pr_pre_warn req" "ss_store ss = Some st" "rt_read_ok rt" "rt_write_ok rt" by blast
    let ?e = "get_singleton cal cd st" and ?spec = "reanchor (rt_anchor_now rt) (get_singleton cal cd st) (pr_spec req)"
    let ?s = "merge_request rt req ?spec ?e"
    have spec: "ws_spec ?s = ?spec" "ws_final_warn ?s = pr_final_warn req" "ws_pre_warn ?s = pr_pre_warn req"
      by (simp_all add: merge_request_def split: option.split)
    have saved: "(if fst w then get_singleton cal cd (snd w) = Some (kept_schedule cal ?s) \<and> st_notified (snd w) else False)"
      if "w = (case ?e of Some _ \<Rightarrow> store_update cd ?s st | None \<Rightarrow> (True, store_create cd ?s st))" for w
    proof (cases ?e)
      case None
      have "ws_final_prompt ?s \<noteq> Some []"
        using trims None by (cases "pr_final_prompt req") (simp_all add: merge_request_def)
      moreover have "st_rows st = []"
      proof (rule ccontr)
        assume "st_rows st \<noteq> []"
        then have "sort_key rw_created (st_rows st) \<noteq> []" by (metis length_0_conv length_sort)
        then show False using None by (simp add: get_singleton_def split: list.splits)
      qed
      moreover have "encode_row cd ?s = (encode_row cd ?s)\<lparr>rw_created := to_unix (ws_created ?s)\<rparr>"
        by (simp add: encode_row_def)
      ultimately show ?thesis
        using that None decode_encode [OF assms, of ?s cal "to_unix (ws_created ?s)"]
        by (simp add: store_create_def get_singleton_def kept_schedule_def)
    next
      case (Some s0)
      have id: "ws_id ?s = ws_id s0" and created: "ws_created ?s = ws_created s0" by (simp_all add: merge_request_def Some)
      obtain m where m: "s0 = decode_row cal cd m" "fst (store_update cd ?s st)"
        "get_singleton cal cd (snd (store_update cd ?s st)) = Some (decode_row cal cd ((encode_row cd ?s)\<lparr>rw_created := rw_created m\<rparr>))"
        using singleton_updated [OF Some id] by blast
      have "ws_final_prompt s0 \<noteq> Some []" by (simp add: m(1) decode_row_def)
      then have "ws_final_prompt ?s \<noteq> Some []"
        using trims Some by (cases "pr_final_prompt req") (simp_all add: merge_request_def)
      from decode_encode [OF assms this]
      have "decode_row cal cd ((encode_row cd ?s)\<lparr>rw_created := rw_created m\<rparr>) = kept_schedule cal ?s"
        by (simp add: kept_schedule_def created m(1)) (simp add: decode_row_def unix_again)
      moreover have "st_notified (snd (store_update cd ?s st))" using m(2) by (simp add: store_update_def Let_def)
      ultimately show ?thesis using that Some m by simp
    qed
    define w where "w = (case ?e of Some _ \<Rightarrow> store_update cd ?s st | None \<Rightarrow> (True, store_create cd ?s st))"
    from saved [OF w_def] have w: "fst w" "get_singleton cal cd (snd w) = Some (kept_schedule cal ?s)" "st_notified (snd w)"
      by (auto split: if_splits)
    have "\<not> pr_pre_warn req < pr_final_warn req" using ok(4) by simp
    with ok w(1) have "\<exists>ss1. put_work_schedule cal cd rt req ss = (Inr ?s, ss1) \<and> ss_store ss1 = Some (snd w)"
      by (simp add: put_work_schedule_def Let_def w_def [symmetric] case_prod_unfold)
    then have "r = Inr ?s \<and> ss_store ss' = Some (snd w)" using Pair by auto
    then show ?thesis using Pair w ok(4) reanchor_valid [OF ok(3)] spec by simp
  qed
qed

text \<open>A text that is the spec itself, for a first schedule.\<close>

definition demo_codec :: "work_spec spec_codec" where
  "demo_codec = \<lparr>sp_write = id, sp_read = Some\<rparr>"

definition demo_route :: route_env where
  "demo_route = \<lparr>rt_identity = Operator, rt_root = Some ''root'', rt_read_ok = True, rt_write_ok = True,
     rt_anchor_now = 5 * ns_per_hour + 7, rt_created_now = 1000000007, rt_fresh_id = ''w''\<rparr>"

definition demo_request :: put_request where
  "demo_request = \<lparr>pr_spec = Interval 24 480 (37 * ns_per_min), pr_pre_warn = 10, pr_final_warn = 5,
     pr_wake_prompt = None, pr_final_prompt = None, pr_status = ScheduleActive\<rparr>"

definition demo_state :: "work_spec schedule_state" where
  "demo_state = \<lparr>ss_store = Some \<lparr>st_rows = [], st_notified = False\<rparr>, ss_duty = \<lparr>du_map = [], du_generation = 0\<rparr>,
     ss_generation = 0\<rparr>"

theorem saved_schedule_reads_back_witness:
  "\<exists>s ss' st. put_work_schedule demo_calendar demo_codec demo_route demo_request demo_state = (Inr s, ss')
    \<and> ws_spec s = Interval 24 480 (5 * ns_per_hour + 37 * ns_per_min)
    \<and> ss_store ss' = Some st \<and> get_singleton demo_calendar demo_codec st = Some (kept_schedule demo_calendar s)"
proof -
  have codec: "sp_read demo_codec (sp_write demo_codec spec) = Some spec" for spec by (simp add: demo_codec_def)
  obtain s ss' where put: "put_work_schedule demo_calendar demo_codec demo_route demo_request demo_state = (Inr s, ss')"
    "ws_spec s = Interval 24 480 (5 * ns_per_hour + 37 * ns_per_min)"
    by (simp add: put_work_schedule_def demo_route_def demo_request_def demo_state_def get_singleton_def merge_request_def
        reanchor_def MAX_LENGTH_MINUTES_def ns_defs Let_def)
  from saved_schedule_reads_back [OF codec, where cal = demo_calendar and rt = demo_route and req = demo_request and ss = demo_state] put show ?thesis
    by (auto split: option.splits)
qed

end
