(* ===== verification/Bridge.thy ===== *)
theory Bridge
  imports Task_Props Duty_Engine
begin

text \<open>
  The bridge of a tagma (\<open>crates/kallipai-tagma/src/bridge.rs\<close>): it turns the events of an agent task into the
  state the tagma shows, into the events its subscribers see, and into notices to the superior of the
  agent. The cells of an agent are shared between its bridge and the registry, so they are kept in one
  store under the id of the agent.
\<close>

section \<open>Cells\<close>

definition STATE_IDLE :: u8 where "STATE_IDLE = 0"
definition STATE_BUSY :: u8 where "STATE_BUSY = 1"
definition STATE_WAITING :: u8 where "STATE_WAITING = 2"
definition STATE_PARKED :: u8 where "STATE_PARKED = 3"
definition STATE_RETRYING :: u8 where "STATE_RETRYING = 4"

lemmas state_defs = STATE_IDLE_def STATE_BUSY_def STATE_WAITING_def STATE_PARKED_def STATE_RETRYING_def

record bridge_cells =
  bc_state :: u8
  bc_since :: u64
  bc_activity :: string
  bc_parked :: "(parked_reason \<times> instant) option"
  bc_retrying :: "transient_retry_info option"

text \<open>The registry: the durable identity of an agent, and for a live one its direct subagents.\<close>

record agent_record =
  ar_role :: string
  ar_created_by :: "string option"
  ar_live :: bool
  ar_subagents :: "string list"

datatype sse_event =
    SseApprovalUpdated string approval_status
  | SseReasoning string
  | SseContent string
  | SseContentDelta string
  | SseReasoningDelta string
  | SseToolCall string string
  | SseToolResult string
  | SseIdle
  | SseWaiting u64
  | SseMaxRounds
  | SseError string
  | SseStatus string
  | SseBusy
  | SseRetrying u32 u32 string duration
  | SseStreamReset string u32 u32 duration
  | SseFailover string string string
  | SseChainExhausted exhaustion_reason string "transient_retry_info option"
  | SseQuotaBlocked quota_blocked_info
  | SseCancelled
  | SseInterrupted bool
  | SseBudgetExceeded u64 u64

text \<open>What the bridges of a tagma share; the inbox is a store or not there.\<close>

record bridge_world =
  bw_cells :: "string \<Rightarrow> bridge_cells"
  bw_registry :: "(string \<times> agent_record) list"
  bw_generation :: u64
  bw_sse :: "(string \<times> sse_event) list"
  bw_inbox :: "(string \<times> string \<times> string) list option"
  bw_notified :: "string list"
  bw_duty :: duty_store

definition on_cells :: "string \<Rightarrow> (bridge_cells \<Rightarrow> bridge_cells) \<Rightarrow> bridge_world \<Rightarrow> bridge_world" where
  "on_cells a f bw = bw\<lparr>bw_cells := (bw_cells bw)(a := f (bw_cells bw a))\<rparr>"

definition transition_and_invalidate :: "string \<Rightarrow> u64 \<Rightarrow> u8 \<Rightarrow> bridge_world \<Rightarrow> bridge_world" where
  "transition_and_invalidate a epoch s bw =
     (on_cells a (\<lambda>c. c\<lparr>bc_state := s, bc_since := epoch\<rparr>) bw)\<lparr>bw_generation := bw_generation bw + 1\<rparr>"

definition mark_idle :: "string \<Rightarrow> u64 \<Rightarrow> bridge_world \<Rightarrow> bridge_world" where
  "mark_idle a epoch bw =
     on_cells a (\<lambda>c. c\<lparr>bc_activity := [], bc_parked := None, bc_retrying := None\<rparr>)
       (transition_and_invalidate a epoch STATE_IDLE bw)"

section \<open>Events on the wire\<close>

fun convert_event :: "agent_event \<Rightarrow> sse_event option" where
  "convert_event (ApprovalCommittedEvent _ _) = None"
| "convert_event (ApprovalRedeemedEvent i) = Some (SseApprovalUpdated i approval_status.Redeemed)"
| "convert_event (ApprovalCancelledEvent i) = Some (SseApprovalUpdated i approval_status.Cancelled)"
| "convert_event (ReasoningEvent c) = Some (SseReasoning c)"
| "convert_event (ContentEvent c) = Some (SseContent c)"
| "convert_event (ContentDelta d) = Some (SseContentDelta d)"
| "convert_event (ReasoningDelta d) = Some (SseReasoningDelta d)"
| "convert_event (ToolCallEvent name args) = Some (SseToolCall name args)"
| "convert_event (ToolResultEvent r) = Some (SseToolResult r)"
| "convert_event IdleEvent = Some SseIdle"
| "convert_event (WaitingEvent secs) = Some (SseWaiting secs)"
| "convert_event MaxRoundsEvent = Some SseMaxRounds"
| "convert_event (ErrorEvent m) = Some (SseError m)"
| "convert_event (StatusEvent m) = Some (SseStatus m)"
| "convert_event BusyEvent = Some SseBusy"
| "convert_event (RetryEvent (Retrying attempt most err delay)) = Some (SseRetrying attempt most err delay)"
| "convert_event (StreamReset err attempt most delay) = Some (SseStreamReset err attempt most delay)"
| "convert_event (FailoverEvent from' to reason) = Some (SseFailover from' to reason)"
| "convert_event (ChainExhaustedEvent reason detail retry) = Some (SseChainExhausted reason detail retry)"
| "convert_event (QuotaBlockedEvent info) = Some (SseQuotaBlocked info)"
| "convert_event CancelledEvent = Some SseCancelled"
| "convert_event InterruptedEvent = Some (SseInterrupted False)"
| "convert_event WaitCancelledEvent = Some (SseInterrupted True)"
| "convert_event (BudgetExceededEvent consumed budget) = Some (SseBudgetExceeded consumed budget)"

definition broadcast :: "string \<Rightarrow> sse_event \<Rightarrow> bridge_world \<Rightarrow> bridge_world" where
  "broadcast a e bw = bw\<lparr>bw_sse := bw_sse bw @ [(a, e)]\<rparr>"

section \<open>The superior\<close>

definition live_superior :: "string \<Rightarrow> bridge_world \<Rightarrow> string option" where
  "live_superior a bw =
     Option.bind (map_of (bw_registry bw) a) (\<lambda>r.
     Option.bind (ar_created_by r) (\<lambda>boss.
     Option.bind (map_of (bw_registry bw) boss) (\<lambda>s. if ar_live s then Some boss else None)))"

text \<open>The inbox always takes the message; the wake is for a superior on duty.\<close>

definition deliver_to_superior :: "string \<Rightarrow> string \<Rightarrow> string \<Rightarrow> bridge_world \<Rightarrow> bridge_world" where
  "deliver_to_superior target from' body bw =
     (case bw_inbox bw of
        None \<Rightarrow> bw
      | Some msgs \<Rightarrow>
          let bw1 = bw\<lparr>bw_inbox := Some (msgs @ [(target, ''agent:'' @ from', body)])\<rparr>
          in if is_off_duty target (bw_duty bw1) then bw1 else bw1\<lparr>bw_notified := bw_notified bw1 @ [target]\<rparr>)"

definition approval_notice :: "(json \<Rightarrow> string) \<Rightarrow> string \<Rightarrow> committed_info \<Rightarrow> json \<Rightarrow> string" where
  "approval_notice show_args a info args =
     ''[Approval Request] Subordinate agent '' @ a @ '' requests approval for:'' @ [CHR 0x0A]
       @ ''Tool: '' @ ci_tool_name info @ [CHR 0x0A] @ ''Arguments: '' @ show_args args @ [CHR 0x0A]
       @ ''Reason: '' @ ci_commit_reason info @ [CHR 0x0A] @ ''Action ID: '' @ ci_id info @ [CHR 0x0A, CHR 0x0A]
       @ ''Review the request and approve only if the action is safe. Your classify rule-set is re-checked at approval time, so you cannot delegate a command your own policy would gate.''
       @ [CHR 0x0A, CHR 0x0A] @ ''Use `kallip approval approve '' @ ci_id info @ ''` to approve or `kallip approval deny ''
       @ ci_id info @ '' <reason>` to deny.''"

definition route_to_superior ::
  "(json \<Rightarrow> string) \<Rightarrow> string \<Rightarrow> committed_info \<Rightarrow> json \<Rightarrow> bridge_world \<Rightarrow> bridge_world" where
  "route_to_superior show_args a info args bw =
     (case live_superior a bw of
        None \<Rightarrow> bw
      | Some target \<Rightarrow> deliver_to_superior target a (approval_notice show_args a info args) bw)"

record idle_notice =
  in_target :: "string option"
  in_role :: string
  in_is_last :: bool
  in_live_subordinates :: nat

definition no_notice :: idle_notice where
  "no_notice = \<lparr>in_target = None, in_role = [], in_is_last = False, in_live_subordinates = 0\<rparr>"

text \<open>The live direct subordinates of a superior.\<close>

definition live_children :: "bridge_world \<Rightarrow> agent_record \<Rightarrow> string list" where
  "live_children bw s =
     filter (\<lambda>c. case map_of (bw_registry bw) c of Some r \<Rightarrow> ar_live r | None \<Rightarrow> False) (ar_subagents s)"

definition snapshot_from :: "string \<Rightarrow> bridge_world \<Rightarrow> idle_notice" where
  "snapshot_from a bw =
     (case map_of (bw_registry bw) a of
        None \<Rightarrow> no_notice
      | Some r \<Rightarrow>
          (case ar_created_by r of
             None \<Rightarrow> no_notice\<lparr>in_role := ar_role r\<rparr>
           | Some boss \<Rightarrow>
               (case map_of (bw_registry bw) boss of
                  None \<Rightarrow> no_notice\<lparr>in_role := ar_role r\<rparr>
                | Some s \<Rightarrow>
                    if \<not> ar_live s then no_notice\<lparr>in_role := ar_role r\<rparr>
                    else let live = live_children bw s;
                             all_idle = list_all (\<lambda>c. bc_state (bw_cells bw c) = STATE_IDLE) live
                         in \<lparr>in_target = Some boss, in_role = ar_role r, in_is_last = (all_idle \<and> 0 < length live),
                             in_live_subordinates = length live\<rparr>)))"

text \<open>The mark and the snapshot are one step, under the lock of the registry.\<close>

definition mark_and_snapshot ::
  "string \<Rightarrow> u64 \<Rightarrow> instant \<Rightarrow> u8 \<Rightarrow> parked_reason option \<Rightarrow> transient_retry_info option \<Rightarrow> bridge_world
     \<Rightarrow> idle_notice \<times> bridge_world" where
  "mark_and_snapshot a epoch now s reason retry bw =
     (let bw' = on_cells a (\<lambda>c. c\<lparr>bc_activity := [], bc_parked := map_option (\<lambda>r. (r, now)) reason, bc_retrying := retry\<rparr>)
            (transition_and_invalidate a epoch s bw)
      in (snapshot_from a bw', bw'))"

definition deliver_idle_notice :: "string \<Rightarrow> string \<Rightarrow> string \<Rightarrow> idle_notice \<Rightarrow> bridge_world \<Rightarrow> bridge_world" where
  "deliver_idle_notice a tag detail notice bw =
     (case in_target notice of
        None \<Rightarrow> bw
      | Some target \<Rightarrow>
          let role = (if in_role notice = [] then [] else '' (role: '' @ in_role notice @ '')'');
              body = ''['' @ tag @ ''] Subordinate agent '' @ a @ role @ '' '' @ detail;
              last = (if in_is_last notice
                      then '' It is the last to go idle '' @ em_dash @ '' all '' @ show_nat (in_live_subordinates notice)
                        @ '' live subordinates of the superior are now idle.'' else [])
          in deliver_to_superior target a (body @ last) bw)"

section \<open>The state after an event\<close>

text \<open>What a terminal event leaves: the state, the reason of a park, the retry that was armed. A chain exhausted with no
  retry armed is told apart by the last armed one.\<close>

fun triage :: "transient_retry_info option \<Rightarrow> agent_event \<Rightarrow> u8 \<times> parked_reason option \<times> transient_retry_info option" where
  "triage cell (WaitingEvent _) = (STATE_WAITING, None, None)"
| "triage cell (BudgetExceededEvent _ _) = (STATE_WAITING, None, None)"
| "triage cell (ErrorEvent m) = (STATE_PARKED, Some (ParkedFatal m), None)"
| "triage cell MaxRoundsEvent = (STATE_PARKED, Some ParkedMaxRounds, None)"
| "triage cell (ChainExhaustedEvent reason detail (Some info)) = (STATE_RETRYING, None, Some info)"
| "triage cell (ChainExhaustedEvent reason detail None) =
     (let spent = (case cell of Some info \<Rightarrow> ti_max_attempts info \<le> ti_attempt info | None \<Rightarrow> False)
      in (STATE_PARKED, Some (if spent then ParkedRetriesExhausted else ParkedChainExhausted reason detail), None))"
| "triage cell (QuotaBlockedEvent info) = (STATE_PARKED, Some (ParkedQuota info), None)"
| "triage cell _ = (STATE_IDLE, None, None)"

fun superior_notice :: "agent_event \<Rightarrow> (string \<times> string) option" where
  "superior_notice (ErrorEvent m) = Some (''Subagent Error'', ''hit a fatal error and parked: '' @ m)"
| "superior_notice (ChainExhaustedEvent reason detail (Some _)) = None"
| "superior_notice (ChainExhaustedEvent reason detail None) =
     Some (''Subagent Error'', ''exhausted its model failover chain and parked ('' @ exhaustion_text reason @ '': '' @ detail @ '')'')"
| "superior_notice IdleEvent = Some (''Subagent Idle'', ''is now idle.'')"
| "superior_notice (WaitingEvent secs) = Some (''Subagent Waiting'', ''is waiting (timer '' @ show_nat (unat secs) @ ''s).'')"
| "superior_notice MaxRoundsEvent = Some (''Subagent Error'', ''hit the per-request tool-round limit and parked.'')"
| "superior_notice _ = None"

text \<open>What one event reads: the clock of the mark, and the instant of a park.\<close>

record bridge_env =
  be_epoch :: u64
  be_now :: instant

definition is_overlay :: "agent_event \<Rightarrow> bool" where
  "is_overlay e = (case e of RetryEvent _ \<Rightarrow> True | StreamReset _ _ _ _ \<Rightarrow> True | _ \<Rightarrow> False)"

text \<open>The state dispatch: the notice that is due after the broadcast, and the world.\<close>

definition dispatch_state ::
  "bridge_env \<Rightarrow> string \<Rightarrow> agent_event \<Rightarrow> bridge_world \<Rightarrow> (string \<times> string \<times> idle_notice) option \<times> bridge_world" where
  "dispatch_state be a e bw =
     (if e = BusyEvent
      then (None, on_cells a (\<lambda>c. c\<lparr>bc_parked := None\<rparr>) (transition_and_invalidate a (be_epoch be) STATE_BUSY bw))
      else if is_overlay e then (None, transition_and_invalidate a (be_epoch be) STATE_RETRYING bw)
      else if is_terminal e
        then let (s, reason, retry) = triage (bc_retrying (bw_cells bw a)) e;
                 (notice, bw') = mark_and_snapshot a (be_epoch be) (be_now be) s reason retry bw
             in (map_option (\<lambda>(tag, detail). (tag, detail, notice)) (superior_notice e), bw')
      else (None, on_cells a (\<lambda>c. c\<lparr>bc_parked := None\<rparr>)
             (if bc_state (bw_cells bw a) = STATE_RETRYING then transition_and_invalidate a (be_epoch be) STATE_BUSY bw else bw)))"

definition bridge_event ::
  "(json \<Rightarrow> string) \<Rightarrow> bridge_env \<Rightarrow> string \<Rightarrow> agent_event \<Rightarrow> bridge_world \<Rightarrow> bridge_world" where
  "bridge_event show_args be a e bw =
     (case e of
        ApprovalCommittedEvent info args \<Rightarrow>
          broadcast a (SseApprovalUpdated (ci_id info) approval_status.Committed) (route_to_superior show_args a info args bw)
      | _ \<Rightarrow>
          let (deferred, bw1) = dispatch_state be a e bw;
              bw2 = (case convert_event e of Some sse \<Rightarrow> broadcast a sse bw1 | None \<Rightarrow> bw1)
          in case deferred of None \<Rightarrow> bw2 | Some (tag, detail, notice) \<Rightarrow> deliver_idle_notice a tag detail notice bw2)"

fun bridge_events ::
  "(json \<Rightarrow> string) \<Rightarrow> string \<Rightarrow> (bridge_env \<times> agent_event) list \<Rightarrow> bridge_world \<Rightarrow> bridge_world" where
  "bridge_events show_args a [] bw = bw"
| "bridge_events show_args a ((be, e) # es) bw = bridge_events show_args a es (bridge_event show_args be a e bw)"

text \<open>How a bridge ends: the task is gone, or the tagma shuts down and what is queued is still told.\<close>

datatype bridge_end = ChannelClosed | ForcedShutdown "agent_event list"

definition bridge_task ::
  "(json \<Rightarrow> string) \<Rightarrow> string \<Rightarrow> (bridge_env \<times> agent_event) list \<Rightarrow> u64 \<Rightarrow> bridge_end \<Rightarrow> bridge_world \<Rightarrow> bridge_world" where
  "bridge_task show_args a es epoch fin bw =
     (let bw1 = mark_idle a epoch (bridge_events show_args a es bw)
      in case fin of
           ChannelClosed \<Rightarrow> bw1
         | ForcedShutdown queued \<Rightarrow> fold (broadcast a) (List.map_filter convert_event queued) bw1)"

end
