(* ===== verification/Bridge_Props.thy ===== *)
theory Bridge_Props
  imports Bridge
begin

text \<open>
  What the bridge shows of an agent: after a wake its cells are the state the task settled in, while a turn is
  open they say so, and of the subagents that end their turns one alone is told to be the last.
\<close>

section \<open>Cells after an event\<close>

lemma cells_simps [simp]:
  "bw_cells (on_cells a f bw) = (bw_cells bw)(a := f (bw_cells bw a))"
  "bw_cells (transition_and_invalidate a n s bw) = (bw_cells bw)(a := (bw_cells bw a)\<lparr>bc_state := s, bc_since := n\<rparr>)"
  "bw_cells (broadcast b e bw) = bw_cells bw" "bw_registry (on_cells a f bw) = bw_registry bw"
  "bw_registry (transition_and_invalidate a n s bw) = bw_registry bw"
  by (simp_all add: on_cells_def transition_and_invalidate_def broadcast_def)

lemma deliver_cells [simp]: "bw_cells (deliver_to_superior t a body bw) = bw_cells bw"
  by (simp add: deliver_to_superior_def Let_def split: option.split)

lemma notice_cells [simp]: "bw_cells (deliver_idle_notice a tag detail n bw) = bw_cells bw"
  by (simp add: deliver_idle_notice_def Let_def split: option.split)

lemma route_cells [simp]: "bw_cells (route_to_superior show_args a info args bw) = bw_cells bw"
  by (simp add: route_to_superior_def split: option.split)

lemma event_effect:
  assumes "\<not> (\<exists>info args. e = ApprovalCommittedEvent info args)" and d: "dispatch_state be a e bw = (d, bw1)"
  shows "bridge_event show_args be a e bw =
    (let bw2 = (case convert_event e of Some sse \<Rightarrow> broadcast a sse bw1 | None \<Rightarrow> bw1)
     in case d of None \<Rightarrow> bw2 | Some (tag, detail, notice) \<Rightarrow> deliver_idle_notice a tag detail notice bw2)"
proof -
  have "bridge_event show_args be a e bw =
      (let (deferred, bw1) = dispatch_state be a e bw;
           bw2 = (case convert_event e of Some sse \<Rightarrow> broadcast a sse bw1 | None \<Rightarrow> bw1)
       in case deferred of None \<Rightarrow> bw2 | Some (tag, detail, notice) \<Rightarrow> deliver_idle_notice a tag detail notice bw2)"
    unfolding bridge_event_def using assms(1) by (simp only: split: agent_event.split) blast
  then show ?thesis by (simp add: d)
qed

lemma event_cells:
  "bw_cells (bridge_event show_args be a e bw) =
     (if \<exists>info args. e = ApprovalCommittedEvent info args then bw_cells bw else bw_cells (snd (dispatch_state be a e bw)))"
proof (cases "\<exists>info args. e = ApprovalCommittedEvent info args")
  case True
  then show ?thesis by (auto simp: bridge_event_def)
next
  case False
  obtain d bw1 where d: "dispatch_state be a e bw = (d, bw1)" by (cases "dispatch_state be a e bw")
  have "bw_cells (case convert_event e of Some sse \<Rightarrow> broadcast a sse bw1 | None \<Rightarrow> bw1) = bw_cells bw1"
    by (simp split: option.split)
  then show ?thesis using False d event_effect [OF False d] by (auto simp: Let_def split: option.split)
qed

text \<open>An event of a turn that goes on leaves the armed retry; a terminal one leaves what the triage says.\<close>

lemma ongoing_cells:
  assumes "\<not> is_terminal e"
  shows "bc_retrying (bw_cells (bridge_event show_args be a e bw) a) = bc_retrying (bw_cells bw a)"
  using assms by (auto simp: event_cells dispatch_state_def)

lemma terminal_cells:
  assumes "is_terminal e" and "triage (bc_retrying (bw_cells bw a)) e = (s, reason, retry)"
  shows "bw_cells (bridge_event show_args be a e bw) a =
    \<lparr>bc_state = s, bc_since = be_epoch be, bc_activity = [], bc_parked = map_option (\<lambda>r. (r, be_now be)) reason, bc_retrying = retry\<rparr>"
proof -
  have plain: "\<not> (\<exists>info args. e = ApprovalCommittedEvent info args)" "e \<noteq> BusyEvent" "\<not> is_overlay e"
    using assms(1) by (cases e; simp add: is_overlay_def)+
  have "bw_cells (snd (dispatch_state be a e bw)) a = \<lparr>bc_state = s, bc_since = be_epoch be, bc_activity = [],
      bc_parked = map_option (\<lambda>r. (r, be_now be)) reason, bc_retrying = retry\<rparr>"
    using plain assms by (simp add: dispatch_state_def mark_and_snapshot_def Let_def)
  then show ?thesis using plain by (simp add: event_cells)
qed

lemma events_append: "bridge_events show_args a (es @ fs) bw = bridge_events show_args a fs (bridge_events show_args a es bw)"
  by (induction es arbitrary: bw) auto

lemma ongoing_events_cells:
  assumes "\<forall>e \<in> set es. \<not> is_terminal (snd e)"
  shows "bc_retrying (bw_cells (bridge_events show_args a es bw) a) = bc_retrying (bw_cells bw a)"
  using assms by (induction es arbitrary: bw) (auto simp: ongoing_cells)

section \<open>The mirror\<close>

text \<open>The last armed retry was the last allowed one.\<close>

definition spent_retry :: "transient_retry_info option \<Rightarrow> bool" where
  "spent_retry cell \<longleftrightarrow> (case cell of Some info \<Rightarrow> ti_max_attempts info \<le> ti_attempt info | None \<Rightarrow> False)"

text \<open>What the cells say of a state; a task whose lifecycle is over is shown idle.\<close>

fun mirrors :: "transient_retry_info option \<Rightarrow> lifecycle_state \<Rightarrow> bridge_cells \<Rightarrow> bool" where
  "mirrors cell (LifeWaiting _) c = (bc_state c = STATE_WAITING \<and> bc_parked c = None \<and> bc_retrying c = None)"
| "mirrors cell (LifeRetrying a m _) c = (bc_state c = STATE_RETRYING \<and> bc_parked c = None
     \<and> (case bc_retrying c of Some info \<Rightarrow> ti_attempt info = a \<and> ti_max_attempts info = m | None \<Rightarrow> False))"
| "mirrors cell (LifeParked r _) c = (bc_state c = STATE_PARKED \<and> bc_retrying c = None
     \<and> (case bc_parked c of
          Some (r', _) \<Rightarrow> if r = ParkedRetriesExhausted \<and> \<not> spent_retry cell
                          then (case r' of ParkedChainExhausted _ _ \<Rightarrow> True | _ \<Rightarrow> False) else r' = r
        | None \<Rightarrow> False))"
| "mirrors cell _ c = (bc_state c = STATE_IDLE \<and> bc_parked c = None \<and> bc_retrying c = None)"

lemma triage_mirrors:
  assumes "is_terminal t" and "tells t s" and "triage cell t = (st, reason, retry)"
    and "c = \<lparr>bc_state = st, bc_since = n, bc_activity = [], bc_parked = map_option (\<lambda>r. (r, i)) reason, bc_retrying = retry\<rparr>"
  shows "mirrors cell s c"
proof (cases t)
  case (ChainExhaustedEvent reason' detail retry')
  show ?thesis
  proof (cases retry')
    case None
    then show ?thesis using assms ChainExhaustedEvent
      by (cases s) (auto simp: Let_def spent_retry_def split: option.splits if_splits)
  next
    case (Some info)
    then show ?thesis using assms ChainExhaustedEvent by (cases s) auto
  qed
qed (use assms in \<open>cases s; auto\<close>)+

text \<open>C5. What the tagma shows of an agent after a wake is the state its task settled in: once the bridge has gone through the
  events of the run, the state byte, the reason of a park and the armed retry are those of the lifecycle; a chain
  exhausted with no retry armed is shown as spent retries exactly when the last armed retry was the last
  allowed.\<close>

theorem mirror_follows_wake:
  "case run_and_report lk we origin tk of
     Some (Ended d tk') \<Rightarrow>
       mirrors (bc_retrying (bw_cells bw a)) (tk_life tk')
         (bw_cells (bridge_events show_args a
           (map (\<lambda>(i, e). (be i, e)) (enumerate 0 (drop (length (ag_events (task_agent tk))) (ag_events (task_agent tk'))))) bw) a)
   | _ \<Rightarrow> True"
proof -
  have ended: "mirrors (bc_retrying (bw_cells bw a)) (tk_life tk')
         (bw_cells (bridge_events show_args a
           (map (\<lambda>(i, e). (be i, e)) (enumerate 0 (drop (length (ag_events (task_agent tk))) (ag_events (task_agent tk'))))) bw) a)"
    if "run_and_report lk we origin tk = Some (Ended d tk')" for d tk'
  proof -
    from run_woken [OF that] obtain es t where es: "ag_events (task_agent tk') = ag_events (task_agent tk) @ es @ [t]"
      "ongoing es" "is_terminal t" "tells t (tk_life tk')"
      by (auto simp: woken_def reported_def)
    let ?es = "map (\<lambda>(i, e). (be i, e)) (enumerate 0 es)" and ?t = "(be (length es), t)"
    have split: "map (\<lambda>(i, e). (be i, e)) (enumerate 0 (es @ [t])) = ?es @ [?t]" by (simp add: enumerate_append_eq)
    let ?bw = "bridge_events show_args a ?es bw"
    have ongoing: "\<forall>e \<in> set ?es. \<not> is_terminal (snd e)"
      using es(2) by (auto simp: enumerate_eq_zip dest: set_zip_rightD)
    have cell: "bc_retrying (bw_cells ?bw a) = bc_retrying (bw_cells bw a)" by (rule ongoing_events_cells [OF ongoing])
    obtain st reason retry where tri: "triage (bc_retrying (bw_cells ?bw a)) t = (st, reason, retry)"
      by (cases "triage (bc_retrying (bw_cells ?bw a)) t")
    from triage_mirrors [OF es(3,4) tri terminal_cells [OF es(3) tri]] cell
    show ?thesis by (simp add: es(1) split events_append)
  qed
  show ?thesis
  proof (cases "run_and_report lk we origin tk" rule: wake_result_cases)
    case (awake tk')
    then show ?thesis using ended [of Awake tk'] by simp
  next
    case (held tk')
    then show ?thesis using ended [of Held tk'] by simp
  next
    case (terminated tk')
    then show ?thesis using ended [of Terminated tk'] by simp
  qed simp_all
qed

section \<open>The last to go idle\<close>

text \<open>Subagents that end their turns idle, in the order the lock of the registry gives them.\<close>

fun idle_marks :: "u64 \<Rightarrow> instant \<Rightarrow> string list \<Rightarrow> bridge_world \<Rightarrow> idle_notice list" where
  "idle_marks epoch now [] bw = []"
| "idle_marks epoch now (a # as) bw =
     (let (n, bw') = mark_and_snapshot a epoch now STATE_IDLE None None bw in n # idle_marks epoch now as bw')"

lemma idle_marks_last:
  assumes "map_of (bw_registry bw) boss = Some s" "ar_live s"
    and "\<And>c. c \<in> set order \<Longrightarrow> \<exists>r. map_of (bw_registry bw) c = Some r \<and> ar_created_by r = Some boss"
    and "distinct order" "set order \<subseteq> set (live_children bw s)" "live_children bw s \<noteq> []"
    and "\<And>c. c \<in> set (live_children bw s) \<Longrightarrow> (bc_state (bw_cells bw c) = STATE_IDLE) = (c \<notin> set order)"
  shows "map in_is_last (idle_marks epoch now order bw) = map (\<lambda>i. Suc i = length order) [0..<length order]
    \<and> (\<forall>n \<in> set (idle_marks epoch now order bw). in_target n = Some boss \<and> in_live_subordinates n = length (live_children bw s))"
  using assms
proof (induction order arbitrary: bw)
  case (Cons a order)
  obtain n bw' where step: "mark_and_snapshot a epoch now STATE_IDLE None None bw = (n, bw')"
    by (cases "mark_and_snapshot a epoch now STATE_IDLE None None bw")
  then have reg: "bw_registry bw' = bw_registry bw" and n: "n = snapshot_from a bw'"
    and cells: "bc_state (bw_cells bw' c) = (if c = a then STATE_IDLE else bc_state (bw_cells bw c))" for c
    by (auto simp: mark_and_snapshot_def Let_def)
  have live: "live_children bw' s = live_children bw s" by (simp add: live_children_def reg)
  have idle: "(bc_state (bw_cells bw' c) = STATE_IDLE) = (c \<notin> set order)" if "c \<in> set (live_children bw s)" for c
    using Cons.prems(4) Cons.prems(7) [OF that] by (auto simp: cells)
  have ih: "map in_is_last (idle_marks epoch now order bw') = map (\<lambda>i. Suc i = length order) [0..<length order]
    \<and> (\<forall>n \<in> set (idle_marks epoch now order bw'). in_target n = Some boss \<and> in_live_subordinates n = length (live_children bw s))"
    using Cons.IH [of bw'] Cons.prems idle by (simp add: reg live)
  obtain r where r: "map_of (bw_registry bw) a = Some r" "ar_created_by r = Some boss" using Cons.prems(3) [of a] by auto
  have "list_all (\<lambda>c. bc_state (bw_cells bw' c) = STATE_IDLE) (live_children bw s) \<longleftrightarrow> order = []"
  proof -
    have "(\<forall>c \<in> set (live_children bw s). c \<notin> set order) \<longleftrightarrow> order = []" using Cons.prems(5) by (cases order) auto
    then show ?thesis using idle by (simp add: list_all_iff)
  qed
  then have last: "in_is_last n = (order = [])" "in_target n = Some boss" "in_live_subordinates n = length (live_children bw s)"
    using Cons.prems(1,2,6) r by (simp_all add: n snapshot_from_def reg live Let_def)
  have "map (\<lambda>i. Suc i = length (a # order)) [0..<length (a # order)] = (order = []) # map (\<lambda>i. Suc i = length order) [0..<length order]"
    by (simp add: upt_conv_Cons map_Suc_upt [symmetric] del: upt_Suc map_Suc_upt)
  then show ?case using ih last step by simp
qed simp

text \<open>C36. Of the subagents of a live superior that end their turns idle, in whatever order, the last one alone is announced
  as the last to go idle, and each notice goes to the superior with the count of its live
  subordinates.\<close>

theorem one_last_to_go_idle:
  assumes "map_of (bw_registry bw) boss = Some s" "ar_live s" "live_children bw s \<noteq> []"
    and "\<And>c. c \<in> set order \<Longrightarrow> \<exists>r. map_of (bw_registry bw) c = Some r \<and> ar_created_by r = Some boss"
    and "distinct order" "set order = set (live_children bw s)"
    and "\<And>c. c \<in> set order \<Longrightarrow> bc_state (bw_cells bw c) \<noteq> STATE_IDLE"
  shows "map in_is_last (idle_marks epoch now order bw) = map (\<lambda>i. Suc i = length order) [0..<length order]
    \<and> (\<forall>n \<in> set (idle_marks epoch now order bw). in_target n = Some boss \<and> in_live_subordinates n = length (live_children bw s))"
  by (rule idle_marks_last [OF assms(1,2,4,5) _ assms(3)]) (use assms(6,7) in auto)

definition demo_family :: bridge_world where
  "demo_family = \<lparr>bw_cells = (\<lambda>_. \<lparr>bc_state = STATE_BUSY, bc_since = 0, bc_activity = [], bc_parked = None, bc_retrying = None\<rparr>),
     bw_registry = [(''boss'', \<lparr>ar_role = [], ar_created_by = None, ar_live = True, ar_subagents = [''a'', ''b'', ''c'']\<rparr>),
       (''a'', \<lparr>ar_role = ''dev'', ar_created_by = Some ''boss'', ar_live = True, ar_subagents = []\<rparr>),
       (''b'', \<lparr>ar_role = [], ar_created_by = Some ''boss'', ar_live = False, ar_subagents = []\<rparr>),
       (''c'', \<lparr>ar_role = [], ar_created_by = Some ''boss'', ar_live = True, ar_subagents = []\<rparr>)],
     bw_generation = 0, bw_sse = [], bw_inbox = Some [], bw_notified = [], bw_duty = \<lparr>du_map = [], du_generation = 0\<rparr>\<rparr>"

theorem one_last_to_go_idle_witness:
  "map in_is_last (idle_marks 0 0 [''c'', ''a''] demo_family) = [False, True]"
proof -
  obtain s where boss: "map_of (bw_registry demo_family) ''boss'' = Some s" "ar_live s" "live_children demo_family s = [''a'', ''c'']"
    by (simp add: demo_family_def live_children_def)
  have "map in_is_last (idle_marks 0 0 [''c'', ''a''] demo_family) = map (\<lambda>i. Suc i = length [''c'', ''a'']) [0..<length [''c'', ''a'']]"
  proof (rule conjunct1 [OF one_last_to_go_idle [OF boss(1,2)]])
    show "live_children demo_family s \<noteq> []" "set [''c'', ''a''] = set (live_children demo_family s)" by (auto simp: boss(3))
    show "\<exists>r. map_of (bw_registry demo_family) c = Some r \<and> ar_created_by r = Some ''boss''" if "c \<in> set [''c'', ''a'']" for c
      using that by (auto simp: demo_family_def)
    show "bc_state (bw_cells demo_family c) \<noteq> STATE_IDLE" if "c \<in> set [''c'', ''a'']" for c
      by (simp add: demo_family_def state_defs)
  qed simp
  then show ?thesis by (simp add: upt_conv_Cons)
qed

section \<open>Who is woken\<close>

text \<open>C38. A superior that is off duty is never woken by its subagents: whatever a bridge hears, every agent it notified was
  on duty, and the duty of no agent changes.\<close>

theorem off_duty_superior_not_woken:
  "bw_duty (bridge_events show_args a es bw) = bw_duty bw
    \<and> (\<exists>new. bw_notified (bridge_events show_args a es bw) = bw_notified bw @ new
        \<and> list_all (\<lambda>t. \<not> is_off_duty t (bw_duty bw)) new)"
proof (induction es arbitrary: bw)
  case (Cons be_e es)
  obtain be e where be: "be_e = (be, e)" by (cases be_e)
  have frame: "bw_duty (on_cells b f v) = bw_duty v" "bw_notified (on_cells b f v) = bw_notified v"
    "bw_duty (transition_and_invalidate b n st v) = bw_duty v" "bw_notified (transition_and_invalidate b n st v) = bw_notified v"
    "bw_duty (broadcast b x v) = bw_duty v" "bw_notified (broadcast b x v) = bw_notified v" for b f v n st x
    by (simp_all add: on_cells_def transition_and_invalidate_def broadcast_def)
  define ok where "ok = (\<lambda>(v :: bridge_world) (w :: bridge_world). bw_duty w = bw_duty v \<and> (\<exists>new. bw_notified w = bw_notified v @ new
      \<and> list_all (\<lambda>t. \<not> is_off_duty t (bw_duty v)) new))"
  have deliver: "ok v (deliver_to_superior t b body v)" for t b body and v :: bridge_world
    by (auto simp: ok_def deliver_to_superior_def Let_def is_off_duty_def split: option.split)
  have same: "ok v w" if "bw_duty w = bw_duty v" "bw_notified w = bw_notified v" for v w :: bridge_world
    using that by (simp add: ok_def)
  have trans: "ok u w" if "ok u v" "ok v w" for u v w
    using that unfolding ok_def by (metis append.assoc list_all_append)
  have notice: "ok v (deliver_idle_notice b tag detail n v)" for b tag detail n and v :: bridge_world
    using deliver same by (auto simp: deliver_idle_notice_def Let_def split: option.split)
  have route: "ok v (route_to_superior show_args b info args v)" for b info args and v :: bridge_world
    using deliver same by (auto simp: route_to_superior_def split: option.split)
  obtain d bw1 where d: "dispatch_state be a e bw = (d, bw1)" by (cases "dispatch_state be a e bw")
  have dispatch: "ok bw bw1"
    using d by (intro same) (auto simp: dispatch_state_def mark_and_snapshot_def frame Let_def split: if_splits prod.splits)
  have sse: "ok bw1 (case convert_event e of Some sse \<Rightarrow> broadcast a sse bw1 | None \<Rightarrow> bw1)"
    by (intro same) (simp_all add: frame split: option.split)
  have "ok bw (bridge_event show_args be a e bw)"
  proof (cases "\<exists>info args. e = ApprovalCommittedEvent info args")
    case True
    then obtain info args where "e = ApprovalCommittedEvent info args" by blast
    then have "bridge_event show_args be a e bw
        = broadcast a (SseApprovalUpdated (ci_id info) approval_status.Committed) (route_to_superior show_args a info args bw)"
      by (simp add: bridge_event_def)
    then show ?thesis using route trans same frame by metis
  next
    case False
    let ?bw2 = "case convert_event e of Some sse \<Rightarrow> broadcast a sse bw1 | None \<Rightarrow> bw1"
    have to2: "ok bw ?bw2" by (rule trans [OF dispatch sse])
    show ?thesis
    proof (cases d)
      case None
      then have "bridge_event show_args be a e bw = ?bw2" using event_effect [OF False d] by (simp add: Let_def)
      then show ?thesis using to2 by simp
    next
      case (Some x)
      then have "bridge_event show_args be a e bw = deliver_idle_notice a (fst x) (fst (snd x)) (snd (snd x)) ?bw2"
        using event_effect [OF False d] by (simp add: Let_def case_prod_unfold)
      then show ?thesis using trans [OF to2 notice] by simp
    qed
  qed
  moreover have "ok (bridge_event show_args be a e bw) (bridge_events show_args a es (bridge_event show_args be a e bw))"
    using Cons.IH by (simp add: ok_def)
  ultimately have "ok bw (bridge_events show_args a (be_e # es) bw)" using trans by (simp add: be)
  then show ?case by (simp add: ok_def)
qed simp

end
