(* ===== verification/Spec2Isabelle.thy ===== *)
theory Spec2Isabelle
  imports Prelude Text Token_Budget Approval Facts Pacing_Table Llm_Error Retry_Classify
    Retry_Decision Retry_Shell Agent_Config Failover Dir_Lock Keep_Window Context_Store
    Context_Window Text_Slice Json Shell_Ast Exec_Policy Shell_Catalog Policy_Walker Policy_Props
    Exec_Hooks Tool_Executor Tool_Rounds History Restore Restore_Props Agent_Event Agent_State
    Compaction_Ledger Compaction Acquisition Turn_Frame Round_Loop Lifecycle Agent_Task Task_Props
    Work_Spec Work_Props Duty_Engine Duty_Props Schedule_Routes Bridge Bridge_Props
begin

text \<open>
  Verification development of kallipai, a runtime for long-lived language-model agents. It models
  the runtime library of an agent (\<open>src/crates/kallipai-adk\<close>), the types it shares with the rest
  (\<open>src/crates/kallipai-common\<close>) and, of the server that hosts the agents (\<open>src/crates/kallipai-tagma\<close>), the
  pacing table, the work schedule with its engine, and the bridge that shows an agent's state. Paths below are under \<open>kallipai-adk/src\<close> unless they say otherwise.

  \<^bold>\<open>The program.\<close> An agent works in rounds. A round composes a request from the context store, sends
  it with retries to the current profile of a failover chain, and runs the tool calls of the answer
  through the policy executor; the turn goes to the context store and to the history log, and the
  store's documents are persisted. A message takes this way through the parts:

  \<^item> \<open>Context_Store\<close>, \<open>Context_Window\<close>, \<open>Keep_Window\<close>: what the model sees (\<open>context/\<close>);
  \<^item> \<open>Retry_Shell\<close> over \<open>Retry_Decision\<close> and \<open>Retry_Classify\<close>: one episode of sends (\<open>retry.rs\<close>,
    \<open>retry/decision.rs\<close>), which reads and writes the facts of \<open>Facts\<close> through the pacing table of
    \<open>Pacing_Table\<close>;
  \<^item> \<open>Agent_State\<close> with \<open>Agent_Event\<close>: what one agent carries and reports (\<open>agent_task.rs\<close>, \<open>event.rs\<close>,
    \<open>acquisition/facts.rs\<close>), with the budgets of \<open>Agent_Config\<close>;
  \<^item> \<open>Acquisition\<close> over \<open>Failover\<close>: from a request to a consumed response, over failed sends, dropped
    streams and the profiles of the chain (\<open>acquisition/\<close>, \<open>stream_accumulator.rs\<close>);
  \<^item> \<open>Compaction\<close> with \<open>Compaction_Ledger\<close>: the summarizer passes, their failures and the budget gates
    of a round (\<open>context/compact.rs\<close>, \<open>context/summarize.rs\<close>, \<open>budget_gate.rs\<close>);
  \<^item> \<open>Round_Loop\<close>: the rounds of one run (\<open>runner.rs\<close>), which calls all of the above and \<open>Tool_Rounds\<close>;
  \<^item> \<open>Lifecycle\<close>, \<open>Agent_Task\<close>: the wakes of an agent, their reports and parks, and the loop of the task
    (\<open>lifecycle.rs\<close>, \<open>agent_task.rs\<close>);
  \<^item> \<open>Tool_Rounds\<close> over \<open>Tool_Executor\<close>: the tool calls (\<open>tool_execution.rs\<close>,
    \<open>policy/executor.rs\<close>), which asks \<open>Exec_Hooks\<close> and the classifier (\<open>Shell_Ast\<close>,
    \<open>Exec_Policy\<close>, \<open>Shell_Catalog\<close>, \<open>Policy_Walker\<close>) for a decision and keeps deferred calls in
    \<open>Approval\<close>; results pass the cap of \<open>Text_Slice\<close>;
  \<^item> \<open>History\<close>, \<open>Restore\<close>, \<open>Restore_Props\<close>: the log, the documents, restore and repair
    (\<open>history.rs\<close>, \<open>persistence/\<close>);
  \<^item> \<open>Token_Budget\<close> and \<open>Dir_Lock\<close>: what agents share (\<open>token_budget.rs\<close>, \<open>dirlock.rs\<close>);
  \<^item> \<open>Work_Spec\<close> and \<open>Work_Props\<close>: the work schedule and its evaluator (\<open>kallipai-tagma/src/work_schedule/spec.rs\<close>,
    \<open>eval.rs\<close>); \<open>Schedule_Routes\<close>: its store and routes (\<open>work_schedule/store.rs\<close>, \<open>work_schedule.rs\<close>);
    \<open>Duty_Engine\<close> and \<open>Duty_Props\<close>: the engine that sends the root agent on and off duty by it (\<open>engine.rs\<close>, \<open>duty.rs\<close>);
  \<^item> \<open>Bridge\<close> and \<open>Bridge_Props\<close>: from the events a task emits to the state the server shows, the events its
    subscribers see and the notices to a superior, who is woken only on duty (\<open>kallipai-tagma/src/bridge.rs\<close>).

  \<^bold>\<open>State.\<close> A Rust struct is a record with the struct's fields, in their order; an enum is a datatype;
  an operation behind \<open>&mut self\<close> returns the new record next to its result; a \<open>Result\<close> is a sum or
  an optional error. Integers that can overflow are words, counters that cannot are naturals, and
  durations are nanoseconds that saturate where the code saturates (\<open>Prelude\<close>). A string is its
  bytes, and \<open>Text\<close> holds the character boundaries, trimming and number printing the code uses. A
  lock is not part of a model: each operation is what runs while it is held, and a run is a sequence
  of operations in any order, which covers the interleavings the lock allows.

  \<^bold>\<open>Parameters.\<close> What the code calls outside \<open>src/\<close> is an argument: the shell parser (an oracle from
  text to a tree or an error), the JSON parser and printer of a reply, the tokenizer, the client
  library's errors (a view with the fields the code reads), path canonicalisation, the clock, random
  jitter and the answers of providers and tools. What a whole round reads is one \<open>round_input\<close> (its
  clocks, the prompts that wait, the answers of the summarizer, the sends, the streams and the tools), what
  a wake reads is one \<open>wake_env\<close> with a \<open>report_env\<close> for each run of the rounds, and what can happen to
  a task is a \<open>task_input\<close>; a function that has used up its inputs has no result (\<open>None\<close>), and the
  liveness and termination properties say how many inputs are enough. The functions of an agent that
  come from outside (estimates, renderings, parsers) are the records \<open>agent_kit\<close> and \<open>loop_kit\<close>. The laws some properties need of a parameter are
  hypotheses of these properties, each with a witness on a concrete function.

  \<^bold>\<open>Lemma groups.\<close> Each component proves that its operations keep its invariant and instantiates the
  locale \<open>invariant_machine\<close> of \<open>Prelude\<close> with it, so that what holds after every run is one fact of
  the interpretation (\<open>Approval\<close>, \<open>Dir_Lock\<close>, \<open>Context_Store\<close>, \<open>Agent_Config\<close>, \<open>Pacing_Table\<close>). The
  interpretation of \<open>Dir_Lock\<close> speaks of the requests and transfers that leave the exclusion of related paths intact;
  a transfer of the lock manager checks nothing but the ownership, so the property of the locks takes the transfers the server
  makes: a workspace handed to a child just created and given back (\<open>handoff_run\<close>). The
  locale \<open>profile_pacing\<close> is the contract between the retry loop and the shared table, and
  \<open>Pacing_Table\<close> discharges it; \<open>evictable\<close> is the contract between the keep window and the store.
  \<open>Policy_Walker\<close> reduces the walk over a parsed command to a severity that is the maximum over the
  nodes, so that each policy property is a statement about single nodes; \<open>Tool_Rounds\<close> has the serial
  run as the reference of the round; \<open>Round_Loop\<close> lists next to the code's functions the messages of every request an
  acquisition, its degraded resend and the rounds send (\<open>loop_requests\<close>), for the invariant of the paired turns; \<open>Turn_Frame\<close> says what any step of an agent may do to its events and turns, and is
  carried through compaction, failover, acquisition, the rounds and the task; \<open>Acquisition\<close> and \<open>Round_Loop\<close> bound how far
  a conversation grows, on which termination rests; \<open>Task_Props\<close> says what a report, a wake and a step of the
  task leave (\<open>reported\<close>, \<open>woken\<close>, \<open>rested\<close>); \<open>History\<close> characterises both readers by the newest record of a
  turn; \<open>Restore_Props\<close> lists the states the disk goes through during a write. The locale \<open>duty_evaluator\<close> is the contract
  between the evaluator of a schedule and the engine: an answer is right and stays right until the boundary it names;
  \<open>Work_Props\<close> discharges it against the windows of the schedule on every day (\<open>on_duty\<close>), and \<open>Duty_Props\<close> carries it
  through the transitions of a pass (\<open>tracks\<close>); the duty an operator sets by hand between passes lasts to the next
  boundary (\<open>overridden\<close>). \<open>Bridge_Props\<close> composes the events of a wake (\<open>reported\<close>) with the
  bridge: the cells it leaves are the state of the lifecycle.

  \<^bold>\<open>Bounds and fuel.\<close> Delegation (\<open>sh -c\<close>, \<open>eval\<close>, \<open>xargs\<close>) reparses text taken from a command. The
  classifier has no depth limit; the model counts down from the length of the command and
  \<open>classification_returns\<close> shows, for every parser whose words together are no longer than what they
  were parsed from, that this is enough. The retry loop runs over the list of the answers of the
  environment; \<open>stream_returns_within_budget\<close> shows that it returns once the list is as long as the
  sends left in the episode. A compaction takes at most one pass per turn of the conversation; an
  acquisition takes, for each profile of the chain, at most one turn more than its sends (\<open>turns_left\<close>); a round adds at
  most six turns to the conversation and a heartbeat two, and a wake runs the rounds at most once more than its heartbeat
  limit. The loop of the engine over the transitions that are due is a function with a measure
  (\<open>phase_rank\<close>): every boundary the evaluator names is ahead, so at most eight of them fire in a pass. All other
  loops are structural.

  \<^bold>\<open>Not modelled.\<close> The request a message list is built into, the response ids a stateful provider keeps, tool definitions
  and the spilled files; the persists inside a compaction and after a batch of retry records (those of a
  turn and of a cancelled task are modelled); the usage statistics per agent and the tracing output; the spawned sleeps of
  the timers, which are the inputs that fire them, and the timing of a round's cancellation, which is the
  reading of each step that can see it; storing and fetching image blobs; the scan of agent directories; the HTTP
  routes, the relay and the delivery of the server, the command line, the shell backend, the daemons and the platform
  services, which are I/O around these parts. A history line that a crash cuts off without its line end
  is a line that does not parse; that the next append would run into it is not modelled. Of the work schedule, instants past
  the last year of the time library, where adding to them panics, the opening and the migrations of its database, and what a
  delivered warning goes through (\<open>delivery.rs\<close>).
\<close>

end
